(* ===== verification/Oram_Prelude.thy ===== *)
theory Oram_Prelude
  imports Main "HOL-Library.Word"
begin

text \<open>
  What every part of the development shares: how a run of the C++ program can end, the
  sequencing of operations that may end it, the machine types, decimal printing and
  parsing, little-endian encodings and facts on lists used in several components.
\<close>

section \<open>Machine types\<close>

type_synonym u8 = "8 word"
type_synonym u32 = "32 word"
type_synonym u64 = "64 word"

text \<open>A \<open>std::string\<close> or buffer that holds binary data is a list of bytes; a
  \<open>std::string\<close> that holds text is a \<open>string\<close>.\<close>

type_synonym bytes = "u8 list"

section \<open>Runs that end early\<close>

text \<open>
  A statement of the program either returns a value or stops the process.
  \<open>Assert_Failed\<close> is a failing \<open>assert\<close> (the macro \<open>PANIC_IF\<close> of
  oram\_utils.h), \<open>Process_Exit\<close> a call of \<open>exit\<close> (the macro \<open>PANIC\<close>),
  \<open>Process_Abort\<close> a call of \<open>abort\<close>, \<open>Uncaught_Exception\<close> a thrown exception
  that nobody catches, \<open>Undefined_Behaviour\<close> a step the C++ standard leaves undefined
  (a read past the end of a vector, a division by zero, an invalid iterator) and
  \<open>Never_Returns\<close> a loop that goes on for ever.
\<close>

datatype stop = Assert_Failed | Process_Exit | Process_Abort | Uncaught_Exception
  | Undefined_Behaviour | Never_Returns

type_synonym 'a exec = "stop + 'a"

definition andThen :: "'a exec \<Rightarrow> ('a \<Rightarrow> 'b exec) \<Rightarrow> 'b exec" where
  "andThen m f = (case m of Inl e \<Rightarrow> Inl e | Inr x \<Rightarrow> f x)"

definition panic_if :: "bool \<Rightarrow> 'a exec \<Rightarrow> 'a exec" where
  "panic_if c m = (if c then Inl Assert_Failed else m)"

named_theorems exec_simps "how a run goes on"

lemma andThen_Inl [simp, exec_simps]: "andThen (Inl e) f = Inl e"
  by (simp add: andThen_def)

lemma andThen_Inr [simp, exec_simps]: "andThen (Inr x) f = f x"
  by (simp add: andThen_def)

lemma andThen_eq_Inr:
  "andThen m f = Inr y \<longleftrightarrow> (\<exists>x. m = Inr x \<and> f x = Inr y)"
  by (cases m) auto

lemma andThen_assoc: "andThen (andThen m f) g = andThen m (\<lambda>x. andThen (f x) g)"
  by (cases m) auto

lemma andThen_cong [fundef_cong]:
  assumes "m = m'" and "\<And>x. m' = Inr x \<Longrightarrow> f x = g x"
  shows "andThen m f = andThen m' g"
  using assms by (cases m') auto

lemma panic_if_False [simp, exec_simps]: "panic_if False m = m"
  by (simp add: panic_if_def)

lemma panic_if_True [simp, exec_simps]: "panic_if True m = Inl Assert_Failed"
  by (simp add: panic_if_def)

lemma panic_if_eq_Inr: "panic_if c m = Inr y \<longleftrightarrow> \<not> c \<and> m = Inr y"
  by (simp add: panic_if_def)

section \<open>Decimal numbers as text\<close>

text \<open>\<open>std::to_string\<close> and \<open>operator<<\<close> on an unsigned integer.\<close>

definition digit_char :: "nat \<Rightarrow> char" where
  "digit_char d = char_of (48 + d)"

fun to_string :: "nat \<Rightarrow> string" where
  "to_string n = (if n < 10 then [digit_char n]
     else to_string (n div 10) @ [digit_char (n mod 10)])"

declare to_string.simps [simp del]

text \<open>The value a run of decimal digits denotes, and the leading digits of a text.\<close>

definition is_digit :: "char \<Rightarrow> bool" where
  "is_digit c \<longleftrightarrow> 48 \<le> (of_char c :: nat) \<and> (of_char c :: nat) \<le> 57"

definition digit_val :: "char \<Rightarrow> nat" where
  "digit_val c = of_char c - 48"

definition digits_val :: "string \<Rightarrow> nat" where
  "digits_val cs = foldl (\<lambda>acc c. 10 * acc + digit_val c) 0 cs"

lemma of_char_digit: "d < 10 \<Longrightarrow> (of_char (digit_char d) :: nat) = 48 + d"
  by (simp add: digit_char_def)

lemma is_digit_digit_char: "d < 10 \<Longrightarrow> is_digit (digit_char d)"
  by (simp add: is_digit_def of_char_digit)

lemma digit_val_digit_char: "d < 10 \<Longrightarrow> digit_val (digit_char d) = d"
  by (simp add: digit_val_def of_char_digit)

lemma digits_val_snoc: "digits_val (cs @ [c]) = 10 * digits_val cs + digit_val c"
  by (simp add: digits_val_def)

lemma to_string_digits: "\<forall>c \<in> set (to_string n). is_digit c"
proof (induction n rule: to_string.induct)
  case (1 n)
  then show ?case
    by (subst to_string.simps) (auto simp: is_digit_digit_char)
qed

lemma to_string_nonempty: "to_string n \<noteq> []"
  by (subst to_string.simps) simp

lemma digits_val_to_string: "digits_val (to_string n) = n"
proof (induction n rule: to_string.induct)
  case (1 n)
  show ?case
  proof (cases "n < 10")
    case True
    then show ?thesis
      by (subst to_string.simps) (simp add: digits_val_def digit_val_digit_char)
  next
    case False
    with 1 have "digits_val (to_string (n div 10)) = n div 10" by simp
    with False show ?thesis
      by (subst to_string.simps) (simp add: digits_val_snoc digit_val_digit_char)
  qed
qed

section \<open>Little-endian words\<close>

definition le_bytes :: "nat \<Rightarrow> 'a::len word \<Rightarrow> bytes" where
  "le_bytes n w = map (\<lambda>i. ucast (drop_bit (8 * i) w)) [0..<n]"

fun le_word :: "bytes \<Rightarrow> 'a::len word" where
  "le_word [] = 0"
| "le_word (b # bs) = or (push_bit 8 (le_word bs)) (ucast b)"

lemma length_le_bytes [simp]: "length (le_bytes n w) = n"
  by (simp add: le_bytes_def)

lemma le_bytes_Suc:
  "le_bytes (Suc n) w = ucast w # le_bytes n (drop_bit 8 w)"
proof -
  have "[0..<Suc n] = 0 # map Suc [0..<n]" by (simp add: map_Suc_upt upt_conv_Cons)
  then show ?thesis
    by (simp del: upt_Suc add: le_bytes_def o_def add.commute)
qed

lemma le_word_le_bytes_take:
  "le_word (le_bytes n w) = take_bit (8 * n) w"
proof (induction n arbitrary: w)
  case 0
  then show ?case by (simp add: le_bytes_def)
next
  case (Suc n)
  show ?case
    unfolding le_bytes_Suc le_word.simps Suc.IH
    by (rule bit_word_eqI)
      (auto simp: bit_simps less_diff_conv2)
qed

lemma le_word_le_bytes:
  "LENGTH('a) \<le> 8 * n \<Longrightarrow> le_word (le_bytes n w) = (w :: 'a::len word)"
  by (simp add: le_word_le_bytes_take take_bit_word_eq_self)

lemma le_bytes_le_word:
  "length bs = n \<Longrightarrow> 8 * n \<le> LENGTH('a) \<Longrightarrow> le_bytes n (le_word bs :: 'a::len word) = bs"
proof (induction bs arbitrary: n)
  case Nil
  then show ?case by (simp add: le_bytes_def)
next
  case (Cons b bs)
  then obtain m where n: "n = Suc m" and m: "length bs = m" by auto
  let ?w = "le_word bs :: 'a word"
  have low: "ucast (or (push_bit 8 ?w) (ucast b)) = b"
    using Cons.prems n by (intro bit_word_eqI) (auto simp: bit_simps)
  have "le_bytes m (drop_bit 8 (or (push_bit 8 ?w) (ucast b))) = le_bytes m ?w"
  proof -
    have "drop_bit 8 (or (push_bit 8 ?w) (ucast b)) = take_bit (LENGTH('a) - 8) ?w"
      by (intro bit_word_eqI) (auto simp: bit_simps dest: bit_imp_le_length)
    moreover have "le_bytes m (take_bit (LENGTH('a) - 8) ?w) = le_bytes m ?w"
      using Cons.prems n
      by (auto simp: le_bytes_def intro!: bit_word_eqI) (auto simp: bit_simps)
    ultimately show ?thesis by simp
  qed
  also have "\<dots> = bs" using Cons.IH [of m] Cons.prems n m by simp
  finally show ?case using low by (simp add: n le_bytes_Suc)
qed

section \<open>Facts on 32-bit words\<close>

lemma unat_u32_less: "unat (w :: u32) < 4294967296"
proof -
  have "unat w < 2 ^ LENGTH(32)" by (rule unsigned_less)
  then show ?thesis by simp
qed

lemma unat_of_nat_u32: "n < 4294967296 \<Longrightarrow> unat (of_nat n :: u32) = n"
  by (simp add: unat_of_nat)

section \<open>Facts on lists\<close>

lemma take_append_exact: "length xs = n \<Longrightarrow> take n (xs @ ys) = xs"
  by simp

lemma drop_append_exact: "length xs = n \<Longrightarrow> drop n (xs @ ys) = ys"
  by simp

end
