(* ===== verification/Oram_Status.thy ===== *)
theory Oram_Status
  imports Oram_Prelude
begin

text \<open>
  The status values of base/oram\_status.h and oram\_status.cc: the error codes, the
  status with its stack of nested causes, \<open>Update\<close>, \<open>Append\<close> and \<open>EmitString\<close>.
\<close>

section \<open>Codes\<close>

datatype status_code = kOK | kInvalidArgument | kInvalidOperation | kOutOfMemory
  | kFileNotFound | kFileIOError | kOutOfRange | kServerError | kObjectNotFound
  | kUnknownError | kVersionMismatch | kAlreadyUsed | kUnimplemented | kExternalError

text \<open>The table \<open>kErrorList\<close>. \<open>kAlreadyUsed\<close> and \<open>kUnimplemented\<close> have no entry.\<close>

fun kErrorList :: "status_code \<Rightarrow> string option" where
  "kErrorList kOK = Some ''OK''"
| "kErrorList kInvalidArgument = Some ''InvalidArgument''"
| "kErrorList kInvalidOperation = Some ''InvalidOperation''"
| "kErrorList kOutOfMemory = Some ''OutOfMemory''"
| "kErrorList kFileNotFound = Some ''FileNotFound''"
| "kErrorList kFileIOError = Some ''FileIOError''"
| "kErrorList kOutOfRange = Some ''OutOfRange''"
| "kErrorList kServerError = Some ''ServerError''"
| "kErrorList kObjectNotFound = Some ''ObjectNotFound''"
| "kErrorList kUnknownError = Some ''UnknownError''"
| "kErrorList kVersionMismatch = Some ''VersionMismatch''"
| "kErrorList kExternalError = Some ''ExternalError''"
| "kErrorList kAlreadyUsed = None"
| "kErrorList kUnimplemented = None"

text \<open>The codes can be enumerated, so statements on all of them are evaluated.\<close>

instantiation status_code :: enum
begin

definition enum_status_code :: "status_code list" where
  "enum_status_code = [kOK, kInvalidArgument, kInvalidOperation, kOutOfMemory, kFileNotFound,
     kFileIOError, kOutOfRange, kServerError, kObjectNotFound, kUnknownError, kVersionMismatch,
     kAlreadyUsed, kUnimplemented, kExternalError]"

definition enum_all_status_code :: "(status_code \<Rightarrow> bool) \<Rightarrow> bool" where
  "enum_all_status_code P \<longleftrightarrow> list_all P Enum.enum"

definition enum_ex_status_code :: "(status_code \<Rightarrow> bool) \<Rightarrow> bool" where
  "enum_ex_status_code P \<longleftrightarrow> list_ex P Enum.enum"

instance
proof
  have all: "c \<in> set Enum.enum" for c :: status_code by (cases c) (simp_all add: enum_status_code_def)
  show "(UNIV :: status_code set) = set Enum.enum" using all by blast
  show "distinct (Enum.enum :: status_code list)" by (simp add: enum_status_code_def)
  show "Enum.enum_all P \<longleftrightarrow> Ball UNIV P" for P :: "status_code \<Rightarrow> bool"
    unfolding enum_all_status_code_def list_all_iff using all by blast
  show "Enum.enum_ex P \<longleftrightarrow> Bex UNIV P" for P :: "status_code \<Rightarrow> bool"
    unfolding enum_ex_status_code_def list_ex_iff using all by blast
qed

end

lemma kErrorList_None: "\<forall>c. kErrorList c = None \<longleftrightarrow> c = kAlreadyUsed \<or> c = kUnimplemented"
  by code_simp

section \<open>Statuses\<close>

datatype oram_status = OramStatus
  (error_code: status_code) (error_message: string) (location: string)
  (nested_status: "oram_status list")

definition mk_status :: "status_code \<Rightarrow> string \<Rightarrow> string \<Rightarrow> oram_status" where
  "mk_status code msg loc = OramStatus code msg loc []"

definition OK :: oram_status where
  "OK = OramStatus kOK '''' '''' []"

definition ok :: "oram_status \<Rightarrow> bool" where
  "ok s \<longleftrightarrow> error_code s = kOK"

definition Update :: "oram_status \<Rightarrow> status_code \<Rightarrow> oram_status" where
  "Update s new_code =
     (if error_code s = kOK
      then OramStatus new_code (error_message s) (location s) (nested_status s) else s)"

definition Append :: "oram_status \<Rightarrow> oram_status \<Rightarrow> oram_status" where
  "Append s new_status =
     (if \<not> ok new_status
      then OramStatus (error_code s) (error_message s) (location s)
             (nested_status s @ [new_status])
      else s)"

text \<open>One line of the report; \<open>kErrorList.at\<close> throws where the table has no entry.\<close>

definition emit_line :: "oram_status \<Rightarrow> string exec" where
  "emit_line s = (case kErrorList (error_code s) of
     None \<Rightarrow> Inl Uncaught_Exception
   | Some name \<Rightarrow> Inr (''['' @ name @ ''@'' @ location s @ '']: '' @ error_message s))"

definition caused_by :: string where
  "caused_by = ''; caused by'' @ [CHR 0x0A, CHR 0x09]"

text \<open>The loop over \<open>nested_status_\<close> from the last entry to the first.\<close>

fun emit_nested :: "oram_status list \<Rightarrow> string \<Rightarrow> string exec" where
  "emit_nested [] ans = Inr ans"
| "emit_nested (s # ss) ans =
     andThen (emit_line s) (\<lambda>l. emit_nested ss (ans @ l @ caused_by))"

definition EmitString :: "oram_status \<Rightarrow> string exec" where
  "EmitString s =
     andThen (emit_nested (rev (nested_status s)) [CHR 0x0A, CHR 0x09]) (\<lambda>ans.
       if error_code s \<noteq> kOK then andThen (emit_line s) (\<lambda>l. Inr (ans @ l))
       else Inr ans)"

section \<open>Facts used by the other components\<close>

lemma ok_OK [simp]: "ok OK"
  by (simp add: ok_def OK_def)

lemma error_code_OK [simp]: "error_code OK = kOK"
  by (simp add: OK_def)

lemma error_code_mk_status [simp]: "error_code (mk_status c m l) = c"
  by (simp add: mk_status_def)

lemma ok_mk_status [simp]: "ok (mk_status c m l) \<longleftrightarrow> c = kOK"
  by (simp add: ok_def)

lemma error_code_Append [simp]: "error_code (Append s t) = error_code s"
  by (simp add: Append_def)

lemma ok_Append [simp]: "ok (Append s t) = ok s"
  by (simp add: ok_def)

lemma nested_status_Append:
  "nested_status (Append s t) = nested_status s @ (if ok t then [] else [t])"
  by (simp add: Append_def)

definition printable :: "oram_status \<Rightarrow> bool" where
  "printable s \<longleftrightarrow> kErrorList (error_code s) \<noteq> None"

lemma emit_line_cases:
  "emit_line s = (if printable s
     then Inr (''['' @ the (kErrorList (error_code s)) @ ''@'' @ location s @ '']: ''
            @ error_message s)
     else Inl Uncaught_Exception)"
  by (auto simp: emit_line_def printable_def split: option.splits)

lemma emit_nested_ok:
  "list_all printable ss \<Longrightarrow> emit_nested ss ans =
     Inr (ans @ concat (map (\<lambda>s. projr (emit_line s) @ caused_by) ss))"
  by (induction ss arbitrary: ans) (auto simp: emit_line_cases)

lemma emit_nested_throws:
  "\<not> list_all printable ss \<Longrightarrow> emit_nested ss ans = Inl Uncaught_Exception"
  by (induction ss arbitrary: ans) (auto simp: emit_line_cases)

lemma printable_iff:
  "printable s \<longleftrightarrow> error_code s \<noteq> kAlreadyUsed \<and> error_code s \<noteq> kUnimplemented"
  using kErrorList_None by (simp add: printable_def)

section \<open>Statuses of gRPC calls\<close>

text \<open>The part of \<open>grpc::Status\<close> the program uses: the code and the message.\<close>

datatype grpc_code = GRPC_OK | ALREADY_EXISTS | INVALID_ARGUMENT | NOT_FOUND | UNAVAILABLE
  | INTERNAL | RESOURCE_EXHAUSTED

record grpc_status =
  grpc_code :: grpc_code
  grpc_message :: string

definition grpc_ok :: grpc_status where
  "grpc_ok = \<lparr>grpc_code = GRPC_OK, grpc_message = ''''\<rparr>"

definition grpc_error :: "grpc_code \<Rightarrow> string \<Rightarrow> grpc_status" where
  "grpc_error c m = \<lparr>grpc_code = c, grpc_message = m\<rparr>"

definition is_ok :: "grpc_status \<Rightarrow> bool" where
  "is_ok s \<longleftrightarrow> grpc_code s = GRPC_OK"

lemma is_ok_simps [simp]:
  "is_ok grpc_ok"
  "is_ok (grpc_error c m) \<longleftrightarrow> c = GRPC_OK"
  by (simp_all add: is_ok_def grpc_ok_def grpc_error_def)

end
