(* ===== verification/Oram_Defs.thy ===== *)
theory Oram_Defs
  imports Oram_Status
begin

text \<open>
  The enumerations, constants and the configuration record of base/oram\_defs.h,
  base/ods\_defs.h and base/oram\_config.h, the names of the ORAM types
  (base/oram\_utils.cc) and the version string (core/oram.cc).
\<close>

section \<open>Enumerations\<close>

datatype operation = Operation_kRead | Operation_kWrite | Operation_kInvalid

datatype oram_type = kLinearOram | kSquareOram | kPathOram | kPartitionOram | kCuckooOram
  | kOds | OramType_kInvalid

datatype oram_storage_type = kFlatStorage | kSqrtStorage | kTreeStorage | kLayeredStorage
  | kInvalidStorage

datatype ods_operation = Ods_kRead | Ods_kWrite | Ods_kRemove | Ods_kInsert | Ods_kInvalid

text \<open>The message type \<open>Type\<close> of a \<open>WritePathRequest\<close> (protos/messages.proto).\<close>

datatype write_type = kSequential | kRandom | kInit | kNormal

text \<open>
  \<open>BlockType\<close> has the underlying type \<open>int\<close> and blocks are copied as raw memory, so a block
  can hold any 32-bit value in its type field; the three constants are the named ones.
\<close>

definition BlockType_kDummy :: u32 where "BlockType_kDummy = 0"
definition BlockType_kNormal :: u32 where "BlockType_kNormal = 1"
definition BlockType_kInvalid :: u32 where "BlockType_kInvalid = 2"

section \<open>Constants\<close>

definition DEFAULT_ORAM_DATA_SIZE :: nat where "DEFAULT_ORAM_DATA_SIZE = 512"

text \<open>\<open>sizeof(BlockType) + sizeof(size_t)\<close>.\<close>

definition DEFAULT_ORAM_METADATA_SIZE :: nat where "DEFAULT_ORAM_METADATA_SIZE = 4 + 8"

text \<open>The sizes libsodium fixes for AES-256-GCM: nonce and tag.\<close>

definition ORAM_CRYPTO_RANDOM_SIZE :: nat where "ORAM_CRYPTO_RANDOM_SIZE = 12"
definition aes256gcm_ABYTES :: nat where "aes256gcm_ABYTES = 16"
definition ORAM_CRYPTO_KEY_SIZE :: nat where "ORAM_CRYPTO_KEY_SIZE = 32"

definition DEFAULT_ORAM_ENCSKIP_SIZE :: nat where
  "DEFAULT_ORAM_ENCSKIP_SIZE = ORAM_CRYPTO_RANDOM_SIZE + aes256gcm_ABYTES + 4"

definition ORAM_BLOCK_SIZE :: nat where "ORAM_BLOCK_SIZE = 560"

lemmas size_defs = DEFAULT_ORAM_DATA_SIZE_def DEFAULT_ORAM_METADATA_SIZE_def
  ORAM_CRYPTO_RANDOM_SIZE_def aes256gcm_ABYTES_def DEFAULT_ORAM_ENCSKIP_SIZE_def
  ORAM_BLOCK_SIZE_def ORAM_CRYPTO_KEY_SIZE_def

definition kMaximumOramStorageNum :: u32 where "kMaximumOramStorageNum = 100000"
definition kInvalidMask :: u32 where "kInvalidMask = 0xFFFFFFFF"

definition POW2 :: "nat \<Rightarrow> nat" where "POW2 x = 2 ^ x"

text \<open>The logarithm rounded up: the least \<open>k\<close> with \<open>x \<le> 2 ^ k\<close>.\<close>

fun ceil_log2 :: "nat \<Rightarrow> nat" where
  "ceil_log2 x = (if x \<le> 1 then 0 else Suc (ceil_log2 ((x + 1) div 2)))"

declare ceil_log2.simps [simp del]

lemma ceil_log2_le_iff: "ceil_log2 x \<le> k \<longleftrightarrow> x \<le> 2 ^ k"
proof (induction x arbitrary: k rule: ceil_log2.induct)
  case (1 x)
  show ?case
  proof (cases "x \<le> 1")
    case True
    then have "x \<le> 2 ^ k" by (rule order_trans) simp
    with True show ?thesis by (subst ceil_log2.simps) simp
  next
    case False
    then have c: "ceil_log2 x = Suc (ceil_log2 ((x + 1) div 2))"
      by (subst ceil_log2.simps) simp
    show ?thesis
    proof (cases k)
      case 0
      with False c show ?thesis by simp
    next
      case (Suc j)
      with False c 1 [of j] show ?thesis by auto
    qed
  qed
qed

lemma ceil_log2_pow: "ceil_log2 (2 ^ k + 1) = Suc k"
proof (rule antisym)
  show "ceil_log2 (2 ^ k + 1) \<le> Suc k" by (simp add: ceil_log2_le_iff)
  have "\<not> ceil_log2 (2 ^ k + 1) \<le> k" by (simp add: ceil_log2_le_iff)
  then show "Suc k \<le> ceil_log2 (2 ^ k + 1)" by simp
qed

text \<open>
  \<open>std::ceil(LOG_BASE(x, 2))\<close> for \<open>1 \<le> x \<le> 2 ^ 32\<close>. The macro divides \<open>log(x)\<close> by \<open>log(2)\<close> in
  double precision. Away from the powers of two the quotient is far from any integer; at the
  powers of two it is exact but for \<open>2 ^ 29\<close> and \<open>2 ^ 31\<close>, where it is rounded to a number just above 29
  and 31, which \<open>std::ceil\<close> takes to the next integer.
\<close>

definition ceil_LOG_BASE2 :: "nat \<Rightarrow> nat" where
  "ceil_LOG_BASE2 x = (if x = 2 ^ 29 \<or> x = 2 ^ 31 then ceil_log2 x + 1 else ceil_log2 x)"

lemma ceil_log2_pow2: "ceil_log2 (2 ^ k) = k"
proof (rule antisym)
  show "ceil_log2 (2 ^ k) \<le> k" by (simp add: ceil_log2_le_iff)
  have "(2 :: nat) ^ k \<le> 2 ^ ceil_log2 (2 ^ k)" using ceil_log2_le_iff by blast
  then show "k \<le> ceil_log2 (2 ^ k)" by simp
qed

text \<open>For evaluation: the logarithm first, so that small numbers are not compared with large ones.\<close>

lemma ceil_LOG_BASE2_code [code]:
  "ceil_LOG_BASE2 x = (let l = ceil_log2 x in if (l = 29 \<or> l = 31) \<and> x = 2 ^ l then l + 1 else l)"
proof -
  have p: "x = 2 ^ k \<longleftrightarrow> ceil_log2 x = k \<and> x = 2 ^ ceil_log2 x" for k
    using ceil_log2_pow2 by auto
  show ?thesis unfolding ceil_LOG_BASE2_def Let_def by (intro if_cong refl) (use p in blast)
qed

lemma ceil_LOG_BASE2_ge: "x \<le> 2 ^ ceil_LOG_BASE2 x"
proof -
  have "ceil_log2 x \<le> ceil_LOG_BASE2 x" by (simp add: ceil_LOG_BASE2_def)
  then show ?thesis by (simp only: ceil_log2_le_iff)
qed

lemma ceil_LOG_BASE2_le: "1 \<le> x \<Longrightarrow> 2 ^ ceil_LOG_BASE2 x \<le> 2 * x"
proof -
  assume x: "1 \<le> x"
  have less: "2 ^ ceil_log2 x \<le> 2 * x"
  proof (cases "ceil_log2 x")
    case (Suc l)
    then have "\<not> ceil_log2 x \<le> l" by simp
    then have "2 ^ l < x" unfolding ceil_log2_le_iff by simp
    with Suc show ?thesis by simp
  qed (use x in simp)
  consider "x = 2 ^ 29" | "x = 2 ^ 31" | "ceil_LOG_BASE2 x = ceil_log2 x" unfolding ceil_LOG_BASE2_def by presburger
  then show ?thesis
  proof cases
    case 1
    then show ?thesis unfolding ceil_LOG_BASE2_def by (simp only: ceil_log2_pow2) simp
  next
    case 2
    then show ?thesis unfolding ceil_LOG_BASE2_def by (simp only: ceil_log2_pow2) simp
  qed (use less in simp)
qed

lemma ceil_LOG_BASE2_32: "x \<le> 2 ^ 32 \<Longrightarrow> ceil_LOG_BASE2 x \<le> 32"
proof -
  assume x: "x \<le> 2 ^ 32"
  consider "x = 2 ^ 29" | "x = 2 ^ 31" | "ceil_LOG_BASE2 x = ceil_log2 x" unfolding ceil_LOG_BASE2_def by presburger
  then show ?thesis
  proof cases
    case 1
    then show ?thesis unfolding ceil_LOG_BASE2_def by (simp only: ceil_log2_pow2) simp
  next
    case 2
    then show ?thesis unfolding ceil_LOG_BASE2_def by (simp only: ceil_log2_pow2) simp
  next
    case 3
    with x show ?thesis by (simp only: ceil_log2_le_iff)
  qed
qed

lemma ceil_LOG_BASE2_pos: "2 \<le> x \<Longrightarrow> 1 \<le> ceil_LOG_BASE2 x"
  using ceil_LOG_BASE2_ge [of x] by (cases "ceil_LOG_BASE2 x") simp_all

lemma ceil_LOG_BASE2_pow: "ceil_LOG_BASE2 (2 ^ k + 1) = Suc k"
proof -
  have "(2 :: nat) ^ k + 1 \<noteq> 2 ^ 29" "(2 :: nat) ^ k + 1 \<noteq> 2 ^ 31"
    by (cases k; simp; presburger)+
  then show ?thesis unfolding ceil_LOG_BASE2_def using ceil_log2_pow by presburger
qed

definition oram_type_mismatch_err :: string where
  "oram_type_mismatch_err = ''The remote storage cannot match the given ORAM type.''"
definition oram_hash_mismatch_err :: string where
  "oram_hash_mismatch_err = ''The remote storage cannot match the given ORAM hash.''"
definition oram_read_err :: string where
  "oram_read_err = ''Cannot read from ORAM! Please check if there is any error.''"

section \<open>Names of the ORAM types\<close>

fun TypeToName :: "oram_type \<Rightarrow> string" where
  "TypeToName kLinearOram = ''LinearOram''"
| "TypeToName kSquareOram = ''SquareOram''"
| "TypeToName kPathOram = ''PathOram''"
| "TypeToName kPartitionOram = ''PartitionOram''"
| "TypeToName kCuckooOram = ''CuckooOram''"
| "TypeToName _ = ''InvalidOram''"

definition StrToType :: "string \<Rightarrow> oram_type" where
  "StrToType type =
     (if type = ''PathOram'' then kPathOram
      else if type = ''SquareRootOram'' then kSquareOram
      else if type = ''LinearOram'' then kLinearOram
      else if type = ''PartitionOram'' then kPartitionOram
      else if type = ''CuckooOram'' then kCuckooOram
      else if type = ''ODS'' then kOds
      else OramType_kInvalid)"

instantiation oram_type :: enum
begin

definition enum_oram_type :: "oram_type list" where
  "enum_oram_type = [kLinearOram, kSquareOram, kPathOram, kPartitionOram, kCuckooOram, kOds, OramType_kInvalid]"

definition enum_all_oram_type :: "(oram_type \<Rightarrow> bool) \<Rightarrow> bool" where
  "enum_all_oram_type P \<longleftrightarrow> list_all P Enum.enum"

definition enum_ex_oram_type :: "(oram_type \<Rightarrow> bool) \<Rightarrow> bool" where
  "enum_ex_oram_type P \<longleftrightarrow> list_ex P Enum.enum"

instance
proof
  have all: "c \<in> set Enum.enum" for c :: oram_type by (cases c) (simp_all add: enum_oram_type_def)
  show "(UNIV :: oram_type set) = set Enum.enum" using all by blast
  show "distinct (Enum.enum :: oram_type list)" by (simp add: enum_oram_type_def)
  show "Enum.enum_all P \<longleftrightarrow> Ball UNIV P" for P :: "oram_type \<Rightarrow> bool"
    unfolding enum_all_oram_type_def list_all_iff using all by blast
  show "Enum.enum_ex P \<longleftrightarrow> Bex UNIV P" for P :: "oram_type \<Rightarrow> bool"
    unfolding enum_ex_oram_type_def list_ex_iff using all by blast
qed

end

text \<open>
  The name of an ORAM type is read back as that type, except for the square root ORAM
  (written \<open>SquareOram\<close>, read \<open>SquareRootOram\<close>) and the oblivious data structures (written
  \<open>InvalidOram\<close>, read \<open>ODS\<close>).
\<close>

lemma type_names: "\<forall>t. StrToType (TypeToName t) = t \<longleftrightarrow> t \<noteq> kSquareOram \<and> t \<noteq> kOds"
  by code_simp

section \<open>Version\<close>

definition major_version :: u8 where "major_version = 1"
definition minor_version :: u8 where "minor_version = 2"
definition patch_version :: u8 where "patch_version = 2"

text \<open>Streaming a \<open>uint8_t\<close> writes the character with that code.\<close>

definition stream_u8 :: "u8 \<Rightarrow> string" where
  "stream_u8 b = [char_of (unat b)]"

definition GetVersion :: string where
  "GetVersion = stream_u8 major_version @ ''.'' @ stream_u8 minor_version @ ''.''
     @ stream_u8 patch_version"

section \<open>Configuration\<close>

record oram_config =
  cfg_oram_type :: oram_type
  cfg_block_num :: u64
  cfg_bucket_size :: u64
  cfg_id :: u32
  cfg_crt_path :: string
  cfg_key_path :: string
  cfg_server_address :: string
  cfg_server_port :: u32
  cfg_enable_proxy :: bool
  cfg_proxy_address :: string
  cfg_proxy_port :: u32
  cfg_log_level :: u8
  cfg_log_frequency :: u8
  cfg_odict_size :: u64
  cfg_client_cache_max_size :: u64
  cfg_disable_debugging :: bool
  cfg_filepath :: string

definition default_config :: oram_config where
  "default_config = \<lparr>cfg_oram_type = kPathOram, cfg_block_num = 100000, cfg_bucket_size = 4,
     cfg_id = 0, cfg_crt_path = ''./key/server.crt'', cfg_key_path = ''./key/server.key'',
     cfg_server_address = ''0.0.0.0'', cfg_server_port = 1234, cfg_enable_proxy = False,
     cfg_proxy_address = '''', cfg_proxy_port = 0, cfg_log_level = 2, cfg_log_frequency = 3,
     cfg_odict_size = 100000, cfg_client_cache_max_size = 32, cfg_disable_debugging = True,
     cfg_filepath = ''''\<rparr>"

end
