(* ===== verification/Flat_Storage.thy ===== *)
theory Flat_Storage
  imports Oram_Defs
begin

text \<open>
  The fields all server storages share (server/base\_oram\_storage.h) and the flat storage
  of the linear ORAM (server/flat\_oram\_storage.h). The other storages extend the same
  record, as the classes derive from \<open>BaseOramServerStorage\<close>.
\<close>

record base_storage =
  st_id :: u32
  st_capacity :: nat
  st_type :: oram_storage_type
  st_block_size :: nat
  st_instance_hash :: bytes

record flat_storage = base_storage +
  flat_memory :: bytes

definition FlatOramServerStorage :: "u32 \<Rightarrow> nat \<Rightarrow> nat \<Rightarrow> bytes \<Rightarrow> flat_storage" where
  "FlatOramServerStorage i capacity block_size instance_hash =
     \<lparr>st_id = i, st_capacity = capacity, st_type = kFlatStorage, st_block_size = block_size,
      st_instance_hash = instance_hash, flat_memory = []\<rparr>"

definition GetStorage :: "flat_storage \<Rightarrow> bytes" where
  "GetStorage st = flat_memory st"

definition ResetStorage :: "flat_storage \<Rightarrow> flat_storage" where
  "ResetStorage st = st\<lparr>flat_memory := []\<rparr>"

definition From :: "flat_storage \<Rightarrow> bytes \<Rightarrow> flat_storage" where
  "From st storage = st\<lparr>flat_memory := storage\<rparr>"

end
