(* ===== verification/Oram_Block.thy ===== *)
theory Oram_Block
  imports Oram_Defs
begin

text \<open>
  Blocks (\<open>oram_block_t\<close> of base/oram\_defs.h) and their memory layout on x86-64, the
  conversions between a block and its 560 bytes and between buckets and lists of
  strings (base/oram\_utils.cc), and the predicate \<open>BlockEqual\<close>.
\<close>

section \<open>The structures\<close>

text \<open>
  The 4 bytes of padding that the compiler puts between \<open>type\<close> and \<open>data_len\<close> to align the
  latter are copied with the rest, so they are a field of the model (\<open>pad\<close>).
\<close>

record oram_block_header =
  iv :: bytes
  mac_tag :: bytes
  block_id :: u32
  btype :: u32
  pad :: bytes
  data_len :: u64

record oram_block =
  header :: oram_block_header
  data :: bytes

text \<open>The fixed-size arrays have their sizes.\<close>

definition wf_block :: "oram_block \<Rightarrow> bool" where
  "wf_block b \<longleftrightarrow> length (iv (header b)) = 12 \<and> length (mac_tag (header b)) = 16
     \<and> length (pad (header b)) = 4 \<and> length (data b) = 512"

section \<open>Memory image\<close>

definition header_bytes :: "oram_block_header \<Rightarrow> bytes" where
  "header_bytes h = iv h @ mac_tag h @ le_bytes 4 (block_id h) @ le_bytes 4 (btype h)
     @ pad h @ le_bytes 8 (data_len h)"

definition block_bytes :: "oram_block \<Rightarrow> bytes" where
  "block_bytes b = header_bytes (header b) @ data b"

definition bytes_header :: "bytes \<Rightarrow> oram_block_header" where
  "bytes_header bs =
     \<lparr>iv = take 12 bs, mac_tag = take 16 (drop 12 bs), block_id = le_word (take 4 (drop 28 bs)),
      btype = le_word (take 4 (drop 32 bs)), pad = take 4 (drop 36 bs),
      data_len = le_word (take 8 (drop 40 bs))\<rparr>"

definition bytes_block :: "bytes \<Rightarrow> oram_block" where
  "bytes_block bs = \<lparr>header = bytes_header bs, data = take 512 (drop 48 bs)\<rparr>"

section \<open>Conversions\<close>

definition ConvertToBlock :: "bytes \<Rightarrow> oram_block exec" where
  "ConvertToBlock bs = panic_if (length bs \<noteq> ORAM_BLOCK_SIZE) (Inr (bytes_block bs))"

definition ConvertToString :: "oram_block \<Rightarrow> bytes" where
  "ConvertToString b = block_bytes b"

definition SerializeToStringVector :: "oram_block list \<Rightarrow> bytes list" where
  "SerializeToStringVector bucket = map ConvertToString bucket"

fun DeserializeFromStringVector :: "bytes list \<Rightarrow> oram_block list exec" where
  "DeserializeFromStringVector [] = Inr []"
| "DeserializeFromStringVector (d # ds) =
     andThen (ConvertToBlock d) (\<lambda>b.
     andThen (DeserializeFromStringVector ds) (\<lambda>bs. Inr (b # bs)))"

text \<open>The predicate \<open>BlockEqual\<close>: dummies are never matched.\<close>

definition BlockEqual :: "u32 \<Rightarrow> oram_block \<Rightarrow> bool" where
  "BlockEqual i b \<longleftrightarrow> block_id (header b) = i \<and> btype (header b) = BlockType_kNormal"

section \<open>Layout facts\<close>

lemma length_header_bytes:
  "wf_block b \<Longrightarrow> length (header_bytes (header b)) = 48"
  by (simp add: wf_block_def header_bytes_def)

lemma length_block_bytes [simp]: "wf_block b \<Longrightarrow> length (block_bytes b) = 560"
  by (simp add: block_bytes_def length_header_bytes) (simp add: wf_block_def)

lemma wf_bytes_block [simp]: "length bs = 560 \<Longrightarrow> wf_block (bytes_block bs)"
  by (simp add: wf_block_def bytes_block_def bytes_header_def)

lemma bytes_header_append:
  assumes "length i = 12" "length m = 16" "length p = 4"
  shows "bytes_header (i @ m @ le_bytes 4 (a :: u32) @ le_bytes 4 (t :: u32) @ p
      @ le_bytes 8 (n :: u64) @ d) =
    \<lparr>iv = i, mac_tag = m, block_id = a, btype = t, pad = p, data_len = n\<rparr>"
  using assms by (simp add: bytes_header_def le_word_le_bytes)

lemma bytes_block_block_bytes [simp]:
  assumes wf: "wf_block b" shows "bytes_block (block_bytes b) = b"
proof -
  have "bytes_header (block_bytes b) = header b"
    using wf
    by (simp add: block_bytes_def header_bytes_def wf_block_def bytes_header_append)
  moreover have "take 512 (drop 48 (block_bytes b)) = data b"
    using wf length_header_bytes [OF wf] by (simp add: block_bytes_def wf_block_def)
  ultimately show ?thesis by (simp add: bytes_block_def)
qed

lemma split_bytes:
  "bs = take 12 bs @ take 16 (drop 12 bs) @ take 4 (drop 28 bs) @ take 4 (drop 32 bs)
     @ take 4 (drop 36 bs) @ take 8 (drop 40 bs) @ drop 48 bs"
proof -
  have step: "drop n bs = take m (drop n bs) @ drop (n + m) bs" for n m
    by (metis append_take_drop_id drop_drop add.commute)
  show ?thesis
    using step [of 0 12] step [of 12 16] step [of 28 4] step [of 32 4] step [of 36 4]
      step [of 40 8]
    by simp
qed

lemma block_bytes_bytes_block [simp]:
  assumes "length bs = 560" shows "block_bytes (bytes_block bs) = bs"
proof -
  have "le_bytes 4 (le_word (take 4 (drop n bs)) :: u32) = take 4 (drop n bs)"
    if "n \<le> 500" for n
    using that assms by (intro le_bytes_le_word) simp_all
  moreover have "le_bytes 8 (le_word (take 8 (drop 40 bs)) :: u64) = take 8 (drop 40 bs)"
    using assms by (intro le_bytes_le_word) simp_all
  ultimately show ?thesis
    using assms split_bytes [of bs]
    by (simp add: block_bytes_def header_bytes_def bytes_block_def bytes_header_def)
qed

lemma ConvertToBlock_ConvertToString:
  "wf_block b \<Longrightarrow> ConvertToBlock (ConvertToString b) = Inr b"
  by (simp add: ConvertToBlock_def ConvertToString_def ORAM_BLOCK_SIZE_def)

lemma Deserialize_Serialize:
  "list_all wf_block bs \<Longrightarrow> DeserializeFromStringVector (SerializeToStringVector bs) = Inr bs"
  unfolding SerializeToStringVector_def
  by (induction bs) (simp_all add: ConvertToBlock_ConvertToString)

end
