(* ===== verification/Oram_Crypto.thy ===== *)
theory Oram_Crypto
  imports Oram_Block "HOL-Library.Multiset"
begin

text \<open>
  The code outside src/ that the program calls (libsodium, LZ4, the FF3 library) as one
  record of functions, and base/oram\_crypto.h and oram\_crypto.cc over it: the
  \<open>Cryptor\<close>, uniform sampling, random bytes, the Fisher-Yates shuffle and the random
  permutation; then \<open>EncryptBlock\<close> and \<open>DecryptBlock\<close> of base/oram\_utils.cc.
\<close>

section \<open>Code outside the repository\<close>

text \<open>
  The fields of \<open>libs\<close> are parameters of the whole model. A call of the random
  generator is numbered: \<open>randombytes_random L n\<close> is what the \<open>n\<close>-th call returns.
  \<open>aes_encrypt\<close> takes key, nonce and message and returns the ciphertext followed by the
  tag (\<open>None\<close>: a non-zero return code); \<open>aes_decrypt\<close> is \<open>None\<close> when the tag is wrong.
  \<open>lz4_compress\<close> returns the bytes written (none: return value zero), \<open>lz4_decompress\<close>,
  given the input and the size limit, the return value and the destination's contents.
\<close>

record libs =
  sodium_init_ok :: bool
  randombytes_random :: "nat \<Rightarrow> u32"
  randombytes_buf :: "nat \<Rightarrow> nat \<Rightarrow> bytes"
  aes_is_available :: bool
  aes_encrypt :: "bytes \<Rightarrow> bytes \<Rightarrow> bytes \<Rightarrow> bytes option"
  aes_decrypt :: "bytes \<Rightarrow> bytes \<Rightarrow> bytes \<Rightarrow> bytes option"
  hash_sha256 :: "bytes \<Rightarrow> bytes option"
  kx_keypair :: "nat \<Rightarrow> (bytes \<times> bytes) option"
  kx_client_session_keys :: "bytes \<Rightarrow> bytes \<Rightarrow> bytes \<Rightarrow> (bytes \<times> bytes) option"
  kx_server_session_keys :: "bytes \<Rightarrow> bytes \<Rightarrow> bytes \<Rightarrow> (bytes \<times> bytes) option"
  ff3_encrypt :: "bytes \<Rightarrow> string \<Rightarrow> string"
  lz4_compress :: "bytes \<Rightarrow> bytes"
  lz4_decompress :: "bytes \<Rightarrow> nat \<Rightarrow> int \<times> bytes"

text \<open>What the documentation of libsodium promises of the calls on the data path.\<close>

definition sodium_ok :: "libs \<Rightarrow> bool" where
  "sodium_ok L \<longleftrightarrow> sodium_init_ok L \<and> aes_is_available L
     \<and> (\<forall>n k. length (randombytes_buf L n k) = k)
     \<and> (\<forall>k nonce m. \<exists>c. aes_encrypt L k nonce m = Some c \<and> length c = length m + 16
          \<and> aes_decrypt L k nonce c = Some m)"

text \<open>The generator never stops producing small values.\<close>

definition random_live :: "libs \<Rightarrow> bool" where
  "random_live L \<longleftrightarrow> (\<forall>n. \<exists>k\<ge>n. unat (randombytes_random L k) < 2 ^ 31)"

definition ff3_ok :: "libs \<Rightarrow> bool" where
  "ff3_ok L \<longleftrightarrow> (\<forall>k s. length (ff3_encrypt L k s) = length s)"

section \<open>The process-wide state\<close>

record cryptor =
  session_key_rx :: bytes
  session_key_tx :: bytes
  random_val :: bytes
  public_key :: bytes
  secret_key :: bytes
  is_initialized :: bool
  is_setup :: bool

text \<open>
  A process has the number of calls of the generator made so far and the singleton that
  \<open>Cryptor::GetInstance\<close> creates on its first call.
\<close>

record host =
  draws :: nat
  singleton :: "cryptor option"

section \<open>Cryptor\<close>

text \<open>
  \<open>sizeof(ORAM_CRYPTO_RANDOM_SIZE)\<close> is the size of the constant's type, 4 bytes, so only
  the first 4 bytes of \<open>random_val_\<close> are drawn; the rest keeps what the memory held.
\<close>

definition new_cryptor :: "libs \<Rightarrow> cryptor \<Rightarrow> nat \<Rightarrow> cryptor exec" where
  "new_cryptor L memory n =
     panic_if (\<not> sodium_init_ok L)
       (Inr (memory\<lparr>random_val := randombytes_buf L n 4 @ drop 4 (random_val memory),
                    is_initialized := True, is_setup := False\<rparr>))"

definition GetInstance :: "libs \<Rightarrow> cryptor \<Rightarrow> host \<Rightarrow> host exec" where
  "GetInstance L memory h = (case singleton h of
     Some c \<Rightarrow> Inr h
   | None \<Rightarrow> andThen (new_cryptor L memory (draws h))
       (\<lambda>c. Inr (h\<lparr>singleton := Some c, draws := draws h + 1\<rparr>)))"

definition CryptoPrelogue :: "libs \<Rightarrow> cryptor \<Rightarrow> 'a exec \<Rightarrow> 'a exec" where
  "CryptoPrelogue L c m =
     panic_if (\<not> is_initialized c) (panic_if (\<not> aes_is_available L) m)"

definition Cryptor_Encrypt ::
    "libs \<Rightarrow> cryptor \<Rightarrow> bytes \<Rightarrow> bytes \<Rightarrow> (oram_status \<times> bytes) exec" where
  "Cryptor_Encrypt L c message nonce =
     CryptoPrelogue L c (panic_if (\<not> is_setup c)
       (case aes_encrypt L (session_key_rx c) nonce message of
          Some out \<Rightarrow> Inr (OK, out)
        | None \<Rightarrow> Inr (mk_status kUnknownError
            ''Libsodium cannot encrypt the block! Maybe the buffer is truncated or corrupted.''
            '''', [])))"

definition Cryptor_Decrypt ::
    "libs \<Rightarrow> cryptor \<Rightarrow> bytes \<Rightarrow> bytes \<Rightarrow> (oram_status \<times> bytes) exec" where
  "Cryptor_Decrypt L c message nonce =
     CryptoPrelogue L c (panic_if (\<not> is_setup c)
       (if length message < aes256gcm_ABYTES
        then Inr (mk_status kInvalidArgument ''The length of the message is too short''
               ''Decrypt'', [])
        else (case aes_decrypt L (session_key_rx c) nonce message of
            Some m \<Rightarrow> Inr (OK, m)
          | None \<Rightarrow> Inr (mk_status kUnknownError
              ''Libsodium cannot decrypt the block! Maybe the buffer is truncated or corrupted.''
              '''', []))))"

definition Cryptor_Digest :: "libs \<Rightarrow> cryptor \<Rightarrow> bytes \<Rightarrow> oram_status \<times> bytes" where
  "Cryptor_Digest L c message =
     (case hash_sha256 L (message @ random_val c) of
        Some d \<Rightarrow> (OK, d)
      | None \<Rightarrow> (mk_status kUnknownError
          ''Libsodium cannot digest the block! Maybe the buffer is truncated or corrupted.''
          '''', []))"

definition SampleKeyPair :: "libs \<Rightarrow> nat \<Rightarrow> cryptor \<Rightarrow> (oram_status \<times> cryptor) exec" where
  "SampleKeyPair L n c =
     CryptoPrelogue L c (case kx_keypair L n of
        Some (pk, sk) \<Rightarrow> Inr (OK, c\<lparr>public_key := pk, secret_key := sk\<rparr>)
      | None \<Rightarrow> Inr (mk_status kUnknownError
          ''Libsodium cannot sample the key pair! Maybe the buffer is truncated or corrupted.''
          '''', c))"

text \<open>The flag \<open>type\<close> is 0 on the client and 1 on the server.\<close>

definition SampleSessionKey ::
    "libs \<Rightarrow> bytes \<Rightarrow> bool \<Rightarrow> cryptor \<Rightarrow> (oram_status \<times> cryptor) exec" where
  "SampleSessionKey L peer_pk type c =
     CryptoPrelogue L c
       (if length peer_pk \<noteq> 32
        then Inr (mk_status kInvalidArgument
               ''The length of the peer's public key is not correct.'' '''', c)
        else (case (if \<not> type then kx_client_session_keys L (public_key c) (secret_key c) peer_pk
                    else kx_server_session_keys L (public_key c) (secret_key c) peer_pk) of
            Some (rx, tx) \<Rightarrow> Inr (OK, c\<lparr>session_key_rx := rx, session_key_tx := tx,
                                       is_setup := True\<rparr>)
          | None \<Rightarrow> Inr (mk_status kUnknownError
              (''Libsodium cannot sample the session key! Maybe the buffer ''
               @ ''is truncated or corrupted.'') '''', c)))"

definition GetKeyPair :: "cryptor \<Rightarrow> (bytes \<times> bytes) exec" where
  "GetKeyPair c = panic_if (\<not> is_initialized c) (Inr (public_key c, secret_key c))"

definition GetSessionKeyPair :: "cryptor \<Rightarrow> bytes \<times> bytes" where
  "GetSessionKeyPair c = (session_key_rx c, session_key_tx c)"

section \<open>Random bytes and uniform sampling\<close>

definition RandomBytes :: "libs \<Rightarrow> nat \<Rightarrow> host \<Rightarrow> (oram_status \<times> bytes) \<times> host" where
  "RandomBytes L n h =
     (if n = 0
      then ((mk_status kInvalidArgument ''The length of the output buffer is zero''
               ''RandomBytes'', []), h)
      else ((OK, randombytes_buf L (draws h) n), h\<lparr>draws := draws h + 1\<rparr>))"

text \<open>The rejection loop: the first value at most \<open>m\<close>, and the number of calls made.\<close>

partial_function (option) draw_until :: "libs \<Rightarrow> u32 \<Rightarrow> nat \<Rightarrow> (u32 \<times> nat) option" where
  "draw_until L m n =
     (if randombytes_random L n \<le> m then Some (randombytes_random L n, n + 1)
      else draw_until L m (n + 1))"

definition max_acceptable :: "u32 \<Rightarrow> u32" where
  "max_acceptable r = (0xFFFFFFFF div r) * r - 1"

definition UniformRandom ::
    "libs \<Rightarrow> u32 \<Rightarrow> u32 \<Rightarrow> host \<Rightarrow> ((oram_status \<times> u32 option) \<times> host) exec" where
  "UniformRandom L lo hi h =
     (if lo > hi
      then Inr ((mk_status kInvalidArgument
             ''The minimum value is greater than the maximum value'' '''', None), h)
      else let r = hi - lo + 1 in
        if r = 0 then Inl Undefined_Behaviour
        else (case draw_until L (max_acceptable r) (draws h) of
            None \<Rightarrow> Inl Never_Returns
          | Some (v, n) \<Rightarrow> Inr ((OK, Some (v mod r + lo)), h\<lparr>draws := n\<rparr>)))"

definition CheckStatus :: "oram_status \<Rightarrow> 'a exec \<Rightarrow> 'a exec" where
  "CheckStatus s m = (if \<not> ok s then Inl Process_Abort else m)"

definition NoNeedForSessionKey :: "libs \<Rightarrow> host \<Rightarrow> cryptor \<Rightarrow> (cryptor \<times> host) exec" where
  "NoNeedForSessionKey L h c =
     (case RandomBytes L ORAM_CRYPTO_KEY_SIZE h of
        ((s, key), h') \<Rightarrow> CheckStatus s
          (Inr (c\<lparr>is_setup := True, session_key_rx := key\<rparr>, h')))"

section \<open>Shuffles and permutations\<close>

definition swap_at :: "'a list \<Rightarrow> nat \<Rightarrow> nat \<Rightarrow> 'a list" where
  "swap_at xs i j = xs[i := xs ! j, j := xs ! i]"

text \<open>The loop of \<open>RandomShuffle\<close> from index \<open>i\<close> down to 1.\<close>

fun shuffle_from ::
    "libs \<Rightarrow> nat \<Rightarrow> 'a list \<Rightarrow> host \<Rightarrow> ((oram_status \<times> 'a list) \<times> host) exec" where
  "shuffle_from L 0 arr h = Inr ((OK, arr), h)"
| "shuffle_from L (Suc i) arr h =
     andThen (UniformRandom L 0 (of_nat (Suc i)) h) (\<lambda>((s, j), h').
       case j of
         None \<Rightarrow> Inr ((s, arr), h')
       | Some j \<Rightarrow> shuffle_from L i (swap_at arr (Suc i) (unat j)) h')"

definition RandomShuffle ::
    "libs \<Rightarrow> 'a list \<Rightarrow> host \<Rightarrow> ((oram_status \<times> 'a list) \<times> host) exec" where
  "RandomShuffle L arr h =
     (if arr = []
      then Inr ((mk_status kInvalidArgument ''The input array is empty'' '''', arr), h)
      else shuffle_from L (length arr - 1) arr h)"

text \<open>The integer part of the base-2 logarithm.\<close>

fun floor_log2 :: "nat \<Rightarrow> nat" where
  "floor_log2 n = (if n < 2 then 0 else Suc (floor_log2 (n div 2)))"

declare floor_log2.simps [simp del]

text \<open>\<open>std::bitset<32>\<close> to text (most significant bit first) and back from a stream.\<close>

definition bitset_string :: "u32 \<Rightarrow> string" where
  "bitset_string w = map (\<lambda>i. if bit w (31 - i) then CHR ''1'' else CHR ''0'') [0..<32]"

definition is_bit :: "char \<Rightarrow> bool" where
  "is_bit c \<longleftrightarrow> c = CHR ''0'' \<or> c = CHR ''1''"

definition read_bitset :: "string \<Rightarrow> nat" where
  "read_bitset s =
     foldl (\<lambda>acc c. 2 * acc + (if c = CHR ''1'' then 1 else 0)) 0
       (takeWhile is_bit (take 32 s))"

text \<open>One entry of \<open>perm_buf\<close>: the encryption of the lowest \<open>ord\<close> bits of the element.\<close>

definition perm_entry :: "libs \<Rightarrow> bytes \<Rightarrow> nat \<Rightarrow> u32 \<Rightarrow> nat" where
  "perm_entry L key ord x = read_bitset (ff3_encrypt L key (drop (32 - ord) (bitset_string x)))"

text \<open>The swapping loop; an index past the end of the array is undefined behaviour.\<close>

fun swap_all :: "nat list \<Rightarrow> nat \<Rightarrow> 'a list \<Rightarrow> 'a list exec" where
  "swap_all [] i arr = Inr arr"
| "swap_all (j # js) i arr =
     (if i < length arr \<and> j < length arr then swap_all js (Suc i) (swap_at arr i j)
      else Inl Undefined_Behaviour)"

definition RandomPermutation ::
    "libs \<Rightarrow> u32 list \<Rightarrow> host \<Rightarrow> ((oram_status \<times> u32 list) \<times> host) exec" where
  "RandomPermutation L arr h =
     (let key = randombytes_buf L (draws h) 32; h' = h\<lparr>draws := draws h + 1\<rparr>;
          size = length arr
      in if size = 0
         then Inr ((mk_status kInvalidArgument ''The input array cannot be empty''
                ''RandomPermutation'', arr), h')
         else let ord = floor_log2 size in
           if ord > 32 then Inl Uncaught_Exception
           else andThen (swap_all (map (perm_entry L key ord) arr) 0 arr)
                  (\<lambda>arr'. Inr ((OK, arr'), h')))"

section \<open>Encryption of blocks\<close>

text \<open>Overwriting part of an object's memory (\<open>memcpy\<close> to an offset).\<close>

definition overwrite :: "nat \<Rightarrow> bytes \<Rightarrow> bytes \<Rightarrow> bytes" where
  "overwrite off new bs = take off bs @ new @ drop (off + length new) bs"

text \<open>The singleton the controllers hold; using it before it exists is a null dereference.\<close>

definition with_cryptor :: "host \<Rightarrow> (cryptor \<Rightarrow> 'a exec) \<Rightarrow> 'a exec" where
  "with_cryptor h f = (case singleton h of None \<Rightarrow> Inl Undefined_Behaviour | Some c \<Rightarrow> f c)"

text \<open>The region from the end of the public header fields (offset 32), 524 bytes long.\<close>

definition enc_size :: nat where
  "enc_size = DEFAULT_ORAM_DATA_SIZE + DEFAULT_ORAM_METADATA_SIZE"

definition enc_region :: "oram_block \<Rightarrow> bytes" where
  "enc_region b = take enc_size (drop DEFAULT_ORAM_ENCSKIP_SIZE (block_bytes b))"

definition set_iv :: "oram_block \<Rightarrow> bytes \<Rightarrow> oram_block" where
  "set_iv b v = b\<lparr>header := (header b)\<lparr>iv := v\<rparr>\<rparr>"

definition set_mac :: "oram_block \<Rightarrow> bytes \<Rightarrow> oram_block" where
  "set_mac b v = b\<lparr>header := (header b)\<lparr>mac_tag := v\<rparr>\<rparr>"

definition EncryptBlock ::
    "libs \<Rightarrow> oram_block \<Rightarrow> host \<Rightarrow> ((oram_status \<times> oram_block) \<times> host) exec" where
  "EncryptBlock L b h =
     (case RandomBytes L ORAM_CRYPTO_RANDOM_SIZE h of
        ((s, nonce), h') \<Rightarrow> CheckStatus s
          (let b1 = set_iv b nonce in
           with_cryptor h' (\<lambda>c.
           andThen (Cryptor_Encrypt L c (enc_region b1) nonce) (\<lambda>(s, enc).
             if \<not> ok s
             then Inr ((Append s (mk_status kInvalidArgument
                    ''Encryption failed (check if the data size is correct?)''
                    ''EncryptBlock''), b1), h')
             else
               let n = length enc - aes256gcm_ABYTES;
                   b2 = set_mac b1 (drop n enc);
                   image = overwrite DEFAULT_ORAM_ENCSKIP_SIZE (take n enc) (block_bytes b2)
               in Inr ((OK, bytes_block image), h')))))"

definition DecryptBlock ::
    "libs \<Rightarrow> oram_block \<Rightarrow> host \<Rightarrow> (oram_status \<times> oram_block) exec" where
  "DecryptBlock L b h =
     with_cryptor h (\<lambda>c.
     andThen (Cryptor_Decrypt L c (enc_region b @ mac_tag (header b)) (iv (header b)))
       (\<lambda>(s, dec).
         if \<not> ok s
         then Inr (Append s (mk_status kInvalidArgument
                ''Decryption failed due to corrupted ciphertext'' ''DecryptBlock''), b)
         else Inr (OK, bytes_block (overwrite DEFAULT_ORAM_ENCSKIP_SIZE dec (block_bytes b)))))"

section \<open>Uniform sampling returns, in range\<close>

lemma draw_until_Some:
  assumes "randombytes_random L k \<le> m" "n \<le> k"
  shows "\<exists>v j. draw_until L m n = Some (v, j) \<and> v \<le> m \<and> n < j \<and> j \<le> k + 1"
  using assms
proof (induction "k - n" arbitrary: n)
  case 0
  then show ?case by (subst draw_until.simps) auto
next
  case (Suc d)
  show ?case
  proof (cases "randombytes_random L n \<le> m")
    case True
    with Suc.prems show ?thesis by (subst draw_until.simps) auto
  next
    case False
    have "d = k - (n + 1)" "n + 1 \<le> k" using Suc.hyps(2) by arith+
    with Suc.hyps(1) Suc.prems(1)
    obtain v j where "draw_until L m (n + 1) = Some (v, j)" "v \<le> m" "n + 1 < j" "j \<le> k + 1"
      by blast
    with False show ?thesis by (subst draw_until.simps) auto
  qed
qed

lemma unat_max_acceptable:
  assumes "r \<noteq> 0"
  shows "unat (max_acceptable r) + 1 = (0xFFFFFFFF div unat r) * unat r"
    and "0 < (0xFFFFFFFF div unat r) * unat r"
proof -
  have r: "0 < unat r" "unat r \<le> 0xFFFFFFFF"
    using assms unat_u32_less [of r] by (simp_all add: unat_gt_0)
  show p: "0 < (0xFFFFFFFF div unat r) * unat r"
    using r by (simp add: div_greater_zero_iff)
  have le: "(0xFFFFFFFF div unat r) * unat r \<le> 0xFFFFFFFF"
    by (simp add: div_times_less_eq_dividend)
  have "unat ((0xFFFFFFFF div r) * r) = (0xFFFFFFFF div unat r) * unat r"
  proof -
    have "unat (0xFFFFFFFF div r :: u32) * unat r < 2 ^ LENGTH(32)"
      using le_less_trans [OF le, of "2 ^ LENGTH(32)"] by (simp add: unat_div)
    then show ?thesis by (simp only: unat_mult_lem) (simp add: unat_div)
  qed
  then show "unat (max_acceptable r) + 1 = (0xFFFFFFFF div unat r) * unat r"
    using p unfolding max_acceptable_def
    by (subst unat_sub) (simp_all add: word_le_nat_alt)
qed

lemma max_acceptable_big:
  assumes "r \<noteq> 0" shows "2 ^ 31 \<le> unat (max_acceptable r) + 1"
proof -
  have r: "0 < unat r" "unat r \<le> 0xFFFFFFFF"
    using assms unat_u32_less [of r] by (simp_all add: unat_gt_0)
  let ?q = "0xFFFFFFFF div unat r"
  have mod: "0xFFFFFFFF = ?q * unat r + 0xFFFFFFFF mod unat r" by simp
  have "2147483648 \<le> ?q * unat r"
  proof (cases "unat r \<le> 2147483648")
    case True
    have "0xFFFFFFFF mod unat r < unat r" using r by simp
    with mod True show ?thesis by linarith
  next
    case False
    have "1 \<le> ?q" using r by (simp add: div_greater_zero_iff Suc_le_eq)
    then have "1 * unat r \<le> ?q * unat r" by (rule mult_le_mono1)
    with False show ?thesis by linarith
  qed
  then show ?thesis using unat_max_acceptable(1) [OF assms] by simp
qed

lemma mod_range_bounds:
  fixes lo hi v :: u32
  assumes le: "lo \<le> hi" and nfull: "hi - lo + 1 \<noteq> 0"
  shows "lo \<le> v mod (hi - lo + 1) + lo" and "v mod (hi - lo + 1) + lo \<le> hi"
    and "unat (v mod (hi - lo + 1) + lo) = unat v mod (unat hi - unat lo + 1) + unat lo"
proof -
  let ?r = "hi - lo + 1"
  have m: "unat (v mod ?r) < unat ?r"
    using nfull by (simp add: unat_mod unat_gt_0)
  have dist: "unat (hi - lo) = unat hi - unat lo" using le by (simp add: unat_sub)
  then have ur: "unat ?r = unat hi - unat lo + 1"
    using nfull by (simp add: unatSuc add.commute)
  have s: "unat (v mod ?r + lo) = unat (v mod ?r) + unat lo"
    using m ur le unat_u32_less [of hi]
    by (intro unat_add_lem [THEN iffD1]) (simp add: word_le_nat_alt)
  show "lo \<le> v mod ?r + lo" "v mod ?r + lo \<le> hi"
    using m ur le s by (simp_all add: word_le_nat_alt)
  show "unat (v mod ?r + lo) = unat v mod (unat hi - unat lo + 1) + unat lo"
    using s ur by (simp add: unat_mod)
qed

lemma UniformRandom_range:
  assumes "UniformRandom L lo hi h = Inr ((s, Some v), h')"
  shows "lo \<le> v" "v \<le> hi"
  using assms mod_range_bounds [of lo hi]
  by (auto simp: UniformRandom_def Let_def split: if_splits option.splits)

lemma UniformRandom_returns:
  assumes live: "random_live L" and le: "lo \<le> hi" and nfull: "hi - lo + 1 \<noteq> 0"
  shows "\<exists>v h'. UniformRandom L lo hi h = Inr ((OK, Some v), h') \<and> lo \<le> v \<and> v \<le> hi
     \<and> draws h < draws h' \<and> singleton h' = singleton h"
proof -
  let ?r = "hi - lo + 1"
  from live obtain k where k: "draws h \<le> k" "unat (randombytes_random L k) < 2 ^ 31"
    by (auto simp: random_live_def)
  then have "randombytes_random L k \<le> max_acceptable ?r"
    using max_acceptable_big [OF nfull] by (simp add: word_le_nat_alt)
  from draw_until_Some [OF this k(1)]
  obtain v j where "draw_until L (max_acceptable ?r) (draws h) = Some (v, j)" "draws h < j"
    by blast
  with le nfull show ?thesis
    using mod_range_bounds [OF le nfull] by (auto simp: UniformRandom_def Let_def)
qed

lemma UniformRandom_OK:
  assumes "UniformRandom L lo hi h = Inr ((s, x), h')"
  shows "ok s \<longleftrightarrow> lo \<le> hi" "x = None \<longleftrightarrow> hi < lo" "singleton h' = singleton h"
  using assms by (auto simp: UniformRandom_def Let_def split: if_splits option.splits)

section \<open>Shuffles permute\<close>

lemma swap_at_mset: "i < length xs \<Longrightarrow> j < length xs \<Longrightarrow> mset (swap_at xs i j) = mset xs"
  unfolding swap_at_def by (simp add: mset_swap)

lemma length_swap_at [simp]: "length (swap_at xs i j) = length xs"
  by (simp add: swap_at_def)

lemma shuffle_from_perm:
  "i < length arr \<Longrightarrow> shuffle_from L i arr h = Inr ((s, arr'), h') \<Longrightarrow>
    length arr < 2 ^ 32 \<Longrightarrow> mset arr' = mset arr"
proof (induction i arbitrary: arr h)
  case 0
  then show ?case by simp
next
  case (Suc i)
  then obtain s0 j h0 where u: "UniformRandom L 0 (of_nat (Suc i)) h = Inr ((s0, j), h0)"
    and rest: "(case j of None \<Rightarrow> Inr ((s0, arr), h0)
       | Some j \<Rightarrow> shuffle_from L i (swap_at arr (Suc i) (unat j)) h0) = Inr ((s, arr'), h')"
    by (auto simp: andThen_eq_Inr)
  show ?case
  proof (cases j)
    case None
    with rest show ?thesis by simp
  next
    case (Some v)
    have "v \<le> of_nat (Suc i)"
      using UniformRandom_range [of L 0 "of_nat (Suc i)" h s0 v h0] u Some by simp
    then have "unat v < length arr"
      using Suc.prems(1,3) by (simp add: word_le_nat_alt unat_of_nat_u32 del: of_nat_Suc)
    then have "mset (swap_at arr (Suc i) (unat v)) = mset arr"
      using Suc.prems(1) by (intro swap_at_mset) simp_all
    with Suc.IH [of "swap_at arr (Suc i) (unat v)" h0] Suc.prems rest Some
    show ?thesis by simp
  qed
qed

lemma swap_all_perm: "swap_all js i arr = Inr arr' \<Longrightarrow> mset arr' = mset arr"
  by (induction js i arr rule: swap_all.induct) (auto simp: swap_at_mset split: if_splits)

lemma swap_all_returns:
  "i + length js \<le> length arr \<Longrightarrow> (\<forall>j \<in> set js. j < length arr) \<Longrightarrow>
    \<exists>arr'. swap_all js i arr = Inr arr'"
  by (induction js i arr rule: swap_all.induct) auto

lemma read_bitset_bound: "read_bitset s < 2 ^ length s"
proof -
  have gen: "foldl (\<lambda>acc c. 2 * acc + (if c = CHR ''1'' then 1 else 0)) a cs
      < (a + 1) * 2 ^ length cs" for a :: nat and cs
  proof (induction cs arbitrary: a)
    case Nil
    then show ?case by simp
  next
    case (Cons c cs)
    have "(2 * a + (if c = CHR ''1'' then 1 else 0) + 1) * 2 ^ length cs
        \<le> (2 * a + 2) * 2 ^ length cs"
      by (intro mult_le_mono1) simp
    also have "\<dots> = (a + 1) * 2 ^ length (c # cs)" by simp
    finally show ?case
      using Cons.IH [of "2 * a + (if c = CHR ''1'' then 1 else 0)"] by simp
  qed
  let ?t = "takeWhile is_bit (take 32 s)"
  have "length ?t \<le> length s"
    using length_takeWhile_le [of is_bit "take 32 s"] by simp
  then have pow: "(2 :: nat) ^ length ?t \<le> 2 ^ length s"
    by (rule power_increasing) simp
  have "read_bitset s < 2 ^ length ?t" using gen [of 0 ?t] by (simp add: read_bitset_def)
  from this pow show ?thesis by (rule less_le_trans)
qed

lemma floor_log2_bounds: "0 < n \<Longrightarrow> 2 ^ floor_log2 n \<le> n \<and> n < 2 ^ Suc (floor_log2 n)"
proof (induction n rule: floor_log2.induct)
  case (1 n)
  show ?case
  proof (cases "n < 2")
    case True
    with 1 show ?thesis by (subst (1 2) floor_log2.simps) simp
  next
    case False
    then have "floor_log2 n = Suc (floor_log2 (n div 2))" by (subst floor_log2.simps) simp
    with 1 False show ?thesis by auto
  qed
qed

lemma RandomPermutation_returns:
  assumes ff3: "ff3_ok L" and ne: "arr \<noteq> []" and small: "length arr < 2 ^ 32"
  shows "\<exists>arr'. RandomPermutation L arr h = Inr ((OK, arr'), h\<lparr>draws := draws h + 1\<rparr>)
    \<and> mset arr' = mset arr"
proof -
  let ?ord = "floor_log2 (length arr)"
  let ?key = "randombytes_buf L (draws h) 32"
  have b: "2 ^ ?ord \<le> length arr" using ne floor_log2_bounds by simp
  then have "(2 :: nat) ^ ?ord < 2 ^ 32" using small by (rule le_less_trans)
  then have o: "?ord < 32" by (simp only: power_strict_increasing_iff)
  have "perm_entry L ?key ?ord x < length arr" for x
  proof -
    have "perm_entry L ?key ?ord x < 2 ^ ?ord"
      using read_bitset_bound [of "ff3_encrypt L ?key (drop (32 - ?ord) (bitset_string x))"]
        ff3 o by (simp add: perm_entry_def ff3_ok_def bitset_string_def)
    with b show ?thesis by simp
  qed
  then obtain arr' where r: "swap_all (map (perm_entry L ?key ?ord) arr) 0 arr = Inr arr'"
    using swap_all_returns [of 0 "map (perm_entry L ?key ?ord) arr" arr] by auto
  then have "mset arr' = mset arr" by (rule swap_all_perm)
  with r o ne show ?thesis by (simp add: RandomPermutation_def Let_def)
qed
section \<open>What a sealed block is\<close>

text \<open>A block without the two fields that encryption overwrites.\<close>

definition payload :: "oram_block \<Rightarrow> oram_block" where
  "payload b = b\<lparr>header := (header b)\<lparr>iv := [], mac_tag := []\<rparr>\<rparr>"

text \<open>The singleton exists, is initialised and has session key \<open>k\<close>.\<close>

definition keyed :: "bytes \<Rightarrow> host \<Rightarrow> bool" where
  "keyed k h \<longleftrightarrow> (\<exists>c. singleton h = Some c \<and> is_initialized c \<and> is_setup c
     \<and> session_key_rx c = k)"

text \<open>\<open>b'\<close> is an encryption of \<open>b\<close> under \<open>k\<close>.\<close>

definition sealed :: "libs \<Rightarrow> bytes \<Rightarrow> oram_block \<Rightarrow> oram_block \<Rightarrow> bool" where
  "sealed L k b' b \<longleftrightarrow> wf_block b' \<and> wf_block b \<and> block_id (header b') = block_id (header b)
     \<and> aes_decrypt L k (iv (header b')) (enc_region b' @ mac_tag (header b')) = Some (enc_region b)
     \<and> drop 508 (data b') = drop 508 (data b)"

section \<open>Encryption and decryption of blocks\<close>

lemma block_bytes_split:
  assumes "wf_block b"
  shows "block_bytes b = iv (header b) @ mac_tag (header b) @ le_bytes 4 (block_id (header b))
      @ enc_region b @ drop 508 (data b)"
    and "enc_region b = le_bytes 4 (btype (header b)) @ pad (header b)
      @ le_bytes 8 (data_len (header b)) @ take 508 (data b)"
    and "length (enc_region b) = 524"
proof -
  show e: "enc_region b = le_bytes 4 (btype (header b)) @ pad (header b)
      @ le_bytes 8 (data_len (header b)) @ take 508 (data b)"
    using assms
    by (simp add: enc_region_def enc_size_def size_defs block_bytes_def header_bytes_def
        wf_block_def)
  show "length (enc_region b) = 524" using assms e by (simp add: wf_block_def)
  show "block_bytes b = iv (header b) @ mac_tag (header b) @ le_bytes 4 (block_id (header b))
      @ enc_region b @ drop 508 (data b)"
    by (simp add: e block_bytes_def header_bytes_def)
qed

lemma le_bytes_inject:
  "LENGTH('a) \<le> 8 * n \<Longrightarrow> le_bytes n (v :: 'a::len word) = le_bytes n w \<longleftrightarrow> v = w"
  by (metis le_word_le_bytes)

lemma bytes_block_image:
  assumes "length i = 12" "length m = 16" "length e = 524" "length d = 4"
    and b: "b = bytes_block (i @ m @ le_bytes 4 (a :: u32) @ e @ d)"
  shows "wf_block b" "iv (header b) = i" "mac_tag (header b) = m" "block_id (header b) = a"
    "enc_region b = e" "drop 508 (data b) = d"
proof -
  show wf: "wf_block b" using assms by simp
  have "block_bytes b = i @ m @ le_bytes 4 a @ e @ d" using assms by simp
  moreover note block_bytes_split(1) [OF wf]
  ultimately have eq: "iv (header b) @ mac_tag (header b) @ le_bytes 4 (block_id (header b))
      @ enc_region b @ drop 508 (data b) = i @ m @ le_bytes 4 a @ e @ d" by simp
  have len: "length (iv (header b)) = 12" "length (mac_tag (header b)) = 16"
    "length (enc_region b) = 524"
    using wf block_bytes_split(3) [OF wf] by (simp_all add: wf_block_def)
  show "iv (header b) = i" "mac_tag (header b) = m" "block_id (header b) = a"
    "enc_region b = e" "drop 508 (data b) = d"
    using eq len assms(1-4) by (simp_all add: le_bytes_inject)
qed

lemma enc_region_set [simp]:
  assumes "wf_block b" "length v = 12"
  shows "enc_region (set_iv b v) = enc_region b"
proof -
  have "wf_block (set_iv b v)" using assms by (simp add: set_iv_def wf_block_def)
  with assms show ?thesis by (simp add: block_bytes_split(2)) (simp add: set_iv_def)
qed

lemma EncryptBlock_seals:
  assumes L: "sodium_ok L" and wf: "wf_block b" and k: "keyed k h"
  shows "\<exists>b'. EncryptBlock L b h = Inr ((OK, b'), h\<lparr>draws := draws h + 1\<rparr>) \<and> sealed L k b' b"
proof -
  let ?n = "randombytes_buf L (draws h) 12"
  have len: "length ?n = 12" using L by (simp add: sodium_ok_def)
  from k obtain c where c: "singleton h = Some c" "is_initialized c" "is_setup c"
    "session_key_rx c = k" by (auto simp: keyed_def)
  from L obtain e where e: "aes_encrypt L k ?n (enc_region b) = Some e"
    "length e = length (enc_region b) + 16" "aes_decrypt L k ?n e = Some (enc_region b)"
    unfolding sodium_ok_def by blast
  then have le: "length e = 540" using block_bytes_split(3) [OF wf] by simp
  let ?b2 = "set_mac (set_iv b ?n) (drop 524 e)"
  have wf2: "wf_block ?b2"
    using wf len le by (simp add: set_iv_def set_mac_def wf_block_def)
  have d2: "data ?b2 = data b" and i2: "block_id (header ?b2) = block_id (header b)"
    by (simp_all add: set_iv_def set_mac_def)
  let ?img = "?n @ drop 524 e @ le_bytes 4 (block_id (header b)) @ take 524 e @ drop 508 (data b)"
  have ld: "length (drop 508 (data b)) = 4" using wf by (simp add: wf_block_def)
  have "overwrite 32 (take 524 e) (block_bytes ?b2) = ?img"
    using block_bytes_split(1,3) [OF wf2] len le d2 i2
    by (simp add: overwrite_def) (simp add: set_iv_def set_mac_def)
  moreover have "Cryptor_Encrypt L c (enc_region (set_iv b ?n)) ?n = Inr (OK, e)"
    using L wf len c e by (simp add: Cryptor_Encrypt_def CryptoPrelogue_def sodium_ok_def)
  ultimately have "EncryptBlock L b h
      = Inr ((OK, bytes_block ?img), h\<lparr>draws := draws h + 1\<rparr>)"
    using le c by (simp add: EncryptBlock_def RandomBytes_def CheckStatus_def with_cryptor_def
        Let_def size_defs)
  moreover have "sealed L k (bytes_block ?img) b"
    using bytes_block_image [of ?n "drop 524 e" "take 524 e" "drop 508 (data b)"
        "bytes_block ?img" "block_id (header b)"] wf len le ld e(3)
    by (simp add: sealed_def)
  ultimately show ?thesis by blast
qed

lemma DecryptBlock_sealed:
  assumes L: "sodium_ok L" and s: "sealed L k b' b" and k: "keyed k h"
  shows "\<exists>b''. DecryptBlock L b' h = Inr (OK, b'') \<and> payload b'' = payload b \<and> wf_block b''"
proof -
  from k obtain c where c: "singleton h = Some c" "is_initialized c" "is_setup c"
    "session_key_rx c = k" by (auto simp: keyed_def)
  from s have wf': "wf_block b'" and wf: "wf_block b"
    and i: "block_id (header b') = block_id (header b)"
    and dec: "aes_decrypt L k (iv (header b')) (enc_region b' @ mac_tag (header b'))
       = Some (enc_region b)"
    and dd: "drop 508 (data b') = drop 508 (data b)"
    by (auto simp: sealed_def)
  let ?b = "set_mac (set_iv b (iv (header b'))) (mac_tag (header b'))"
  have wfb: "wf_block ?b"
    using wf wf' by (simp add: set_iv_def set_mac_def wf_block_def)
  have "enc_region ?b = enc_region b"
    using wf wfb by (simp add: block_bytes_split(2)) (simp add: set_iv_def set_mac_def)
  then have "overwrite 32 (enc_region b) (block_bytes b') = block_bytes ?b"
    using block_bytes_split(1) [OF wfb] block_bytes_split(1,3) [OF wf'] wf' i dd
      block_bytes_split(3) [OF wf]
    by (simp add: overwrite_def wf_block_def) (simp add: set_iv_def set_mac_def)
  moreover have "Cryptor_Decrypt L c (enc_region b' @ mac_tag (header b')) (iv (header b'))
      = Inr (OK, enc_region b)"
    using L c dec wf' block_bytes_split(3) [OF wf']
    by (simp add: Cryptor_Decrypt_def CryptoPrelogue_def sodium_ok_def size_defs)
  ultimately have "DecryptBlock L b' h = Inr (OK, ?b)"
    using c wfb by (simp add: DecryptBlock_def with_cryptor_def size_defs)
  moreover have "payload ?b = payload b"
    by (simp add: payload_def set_iv_def set_mac_def)
  ultimately show ?thesis using wfb by blast
qed

section \<open>Payloads\<close>

lemma payload_fields [simp]:
  "block_id (header (payload b)) = block_id (header b)"
  "btype (header (payload b)) = btype (header b)"
  "pad (header (payload b)) = pad (header b)"
  "data_len (header (payload b)) = data_len (header b)"
  "data (payload b) = data b"
  by (simp_all add: payload_def)

lemma payload_eqD:
  assumes "payload b = payload c"
  shows "block_id (header b) = block_id (header c)" "btype (header b) = btype (header c)"
    "pad (header b) = pad (header c)" "data_len (header b) = data_len (header c)"
    "data b = data c"
  using arg_cong [OF assms, of "\<lambda>b. block_id (header b)"]
    arg_cong [OF assms, of "\<lambda>b. btype (header b)"]
    arg_cong [OF assms, of "\<lambda>b. pad (header b)"]
    arg_cong [OF assms, of "\<lambda>b. data_len (header b)"]
    arg_cong [OF assms, of data]
  by simp_all

lemma BlockEqual_payload:
  assumes "payload b = payload c" shows "BlockEqual a b = BlockEqual a c"
  using payload_eqD [OF assms] by (simp add: BlockEqual_def)

lemma keyed_draws [simp]: "keyed k (h\<lparr>draws := n\<rparr>) = keyed k h"
  by (simp add: keyed_def)

lemma sealed_length: "sealed L k c b \<Longrightarrow> length (block_bytes c) = 560"
  by (simp add: sealed_def)

text \<open>One iteration: a sealed block is opened, changed and sealed again.\<close>

lemma reseal:
  assumes L: "sodium_ok L" and s: "sealed L k c b" and k: "keyed k h"
    and f: "\<And>x. payload x = payload b \<Longrightarrow> wf_block x \<Longrightarrow> wf_block (f x)"
  obtains d e where "DecryptBlock L c h = Inr (OK, d)" "payload d = payload b"
    "EncryptBlock L (f d) h = Inr ((OK, e), h\<lparr>draws := draws h + 1\<rparr>)" "sealed L k e (f d)"
proof -
  from DecryptBlock_sealed [OF L s k] obtain d
    where d: "DecryptBlock L c h = Inr (OK, d)" "payload d = payload b" "wf_block d" by blast
  from EncryptBlock_seals [OF L f [OF d(2,3)] k] obtain e
    where "EncryptBlock L (f d) h = Inr ((OK, e), h\<lparr>draws := draws h + 1\<rparr>)"
      "sealed L k e (f d)" by blast
  with d that show thesis by blast
qed

end
