(* ===== verification/Oram_Utils.thy ===== *)
theory Oram_Utils
  imports Oram_Crypto
begin

text \<open>
  The rest of base/oram\_utils.h and oram\_utils.cc: permuting a vector, padding a bucket
  with random blocks, sampling a bucket, compression, splitting a text.
\<close>

section \<open>PermuteBy\<close>

text \<open>Element \<open>i\<close> goes to place \<open>perm[i]\<close> of a copy; both vectors are indexed unchecked.\<close>

fun permute_loop :: "u32 list \<Rightarrow> nat \<Rightarrow> 'a list \<Rightarrow> 'a list \<Rightarrow> 'a list exec" where
  "permute_loop perm i [] clone = Inr clone"
| "permute_loop perm i (x # xs) clone =
     (if i < length perm \<and> unat (perm ! i) < length clone
      then permute_loop perm (Suc i) xs (clone[unat (perm ! i) := x])
      else Inl Undefined_Behaviour)"

definition PermuteBy :: "u32 list \<Rightarrow> 'a list \<Rightarrow> 'a list exec" where
  "PermuteBy perm arr = permute_loop perm 0 arr arr"

section \<open>Buckets\<close>

text \<open>The blocks \<open>PadStash\<close> adds are random in every field, the type included.\<close>

fun pad_loop :: "libs \<Rightarrow> nat \<Rightarrow> oram_block list \<Rightarrow> host \<Rightarrow> (oram_block list \<times> host) exec" where
  "pad_loop L 0 stash h = Inr (stash, h)"
| "pad_loop L (Suc n) stash h =
     (case RandomBytes L ORAM_BLOCK_SIZE h of ((s, bs), h') \<Rightarrow>
        CheckStatus s (pad_loop L n (stash @ [bytes_block bs]) h'))"

definition PadStash ::
    "libs \<Rightarrow> oram_block list \<Rightarrow> nat \<Rightarrow> host \<Rightarrow> (oram_block list \<times> host) exec" where
  "PadStash L stash bucket_size h =
     (if length stash < bucket_size then pad_loop L (bucket_size - length stash) stash h
      else Inr (stash, h))"

text \<open>
  The loop of \<open>SampleRandomBucket\<close>. \<open>memory i\<close> is what the uninitialised local block holds
  in iteration \<open>i\<close>; the fields the code does not set keep it.
\<close>

fun sample_loop :: "libs \<Rightarrow> (nat \<Rightarrow> oram_block) \<Rightarrow> nat \<Rightarrow> nat \<Rightarrow> nat \<Rightarrow> nat \<Rightarrow> host
    \<Rightarrow> oram_block list \<Rightarrow> (oram_block list \<times> host) exec" where
  "sample_loop L memory sz off i 0 h bucket = Inr (bucket, h)"
| "sample_loop L memory sz off i (Suc n) h bucket =
     (case RandomBytes L (DEFAULT_ORAM_DATA_SIZE - 1) h of ((s, bs), h') \<Rightarrow>
        if \<not> ok s then Inl Process_Exit
        else
          let b = (memory i)\<lparr>header := (header (memory i))
                    \<lparr>block_id := of_nat (i + off),
                     btype := (if i < sz then BlockType_kNormal else BlockType_kDummy)\<rparr>,
                    data := of_nat (i + off) # bs\<rparr>
          in sample_loop L memory sz off (Suc i) n h' (bucket @ [b]))"

definition SampleRandomBucket :: "libs \<Rightarrow> (nat \<Rightarrow> oram_block) \<Rightarrow> nat \<Rightarrow> nat \<Rightarrow> nat \<Rightarrow> host
    \<Rightarrow> (oram_block list \<times> host) exec" where
  "SampleRandomBucket L memory sz tree_size initial_offset h =
     andThen (sample_loop L memory (sz div 2) initial_offset 0 tree_size h []) (\<lambda>(bucket, h').
     andThen (RandomShuffle L bucket h') (\<lambda>((s, bucket'), h'').
       CheckStatus s (Inr (bucket', h''))))"

section \<open>Compression\<close>

definition DataCompress :: "libs \<Rightarrow> bytes \<Rightarrow> oram_status \<times> bytes" where
  "DataCompress L d =
     (if lz4_compress L d = []
      then (mk_status kExternalError ''lz4 returned a zero compressed size'' ''DataCompress'', [])
      else (OK, lz4_compress L d))"

text \<open>
  The result of \<open>LZ4_decompress_safe\<close> is stored as a \<open>size_t\<close> and compared with zero, so a
  negative error code counts as success. The limit is twice the compressed size.
\<close>

definition DataDecompress :: "libs \<Rightarrow> bytes \<Rightarrow> oram_status \<times> bytes" where
  "DataDecompress L d =
     (case lz4_decompress L d (length d * 2) of (res, out) \<Rightarrow>
        if res = 0
        then (mk_status kExternalError
               ''lz4 returned a zero decompressed size (the input may be corrupted)''
               ''DataDecompress'', out)
        else (OK, out))"

section \<open>Splitting a text\<close>

text \<open>\<open>getline\<close> until the stream ends: no empty item after a final delimiter.\<close>

lemma tl_dropWhile_shorter: "s \<noteq> [] \<Longrightarrow> length (tl (dropWhile P s)) < length s"
  using length_dropWhile_le [of P s] by (cases s) (simp_all add: le_imp_less_Suc le_diff_conv)

function split_text :: "'a list \<Rightarrow> 'a \<Rightarrow> 'a list list" where
  "split_text s delim =
     (if s = [] then []
      else takeWhile (\<lambda>c. c \<noteq> delim) s
        # split_text (tl (dropWhile (\<lambda>c. c \<noteq> delim) s)) delim)"
  by pat_completeness auto
termination
  by (relation "measure (\<lambda>(s, _). length s)") (simp_all add: tl_dropWhile_shorter del: length_tl)

declare split_text.simps [simp del]

section \<open>What the compression library promises\<close>

text \<open>
  LZ4 is lossless when the output buffer is large enough.
\<close>

definition lz4_ok :: "libs \<Rightarrow> bool" where
  "lz4_ok L \<longleftrightarrow> (\<forall>d. d \<noteq> [] \<longrightarrow> lz4_compress L d \<noteq> [])
     \<and> (\<forall>d n. length d \<le> n \<longrightarrow> lz4_decompress L (lz4_compress L d) n = (int (length d), d))"

lemma DataCompress_ok: "lz4_ok L \<Longrightarrow> d \<noteq> [] \<Longrightarrow> DataCompress L d = (OK, lz4_compress L d)"
  by (simp add: DataCompress_def lz4_ok_def)

text \<open>
  \<open>DataDecompress\<close> allows for twice the compressed size, so a block comes back only if LZ4 did
  not make it smaller than half.
\<close>

definition bulky :: "libs \<Rightarrow> oram_block \<Rightarrow> bool" where
  "bulky L b \<longleftrightarrow> 560 \<le> 2 * length (lz4_compress L (block_bytes b))"

lemma DataDecompress_bulky:
  assumes L: "lz4_ok L" and b: "wf_block b" "bulky L b"
  shows "DataDecompress L (lz4_compress L (block_bytes b)) = (OK, block_bytes b)"
proof -
  have "560 \<le> length (lz4_compress L (block_bytes b)) * 2"
    using b(2) by (simp add: bulky_def mult.commute)
  then have "lz4_decompress L (lz4_compress L (block_bytes b))
      (length (lz4_compress L (block_bytes b)) * 2) = (560, block_bytes b)"
    using L b(1) by (simp add: lz4_ok_def)
  then show ?thesis by (simp add: DataDecompress_def)
qed

text \<open>
  What the tree ORAMs rely on, since ciphertexts do not compress: every encryption of the block,
  with a nonce that the generator gives, is bulky; and so for every normal block with given
  data and length.
\<close>

definition dense_block :: "libs \<Rightarrow> bytes \<Rightarrow> oram_block \<Rightarrow> bool" where
  "dense_block L k b \<longleftrightarrow>
     (\<forall>h b' h'. keyed k h \<and> EncryptBlock L b h = Inr ((OK, b'), h') \<longrightarrow> bulky L b')"

definition dense_data :: "libs \<Rightarrow> bytes \<Rightarrow> oram_block \<Rightarrow> bool" where
  "dense_data L k x \<longleftrightarrow> (\<forall>b. wf_block b \<and> btype (header b) = BlockType_kNormal
     \<and> data b = data x \<and> data_len (header b) = data_len (header x) \<longrightarrow> dense_block L k b)"

lemma dense_data_payload [simp]: "dense_data L k (payload b) = dense_data L k b"
  by (simp add: dense_data_def)

lemma dense_dataD:
  "dense_data L k b \<Longrightarrow> wf_block b \<Longrightarrow> btype (header b) = BlockType_kNormal \<Longrightarrow> dense_block L k b"
  by (simp add: dense_data_def)

text \<open>What a tree ORAM can store.\<close>

definition storable :: "libs \<Rightarrow> bytes \<Rightarrow> oram_block \<Rightarrow> bool" where
  "storable L k b \<longleftrightarrow> wf_block b \<and> dense_data L k b"

section \<open>What PermuteBy does\<close>

lemma permute_loop_view:
  "i + length xs = length perm \<Longrightarrow> length clone = length perm \<Longrightarrow>
    (\<forall>j < length perm. unat (perm ! j) < length perm) \<Longrightarrow> distinct (map unat perm) \<Longrightarrow>
    \<exists>out. permute_loop perm i xs clone = Inr out \<and> length out = length clone
      \<and> (\<forall>j < length xs. out ! unat (perm ! (i + j)) = xs ! j)
      \<and> (\<forall>p. p \<notin> unat ` set (drop i perm) \<longrightarrow> out ! p = clone ! p)"
proof (induction xs arbitrary: i clone)
  case Nil
  then show ?case by simp
next
  case (Cons x xs)
  let ?p = "unat (perm ! i)"
  have i: "i < length perm" using Cons.prems(1) by simp
  have dr: "drop i perm = perm ! i # drop (Suc i) perm" using i by (simp add: Cons_nth_drop_Suc)
  have "distinct (map unat (drop i perm))" using Cons.prems(4) by (metis distinct_drop drop_map)
  then have notin: "?p \<notin> unat ` set (drop (Suc i) perm)" by (simp add: dr)
  from Cons.IH [of "Suc i" "clone[?p := x]"] Cons.prems obtain out where
    out: "permute_loop perm (Suc i) xs (clone[?p := x]) = Inr out" "length out = length clone"
      "\<forall>j < length xs. out ! unat (perm ! (Suc i + j)) = xs ! j"
      "\<forall>p. p \<notin> unat ` set (drop (Suc i) perm) \<longrightarrow> out ! p = clone[?p := x] ! p" by auto
  have "out ! ?p = x" using out(4) notin i Cons.prems(2,3) by simp
  then have "\<forall>j < length (x # xs). out ! unat (perm ! (i + j)) = (x # xs) ! j"
    using out(3) by (auto simp: less_Suc_eq_0_disj)
  moreover have "\<forall>p. p \<notin> unat ` set (drop i perm) \<longrightarrow> out ! p = clone ! p"
    using out(4) by (auto simp: dr)
  ultimately show ?case using out(1,2) i Cons.prems(2,3) by simp
qed

lemma PermuteBy_permutes:
  assumes "length arr = length perm" "distinct perm" "\<forall>j < length perm. unat (perm ! j) < length perm"
  shows "\<exists>out. PermuteBy perm arr = Inr out \<and> length out = length arr
    \<and> (\<forall>j < length arr. out ! unat (perm ! j) = arr ! j) \<and> mset out = mset arr"
proof -
  have inj: "distinct (map unat perm)" using assms(2) by (simp add: distinct_map inj_on_def word_unat_eq_iff)
  from permute_loop_view [of 0 arr perm arr] assms(1,3) inj obtain out where
    out: "PermuteBy perm arr = Inr out" "length out = length arr"
      "\<forall>j < length arr. out ! unat (perm ! j) = arr ! j" by (auto simp: PermuteBy_def)
  have "set (map unat perm) \<subseteq> {..<length perm}" using assms(3) by (auto simp: in_set_conv_nth)
  moreover have "card (set (map unat perm)) = length (map unat perm)" using inj by (rule distinct_card)
  ultimately have "set (map unat perm) = {..<length perm}"
    by (intro card_subset_eq) simp_all
  then have "set (map unat perm) = set [0..<length perm]" by (simp add: lessThan_atLeast0)
  then have "mset (map unat perm) = mset [0..<length perm]"
    by (rule set_eq_iff_mset_eq_distinct [OF inj distinct_upt, THEN iffD1])
  then have "image_mset ((!) out) (mset (map unat perm)) = image_mset ((!) out) (mset [0..<length out])"
    using out(2) assms(1) by simp
  then have "mset (map ((!) out) (map unat perm)) = mset out"
    unfolding mset_map [symmetric] map_nth .
  moreover have "map ((!) out) (map unat perm) = arr"
    using out(3) assms(1) by (intro nth_equalityI) simp_all
  ultimately have "mset out = mset arr" by (simp only:)
  with out show ?thesis by simp
qed

end
