(* ===== verification/Sqrt_Storage.thy ===== *)
theory Sqrt_Storage
  imports Flat_Storage Oram_Utils
begin

text \<open>
  The storage of the square root ORAM (server/sqrt\_oram\_storage.h and .cc): main memory,
  dummies and the shelter, a vector of pairs of a tag and a block.
\<close>

record sqrt_storage = base_storage +
  main_memory :: "bytes list"
  shelter :: "(u32 \<times> bytes) list"
  dummy :: "bytes list"
  squared_m :: nat

definition SqrtOramServerStorage :: "u32 \<Rightarrow> nat \<Rightarrow> nat \<Rightarrow> nat \<Rightarrow> bytes \<Rightarrow> sqrt_storage" where
  "SqrtOramServerStorage i capacity block_size m instance_hash =
     \<lparr>st_id = i, st_capacity = capacity, st_type = kSqrtStorage, st_block_size = block_size,
      st_instance_hash = instance_hash, main_memory = [], shelter = [], dummy = [],
      squared_m = m\<rparr>"

definition Check :: "sqrt_storage \<Rightarrow> u32 \<Rightarrow> u32 \<Rightarrow> bool" where
  "Check st pos type =
     (if type = 0 then True
      else if type = 1 then unat pos \<le> length (main_memory st) + length (dummy st)
      else if type = 2 then True
      else False)"

text \<open>Step 1 of \<open>DoPermute\<close>: the shelter's blocks go back to the places of their tags.\<close>

fun flush_shelter ::
    "(u32 \<times> bytes) list \<Rightarrow> bytes list \<Rightarrow> bytes list \<Rightarrow> (bytes list \<times> bytes list) exec" where
  "flush_shelter [] mm dm = Inr (mm, dm)"
| "flush_shelter ((tag, d) # sh) mm dm =
     (if tag \<noteq> kInvalidMask \<and> d \<noteq> []
      then if unat tag < length mm then flush_shelter sh (mm[unat tag := d]) dm
        else if unat tag - length mm < length dm
          then flush_shelter sh mm (dm[unat tag - length mm := d])
          else Inl Undefined_Behaviour
      else flush_shelter sh mm dm)"

definition DoPermute :: "sqrt_storage \<Rightarrow> u32 list \<Rightarrow> sqrt_storage exec" where
  "DoPermute st perm =
     panic_if (length perm \<noteq> length (main_memory st) + length (dummy st))
       (andThen (flush_shelter (shelter st) (main_memory st) (dummy st)) (\<lambda>(mm, dm).
        andThen (PermuteBy perm (mm @ dm)) (\<lambda>arr.
          Inr (st\<lparr>main_memory := take (length mm) arr, dummy := drop (length mm) arr,
                  shelter := replicate (length (shelter st)) (kInvalidMask, [])\<rparr>))))"

text \<open>The first free entry takes the block; without one the server exits (\<open>PANIC\<close>).\<close>

fun write_shelter ::
    "(u32 \<times> bytes) list \<Rightarrow> u32 \<Rightarrow> bytes \<Rightarrow> (u32 \<times> bytes) list exec" where
  "write_shelter [] tag d = Inl Process_Exit"
| "write_shelter ((t, e) # sh) tag d =
     (if e = [] \<and> t = kInvalidMask then Inr ((tag, d) # sh)
      else andThen (write_shelter sh tag d) (\<lambda>sh'. Inr ((t, e) # sh')))"

definition WriteBlockToShelter :: "sqrt_storage \<Rightarrow> u32 \<Rightarrow> bytes \<Rightarrow> sqrt_storage exec" where
  "WriteBlockToShelter st tag d =
     andThen (write_shelter (shelter st) tag d) (\<lambda>sh. Inr (st\<lparr>shelter := sh\<rparr>))"

text \<open>Reading an entry of the shelter empties it.\<close>

definition ReadBlockFromShelter :: "sqrt_storage \<Rightarrow> u32 \<Rightarrow> (bytes \<times> sqrt_storage) exec" where
  "ReadBlockFromShelter st pos =
     (if unat pos < length (shelter st)
      then Inr (snd (shelter st ! unat pos),
                st\<lparr>shelter := (shelter st)[unat pos := (kInvalidMask, [])]\<rparr>)
      else Inl Undefined_Behaviour)"

definition ReadBlockFromDummy :: "sqrt_storage \<Rightarrow> nat \<Rightarrow> bytes exec" where
  "ReadBlockFromDummy st pos =
     (if pos < length (dummy st) then Inr (dummy st ! pos) else Inl Undefined_Behaviour)"

definition ReadBlockFromMain :: "sqrt_storage \<Rightarrow> u32 \<Rightarrow> bytes exec" where
  "ReadBlockFromMain st pos =
     (if unat pos < length (main_memory st) then Inr (main_memory st ! unat pos)
      else ReadBlockFromDummy st (unat pos - length (main_memory st)))"

fun fill_loop :: "bytes list \<Rightarrow> nat \<Rightarrow> sqrt_storage \<Rightarrow> sqrt_storage" where
  "fill_loop [] i st = st"
| "fill_loop (d # ds) i st =
     fill_loop ds (Suc i)
       (if i < st_capacity st then st\<lparr>main_memory := main_memory st @ [d]\<rparr>
        else st\<lparr>dummy := dummy st @ [d], shelter := shelter st @ [(kInvalidMask, [])]\<rparr>)"

definition Fill :: "sqrt_storage \<Rightarrow> bytes list \<Rightarrow> sqrt_storage" where
  "Fill st ds = fill_loop ds 0 st"

section \<open>Permuting\<close>

text \<open>The shelter's blocks, written over the array they belong to.\<close>

definition sheltered :: "(u32 \<times> bytes) list \<Rightarrow> bytes list \<Rightarrow> bytes list" where
  "sheltered sh arr = fold (\<lambda>(tag, d) a. if tag \<noteq> kInvalidMask \<and> d \<noteq> [] then a[unat tag := d] else a)
     sh arr"

lemma flush_shelter_view:
  "(\<forall>(tag, d) \<in> set sh. tag = kInvalidMask \<or> d = [] \<or> unat tag < length mm + length dm) \<Longrightarrow>
    \<exists>mm' dm'. flush_shelter sh mm dm = Inr (mm', dm') \<and> mm' @ dm' = sheltered sh (mm @ dm)
      \<and> length mm' = length mm \<and> length dm' = length dm"
proof (induction sh mm dm rule: flush_shelter.induct)
  case (1 mm dm)
  then show ?case by (simp add: sheltered_def)
next
  case (2 tag d sh mm dm)
  then show ?case by (auto simp: sheltered_def list_update_append)
qed

lemma DoPermute_view:
  assumes perm: "length perm = length (main_memory st) + length (dummy st)" "distinct perm"
      "\<forall>j < length perm. unat (perm ! j) < length perm"
    and tags: "\<forall>(tag, d) \<in> set (shelter st). tag = kInvalidMask \<or> d = [] \<or> unat tag < length perm"
  shows "\<exists>st'. DoPermute st perm = Inr st'
    \<and> (\<forall>j < length perm. (main_memory st' @ dummy st') ! unat (perm ! j)
         = sheltered (shelter st) (main_memory st @ dummy st) ! j)
    \<and> length (main_memory st') = length (main_memory st) \<and> length (dummy st') = length (dummy st)
    \<and> shelter st' = replicate (length (shelter st)) (kInvalidMask, [])"
proof -
  from flush_shelter_view [of "shelter st" "main_memory st" "dummy st"] tags perm(1)
  obtain mm dm where f: "flush_shelter (shelter st) (main_memory st) (dummy st) = Inr (mm, dm)"
    "mm @ dm = sheltered (shelter st) (main_memory st @ dummy st)"
    "length mm = length (main_memory st)" "length dm = length (dummy st)" by auto
  from PermuteBy_permutes [OF _ perm(2,3), of "mm @ dm"] f(3,4) perm(1) obtain out where
    out: "PermuteBy perm (mm @ dm) = Inr out" "length out = length perm"
      "\<forall>j < length perm. out ! unat (perm ! j) = (mm @ dm) ! j" by auto
  let ?st = "st\<lparr>main_memory := take (length mm) out, dummy := drop (length mm) out,
      shelter := replicate (length (shelter st)) (kInvalidMask, [])\<rparr>"
  have "DoPermute st perm = Inr ?st"
    using f(1) out(1) perm(1) by (simp add: DoPermute_def panic_if_def)
  then show ?thesis using out(2,3) f(2-4) perm(1) by (intro exI [of _ ?st]) simp
qed

end
