(* ===== verification/Tree_Storage.thy ===== *)
theory Tree_Storage
  imports Flat_Storage Oram_Utils
begin

text \<open>
  The storage of the tree ORAMs (server/tree\_oram\_storage.h and .cc): a map from
  (level, offset) to buckets of compressed blocks.
\<close>

type_synonym tag = "nat \<times> nat"

record tree_storage = base_storage +
  tree_map :: "tag \<rightharpoonup> bytes list"
  tree_level :: nat
  tree_bucket_size :: nat

text \<open>The two loops of the constructor: every tag of every level gets an empty bucket.\<close>

definition init_level :: "nat \<Rightarrow> (tag \<rightharpoonup> bytes list) \<Rightarrow> (tag \<rightharpoonup> bytes list)" where
  "init_level i m = fold (\<lambda>j m. m((i, j) \<mapsto> [])) [0..<POW2 i] m"

text \<open>For capacity 0 the level would be -1, which does not fit in a \<open>uint32_t\<close>.\<close>

definition TreeOramServerStorage ::
    "u32 \<Rightarrow> nat \<Rightarrow> nat \<Rightarrow> nat \<Rightarrow> bytes \<Rightarrow> tree_storage exec" where
  "TreeOramServerStorage i capacity block_size bucket_size instance_hash =
     (if capacity = 0 then Inl Undefined_Behaviour
      else let level = ceil_LOG_BASE2 (capacity + 1) - 1 in
        Inr \<lparr>st_id = i, st_capacity = capacity, st_type = kTreeStorage,
          st_block_size = block_size, st_instance_hash = instance_hash,
          tree_map = fold init_level [0..<level + 1] Map.empty, tree_level = level,
          tree_bucket_size = bucket_size\<rparr>)"

text \<open>
  \<open>ReportStorage\<close> in bytes, before the division by 2 ^ 20 in floating point: every entry counts as a
  block, also the emptied ones.
\<close>

definition Tree_ReportStorage :: "tree_storage \<Rightarrow> nat" where
  "Tree_ReportStorage st =
     (\<Sum>t \<in> dom (tree_map st). length (the (tree_map st t)) * ORAM_BLOCK_SIZE)"

text \<open>The offset of the bucket that the path to leaf \<open>path\<close> crosses at a level.\<close>

definition path_offset :: "nat \<Rightarrow> nat \<Rightarrow> nat \<Rightarrow> nat" where
  "path_offset leaf_level level path = path div POW2 (leaf_level - level)"

text \<open>
  The loop of \<open>ReadPath\<close>: every non-empty entry is decompressed and emptied; at an entry
  that cannot be decompressed the loop ends with the status.
\<close>

fun read_entries ::
    "libs \<Rightarrow> bytes list \<Rightarrow> oram_status \<times> oram_block list \<times> bytes list" where
  "read_entries L [] = (OK, [], [])"
| "read_entries L (d # ds) =
     (if d = [] then (case read_entries L ds of (s, out, ds') \<Rightarrow> (s, out, [] # ds'))
      else (case DataDecompress L d of (s, img) \<Rightarrow>
        if \<not> ok s
        then (Append s (mk_status kInvalidOperation ''Cannot Read from the server'' ''ReadPath''),
              [], d # ds)
        else (case read_entries L ds of
          (s', out, ds') \<Rightarrow> (s', bytes_block img # out, [] # ds'))))"

definition Tree_ReadPath :: "libs \<Rightarrow> nat \<Rightarrow> u32 \<Rightarrow> tree_storage
    \<Rightarrow> ((oram_status \<times> oram_block list) \<times> tree_storage) exec" where
  "Tree_ReadPath L level path st =
     (if tree_level st < level then Inl Undefined_Behaviour
      else let tag = (level, path_offset (tree_level st) level (unat path)) in
        case tree_map st tag of
          None \<Rightarrow> Inr ((mk_status kObjectNotFound ''Cannot find the bucket.'' ''ReadPath'', []), st)
        | Some entries \<Rightarrow> (case read_entries L entries of (s, out, entries') \<Rightarrow>
            Inr ((s, out), st\<lparr>tree_map := (tree_map st)(tag \<mapsto> entries')\<rparr>)))"

text \<open>The writing loop: each block is compressed and appended.\<close>

fun write_entries ::
    "libs \<Rightarrow> oram_block list \<Rightarrow> bytes list \<Rightarrow> oram_status \<times> bytes list" where
  "write_entries L [] acc = (OK, acc)"
| "write_entries L (b # bs) acc =
     (case DataCompress L (block_bytes b) of (s, c) \<Rightarrow>
        if \<not> ok s
        then (Append s (mk_status kInvalidOperation ''Cannot write to the server''
               ''AccurateWritePath''), acc)
        else write_entries L bs (acc @ [c]))"

text \<open>
  An initial write appends without checking that the bucket exists: with a missing
  bucket the first compressed block is written through an invalid iterator.
\<close>

definition AccurateWritePath :: "libs \<Rightarrow> nat \<Rightarrow> nat \<Rightarrow> oram_block list \<Rightarrow> write_type
    \<Rightarrow> tree_storage \<Rightarrow> (oram_status \<times> tree_storage) exec" where
  "AccurateWritePath L level offset in_bucket type st =
     (let tag = (level, offset) in
      case tree_map st tag of
        Some entries \<Rightarrow>
          (case write_entries L in_bucket (if type = kInit then entries else []) of
             (s, entries') \<Rightarrow> Inr (s, st\<lparr>tree_map := (tree_map st)(tag \<mapsto> entries')\<rparr>))
      | None \<Rightarrow>
          if type = kInit
          then (case write_entries L (take 1 in_bucket) [] of (s, written) \<Rightarrow>
                  if written = [] then Inr (s, st) else Inl Undefined_Behaviour)
          else if type = kNormal
          then Inr (mk_status kObjectNotFound ''Cannot find the bucket.'' ''AccurateWritePath'', st)
          else Inl Undefined_Behaviour)"

definition Tree_WritePath :: "libs \<Rightarrow> nat \<Rightarrow> u32 \<Rightarrow> oram_block list \<Rightarrow> tree_storage
    \<Rightarrow> (oram_status \<times> tree_storage) exec" where
  "Tree_WritePath L level path in_bucket st =
     (if tree_level st < level then Inl Undefined_Behaviour
      else AccurateWritePath L level (path_offset (tree_level st) level (unat path)) in_bucket
             kNormal st)"

section \<open>The tree that the constructor makes\<close>

lemma init_level_lookup: "init_level i m t = (if fst t = i \<and> snd t < 2 ^ i then Some [] else m t)"
proof -
  have "fold (\<lambda>j m. m((i, j) \<mapsto> [])) [0..<n] m t
      = (if fst t = i \<and> snd t < n then Some [] else m t)" for n
    by (induction n) (auto simp: less_Suc_eq)
  then show ?thesis by (simp add: init_level_def POW2_def)
qed

lemma init_tree_map:
  "fold init_level [0..<n] Map.empty t = (if fst t < n \<and> snd t < 2 ^ fst t then Some [] else None)"
  by (induction n) (auto simp: init_level_lookup less_Suc_eq)

section \<open>What is written is read once\<close>

lemma write_entries_all:
  assumes "lz4_ok L"
  shows "list_all wf_block bs \<Longrightarrow>
    write_entries L bs acc = (OK, acc @ map (\<lambda>b. lz4_compress L (block_bytes b)) bs)"
proof (induction bs arbitrary: acc)
  case (Cons b bs)
  then have "length (block_bytes b) = 560" by simp
  then have "block_bytes b \<noteq> []" by (metis list.size(3) zero_neq_numeral)
  with Cons assms show ?case by (simp add: DataCompress_ok)
qed simp

lemma read_entries_all:
  assumes "lz4_ok L"
  shows "list_all wf_block bs \<Longrightarrow> list_all (bulky L) bs \<Longrightarrow>
    read_entries L (map (\<lambda>b. lz4_compress L (block_bytes b)) bs) = (OK, bs, map (\<lambda>_. []) bs)"
proof (induction bs)
  case (Cons b bs)
  then have "lz4_compress L (block_bytes b) \<noteq> []" by (auto simp: bulky_def)
  with Cons assms show ?case by (simp add: DataDecompress_bulky)
qed simp

lemma read_entries_none: "read_entries L (map (\<lambda>_. []) bs) = (OK, [], map (\<lambda>_. []) bs)"
  by (induction bs) simp_all

lemma Tree_write_read:
  assumes L: "lz4_ok L" and bs: "list_all wf_block bs" "list_all (bulky L) bs"
    and st: "dom (tree_map st) = {(l, j). l \<le> tree_level st \<and> j < 2 ^ l}"
    and l: "l \<le> tree_level st" and x: "unat x < 2 ^ tree_level st"
    and y: "path_offset (tree_level st) l (unat y) = path_offset (tree_level st) l (unat x)"
  shows "\<exists>st1 st2 st3. Tree_WritePath L l x bs st = Inr (OK, st1)
    \<and> Tree_ReadPath L l y st1 = Inr ((OK, bs), st2) \<and> Tree_ReadPath L l y st2 = Inr ((OK, []), st3)"
proof -
  let ?n = "tree_level st" and ?t = "(l, path_offset (tree_level st) l (unat x))"
  have "(2 :: nat) ^ ?n = 2 ^ l * 2 ^ (?n - l)" using l by (simp flip: power_add)
  then have "unat x div 2 ^ (?n - l) < 2 ^ l" using x by (simp add: less_mult_imp_div_less)
  then have "?t \<in> dom (tree_map st)" using l by (simp add: st path_offset_def POW2_def)
  then obtain es where es: "tree_map st ?t = Some es" by auto
  let ?new = "map (\<lambda>b. lz4_compress L (block_bytes b)) bs"
  let ?st1 = "st\<lparr>tree_map := (tree_map st)(?t \<mapsto> ?new)\<rparr>"
  let ?st2 = "?st1\<lparr>tree_map := (tree_map ?st1)(?t \<mapsto> map (\<lambda>_. []) bs)\<rparr>"
  have "Tree_WritePath L l x bs st = Inr (OK, ?st1)"
    using l es write_entries_all [OF L bs(1), of "[]"]
    by (simp add: Tree_WritePath_def AccurateWritePath_def Let_def)
  moreover have "Tree_ReadPath L l y ?st1 = Inr ((OK, bs), ?st2)"
    using l y read_entries_all [OF L bs] by (simp add: Tree_ReadPath_def Let_def)
  moreover have "\<exists>st3. Tree_ReadPath L l y ?st2 = Inr ((OK, []), st3)"
    using l y read_entries_none [of L bs] by (simp add: Tree_ReadPath_def Let_def)
  ultimately show ?thesis by blast
qed

end
