(* ===== verification/Oram_Server.thy ===== *)
theory Oram_Server
  imports Flat_Storage Sqrt_Storage Tree_Storage
begin

text \<open>
  The service of server/oram\_server.h and oram\_server.cc: the table of storages, the
  checks every request goes through, and one function per remote call. A call takes the
  request's fields and the server's state and returns the gRPC status, the response and
  the new state.
\<close>

section \<open>State\<close>

datatype storage = Flat flat_storage | Sqrt sqrt_storage | Tree tree_storage

text \<open>
  \<open>cryptor_set\<close> says that the pointer \<open>cryptor_\<close> is not null; the object it points to is the
  process's singleton.
\<close>

record server =
  storages :: "u32 \<rightharpoonup> storage"
  server_host :: host
  cryptor_set :: bool
  server_running :: bool

record request_header =
  hdr_id :: u32
  hdr_instance_hash :: bytes
  hdr_version :: string

text \<open>
  \<open>ServerRunner::Run\<close> up to the wait: a new service, the singleton, the running flag. \<open>started\<close> says
  whether gRPC's \<open>BuildAndStart\<close> could start a server; otherwise it returns a null pointer, which is
  not looked at and dereferenced by the call of \<open>Wait\<close>.
\<close>

definition ServerRunner_Run :: "libs \<Rightarrow> cryptor \<Rightarrow> bool \<Rightarrow> host \<Rightarrow> server exec" where
  "ServerRunner_Run L memory started h =
     andThen (GetInstance L memory h) (\<lambda>h'.
       if \<not> started then Inl Undefined_Behaviour
       else Inr \<lparr>storages = Map.empty, server_host = h', cryptor_set = True, server_running = True\<rparr>)"

section \<open>Checks\<close>

definition CheckInitRequest :: "server \<Rightarrow> u32 \<Rightarrow> grpc_status" where
  "CheckInitRequest s i =
     (if storages s i \<noteq> None
      then grpc_error ALREADY_EXISTS (''ORAM id: '' @ to_string (unat i) @ '' already exists.'')
      else if i \<ge> kMaximumOramStorageNum
      then grpc_error INVALID_ARGUMENT
        (''PathORAM id: '' @ to_string (unat i) @ '' exceeds the maximum number of ORAM storages: ''
         @ to_string (unat kMaximumOramStorageNum))
      else grpc_ok)"

definition CheckIdValid :: "server \<Rightarrow> u32 \<Rightarrow> grpc_status" where
  "CheckIdValid s i =
     (if storages s i = None
      then grpc_error NOT_FOUND (''ORAM id: '' @ to_string (unat i) @ '' does not exist.'')
      else grpc_ok)"

text \<open>
  \<open>CheckStorage\<close> of oram\_server.h: its argument is the result of the dynamic cast; a
  failed cast is a failed assertion.
\<close>

definition CheckStorage ::
    "('a base_storage_scheme) option \<Rightarrow> bytes \<Rightarrow> oram_storage_type \<Rightarrow> grpc_status exec" where
  "CheckStorage dst instance_hash type =
     (case dst of
        None \<Rightarrow> Inl Assert_Failed
      | Some d \<Rightarrow> Inr
          (if type \<noteq> st_type d then grpc_error UNAVAILABLE oram_type_mismatch_err
           else if st_instance_hash d \<noteq> instance_hash
           then grpc_error UNAVAILABLE oram_hash_mismatch_err
           else grpc_ok))"

fun cast_flat :: "storage \<Rightarrow> flat_storage option" where
  "cast_flat (Flat st) = Some st" | "cast_flat _ = None"

fun cast_sqrt :: "storage \<Rightarrow> sqrt_storage option" where
  "cast_sqrt (Sqrt st) = Some st" | "cast_sqrt _ = None"

fun cast_tree :: "storage \<Rightarrow> tree_storage option" where
  "cast_tree (Tree st) = Some st" | "cast_tree _ = None"

text \<open>
  What every call on a storage starts with: \<open>CheckIdValid\<close>, then \<open>CheckStorage\<close> on the cast
  storage; the handler's body runs on the storage when both are fine.
\<close>

definition on_storage ::
    "(storage \<Rightarrow> 'a base_storage_scheme option) \<Rightarrow> oram_storage_type \<Rightarrow> request_header
      \<Rightarrow> 'r \<Rightarrow> ('a base_storage_scheme \<Rightarrow> ((grpc_status \<times> 'r) \<times> server) exec) \<Rightarrow> server
      \<Rightarrow> ((grpc_status \<times> 'r) \<times> server) exec" where
  "on_storage cast type hdr resp body s =
     (let status = CheckIdValid s (hdr_id hdr) in
      if \<not> is_ok status then Inr ((status, resp), s)
      else let dst = cast (the (storages s (hdr_id hdr))) in
        andThen (CheckStorage dst (hdr_instance_hash hdr) type) (\<lambda>status.
          if \<not> is_ok status then Inr ((status, resp), s) else body (the dst)))"

definition put_storage :: "request_header \<Rightarrow> storage \<Rightarrow> server \<Rightarrow> server" where
  "put_storage hdr st s = s\<lparr>storages := (storages s)(hdr_id hdr \<mapsto> st)\<rparr>"

section \<open>Initialisation\<close>

definition InitTreeOram ::
    "request_header \<Rightarrow> u32 \<Rightarrow> u32 \<Rightarrow> u32 \<Rightarrow> server \<Rightarrow> ((grpc_status \<times> unit) \<times> server) exec" where
  "InitTreeOram hdr bucket_size bucket_num block_size s =
     (let status = CheckInitRequest s (hdr_id hdr) in
      if \<not> is_ok status then Inr ((status, ()), s)
      else andThen (TreeOramServerStorage (hdr_id hdr) (unat bucket_num) (unat block_size)
                      (unat bucket_size) (hdr_instance_hash hdr))
        (\<lambda>st. Inr ((grpc_ok, ()), put_storage hdr (Tree st) s)))"

definition InitFlatOram ::
    "request_header \<Rightarrow> u32 \<Rightarrow> u32 \<Rightarrow> server \<Rightarrow> ((grpc_status \<times> unit) \<times> server) exec" where
  "InitFlatOram hdr capacity block_size s =
     (let status = CheckInitRequest s (hdr_id hdr) in
      if \<not> is_ok status then Inr ((status, ()), s)
      else Inr ((grpc_ok, ()), put_storage hdr
             (Flat (FlatOramServerStorage (hdr_id hdr) (unat capacity) (unat block_size)
                      (hdr_instance_hash hdr))) s))"

definition InitSqrtOram ::
    "request_header \<Rightarrow> u32 \<Rightarrow> u32 \<Rightarrow> u32 \<Rightarrow> server \<Rightarrow> ((grpc_status \<times> unit) \<times> server) exec" where
  "InitSqrtOram hdr capacity m block_size s =
     (let status = CheckInitRequest s (hdr_id hdr) in
      if \<not> is_ok status then Inr ((status, ()), s)
      else Inr ((grpc_ok, ()), put_storage hdr
             (Sqrt (SqrtOramServerStorage (hdr_id hdr) (unat capacity) (unat block_size)
                      (unat m) (hdr_instance_hash hdr))) s))"

section \<open>Square root storage\<close>

definition ReadSqrtMemory :: "request_header \<Rightarrow> u32 \<Rightarrow> u32 \<Rightarrow> server
    \<Rightarrow> ((grpc_status \<times> bytes) \<times> server) exec" where
  "ReadSqrtMemory hdr read_type tag s =
     on_storage cast_sqrt kSqrtStorage hdr [] (\<lambda>st.
       if \<not> Check st tag read_type
       then Inr ((grpc_error INVALID_ARGUMENT
              (''Sanity check failed. Read type is '' @ to_string (unat read_type) @ '', tag is ''
               @ to_string (unat tag) @ ''.''), []), s)
       else if read_type = 0
       then andThen (ReadBlockFromShelter st tag) (\<lambda>(d, st').
              Inr ((grpc_ok, d), put_storage hdr (Sqrt st') s))
       else if read_type = 1
       then andThen (ReadBlockFromMain st tag) (\<lambda>d. Inr ((grpc_ok, d), s))
       else if read_type = 2
       then andThen (ReadBlockFromDummy st (unat tag)) (\<lambda>d. Inr ((grpc_ok, d), s))
       else Inr ((grpc_ok, []), s)) s"

definition WriteSqrtMemory :: "request_header \<Rightarrow> bytes \<Rightarrow> u32 \<Rightarrow> server
    \<Rightarrow> ((grpc_status \<times> unit) \<times> server) exec" where
  "WriteSqrtMemory hdr content tag s =
     on_storage cast_sqrt kSqrtStorage hdr () (\<lambda>st.
       andThen (WriteBlockToShelter st tag content) (\<lambda>st'.
         Inr ((grpc_ok, ()), put_storage hdr (Sqrt st') s))) s"

definition SqrtPermute :: "request_header \<Rightarrow> u32 list \<Rightarrow> server
    \<Rightarrow> ((grpc_status \<times> unit) \<times> server) exec" where
  "SqrtPermute hdr perm s =
     on_storage cast_sqrt kSqrtStorage hdr () (\<lambda>st.
       andThen (DoPermute st perm) (\<lambda>st'.
         Inr ((grpc_ok, ()), put_storage hdr (Sqrt st') s))) s"

definition LoadSqrtOram :: "request_header \<Rightarrow> bytes list \<Rightarrow> server
    \<Rightarrow> ((grpc_status \<times> unit) \<times> server) exec" where
  "LoadSqrtOram hdr contents s =
     on_storage cast_sqrt kSqrtStorage hdr () (\<lambda>st.
       Inr ((grpc_ok, ()), put_storage hdr (Sqrt (Fill st contents)) s)) s"

section \<open>Flat storage\<close>

definition ReadFlatMemory :: "request_header \<Rightarrow> server \<Rightarrow> ((grpc_status \<times> bytes) \<times> server) exec" where
  "ReadFlatMemory hdr s =
     on_storage cast_flat kFlatStorage hdr [] (\<lambda>st. Inr ((grpc_ok, GetStorage st), s)) s"

definition WriteFlatMemory :: "request_header \<Rightarrow> bytes \<Rightarrow> server
    \<Rightarrow> ((grpc_status \<times> unit) \<times> server) exec" where
  "WriteFlatMemory hdr content s =
     on_storage cast_flat kFlatStorage hdr () (\<lambda>st.
       Inr ((grpc_ok, ()), put_storage hdr (Flat (From (ResetStorage st) content)) s)) s"

section \<open>Tree storage\<close>

definition ReadPath :: "libs \<Rightarrow> request_header \<Rightarrow> u32 \<Rightarrow> nat \<Rightarrow> server
    \<Rightarrow> ((grpc_status \<times> bytes list) \<times> server) exec" where
  "ReadPath L hdr path level s =
     on_storage cast_tree kTreeStorage hdr [] (\<lambda>st.
       andThen (Tree_ReadPath L level path st) (\<lambda>((status, bucket), st').
         if \<not> ok status
         then Inr ((grpc_error INTERNAL
                (''Failed to read path: '' @ to_string (unat path) @ '' in level: ''
                 @ to_string level @ '' in PathORAM id: '' @ to_string (unat (hdr_id hdr))), []),
                put_storage hdr (Tree st') s)
         else Inr ((grpc_ok, SerializeToStringVector bucket),
                put_storage hdr (Tree st') s))) s"

definition WritePath :: "libs \<Rightarrow> request_header \<Rightarrow> u32 \<Rightarrow> nat \<Rightarrow> nat \<Rightarrow> write_type \<Rightarrow> bytes list
    \<Rightarrow> server \<Rightarrow> ((grpc_status \<times> unit) \<times> server) exec" where
  "WritePath L hdr path level offset type bucket s =
     on_storage cast_tree kTreeStorage hdr () (\<lambda>st.
       andThen (DeserializeFromStringVector bucket) (\<lambda>blocks.
       andThen (if type = kInit then AccurateWritePath L level offset blocks type st
                else Tree_WritePath L level path blocks st) (\<lambda>(status, st').
         if \<not> ok status
         then andThen (EmitString status) (\<lambda>report.
           Inr ((grpc_error INTERNAL
                (''Failed to write path: '' @ to_string (unat path) @ '' in level: ''
                 @ to_string level @ '' in PathORAM id: '' @ to_string (unat (hdr_id hdr)) @ '':''
                 @ [CHR 0x0A] @ '' '' @ report), ()),
                put_storage hdr (Tree st') s))
         else Inr ((grpc_ok, ()), put_storage hdr (Tree st') s)))) s"

text \<open>\<open>PrintOramTree\<close> only logs; what it answers depends on the storage's type alone.\<close>

definition PrintOramTree :: "u32 \<Rightarrow> server \<Rightarrow> grpc_status" where
  "PrintOramTree i s =
     (let status = CheckIdValid s i in
      if \<not> is_ok status then status
      else (case cast_tree (the (storages s i)) of
          None \<Rightarrow> grpc_error UNAVAILABLE oram_type_mismatch_err
        | Some st \<Rightarrow> if st_type st \<noteq> kTreeStorage then grpc_error UNAVAILABLE oram_type_mismatch_err
            else grpc_ok))"

text \<open>\<open>ReportServerInformation\<close> logs the sum over all storages; those that are not trees report 0.\<close>

fun ReportStorage :: "storage \<Rightarrow> nat" where
  "ReportStorage (Tree st) = Tree_ReportStorage st"
| "ReportStorage _ = 0"

definition ReportServerInformation :: "server \<Rightarrow> grpc_status \<times> nat" where
  "ReportServerInformation s = (grpc_ok, \<Sum>i \<in> dom (storages s). ReportStorage (the (storages s i)))"

section \<open>Keys, greeting, reset\<close>

definition ResetServer :: "server \<Rightarrow> server" where
  "ResetServer s = s\<lparr>storages := Map.empty, cryptor_set := False\<rparr>"

definition CloseConnection :: "server \<Rightarrow> server" where
  "CloseConnection s = s\<lparr>server_running := False\<rparr>"

definition server_cryptor :: "server \<Rightarrow> (cryptor \<Rightarrow> 'a exec) \<Rightarrow> 'a exec" where
  "server_cryptor s f =
     (if cryptor_set s then with_cryptor (server_host s) f else Inl Undefined_Behaviour)"

definition put_cryptor :: "cryptor \<Rightarrow> server \<Rightarrow> server" where
  "put_cryptor c s = s\<lparr>server_host := (server_host s)\<lparr>singleton := Some c\<rparr>\<rparr>"

definition KeyExchange :: "libs \<Rightarrow> bytes \<Rightarrow> server \<Rightarrow> ((grpc_status \<times> bytes) \<times> server) exec" where
  "KeyExchange L public_key_client s =
     server_cryptor s (\<lambda>c.
       let n = draws (server_host s);
           s1 = s\<lparr>server_host := (server_host s)\<lparr>draws := n + 1\<rparr>\<rparr> in
       andThen (SampleKeyPair L n c) (\<lambda>(status, c1).
         if \<not> ok status
         then andThen (EmitString status) (\<lambda>report.
           Inr ((grpc_error INTERNAL (''Failed to sample key pair: '' @ [CHR 0x0A] @ report), []),
                put_cryptor c1 s1))
         else andThen (SampleSessionKey L public_key_client True c1) (\<lambda>(status, c2).
           if \<not> ok status
           then andThen (EmitString status) (\<lambda>report.
             Inr ((grpc_error INTERNAL (''Failed to sample session key: '' @ [CHR 0x0A] @ report), []),
                  put_cryptor c2 s1))
           else andThen (GetKeyPair c2) (\<lambda>(pk, sk).
             Inr ((grpc_ok, pk), put_cryptor c2 s1)))))"

definition SendHello :: "libs \<Rightarrow> bytes \<Rightarrow> bytes \<Rightarrow> server \<Rightarrow> grpc_status exec" where
  "SendHello L encrypted_message nonce s =
     server_cryptor s (\<lambda>c.
       andThen (Cryptor_Decrypt L c encrypted_message nonce) (\<lambda>(status, message).
         if \<not> ok status
         then andThen (EmitString status) (\<lambda>report.
           Inr (grpc_error INTERNAL (''Failed to verify Hello message: '' @ [CHR 0x0A] @ report)))
         else Inr grpc_ok))"

end
