(* ===== verification/Server_Calls.thy ===== *)
theory Server_Calls
  imports Oram_Server
begin

text \<open>
  The remote calls as data: what the stub sends, which handler of the server answers, and the
  shape of a call, which leaves out the contents of the strings that are written.
\<close>

section \<open>Calls\<close>

datatype server_call =
    Call_InitTree request_header u32 u32 u32
  | Call_InitFlat request_header u32 u32
  | Call_InitSqrt request_header u32 u32 u32
  | Call_ReadSqrt request_header u32 u32
  | Call_WriteSqrt request_header bytes u32
  | Call_Permute request_header "u32 list"
  | Call_LoadSqrt request_header "bytes list"
  | Call_ReadFlat request_header
  | Call_WriteFlat request_header bytes
  | Call_ReadPath request_header u32 nat
  | Call_WritePath request_header u32 nat nat write_type "bytes list"
  | Call_KeyExchange bytes
  | Call_SendHello bytes bytes
  | Call_PrintTree u32
  | Call_Report
  | Call_Reset
  | Call_Close

text \<open>The status of the answer and the state after the call; the answer's payload is left out.\<close>

definition after_call :: "((grpc_status \<times> 'r) \<times> server) exec \<Rightarrow> (grpc_status \<times> server) exec" where
  "after_call r = andThen r (\<lambda>((status, _), s). Inr (status, s))"

fun serve :: "libs \<Rightarrow> server_call \<Rightarrow> server \<Rightarrow> (grpc_status \<times> server) exec" where
  "serve L (Call_InitTree hdr bk n sz) s = after_call (InitTreeOram hdr bk n sz s)"
| "serve L (Call_InitFlat hdr n sz) s = after_call (InitFlatOram hdr n sz s)"
| "serve L (Call_InitSqrt hdr n m sz) s = after_call (InitSqrtOram hdr n m sz s)"
| "serve L (Call_ReadSqrt hdr ty tag) s = after_call (ReadSqrtMemory hdr ty tag s)"
| "serve L (Call_WriteSqrt hdr d tag) s = after_call (WriteSqrtMemory hdr d tag s)"
| "serve L (Call_Permute hdr perm) s = after_call (SqrtPermute hdr perm s)"
| "serve L (Call_LoadSqrt hdr ds) s = after_call (LoadSqrtOram hdr ds s)"
| "serve L (Call_ReadFlat hdr) s = after_call (ReadFlatMemory hdr s)"
| "serve L (Call_WriteFlat hdr d) s = after_call (WriteFlatMemory hdr d s)"
| "serve L (Call_ReadPath hdr x l) s = after_call (ReadPath L hdr x l s)"
| "serve L (Call_WritePath hdr x l j ty ds) s = after_call (WritePath L hdr x l j ty ds s)"
| "serve L (Call_KeyExchange pk) s = after_call (KeyExchange L pk s)"
| "serve L (Call_SendHello d nonce) s = andThen (SendHello L d nonce s) (\<lambda>status. Inr (status, s))"
| "serve L (Call_PrintTree i) s = Inr (PrintOramTree i s, s)"
| "serve L Call_Report s = Inr (fst (ReportServerInformation s), s)"
| "serve L Call_Reset s = Inr (grpc_ok, ResetServer s)"
| "serve L Call_Close s = Inr (grpc_ok, CloseConnection s)"

text \<open>The header of a call on a storage, the kind of storage it is for, and the initialising calls.\<close>

fun call_header :: "server_call \<Rightarrow> request_header option" where
  "call_header (Call_ReadSqrt hdr _ _) = Some hdr"
| "call_header (Call_WriteSqrt hdr _ _) = Some hdr"
| "call_header (Call_Permute hdr _) = Some hdr"
| "call_header (Call_LoadSqrt hdr _) = Some hdr"
| "call_header (Call_ReadFlat hdr) = Some hdr"
| "call_header (Call_WriteFlat hdr _) = Some hdr"
| "call_header (Call_ReadPath hdr _ _) = Some hdr"
| "call_header (Call_WritePath hdr _ _ _ _ _) = Some hdr"
| "call_header _ = None"

fun init_header :: "server_call \<Rightarrow> request_header option" where
  "init_header (Call_InitTree hdr _ _ _) = Some hdr"
| "init_header (Call_InitFlat hdr _ _) = Some hdr"
| "init_header (Call_InitSqrt hdr _ _ _) = Some hdr"
| "init_header _ = None"

fun call_kind :: "server_call \<Rightarrow> oram_storage_type" where
  "call_kind (Call_ReadFlat _) = kFlatStorage"
| "call_kind (Call_WriteFlat _ _) = kFlatStorage"
| "call_kind (Call_ReadPath _ _ _) = kTreeStorage"
| "call_kind (Call_WritePath _ _ _ _ _ _) = kTreeStorage"
| "call_kind _ = kSqrtStorage"

fun storage_kind :: "storage \<Rightarrow> oram_storage_type" where
  "storage_kind (Flat _) = kFlatStorage"
| "storage_kind (Sqrt _) = kSqrtStorage"
| "storage_kind (Tree _) = kTreeStorage"

fun storage_hash :: "storage \<Rightarrow> bytes" where
  "storage_hash (Flat st) = st_instance_hash st"
| "storage_hash (Sqrt st) = st_instance_hash st"
| "storage_hash (Tree st) = st_instance_hash st"

section \<open>What is seen of a call\<close>

text \<open>A call with the contents of its strings hidden: their number and lengths remain.\<close>

fun shape :: "server_call \<Rightarrow> server_call" where
  "shape (Call_WritePath hdr x l j ty ds) = Call_WritePath hdr x l j ty (map (\<lambda>d. replicate (length d) 0) ds)"
| "shape (Call_WriteFlat hdr d) = Call_WriteFlat hdr (replicate (length d) 0)"
| "shape (Call_WriteSqrt hdr d tag) = Call_WriteSqrt hdr (replicate (length d) 0) tag"
| "shape (Call_LoadSqrt hdr ds) = Call_LoadSqrt hdr (map (\<lambda>d. replicate (length d) 0) ds)"
| "shape c = c"

end
