(* ===== verification/Wire_Format.thy ===== *)
theory Wire_Format
  imports Server_Calls
begin

text \<open>
  The sizes of the messages of a remote call, as the functions \<open>ByteSizeLong\<close> of
  protos/messages.pb.cc compute them, and the limit that gRPC puts on them.
\<close>

section \<open>Fields\<close>

text \<open>
  A field of a default value is left out. Otherwise there is a tag of one byte, and the value: a
  number in base 128, or the length of a string and the string.
\<close>

fun varint_size :: "nat \<Rightarrow> nat" where
  "varint_size n = (if n < 128 then 1 else Suc (varint_size (n div 128)))"

declare varint_size.simps [simp del]

definition uint_field :: "nat \<Rightarrow> nat" where
  "uint_field n = (if n = 0 then 0 else 1 + varint_size n)"

text \<open>\<open>BytesSize\<close> and \<open>MessageSize\<close>: a length and what it is the length of.\<close>

definition delimited :: "nat \<Rightarrow> nat" where
  "delimited n = varint_size n + n"

definition bytes_field :: "nat \<Rightarrow> nat" where
  "bytes_field n = (if n = 0 then 0 else 1 + delimited n)"

definition repeated_bytes :: "bytes list \<Rightarrow> nat" where
  "repeated_bytes ds = sum_list (map (\<lambda>d. 1 + delimited (length d)) ds)"

definition packed_uint32 :: "u32 list \<Rightarrow> nat" where
  "packed_uint32 xs = (let n = sum_list (map (\<lambda>x. varint_size (unat x)) xs) in
     if n = 0 then 0 else 1 + delimited n)"

definition RequestHeader_size :: "request_header \<Rightarrow> nat" where
  "RequestHeader_size hdr = bytes_field (length (hdr_instance_hash hdr))
     + bytes_field (length (hdr_version hdr)) + uint_field (unat (hdr_id hdr))"

definition header_field :: "request_header \<Rightarrow> nat" where
  "header_field hdr = 1 + delimited (RequestHeader_size hdr)"

section \<open>Messages\<close>

text \<open>
  The requests, one function for each message. \<open>write_to_cache\<close> of a \<open>WriteSqrtMessage\<close> is never set. Of
  the optional fields of a \<open>WritePathRequest\<close> the type is always set, and the offset while the tree is
  filled.
\<close>

definition InitTreeOramRequest_size :: "request_header \<Rightarrow> u32 \<Rightarrow> u32 \<Rightarrow> u32 \<Rightarrow> nat" where
  "InitTreeOramRequest_size hdr bk n sz =
     header_field hdr + uint_field (unat bk) + uint_field (unat n) + uint_field (unat sz)"

definition InitFlatOramRequest_size :: "request_header \<Rightarrow> u32 \<Rightarrow> u32 \<Rightarrow> nat" where
  "InitFlatOramRequest_size hdr n sz = header_field hdr + uint_field (unat n) + uint_field (unat sz)"

definition InitSqrtOramRequest_size :: "request_header \<Rightarrow> u32 \<Rightarrow> u32 \<Rightarrow> u32 \<Rightarrow> nat" where
  "InitSqrtOramRequest_size hdr n m sz =
     header_field hdr + uint_field (unat n) + uint_field (unat m) + uint_field (unat sz)"

definition ReadSqrtRequest_size :: "request_header \<Rightarrow> u32 \<Rightarrow> u32 \<Rightarrow> nat" where
  "ReadSqrtRequest_size hdr tag read_from = header_field hdr + uint_field (unat tag) + uint_field (unat read_from)"

definition WriteSqrtMessage_size :: "request_header \<Rightarrow> bytes \<Rightarrow> u32 \<Rightarrow> nat" where
  "WriteSqrtMessage_size hdr content pos = bytes_field (length content) + header_field hdr + uint_field (unat pos)"

definition SqrtPermMessage_size :: "request_header \<Rightarrow> u32 list \<Rightarrow> nat" where
  "SqrtPermMessage_size hdr perms = packed_uint32 perms + header_field hdr"

definition LoadSqrtOramRequest_size :: "request_header \<Rightarrow> bytes list \<Rightarrow> nat" where
  "LoadSqrtOramRequest_size hdr contents = repeated_bytes contents + header_field hdr"

definition ReadFlatRequest_size :: "request_header \<Rightarrow> nat" where
  "ReadFlatRequest_size hdr = header_field hdr"

definition FlatVectorMessage_size :: "request_header \<Rightarrow> bytes \<Rightarrow> nat" where
  "FlatVectorMessage_size hdr content = bytes_field (length content) + header_field hdr"

definition ReadPathRequest_size :: "request_header \<Rightarrow> u32 \<Rightarrow> nat \<Rightarrow> nat" where
  "ReadPathRequest_size hdr path level = header_field hdr + uint_field (unat path) + uint_field level"

definition WritePathRequest_size :: "request_header \<Rightarrow> u32 \<Rightarrow> nat \<Rightarrow> nat option \<Rightarrow> bytes list \<Rightarrow> nat" where
  "WritePathRequest_size hdr path level offset bucket =
     repeated_bytes bucket + header_field hdr + uint_field (unat path) + uint_field level + 2
     + (case offset of None \<Rightarrow> 0 | Some j \<Rightarrow> 1 + varint_size j)"

definition KeyExchangeRequest_size :: "bytes \<Rightarrow> nat" where
  "KeyExchangeRequest_size pk = bytes_field (length pk)"

definition HelloMessage_size :: "bytes \<Rightarrow> bytes \<Rightarrow> nat" where
  "HelloMessage_size content nonce = bytes_field (length content) + bytes_field (length nonce)"

definition PrintOramTreeRequest_size :: "u32 \<Rightarrow> nat" where
  "PrintOramTreeRequest_size i = uint_field (unat i)"

lemmas request_sizes = InitTreeOramRequest_size_def InitFlatOramRequest_size_def InitSqrtOramRequest_size_def
  ReadSqrtRequest_size_def WriteSqrtMessage_size_def SqrtPermMessage_size_def LoadSqrtOramRequest_size_def
  ReadFlatRequest_size_def FlatVectorMessage_size_def ReadPathRequest_size_def WritePathRequest_size_def
  KeyExchangeRequest_size_def HelloMessage_size_def PrintOramTreeRequest_size_def

text \<open>The request of a call.\<close>

fun request_size :: "server_call \<Rightarrow> nat" where
  "request_size (Call_InitTree hdr bk n sz) = InitTreeOramRequest_size hdr bk n sz"
| "request_size (Call_InitFlat hdr n sz) = InitFlatOramRequest_size hdr n sz"
| "request_size (Call_InitSqrt hdr n m sz) = InitSqrtOramRequest_size hdr n m sz"
| "request_size (Call_ReadSqrt hdr ty tag) = ReadSqrtRequest_size hdr tag ty"
| "request_size (Call_WriteSqrt hdr d tag) = WriteSqrtMessage_size hdr d tag"
| "request_size (Call_Permute hdr perm) = SqrtPermMessage_size hdr perm"
| "request_size (Call_LoadSqrt hdr ds) = LoadSqrtOramRequest_size hdr ds"
| "request_size (Call_ReadFlat hdr) = ReadFlatRequest_size hdr"
| "request_size (Call_WriteFlat hdr d) = FlatVectorMessage_size hdr d"
| "request_size (Call_ReadPath hdr x l) = ReadPathRequest_size hdr x l"
| "request_size (Call_WritePath hdr x l j ty ds) =
     WritePathRequest_size hdr x l (if ty = kInit then Some j else None) ds"
| "request_size (Call_KeyExchange pk) = KeyExchangeRequest_size pk"
| "request_size (Call_SendHello d nonce) = HelloMessage_size d nonce"
| "request_size (Call_PrintTree i) = PrintOramTreeRequest_size i"
| "request_size Call_Report = 0"
| "request_size Call_Reset = 0"
| "request_size Call_Close = 0"

text \<open>
  The responses: nothing, one string (\<open>FlatVectorMessage\<close>, \<open>SqrtMessage\<close>, whose headers the server does not
  set, and \<open>KeyExchangeResponse\<close>), or the entries of a bucket, \<open>repeated_bytes\<close> (\<open>ReadPathResponse\<close>).
\<close>

definition empty_size :: "unit \<Rightarrow> nat" where
  "empty_size _ = 0"

definition content_size :: "bytes \<Rightarrow> nat" where
  "content_size d = bytes_field (length d)"

text \<open>
  gRPC refuses a message of more than 4 MiB that it receives, on either side, unless the program
  sets another limit, and this one does not.
\<close>

definition max_message :: nat where
  "max_message = 4 * 1024 * 1024"

section \<open>What fits\<close>

lemma varint_size_le: "n < 128 ^ Suc k \<Longrightarrow> varint_size n \<le> Suc k"
proof (induction k arbitrary: n)
  case 0
  then show ?case by (subst varint_size.simps) simp
next
  case (Suc k)
  have "n div 128 < 128 ^ Suc k" using Suc.prems by (simp add: less_mult_imp_div_less mult.commute)
  with Suc.IH show ?case by (subst varint_size.simps) simp
qed

lemma varint_size_pos: "0 < varint_size n"
  by (subst varint_size.simps) simp

lemma varint_size_ge: "128 ^ k \<le> n \<Longrightarrow> k < varint_size n"
proof (induction k arbitrary: n)
  case 0
  then show ?case by (simp add: varint_size_pos)
next
  case (Suc k)
  then have "128 ^ k \<le> n div 128" by (simp add: div_le_mono less_eq_div_iff_mult_less_eq mult.commute)
  moreover have "\<not> n < 128"
    using Suc.prems order_trans [of "128" "128 ^ Suc k" n] by (simp add: not_less)
  ultimately show ?case using Suc.IH by (subst varint_size.simps) simp
qed

lemma varint_u32: "varint_size (unat (x :: u32)) \<le> 5"
proof -
  have "unat x < 128 ^ Suc 4" using unat_u32_less [of x] by simp
  from varint_size_le [OF this] show ?thesis by simp
qed

lemma uint_field_u32: "uint_field (unat (x :: u32)) \<le> 6"
  using varint_u32 [of x] by (simp add: uint_field_def)

text \<open>
  A number below \<open>2 ^ 35\<close> takes 5 bytes, so the header of a call takes at most 54: a hash of 32
  bytes, the version and the identifier.
\<close>

lemma delimited_le: "n < 2 ^ 35 \<Longrightarrow> delimited n \<le> 5 + n"
  using varint_size_le [of n 4] by (simp add: delimited_def)

lemma bytes_field_le: "n < 2 ^ 35 \<Longrightarrow> bytes_field n \<le> 6 + n"
  using delimited_le [of n] by (simp add: bytes_field_def)

definition small_header :: "request_header \<Rightarrow> bool" where
  "small_header hdr \<longleftrightarrow> length (hdr_instance_hash hdr) = 32 \<and> hdr_version hdr = GetVersion"

lemma header_field_le: "small_header hdr \<Longrightarrow> header_field hdr \<le> 60"
proof -
  assume "small_header hdr"
  then have h: "length (hdr_instance_hash hdr) = 32" "length (hdr_version hdr) = 5"
    by (simp_all add: small_header_def GetVersion_def stream_u8_def)
  let ?n = "bytes_field (length (hdr_instance_hash hdr)) + bytes_field (length (hdr_version hdr))
     + uint_field (unat (hdr_id hdr))"
  have v: "varint_size 32 = 1" "varint_size 5 = 1" by (simp_all add: varint_size.simps)
  then have "bytes_field 32 = 34" "bytes_field 5 = 7" by (simp_all add: bytes_field_def delimited_def)
  then have n: "?n \<le> 47" using uint_field_u32 [of "hdr_id hdr"] h by simp
  then have "delimited ?n \<le> 5 + ?n" by (intro delimited_le) simp
  with n show ?thesis by (simp add: header_field_def RequestHeader_size_def)
qed

text \<open>A list of blocks takes 563 bytes for each.\<close>

lemma repeated_bytes_blocks: "list_all (\<lambda>d. length d = 560) ds \<Longrightarrow> repeated_bytes ds = 563 * length ds"
proof (induction ds)
  case (Cons d ds)
  have "varint_size 560 = 2" by (simp add: varint_size.simps)
  with Cons show ?case by (simp add: repeated_bytes_def delimited_def)
qed (simp add: repeated_bytes_def)

lemma packed_uint32_le: "length xs < 2 ^ 32 \<Longrightarrow> packed_uint32 xs \<le> 6 + 5 * length xs"
proof -
  assume l: "length xs < 2 ^ 32"
  let ?n = "sum_list (map (\<lambda>x. varint_size (unat x)) xs)"
  have "?n \<le> sum_list (map (\<lambda>_. 5) xs)" by (intro sum_list_mono) (rule varint_u32)
  then have n: "?n \<le> 5 * length xs" by (simp add: sum_list_triv)
  with l have "?n < 2 ^ 35" by simp
  from delimited_le [OF this] n show ?thesis by (simp add: packed_uint32_def Let_def)
qed

text \<open>The requests of fixed size, and one block.\<close>

lemma small_requests:
  assumes h: "small_header hdr"
  shows "request_size (Call_InitTree hdr bk n sz) \<le> max_message"
    "request_size (Call_InitFlat hdr n sz) \<le> max_message"
    "request_size (Call_InitSqrt hdr n m sz) \<le> max_message"
    "request_size (Call_ReadSqrt hdr ty tag) \<le> max_message"
    "request_size (Call_ReadFlat hdr) \<le> max_message"
    "length d \<le> 560 \<Longrightarrow> request_size (Call_WriteSqrt hdr d tag) \<le> max_message"
    "l < 2 ^ 32 \<Longrightarrow> request_size (Call_ReadPath hdr x l) \<le> max_message"
proof -
  note hf = header_field_le [OF h]
  show "request_size (Call_InitTree hdr bk n sz) \<le> max_message"
    using hf uint_field_u32 [of bk] uint_field_u32 [of n] uint_field_u32 [of sz] by (simp add: request_sizes max_message_def)
  show "request_size (Call_InitFlat hdr n sz) \<le> max_message"
    using hf uint_field_u32 [of n] uint_field_u32 [of sz] by (simp add: request_sizes max_message_def)
  show "request_size (Call_InitSqrt hdr n m sz) \<le> max_message"
    using hf uint_field_u32 [of m] uint_field_u32 [of n] uint_field_u32 [of sz] by (simp add: request_sizes max_message_def)
  show "request_size (Call_ReadSqrt hdr ty tag) \<le> max_message"
    using hf uint_field_u32 [of ty] uint_field_u32 [of tag] by (simp add: request_sizes max_message_def)
  show "request_size (Call_ReadFlat hdr) \<le> max_message" using hf by (simp add: request_sizes max_message_def)
  show "request_size (Call_WriteSqrt hdr d tag) \<le> max_message" if "length d \<le> 560"
    using hf uint_field_u32 [of tag] bytes_field_le [of "length d"] that by (simp add: request_sizes max_message_def)
  show "request_size (Call_ReadPath hdr x l) \<le> max_message" if "l < 2 ^ 32"
    using hf uint_field_u32 [of x] bytes_field_le [of l] that varint_size_le [of l 4]
    by (simp add: request_sizes max_message_def uint_field_def)
qed

lemma one_block_fits: "length d \<le> 560 \<Longrightarrow> content_size d \<le> max_message"
  using bytes_field_le [of "length d"] by (simp add: content_size_def max_message_def)

text \<open>A bucket fits, and so does the answer that returns it.\<close>

lemma bucket_fits:
  assumes h: "small_header hdr" and ds: "list_all (\<lambda>d. length d = 560) ds" "length ds < 256"
    and n: "l < 2 ^ 32" "j < 2 ^ 32"
  shows "request_size (Call_WritePath hdr x l j ty ds) \<le> max_message" "repeated_bytes ds \<le> max_message"
proof -
  have r: "repeated_bytes ds \<le> 563 * 255" using repeated_bytes_blocks [OF ds(1)] ds(2) by simp
  then show "repeated_bytes ds \<le> max_message" by (simp add: request_sizes max_message_def)
  have "uint_field l \<le> 6" "varint_size j \<le> 5"
    using varint_size_le [of l 4] varint_size_le [of j 4] n by (simp_all add: uint_field_def)
  with r header_field_le [OF h] uint_field_u32 [of x]
  show "request_size (Call_WritePath hdr x l j ty ds) \<le> max_message" by (simp add: request_sizes max_message_def)
qed

text \<open>A permutation of up to 500000 places fits.\<close>

lemma permutation_fits:
  assumes h: "small_header hdr" and "length perm \<le> 500000"
  shows "request_size (Call_Permute hdr perm) \<le> max_message"
  using packed_uint32_le [of perm] header_field_le [OF h] assms(2) by (simp add: request_sizes max_message_def)

text \<open>Whole storages: 7489 blocks fit into one string, and 7449 into a list, and not one more.\<close>

lemma flat_storage_fits:
  assumes h: "small_header hdr" and d: "length d = 560 * n"
  shows "request_size (Call_WriteFlat hdr d) \<le> max_message \<longleftrightarrow> n \<le> 7489"
    "content_size d \<le> max_message \<longleftrightarrow> n \<le> 7489"
proof -
  have *: "bytes_field (560 * n) \<le> 560 * 7489 + 6" if "n \<le> 7489"
    using bytes_field_le [of "560 * n"] that by simp
  have **: "max_message < bytes_field (560 * n)" if "\<not> n \<le> 7489"
    using that by (simp add: bytes_field_def delimited_def max_message_def)
  show "request_size (Call_WriteFlat hdr d) \<le> max_message \<longleftrightarrow> n \<le> 7489"
    using * ** header_field_le [OF h] d by (cases "n \<le> 7489") (simp_all add: request_sizes max_message_def)
  show "content_size d \<le> max_message \<longleftrightarrow> n \<le> 7489"
    using * ** d by (cases "n \<le> 7489") (simp_all add: max_message_def content_size_def)
qed

lemma sqrt_storage_fits:
  assumes h: "small_header hdr" and ds: "list_all (\<lambda>d. length d = 560) ds"
  shows "request_size (Call_LoadSqrt hdr ds) \<le> max_message \<longleftrightarrow> length ds \<le> 7449"
  using repeated_bytes_blocks [OF ds] header_field_le [OF h] by (auto simp: request_sizes max_message_def)

declare request_size.simps [simp del]

end
