(* ===== verification/Oram_Controller.thy ===== *)
theory Oram_Controller
  imports Wire_Format
begin

text \<open>
  The client's side common to all ORAMs: remote calls, the base class of
  core/oram\_controller.h and oram\_controller.cc, and the interface \<open>block_ram\<close> that says
  what an ORAM controller promises to its users, with what follows from it.
\<close>

section \<open>Client and server together\<close>

text \<open>
  The client process and the server process; \<open>w_srv w = None\<close> says that the server process
  is gone. \<open>w_log\<close> is a ghost: the calls made so far, as someone on the server's side sees them;
  no operation reads it.
\<close>

record world =
  w_host :: host
  w_srv :: "server option"
  w_log :: "server_call list"

definition logged :: "server_call \<Rightarrow> world \<Rightarrow> world" where
  "logged c w = w\<lparr>w_log := w_log w @ [c]\<rparr>"

lemma logged_fields [simp]:
  "w_host (logged c w) = w_host w" "w_srv (logged c w) = w_srv w" "w_log (logged c w) = w_log w @ [c]"
  by (simp_all add: logged_def)

text \<open>
  A call through the stub runs the server's handler. When the server is gone, or stops
  during the call, gRPC reports \<open>UNAVAILABLE\<close>; a response is delivered with status OK only. A
  request that is larger than the limit never reaches the handler, and a response that is larger
  is dropped after the handler has run: gRPC reports \<open>RESOURCE_EXHAUSTED\<close>. (The messages of these
  statuses are gRPC's own and are left empty.)
\<close>

definition rpc :: "server_call \<Rightarrow> ('r \<Rightarrow> nat) \<Rightarrow> (server \<Rightarrow> ((grpc_status \<times> 'r) \<times> server) exec) \<Rightarrow> 'r \<Rightarrow> world
    \<Rightarrow> (grpc_status \<times> 'r) \<times> world" where
  "rpc c response_size call resp w =
     (case w_srv w of
        None \<Rightarrow> ((grpc_error UNAVAILABLE '''', resp), logged c w)
      | Some s \<Rightarrow>
          if request_size c > max_message then ((grpc_error RESOURCE_EXHAUSTED '''', resp), logged c w)
          else (case call s of
            Inl e \<Rightarrow> ((grpc_error UNAVAILABLE '''', resp), (logged c w)\<lparr>w_srv := None\<rparr>)
          | Inr ((st, r), s') \<Rightarrow>
              (if \<not> is_ok st then (st, resp)
               else if response_size r > max_message then (grpc_error RESOURCE_EXHAUSTED '''', resp)
               else (st, r), (logged c w)\<lparr>w_srv := Some s'\<rparr>)))"

text \<open>The methods of the stub, with the response they start from.\<close>

abbreviation "stub_InitTreeOram hdr b n sz \<equiv> rpc (Call_InitTree hdr b n sz) empty_size (InitTreeOram hdr b n sz) ()"
abbreviation "stub_InitFlatOram hdr n sz \<equiv> rpc (Call_InitFlat hdr n sz) empty_size (InitFlatOram hdr n sz) ()"
abbreviation "stub_InitSqrtOram hdr n m sz \<equiv> rpc (Call_InitSqrt hdr n m sz) empty_size (InitSqrtOram hdr n m sz) ()"
abbreviation "stub_ReadSqrtMemory hdr ty tag \<equiv> rpc (Call_ReadSqrt hdr ty tag) content_size (ReadSqrtMemory hdr ty tag) []"
abbreviation "stub_WriteSqrtMemory hdr d tag \<equiv> rpc (Call_WriteSqrt hdr d tag) empty_size (WriteSqrtMemory hdr d tag) ()"
abbreviation "stub_SqrtPermute hdr perm \<equiv> rpc (Call_Permute hdr perm) empty_size (SqrtPermute hdr perm) ()"
abbreviation "stub_LoadSqrtOram hdr ds \<equiv> rpc (Call_LoadSqrt hdr ds) empty_size (LoadSqrtOram hdr ds) ()"
abbreviation "stub_ReadFlatMemory hdr \<equiv> rpc (Call_ReadFlat hdr) content_size (ReadFlatMemory hdr) []"
abbreviation "stub_WriteFlatMemory hdr d \<equiv> rpc (Call_WriteFlat hdr d) empty_size (WriteFlatMemory hdr d) ()"
abbreviation "stub_ReadPath L hdr x l \<equiv> rpc (Call_ReadPath hdr x l) repeated_bytes (ReadPath L hdr x l) []"
abbreviation "stub_WritePath L hdr x l i ty ds \<equiv>
  rpc (Call_WritePath hdr x l i ty ds) empty_size (WritePath L hdr x l i ty ds) ()"
abbreviation "stub_PrintOramTree i \<equiv> rpc (Call_PrintTree i) empty_size (\<lambda>s. Inr ((PrintOramTree i s, ()), s)) ()"
abbreviation "stub_ReportServerInformation \<equiv>
  rpc Call_Report empty_size (\<lambda>s. Inr ((fst (ReportServerInformation s), ()), s)) ()"
abbreviation "stub_KeyExchange L pk \<equiv> rpc (Call_KeyExchange pk) content_size (KeyExchange L pk) []"

section \<open>The base class\<close>

record oram_controller =
  oc_id :: u32
  oc_standalone :: bool
  oc_block_num :: nat
  oc_type :: oram_type
  oc_initialized :: bool
  oc_hash :: bytes

text \<open>The macro \<open>ASSEMBLE_HEADER\<close>.\<close>

definition assemble_header :: "'a oram_controller_scheme \<Rightarrow> request_header" where
  "assemble_header c = \<lparr>hdr_id = oc_id c, hdr_instance_hash = oc_hash c, hdr_version = GetVersion\<rparr>"

definition OramController :: "libs \<Rightarrow> cryptor \<Rightarrow> u32 \<Rightarrow> bool \<Rightarrow> nat \<Rightarrow> oram_type \<Rightarrow> host
    \<Rightarrow> (oram_controller \<times> host) exec" where
  "OramController L memory i standalone block_num type h =
     andThen (GetInstance L memory h) (\<lambda>h1.
       case RandomBytes L 32 h1 of ((s, hash), h2) \<Rightarrow>
         if \<not> ok s then Inl Process_Exit
         else Inr (\<lparr>oc_id = i, oc_standalone = standalone, oc_block_num = block_num,
                    oc_type = type, oc_initialized = False, oc_hash = hash\<rparr>, h2))"

text \<open>The status of \<open>SampleKeyPair\<close> is not looked at.\<close>

definition KeyNegotiate :: "libs \<Rightarrow> world \<Rightarrow> (oram_status \<times> world) exec" where
  "KeyNegotiate L w =
     with_cryptor (w_host w) (\<lambda>c.
     andThen (SampleKeyPair L (draws (w_host w)) c) (\<lambda>(_, c1).
     andThen (GetKeyPair c1) (\<lambda>(pk, sk).
       let w1 = w\<lparr>w_host := \<lparr>draws = draws (w_host w) + 1, singleton = Some c1\<rparr>\<rparr> in
       case stub_KeyExchange L pk w1 of ((status, public_key_server), w2) \<Rightarrow>
         if \<not> is_ok status
         then Inr (mk_status kServerError (grpc_message status) ''KeyNegotiate'', w2)
         else andThen (SampleSessionKey L public_key_server False c1) (\<lambda>(s, c2).
           Inr (s, w2\<lparr>w_host := (w_host w2)\<lparr>singleton := Some c2\<rparr>\<rparr>)))))"

definition not_initialized :: oram_status where
  "not_initialized =
     mk_status kInvalidOperation ''Cannot access ORAM before it is initialized'' ''''"

text \<open>
  \<open>Access\<close> of the base class, for a controller whose \<open>InternalAccess\<close> is given. An operation
  takes the caller's block and returns the status and the block as the call leaves it.
\<close>

definition Access ::
    "(operation \<Rightarrow> u32 \<Rightarrow> oram_block \<Rightarrow> bool \<Rightarrow> 'a oram_controller_scheme \<times> world
        \<Rightarrow> ((oram_status \<times> oram_block) \<times> 'a oram_controller_scheme \<times> world) exec)
      \<Rightarrow> operation \<Rightarrow> u32 \<Rightarrow> oram_block \<Rightarrow> 'a oram_controller_scheme \<times> world
      \<Rightarrow> ((oram_status \<times> oram_block) \<times> 'a oram_controller_scheme \<times> world) exec" where
  "Access InternalAccess op address blk cw =
     (if \<not> oc_initialized (fst cw) then Inr ((not_initialized, blk), cw)
      else InternalAccess op address blk False cw)"

text \<open>
  \<open>FromFile\<close>: the lines of the file become the blocks 0, 1, ... \<open>memory i\<close> is what the
  uninitialised local block holds in iteration \<open>i\<close>.
\<close>

definition line_block :: "(nat \<Rightarrow> oram_block) \<Rightarrow> nat \<Rightarrow> bytes \<Rightarrow> oram_block" where
  "line_block memory i line =
     (let m = memory i; n = min DEFAULT_ORAM_DATA_SIZE (length line) in
      m\<lparr>header := (header m)\<lparr>block_id := of_nat i, btype := BlockType_kNormal\<rparr>,
        data := take n line @ drop n (data m)\<rparr>)"

definition FromFile ::
    "(nat \<Rightarrow> oram_block) \<Rightarrow> bytes list
      \<Rightarrow> (oram_block list \<Rightarrow> 'a oram_controller_scheme \<times> world
            \<Rightarrow> (oram_status \<times> 'a oram_controller_scheme \<times> world) exec)
      \<Rightarrow> 'a oram_controller_scheme \<times> world
      \<Rightarrow> (oram_status \<times> 'a oram_controller_scheme \<times> world) exec" where
  "FromFile memory lines FillWithData cw =
     (case cw of (c, w) \<Rightarrow>
        FillWithData (map (\<lambda>(i, line). line_block memory i line) (enumerate 0 lines))
          (c\<lparr>oc_block_num := length lines\<rparr>, w))"

section \<open>What a controller promises\<close>

text \<open>
  A sequence of accesses, run on a controller and on a plain memory. The result of a read
  is the data of the block it returns.
\<close>

datatype request = Read u32 | Write u32 oram_block

fun run_requests ::
    "(operation \<Rightarrow> u32 \<Rightarrow> oram_block \<Rightarrow> 's \<Rightarrow> ((oram_status \<times> oram_block) \<times> 's) exec)
      \<Rightarrow> oram_block \<Rightarrow> request list \<Rightarrow> 's \<Rightarrow> ((oram_status \<times> bytes) list \<times> 's) exec" where
  "run_requests access buf [] s = Inr ([], s)"
| "run_requests access buf (Read a # rs) s =
     andThen (access Operation_kRead a buf s) (\<lambda>((st, b), s').
     andThen (run_requests access buf rs s') (\<lambda>(outs, s''). Inr ((st, data b) # outs, s'')))"
| "run_requests access buf (Write a x # rs) s =
     andThen (access Operation_kWrite a x s) (\<lambda>((st, b), s').
     andThen (run_requests access buf rs s') (\<lambda>(outs, s''). Inr ((st, []) # outs, s'')))"

fun memory_run :: "request list \<Rightarrow> (u32 \<rightharpoonup> bytes) \<Rightarrow> (oram_status \<times> bytes) list \<times> (u32 \<rightharpoonup> bytes)" where
  "memory_run [] m = ([], m)"
| "memory_run (Read a # rs) m =
     (case memory_run rs m of (outs, m') \<Rightarrow> ((OK, the (m a)) # outs, m'))"
| "memory_run (Write a x # rs) m =
     (case memory_run rs (m(a \<mapsto> data x)) of (outs, m') \<Rightarrow> ((OK, []) # outs, m'))"

fun request_ok :: "(oram_block \<Rightarrow> bool) \<Rightarrow> (u32 \<rightharpoonup> bytes) \<Rightarrow> request \<Rightarrow> bool" where
  "request_ok writable m (Read a) \<longleftrightarrow> m a \<noteq> None"
| "request_ok writable m (Write a x) \<longleftrightarrow> m a \<noteq> None \<and> writable x"

fun address_of :: "request \<Rightarrow> u32" where
  "address_of (Read a) = a"
| "address_of (Write a x) = a"

fun writes_wf :: "request \<Rightarrow> bool" where
  "writes_wf (Read a) \<longleftrightarrow> True"
| "writes_wf (Write a x) \<longleftrightarrow> wf_block x"

lemma run_requests_Cons:
  "run_requests access buf (r # rs) s = andThen (run_requests access buf [r] s) (\<lambda>(os, s').
     andThen (run_requests access buf rs s') (\<lambda>(os', s''). Inr (os @ os', s'')))"
  by (cases r) (auto simp: andThen_def split: sum.splits prod.splits)

lemma memory_run_Cons:
  "fst (memory_run (r # rs) m) = fst (memory_run [r] m) @ fst (memory_run rs (snd (memory_run [r] m)))"
  by (cases r) (auto split: prod.splits)

lemma memory_run_rest: "snd (memory_run (r # rs) m) = snd (memory_run rs (snd (memory_run [r] m)))"
  by (cases r) (auto split: prod.splits)

lemma request_ok_later:
  "request_ok P m r \<Longrightarrow> request_ok P m q \<Longrightarrow> request_ok P (snd (memory_run [r] m)) q"
  by (cases r; cases q) auto

lemma memory_run_dom:
  "\<forall>r \<in> set rs. request_ok P m r \<Longrightarrow> dom (snd (memory_run rs m)) = dom m"
proof (induction rs arbitrary: m)
  case (Cons r rs)
  have "dom (snd (memory_run [r] m)) = dom m" using Cons.prems by (cases r) auto
  moreover have "\<forall>q \<in> set rs. request_ok P (snd (memory_run [r] m)) q"
    using Cons.prems request_ok_later [of P m r] by simp
  ultimately show ?case using Cons.IH [of "snd (memory_run [r] m)"] by (simp only: memory_run_rest [of r rs])
qed simp

text \<open>
  The interface: \<open>holds s m\<close> relates a state to the memory it stands for; a read of an
  address in the memory returns its data, and a write of a \<open>writable\<close> block replaces it.
\<close>

locale block_ram =
  fixes access :: "operation \<Rightarrow> u32 \<Rightarrow> oram_block \<Rightarrow> 's
      \<Rightarrow> ((oram_status \<times> oram_block) \<times> 's) exec"
    and holds :: "'s \<Rightarrow> (u32 \<rightharpoonup> bytes) \<Rightarrow> bool"
    and writable :: "oram_block \<Rightarrow> bool"
  assumes read_hit: "holds s m \<Longrightarrow> m a = Some d \<Longrightarrow>
      \<exists>b s'. access Operation_kRead a x s = Inr ((OK, b), s') \<and> data b = d
        \<and> block_id (header b) = a \<and> btype (header b) = BlockType_kNormal \<and> holds s' m"
    and write_hit: "holds s m \<Longrightarrow> m a = Some d \<Longrightarrow> writable x \<Longrightarrow>
      \<exists>b s'. access Operation_kWrite a x s = Inr ((OK, b), s') \<and> holds s' (m(a \<mapsto> data x))"
begin

lemma read_after_write:
  assumes "holds s m" and "m a = Some d" and "writable x"
  shows "\<exists>b s1 c s2. access Operation_kWrite a x s = Inr ((OK, b), s1)
    \<and> access Operation_kRead a y s1 = Inr ((OK, c), s2) \<and> data c = data x"
proof -
  from write_hit [OF assms] obtain b s1
    where w: "access Operation_kWrite a x s = Inr ((OK, b), s1)" "holds s1 (m(a \<mapsto> data x))"
    by blast
  from read_hit [OF w(2), of a "data x" y] obtain c s2
    where "access Operation_kRead a y s1 = Inr ((OK, c), s2)" "data c = data x" by auto
  with w show ?thesis by blast
qed

lemma run_requests_memory:
  assumes "holds s m" and "\<forall>r \<in> set rs. request_ok writable m r"
  shows "\<exists>s'. run_requests access buf rs s = Inr (fst (memory_run rs m), s')
    \<and> holds s' (snd (memory_run rs m))"
  using assms
proof (induction rs arbitrary: s m)
  case Nil
  then show ?case by simp
next
  case (Cons r rs)
  show ?case
  proof (cases r)
    case (Read a)
    with Cons.prems obtain d where d: "m a = Some d" by auto
    from read_hit [OF Cons.prems(1) d, of buf] obtain b s'
      where s': "access Operation_kRead a buf s = Inr ((OK, b), s')" "data b = d" "holds s' m"
      by blast
    from Cons.IH [OF s'(3)] Cons.prems(2) obtain s''
      where "run_requests access buf rs s' = Inr (fst (memory_run rs m), s'')"
        "holds s'' (snd (memory_run rs m))" by auto
    with Read d s' show ?thesis by (auto split: prod.split)
  next
    case (Write a x)
    with Cons.prems obtain d where d: "m a = Some d" and x: "writable x" by auto
    from write_hit [OF Cons.prems(1) d x] obtain b s'
      where s': "access Operation_kWrite a x s = Inr ((OK, b), s')" "holds s' (m(a \<mapsto> data x))"
      by blast
    have "\<forall>r \<in> set rs. request_ok writable (m(a \<mapsto> data x)) r"
    proof
      fix r assume "r \<in> set rs"
      with Cons.prems(2) have "request_ok writable m r" by simp
      then show "request_ok writable (m(a \<mapsto> data x)) r" by (cases r) auto
    qed
    from Cons.IH [OF s'(2) this] obtain s''
      where "run_requests access buf rs s'
          = Inr (fst (memory_run rs (m(a \<mapsto> data x))), s'')"
        "holds s'' (snd (memory_run rs (m(a \<mapsto> data x))))" by blast
    with Write s' show ?thesis by (auto split: prod.split)
  qed
qed

end

section \<open>Facts on remote calls\<close>

lemma rpc_ok:
  "w_srv w = Some s \<Longrightarrow> call s = Inr ((st, r), s') \<Longrightarrow> is_ok st \<Longrightarrow>
    request_size c \<le> max_message \<Longrightarrow> response_size r \<le> max_message \<Longrightarrow>
    rpc c response_size call resp w = ((st, r), (logged c w)\<lparr>w_srv := Some s'\<rparr>)"
  by (simp add: rpc_def)

lemma empty_fits [simp]: "empty_size u \<le> max_message"
  by (simp add: empty_size_def max_message_def)

lemma small_assembled [simp]: "small_header (assemble_header c) \<longleftrightarrow> length (oc_hash c) = 32"
  by (simp add: small_header_def assemble_header_def)

lemma rpc_world: "rpc c response_size call resp w = (y, w') \<Longrightarrow> w_host w' = w_host w \<and> w_log w' = w_log w @ [c]"
  by (auto simp: rpc_def split: option.splits sum.splits prod.splits if_splits)

text \<open>The calls made between two states.\<close>

definition made :: "server_call list \<Rightarrow> world \<Rightarrow> world \<Rightarrow> bool" where
  "made cs w w' \<longleftrightarrow> w_log w' = w_log w @ cs"

lemma made_trans: "made cs w w' \<Longrightarrow> made ds w' w'' \<Longrightarrow> made (cs @ ds) w w''"
  by (simp add: made_def)

lemma made_host [simp]:
  "made cs (w\<lparr>w_host := h\<rparr>) w' = made cs w w'" "made cs w (w'\<lparr>w_host := h\<rparr>) = made cs w w'"
  by (simp_all add: made_def)

lemma made_rpc: "rpc c response_size call resp w = (y, w') \<Longrightarrow> made [c] w w'"
  by (simp add: made_def rpc_world)

lemma on_storage_ok:
  assumes "storages s (hdr_id hdr) = Some st" and "cast st = Some d"
    and "st_type d = type" and "st_instance_hash d = hdr_instance_hash hdr"
  shows "on_storage cast type hdr resp body s = body d"
  using assms by (simp add: on_storage_def CheckIdValid_def CheckStorage_def)

section \<open>Key negotiation\<close>

text \<open>
  What libsodium documents of the key exchange: key pairs can be made, with public keys of 32
  bytes, and the client's receiving key is the server's sending key and the other way round.
\<close>

definition kx_ok :: "libs \<Rightarrow> bool" where
  "kx_ok L \<longleftrightarrow> (\<forall>n. \<exists>pk sk. kx_keypair L n = Some (pk, sk) \<and> length pk = 32)
     \<and> (\<forall>n m pk sk pk' sk'. kx_keypair L n = Some (pk, sk) \<and> kx_keypair L m = Some (pk', sk') \<longrightarrow>
          (\<exists>rx tx. kx_client_session_keys L pk sk pk' = Some (rx, tx)
             \<and> kx_server_session_keys L pk' sk' pk = Some (tx, rx)))"

lemma KeyNegotiate_keys:
  assumes L: "sodium_ok L" "kx_ok L"
    and c: "singleton (w_host w) = Some c" "is_initialized c"
    and s: "w_srv w = Some s" "cryptor_set s" "singleton (server_host s) = Some e" "is_initialized e"
  shows "\<exists>w' c' s' e'. KeyNegotiate L w = Inr (OK, w')
    \<and> singleton (w_host w') = Some c' \<and> w_srv w' = Some s' \<and> singleton (server_host s') = Some e'
    \<and> is_initialized c' \<and> is_setup c' \<and> is_initialized e' \<and> is_setup e' \<and> cryptor_set s'
    \<and> session_key_rx c' = session_key_tx e' \<and> session_key_tx c' = session_key_rx e'
    \<and> storages s' = storages s"
proof -
  from L(2) obtain pk sk where p: "kx_keypair L (draws (w_host w)) = Some (pk, sk)" "length pk = 32"
    unfolding kx_ok_def by blast
  from L(2) obtain pk' sk' where
    p': "kx_keypair L (draws (server_host s)) = Some (pk', sk')" "length pk' = 32"
    unfolding kx_ok_def by blast
  from L(2) p(1) p'(1) obtain rx tx where k: "kx_client_session_keys L pk sk pk' = Some (rx, tx)"
    "kx_server_session_keys L pk' sk' pk = Some (tx, rx)"
    unfolding kx_ok_def by blast
  let ?c1 = "c\<lparr>public_key := pk, secret_key := sk\<rparr>"
  let ?c2 = "?c1\<lparr>session_key_rx := rx, session_key_tx := tx, is_setup := True\<rparr>"
  let ?e2 = "e\<lparr>public_key := pk', secret_key := sk', session_key_rx := tx, session_key_tx := rx,
    is_setup := True\<rparr>"
  let ?s = "put_cryptor ?e2 (s\<lparr>server_host := (server_host s)\<lparr>draws := draws (server_host s) + 1\<rparr>\<rparr>)"
  have aes: "aes_is_available L" using L(1) by (simp add: sodium_ok_def)
  have fits: "bytes_field 32 \<le> max_message" using bytes_field_le [of 32] by (simp add: max_message_def)
  have "KeyExchange L pk s = Inr ((grpc_ok, pk'), ?s)"
    using s p(2) p' k(2) aes
    by (simp add: KeyExchange_def server_cryptor_def with_cryptor_def SampleKeyPair_def
        SampleSessionKey_def GetKeyPair_def CryptoPrelogue_def panic_if_def Let_def)
  moreover have "SampleKeyPair L (draws (w_host w)) c = Inr (OK, ?c1)" "GetKeyPair ?c1 = Inr (pk, sk)"
    "SampleSessionKey L pk' False ?c1 = Inr (OK, ?c2)"
    using c p p'(2) k(1) aes
    by (simp_all add: SampleKeyPair_def SampleSessionKey_def GetKeyPair_def CryptoPrelogue_def
        panic_if_def)
  ultimately have "KeyNegotiate L w = Inr (OK, (logged (Call_KeyExchange pk)
      (w\<lparr>w_host := \<lparr>draws = draws (w_host w) + 1, singleton = Some ?c1\<rparr>\<rparr>))
        \<lparr>w_srv := Some ?s, w_host := \<lparr>draws = draws (w_host w) + 1, singleton = Some ?c2\<rparr>\<rparr>)"
    using c s(1) p(2) p'(2) fits by (simp add: KeyNegotiate_def with_cryptor_def rpc_def content_size_def request_size.simps request_sizes Let_def)
  then show ?thesis using c(2) s(2,4) by (simp add: put_cryptor_def)
qed

end
