(* ===== verification/Oram_Views.thy ===== *)
theory Oram_Views
  imports Oram_Controller
begin

text \<open>
  The memory a list of blocks stands for: the data of its normal blocks by identifier; what
  choosing, changing and re-encrypting blocks does to it.
\<close>

section \<open>Choosing and changing the blocks of an address\<close>

text \<open>The last block of an address, and the change of its data.\<close>

definition pick :: "u32 \<Rightarrow> oram_block list \<Rightarrow> oram_block \<Rightarrow> oram_block" where
  "pick a bs buf = fold (\<lambda>b acc. if BlockEqual a b then b else acc) bs buf"

lemma pick_payload:
  "payload buf = payload buf' \<Longrightarrow> payload (pick a bs buf) = payload (pick a bs buf')"
proof (induction bs arbitrary: buf buf')
  case Nil
  then show ?case by (simp add: pick_def)
next
  case (Cons b bs)
  have "pick a (b # bs) x = pick a bs (if BlockEqual a b then b else x)" for x
    by (simp add: pick_def)
  with Cons.IH [of "if BlockEqual a b then b else buf" "if BlockEqual a b then b else buf'"]
    Cons.prems show ?case by (cases "BlockEqual a b") (simp_all only: if_True if_False)
qed

definition put_data :: "u32 \<Rightarrow> bytes \<Rightarrow> oram_block \<Rightarrow> oram_block" where
  "put_data a d b = (if BlockEqual a b then b\<lparr>data := d\<rparr> else b)"

lemma payload_put_data:
  "payload b = payload c \<Longrightarrow> payload (put_data a d b) = payload (put_data a d c)"
  by (cases b; cases c; cases "header b"; cases "header c")
    (auto simp: put_data_def payload_def BlockEqual_def)

section \<open>The memory a list of blocks stands for\<close>

definition blocks_map :: "oram_block list \<Rightarrow> (u32 \<rightharpoonup> bytes)" where
  "blocks_map bs = map_of (map (\<lambda>b. (block_id (header b), data b))
     (filter (\<lambda>b. btype (header b) = BlockType_kNormal) bs))"

definition normal_ids :: "oram_block list \<Rightarrow> u32 list" where
  "normal_ids bs = map (\<lambda>b. block_id (header b))
     (filter (\<lambda>b. btype (header b) = BlockType_kNormal) bs)"

lemma blocks_map_Cons:
  "blocks_map (b # bs) a = (if BlockEqual a b then Some (data b) else blocks_map bs a)"
  by (auto simp: blocks_map_def BlockEqual_def)

lemma blocks_map_None: "blocks_map bs a = None \<longleftrightarrow> a \<notin> set (normal_ids bs)"
  by (induction bs) (auto simp: blocks_map_def normal_ids_def)

lemma dom_blocks_map: "dom (blocks_map bs) = set (normal_ids bs)"
  by (rule set_eqI) (simp add: domIff blocks_map_None)

lemma pick_notin: "a \<notin> set (normal_ids bs) \<Longrightarrow> pick a bs buf = buf"
  by (induction bs arbitrary: buf) (auto simp: pick_def normal_ids_def BlockEqual_def split: if_splits)

lemma pick_found:
  "distinct (normal_ids bs) \<Longrightarrow> blocks_map bs a = Some d \<Longrightarrow>
    BlockEqual a (pick a bs buf) \<and> data (pick a bs buf) = d"
proof (induction bs arbitrary: buf)
  case Nil
  then show ?case by (simp add: blocks_map_def)
next
  case (Cons b bs)
  show ?case
  proof (cases "BlockEqual a b")
    case True
    with Cons.prems have "a \<notin> set (normal_ids bs)"
      by (auto simp: normal_ids_def BlockEqual_def)
    from pick_notin [OF this, of b] True Cons.prems show ?thesis
      by (simp add: pick_def blocks_map_Cons)
  next
    case False
    with Cons.prems have "distinct (normal_ids bs)" "blocks_map bs a = Some d"
      by (auto simp: normal_ids_def blocks_map_Cons split: if_splits)
    from Cons.IH [OF this, of buf] False show ?thesis by (simp add: pick_def)
  qed
qed

lemma map_payload_views:
  assumes "map payload bs = map payload cs"
  shows "blocks_map bs = blocks_map cs" "normal_ids bs = normal_ids cs"
proof -
  have "blocks_map bs = blocks_map cs \<and> normal_ids bs = normal_ids cs" using assms
  proof (induction bs arbitrary: cs)
    case Nil
    then show ?case by simp
  next
    case (Cons b bs)
    then obtain c ds where cs: "cs = c # ds" "payload b = payload c"
      "map payload bs = map payload ds" by (cases cs) auto
    from Cons.IH [OF cs(3)] payload_eqD [OF cs(2)] BlockEqual_payload [OF cs(2)] cs(1)
    show ?case by (auto simp: blocks_map_Cons fun_eq_iff normal_ids_def)
  qed
  then show "blocks_map bs = blocks_map cs" "normal_ids bs = normal_ids cs" by simp_all
qed

lemma put_data_views:
  "normal_ids (map (put_data a d) bs) = normal_ids bs"
  "blocks_map bs a \<noteq> None \<Longrightarrow> blocks_map (map (put_data a d) bs) = (blocks_map bs)(a \<mapsto> d)"
proof -
  show "normal_ids (map (put_data a d) bs) = normal_ids bs"
    by (induction bs) (auto simp: normal_ids_def put_data_def)
  have eq: "BlockEqual e (put_data a d b) = BlockEqual e b" for e b
    by (auto simp: put_data_def BlockEqual_def)
  have "blocks_map (map (put_data a d) bs) e
      = (if e = a \<and> blocks_map bs a \<noteq> None then Some d else blocks_map bs e)" for e
    by (induction bs) (auto simp: blocks_map_Cons eq put_data_def BlockEqual_def,
        simp add: blocks_map_def)
  then show "blocks_map bs a \<noteq> None \<Longrightarrow>
      blocks_map (map (put_data a d) bs) = (blocks_map bs)(a \<mapsto> d)"
    by (auto simp: fun_eq_iff)
qed

end
