(* ===== verification/Path_Oram.thy ===== *)
theory Path_Oram
  imports Oram_Views
begin

text \<open>
  The Path ORAM (core/path\_oram\_controller.h and .cc): the controller's state and every
  operation on it. What is proved of them is in the theories \<open>Path_Bucket\<close> and
  \<open>Path_Oram_Correct\<close>.
\<close>

section \<open>State and constructor\<close>

record path_oram = oram_controller +
  po_tree_level :: nat
  po_bucket_size :: u8
  po_leafs :: nat
  po_stash_size :: nat
  po_position :: "u32 \<rightharpoonup> u32"
  po_stash :: "oram_block list"
  po_communication :: nat

text \<open>
  The bucket size is kept in a \<open>uint8_t\<close>; the size of the tree is computed from the full
  argument. With bucket size 0 or block number 0 a floating-point value is converted that
  the target type cannot hold.
\<close>

definition PathOramController :: "libs \<Rightarrow> cryptor \<Rightarrow> u32 \<Rightarrow> u32 \<Rightarrow> u32 \<Rightarrow> bool \<Rightarrow> host
    \<Rightarrow> (path_oram \<times> host) exec" where
  "PathOramController L memory i block_num bucket_size standalone h =
     andThen (OramController L memory i standalone (unat block_num) kPathOram h) (\<lambda>(c, h').
       if bucket_size = 0 \<or> block_num = 0 then Inl Undefined_Behaviour
       else let bucket_num = (unat block_num + unat bucket_size - 1) div unat bucket_size;
                level = ceil_LOG_BASE2 (bucket_num + 1) - 1
            in Inr (oram_controller.extend c
                 (path_oram.fields level (ucast bucket_size) (POW2 level) 0 Map.empty [] 0), h'))"

definition Path_InitOram :: "path_oram \<times> world \<Rightarrow> oram_status \<times> path_oram \<times> world" where
  "Path_InitOram cw =
     (case cw of (c, w) \<Rightarrow>
      case stub_InitTreeOram (assemble_header c) (ucast (po_bucket_size c)) (of_nat (po_leafs c))
                  (of_nat ORAM_BLOCK_SIZE) w of ((status, _), w') \<Rightarrow>
        (if \<not> is_ok status then mk_status kServerError (grpc_message status) ''InitOram''
         else OK, c, w'))"

definition Path_PrintOramTree :: "path_oram \<times> world \<Rightarrow> oram_status \<times> path_oram \<times> world" where
  "Path_PrintOramTree cw =
     (case cw of (c, w) \<Rightarrow>
      case stub_PrintOramTree (oc_id c) w of ((status, _), w') \<Rightarrow>
        (if \<not> is_ok status then mk_status kServerError (grpc_message status) ''PrintOramTree''
         else OK, c, w'))"

definition ReportClientStorage :: "path_oram \<Rightarrow> nat" where
  "ReportClientStorage c = length (po_stash c) * ORAM_BLOCK_SIZE"

definition ReportNetworkCommunication :: "path_oram \<Rightarrow> nat" where
  "ReportNetworkCommunication c = po_communication c * ORAM_BLOCK_SIZE"

text \<open>A random leaf; the range is computed in \<open>uint32_t\<close>.\<close>

definition RandomPosition :: "libs \<Rightarrow> path_oram \<Rightarrow> host \<Rightarrow> (u32 \<times> host) exec" where
  "RandomPosition L c h =
     andThen (UniformRandom L 0 (of_nat (po_leafs c) - 1) h) (\<lambda>((s, x), h').
       CheckStatus s (case x of None \<Rightarrow> Inl Undefined_Behaviour | Some x \<Rightarrow> Inr (x, h')))"

section \<open>Buckets\<close>

text \<open>The blocks of a bucket, encrypted and serialised; the cipher's status is not looked at.\<close>

fun seal_bucket :: "libs \<Rightarrow> oram_block list \<Rightarrow> host \<Rightarrow> (bytes list \<times> host) exec" where
  "seal_bucket L [] h = Inr ([], h)"
| "seal_bucket L (b # bs) h =
     andThen (EncryptBlock L b h) (\<lambda>((_, b'), h').
     andThen (seal_bucket L bs h') (\<lambda>(rest, h''). Inr (ConvertToString b' # rest, h'')))"

fun open_bucket :: "libs \<Rightarrow> bytes list \<Rightarrow> host \<Rightarrow> oram_block list exec" where
  "open_bucket L [] h = Inr []"
| "open_bucket L (d # ds) h =
     andThen (ConvertToBlock d) (\<lambda>b.
     andThen (DecryptBlock L b h) (\<lambda>(_, b').
     andThen (open_bucket L ds h) (\<lambda>bs. Inr (b' # bs))))"

definition AccurateWriteBucket :: "libs \<Rightarrow> path_oram \<Rightarrow> nat \<Rightarrow> nat \<Rightarrow> oram_block list \<Rightarrow> world
    \<Rightarrow> (oram_status \<times> world) exec" where
  "AccurateWriteBucket L c level offset bucket w =
     andThen (seal_bucket L bucket (w_host w)) (\<lambda>(strs, h).
       case stub_WritePath L (assemble_header c) 0 level offset kInit strs (w\<lparr>w_host := h\<rparr>) of
         ((status, _), w') \<Rightarrow>
           Inr (if \<not> is_ok status
                then mk_status kServerError (grpc_message status) ''AccurateWriteBucket''
                else OK, w'))"

definition WriteBucket :: "libs \<Rightarrow> u32 \<Rightarrow> nat \<Rightarrow> oram_block list \<Rightarrow> path_oram \<times> world
    \<Rightarrow> (oram_status \<times> path_oram \<times> world) exec" where
  "WriteBucket L path level bucket cw =
     (case cw of (c, w) \<Rightarrow>
      andThen (seal_bucket L bucket (w_host w)) (\<lambda>(strs, h).
        let c' = c\<lparr>po_communication := po_communication c + length bucket\<rparr> in
        case stub_WritePath L (assemble_header c) path level 0 kNormal strs
               (w\<lparr>w_host := h\<rparr>) of ((status, _), w') \<Rightarrow>
          Inr (if \<not> is_ok status
               then mk_status kServerError (grpc_message status) ''WriteBucket''
               else OK, c', w')))"

definition ReadBucket :: "libs \<Rightarrow> u32 \<Rightarrow> nat \<Rightarrow> path_oram \<times> world
    \<Rightarrow> ((oram_status \<times> oram_block list) \<times> path_oram \<times> world) exec" where
  "ReadBucket L path level cw =
     (case cw of (c, w) \<Rightarrow>
      if unat path \<ge> po_leafs c \<or> level > po_tree_level c
      then Inr ((mk_status kInvalidArgument ''The path or the level given is not correct''
             ''ReadBucket'', []), c, w)
      else case stub_ReadPath L (assemble_header c) path level w of ((status, bucket), w') \<Rightarrow>
        if \<not> is_ok status
        then Inr ((mk_status kServerError (grpc_message status) ''ReadBucket'', []), c, w')
        else andThen (open_bucket L bucket (w_host w')) (\<lambda>bs.
          Inr ((OK, bs), c\<lparr>po_communication := po_communication c + length bucket\<rparr>, w')))"

section \<open>Filling the tree\<close>

text \<open>
  One bucket takes up to \<open>n\<close> entries of the data; the normal ones among them get a random
  leaf below the bucket. The result has the entries left over.
\<close>

fun fill_bucket :: "libs \<Rightarrow> u32 \<Rightarrow> u32 \<Rightarrow> nat \<Rightarrow> oram_block list \<Rightarrow> (u32 \<rightharpoonup> u32)
    \<Rightarrow> oram_block list \<Rightarrow> host
    \<Rightarrow> ((oram_block list \<times> (u32 \<rightharpoonup> u32) \<times> oram_block list) \<times> host) exec" where
  "fill_bucket L lo hi 0 ds pm bucket h = Inr ((ds, pm, bucket), h)"
| "fill_bucket L lo hi (Suc n) [] pm bucket h = Inr (([], pm, bucket), h)"
| "fill_bucket L lo hi (Suc n) (d # ds) pm bucket h =
     (if btype (header d) = BlockType_kNormal
      then andThen (UniformRandom L lo hi h) (\<lambda>((s, p), h').
        CheckStatus s (case p of
          None \<Rightarrow> Inl Undefined_Behaviour
        | Some p \<Rightarrow> fill_bucket L lo hi n ds (pm(block_id (header d) \<mapsto> p)) (bucket @ [d]) h'))
      else fill_bucket L lo hi n ds pm bucket h)"

text \<open>The buckets \<open>js\<close> of level \<open>i\<close>, from left to right.\<close>

fun fill_level :: "libs \<Rightarrow> nat \<Rightarrow> nat list \<Rightarrow> oram_block list \<Rightarrow> path_oram \<times> world
    \<Rightarrow> (oram_block list \<times> path_oram \<times> world) exec" where
  "fill_level L i [] ds (c, w) = Inr (ds, c, w)"
| "fill_level L i (j # js) ds (c, w) =
     (let span = POW2 (po_tree_level c - i); lo = j * span; hi = lo + span - 1 in
      andThen (fill_bucket L (of_nat lo) (of_nat hi) (unat (po_bucket_size c)) ds (po_position c)
                 [] (w_host w)) (\<lambda>((ds', pm, bucket), h).
      andThen (PadStash L bucket (unat (po_bucket_size c)) h) (\<lambda>(bucket', h').
        let c' = c\<lparr>po_position := pm\<rparr> in
        andThen (AccurateWriteBucket L c' i j bucket' (w\<lparr>w_host := h'\<rparr>)) (\<lambda>(s, w').
          CheckStatus s (fill_level L i js ds' (c', w'))))))"

text \<open>The levels from \<open>n - 1\<close> down to 0.\<close>

fun fill_levels :: "libs \<Rightarrow> nat \<Rightarrow> oram_block list \<Rightarrow> path_oram \<times> world
    \<Rightarrow> (oram_block list \<times> path_oram \<times> world) exec" where
  "fill_levels L 0 ds cw = Inr (ds, cw)"
| "fill_levels L (Suc i) ds cw =
     andThen (fill_level L i [0..<POW2 i] ds cw) (\<lambda>(ds', cw'). fill_levels L i ds' cw')"

text \<open>Entries left over at the end are dropped.\<close>

definition Path_FillWithData :: "libs \<Rightarrow> oram_block list \<Rightarrow> path_oram \<times> world
    \<Rightarrow> (oram_status \<times> path_oram \<times> world) exec" where
  "Path_FillWithData L ds cw =
     andThen (fill_levels L (po_tree_level (fst cw) + 1) ds cw) (\<lambda>(_, c, w).
       Inr (OK, c\<lparr>oc_initialized := True\<rparr>, w))"

section \<open>Access\<close>

text \<open>\<open>position_map_[a]\<close>: a missing entry is created with value 0.\<close>

definition touch :: "u32 \<Rightarrow> (u32 \<rightharpoonup> u32) \<Rightarrow> u32 \<times> (u32 \<rightharpoonup> u32)" where
  "touch a pm = (case pm a of Some p \<Rightarrow> (p, pm) | None \<Rightarrow> (0, pm(a \<mapsto> 0)))"

text \<open>
  The loop of \<open>FindSubsetOf\<close>: at most \<open>n\<close> blocks whose position is the leaf \<open>x\<close> move from the
  stash to the subset.
\<close>

fun subset_loop :: "nat \<Rightarrow> u32 \<Rightarrow> oram_block list \<Rightarrow> (u32 \<rightharpoonup> u32)
    \<Rightarrow> oram_block list \<times> oram_block list \<times> (u32 \<rightharpoonup> u32)" where
  "subset_loop n x [] pm = ([], [], pm)"
| "subset_loop n x (b # bs) pm =
     (case touch (block_id (header b)) pm of (p, pm') \<Rightarrow>
        if n = 0 then ([], b # bs, pm')
        else if p = x
        then (case subset_loop (n - 1) x bs pm' of (sub, kept, pm'') \<Rightarrow> (b # sub, kept, pm''))
        else (case subset_loop n x bs pm' of (sub, kept, pm'') \<Rightarrow> (sub, b # kept, pm'')))"

definition FindSubsetOf :: "libs \<Rightarrow> u32 \<Rightarrow> path_oram \<times> world
    \<Rightarrow> (oram_block list \<times> path_oram \<times> world) exec" where
  "FindSubsetOf L x cw =
     (case cw of (c, w) \<Rightarrow>
      case subset_loop (unat (po_bucket_size c)) x (po_stash c) (po_position c) of
        (sub, kept, pm) \<Rightarrow>
          andThen (PadStash L sub (unat (po_bucket_size c)) (w_host w)) (\<lambda>(bucket, h).
            Inr (bucket, c\<lparr>po_stash := kept, po_position := pm\<rparr>, w\<lparr>w_host := h\<rparr>)))"

text \<open>Steps 3 to 5: the buckets on the path, \<open>n\<close> levels from level \<open>i\<close> on.\<close>

fun read_path :: "libs \<Rightarrow> u32 \<Rightarrow> nat \<Rightarrow> nat \<Rightarrow> path_oram \<times> world
    \<Rightarrow> ((oram_status \<times> oram_block list) \<times> path_oram \<times> world) exec" where
  "read_path L x i 0 cw = Inr ((OK, []), cw)"
| "read_path L x i (Suc n) cw =
     andThen (ReadBucket L x i cw) (\<lambda>((s, bs), cw').
       if \<not> ok s
       then Inr ((Append s (mk_status kInvalidOperation
              (''Failed to write bucket '' @ to_string (unat x)) ''InternalAccessDirect''), []), cw')
       else andThen (read_path L x (Suc i) n cw') (\<lambda>((s', rest), cw'').
         Inr ((s', bs @ rest), cw'')))"

text \<open>Normal blocks that the stash does not have yet are added to it.\<close>

fun merge_stash :: "oram_block list \<Rightarrow> oram_block list \<Rightarrow> oram_block list" where
  "merge_stash stash [] = stash"
| "merge_stash stash (b # bs) =
     merge_stash
       (if find (BlockEqual (block_id (header b))) stash = None
           \<and> btype (header b) = BlockType_kNormal
        then stash @ [b] else stash) bs"

text \<open>The first match in a list is changed, or removed (\<open>erase\<close>).\<close>

fun update_first :: "('a \<Rightarrow> bool) \<Rightarrow> ('a \<Rightarrow> 'a) \<Rightarrow> 'a list \<Rightarrow> 'a list" where
  "update_first P f [] = []"
| "update_first P f (x # xs) = (if P x then f x # xs else x # update_first P f xs)"

fun remove_first :: "('a \<Rightarrow> bool) \<Rightarrow> 'a list \<Rightarrow> 'a list" where
  "remove_first P [] = []"
| "remove_first P (x # xs) = (if P x then xs else x # remove_first P xs)"

text \<open>Steps 10 to 15: the path is written back from level \<open>n - 1\<close> to the root.\<close>

fun write_path :: "libs \<Rightarrow> u32 \<Rightarrow> nat \<Rightarrow> path_oram \<times> world
    \<Rightarrow> (oram_status \<times> path_oram \<times> world) exec" where
  "write_path L x 0 cw = Inr (OK, cw)"
| "write_path L x (Suc i) cw =
     andThen (FindSubsetOf L x cw) (\<lambda>(bucket, cw1).
     andThen (WriteBucket L x i bucket cw1) (\<lambda>(s, cw2).
       if \<not> ok s
       then Inr (Append s (mk_status kInvalidOperation ''Failed to write bucket''
              ''InternalAccessDirect''), cw2)
       else write_path L x i cw2))"

text \<open>A write copies the data and its length into the stash's block.\<close>

definition write_into :: "oram_block \<Rightarrow> oram_block \<Rightarrow> oram_block" where
  "write_into blk b = b\<lparr>data := data blk, header := (header b)\<lparr>data_len := data_len (header blk)\<rparr>\<rparr>"

definition InternalAccessDirect :: "libs \<Rightarrow> operation \<Rightarrow> u32 \<Rightarrow> u32 \<Rightarrow> oram_block \<Rightarrow> bool
    \<Rightarrow> path_oram \<times> world \<Rightarrow> ((oram_status \<times> oram_block) \<times> path_oram \<times> world) exec" where
  "InternalAccessDirect L op address x blk dum cw =
     andThen (read_path L x 0 (po_tree_level (fst cw) + 1) cw) (\<lambda>((s, blocks), c, w).
       if \<not> ok s then Inr ((s, blk), c, w)
       else if dum then Inr ((OK, blk), c, w)
       else let stash = merge_stash (po_stash c) blocks;
                c1 = c\<lparr>po_stash := stash\<rparr> in
         case find (BlockEqual address) stash of
           None \<Rightarrow> Inr ((mk_status kObjectNotFound
                  (''Failed to find the block '' @ to_string (unat address) @ '' in the stash!'')
                  ''InternalAccessDirect'', blk), c1, w)
         | Some b \<Rightarrow>
             let c2 = c1\<lparr>po_stash_size := max (po_stash_size c1) (length stash)\<rparr>;
                 blk' = (if op = Operation_kWrite then blk else b);
                 c3 = (if op = Operation_kWrite
                       then c2\<lparr>po_stash := update_first (BlockEqual address) (write_into blk) stash\<rparr>
                       else if \<not> oc_standalone c2
                       then c2\<lparr>po_stash := remove_first (BlockEqual address) stash,
                               po_position := (po_position c2)(address := None)\<rparr>
                       else c2)
             in andThen (write_path L x (po_tree_level c3 + 1) (c3, w)) (\<lambda>(s, cw').
                  Inr ((s, blk'), cw')))"

definition Path_InternalAccess :: "libs \<Rightarrow> operation \<Rightarrow> u32 \<Rightarrow> oram_block \<Rightarrow> bool
    \<Rightarrow> path_oram \<times> world \<Rightarrow> ((oram_status \<times> oram_block) \<times> path_oram \<times> world) exec" where
  "Path_InternalAccess L op address blk dum cw =
     (case cw of (c, w) \<Rightarrow>
      if \<not> oc_initialized c
      then Inr ((mk_status kInvalidOperation
             (''Cannot access ORAM before it is initialized. You may need to call `InitOram()` ''
              @ ''and `FillWithData()` method first.'') ''InternalAccess'', blk), cw)
      else panic_if (op = Operation_kInvalid)
        (andThen (RandomPosition L c (w_host w)) (\<lambda>(x, h).
           let w' = w\<lparr>w_host := h\<rparr> in
           if dum then InternalAccessDirect L op address x blk dum (c, w')
           else let prev = fst (touch address (po_position c)) in
             InternalAccessDirect L op address prev blk dum
               (c\<lparr>po_position := (po_position c)(address \<mapsto> x)\<rparr>, w'))))"

definition Path_Access :: "libs \<Rightarrow> operation \<Rightarrow> u32 \<Rightarrow> oram_block
    \<Rightarrow> path_oram \<times> world \<Rightarrow> ((oram_status \<times> oram_block) \<times> path_oram \<times> world) exec" where
  "Path_Access L op address blk cw =
     (if \<not> oc_initialized (fst cw) then Inr ((not_initialized, blk), cw)
      else Path_InternalAccess L op address blk False cw)"

definition AccessDirect :: "libs \<Rightarrow> operation \<Rightarrow> u32 \<Rightarrow> u32 \<Rightarrow> oram_block
    \<Rightarrow> path_oram \<times> world \<Rightarrow> ((oram_status \<times> oram_block) \<times> path_oram \<times> world) exec" where
  "AccessDirect L op address position blk cw =
     (if \<not> oc_initialized (fst cw) then Inr ((not_initialized, blk), cw)
      else InternalAccessDirect L op address position blk False cw)"

end
