(* ===== verification/Path_Bucket.thy ===== *)
theory Path_Bucket
  imports Path_Oram
begin

text \<open>
  One bucket of the Path ORAM over the wire: what \<open>ReadBucket\<close>, \<open>WriteBucket\<close> and
  \<open>AccurateWriteBucket\<close> do to the tree the server holds, seen as a map from tags to the blocks
  the client stored there.
\<close>

section \<open>Entries of a bucket\<close>

definition stored :: "libs \<Rightarrow> bytes \<Rightarrow> bytes \<Rightarrow> oram_block \<Rightarrow> bool" where
  "stored L k e b \<longleftrightarrow> (\<exists>b'. e = lz4_compress L (block_bytes b') \<and> sealed L k b' b
     \<and> bulky L b')"

lemma block_bytes_nonempty: "wf_block b \<Longrightarrow> block_bytes b \<noteq> []"
  by (metis length_block_bytes list.size(3) zero_neq_numeral)

lemma stored_nonempty: "lz4_ok L \<Longrightarrow> stored L k e b \<Longrightarrow> e \<noteq> []"
  by (auto simp: stored_def lz4_ok_def sealed_def block_bytes_nonempty)

lemma read_entries_stored:
  assumes L: "lz4_ok L"
  shows "list_all2 (stored L k) (filter (\<lambda>e. e \<noteq> []) es) bs \<Longrightarrow>
    \<exists>cs. read_entries L es = (OK, cs, map (\<lambda>_. []) es) \<and> list_all2 (sealed L k) cs bs"
proof (induction es arbitrary: bs)
  case Nil
  then show ?case by simp
next
  case (Cons e es)
  show ?case
  proof (cases "e = []")
    case True
    with Cons show ?thesis by fastforce
  next
    case False
    with Cons.prems obtain b bs' where bs: "bs = b # bs'" "stored L k e b"
      "list_all2 (stored L k) (filter (\<lambda>e. e \<noteq> []) es) bs'"
      by (auto simp: list_all2_Cons1)
    from bs(2) obtain b' where b': "e = lz4_compress L (block_bytes b')" "sealed L k b' b"
      "bulky L b'" by (auto simp: stored_def)
    from Cons.IH [OF bs(3)] obtain cs where
      "read_entries L es = (OK, cs, map (\<lambda>_. []) es)" "list_all2 (sealed L k) cs bs'" by blast
    moreover have wf: "wf_block b'" using b' by (simp add: sealed_def)
    ultimately show ?thesis
      using False bs b' DataDecompress_bulky [OF L wf b'(3)]
      by (intro exI [of _ "b' # cs"]) simp
  qed
qed

lemma write_entries_stored:
  assumes L: "lz4_ok L"
  shows "list_all2 (\<lambda>c b. sealed L k c b \<and> bulky L c) cs bs \<Longrightarrow>
    \<exists>es. write_entries L cs acc = (OK, acc @ es) \<and> list_all2 (stored L k) es bs"
proof (induction arbitrary: acc rule: list_all2_induct)
  case Nil
  then show ?case by simp
next
  case (Cons c cs b bs)
  let ?e = "lz4_compress L (block_bytes c)"
  have "DataCompress L (block_bytes c) = (OK, ?e)"
    using Cons.hyps(1) L by (simp add: DataCompress_ok block_bytes_nonempty sealed_def)
  moreover obtain es where "write_entries L cs (acc @ [?e]) = (OK, (acc @ [?e]) @ es)"
    "list_all2 (stored L k) es bs" using Cons.IH [of "acc @ [?e]"] by blast
  moreover have "stored L k ?e b" using Cons.hyps(1) by (auto simp: stored_def)
  ultimately show ?case by (intro exI [of _ "?e # es"]) simp
qed

lemma filter_stored:
  "lz4_ok L \<Longrightarrow> list_all2 (stored L k) es bs \<Longrightarrow> filter (\<lambda>e. e \<noteq> []) es = es"
proof -
  assume L: "lz4_ok L"
  show "list_all2 (stored L k) es bs \<Longrightarrow> filter (\<lambda>e. e \<noteq> []) es = es"
    by (induction rule: list_all2_induct) (use stored_nonempty [OF L] in auto)
qed

section \<open>Buckets over the wire\<close>

lemma open_bucket_sealed:
  assumes L: "sodium_ok L" and k: "keyed k h"
  shows "list_all2 (sealed L k) cs bs \<Longrightarrow>
    \<exists>ds. open_bucket L (SerializeToStringVector cs) h = Inr ds \<and> map payload ds = map payload bs
      \<and> list_all wf_block ds"
proof (induction rule: list_all2_induct)
  case Nil
  then show ?case by (simp add: SerializeToStringVector_def)
next
  case (Cons c cs b bs)
  from DecryptBlock_sealed [OF L Cons.hyps(1) k] obtain d
    where d: "DecryptBlock L c h = Inr (OK, d)" "payload d = payload b" "wf_block d" by blast
  from Cons.IH obtain ds where
    "open_bucket L (SerializeToStringVector cs) h = Inr ds" "map payload ds = map payload bs"
    "list_all wf_block ds" by blast
  moreover have "ConvertToBlock (ConvertToString c) = Inr c"
    using Cons.hyps(1) by (simp add: ConvertToBlock_ConvertToString sealed_def)
  ultimately show ?case
    using d by (intro exI [of _ "d # ds"]) (simp add: SerializeToStringVector_def)
qed

lemma seal_bucket_sealed:
  assumes L: "sodium_ok L"
  shows "list_all wf_block bs \<Longrightarrow> list_all (dense_block L k) bs \<Longrightarrow> keyed k h \<Longrightarrow>
    \<exists>cs h'. seal_bucket L bs h = Inr (SerializeToStringVector cs, h') \<and> keyed k h'
      \<and> list_all2 (\<lambda>c b. sealed L k c b \<and> bulky L c) cs bs"
proof (induction bs arbitrary: h)
  case Nil
  then show ?case by (intro exI [of _ "[]"]) (simp add: SerializeToStringVector_def)
next
  case (Cons b bs)
  from EncryptBlock_seals [OF L, of b k h] Cons.prems obtain e where
    e: "EncryptBlock L b h = Inr ((OK, e), h\<lparr>draws := draws h + 1\<rparr>)" "sealed L k e b" by auto
  then have "bulky L e" using Cons.prems by (auto simp: dense_block_def)
  moreover from Cons.IH [of "h\<lparr>draws := draws h + 1\<rparr>"] Cons.prems obtain cs h' where
    "seal_bucket L bs (h\<lparr>draws := draws h + 1\<rparr>) = Inr (SerializeToStringVector cs, h')"
    "keyed k h'" "list_all2 (\<lambda>c b. sealed L k c b \<and> bulky L c) cs bs" by auto
  ultimately show ?case using e
    by (intro exI [of _ "e # cs"] exI [of _ h']) (simp add: SerializeToStringVector_def)
qed

section \<open>The server's tree as the client sees it\<close>

definition tree_tags :: "nat \<Rightarrow> tag set" where
  "tree_tags n = {(l, j). l \<le> n \<and> j < 2 ^ l}"

text \<open>
  The server holds the client's tree: at every tag the non-empty entries are the sealed
  forms of the blocks \<open>T\<close> has there, and there are no more of them than a message holds.
\<close>

definition path_server :: "libs \<Rightarrow> bytes \<Rightarrow> path_oram \<Rightarrow> world \<Rightarrow> (tag \<Rightarrow> oram_block list) \<Rightarrow> bool" where
  "path_server L k c w T \<longleftrightarrow> (\<exists>s st. w_srv w = Some s \<and> storages s (oc_id c) = Some (Tree st)
     \<and> st_type st = kTreeStorage \<and> st_instance_hash st = oc_hash c
     \<and> tree_level st = po_tree_level c
     \<and> (\<forall>t \<in> tree_tags (po_tree_level c). \<exists>es. tree_map st t = Some es
          \<and> list_all2 (stored L k) (filter (\<lambda>e. e \<noteq> []) es) (T t) \<and> length (T t) < 256))
     \<and> po_tree_level c < 32 \<and> length (oc_hash c) = 32"

text \<open>The tag of the bucket on the path to leaf \<open>x\<close> at a level.\<close>

definition path_tag :: "path_oram \<Rightarrow> u32 \<Rightarrow> nat \<Rightarrow> tag" where
  "path_tag c x l = (l, path_offset (po_tree_level c) l (unat x))"

lemma path_tag_in:
  assumes "unat x < 2 ^ po_tree_level c" and "l \<le> po_tree_level c"
  shows "path_tag c x l \<in> tree_tags (po_tree_level c)"
proof -
  have "(2 :: nat) ^ po_tree_level c = 2 ^ l * 2 ^ (po_tree_level c - l)"
    using assms(2) by (simp flip: power_add)
  then have "unat x div 2 ^ (po_tree_level c - l) < 2 ^ l"
    using assms(1) by (simp add: less_mult_imp_div_less)
  then show ?thesis
    using assms(2) by (simp add: path_tag_def tree_tags_def path_offset_def POW2_def)
qed

lemma tag_small: "(l, j) \<in> tree_tags n \<Longrightarrow> n < 32 \<Longrightarrow> l < 2 ^ 32 \<and> j < 2 ^ 32"
proof -
  assume t: "(l, j) \<in> tree_tags n" "n < 32"
  then have "(2 :: nat) ^ l \<le> 2 ^ 32" by (intro power_increasing) (auto simp: tree_tags_def)
  with t show ?thesis by (simp add: tree_tags_def)
qed

text \<open>The strings of a bucket on the wire.\<close>

lemma sealed_strings:
  assumes "list_all2 (sealed L k) cs bs"
  shows "list_all (\<lambda>d. length d = 560) (SerializeToStringVector cs)" "length (SerializeToStringVector cs) = length bs"
proof -
  have "list_all wf_block cs" using assms by (auto simp: list_all2_conv_all_nth list_all_length sealed_def)
  then show "list_all (\<lambda>d. length d = 560) (SerializeToStringVector cs)"
    by (auto simp: list_all_iff SerializeToStringVector_def ConvertToString_def)
  show "length (SerializeToStringVector cs) = length bs"
    using list_all2_lengthD [OF assms] by (simp add: SerializeToStringVector_def)
qed

definition same_setup :: "path_oram \<Rightarrow> path_oram \<Rightarrow> bool" where
  "same_setup c c' \<longleftrightarrow> oc_id c' = oc_id c \<and> oc_hash c' = oc_hash c
     \<and> po_tree_level c' = po_tree_level c \<and> po_leafs c' = po_leafs c
     \<and> po_bucket_size c' = po_bucket_size c \<and> oc_standalone c' = oc_standalone c
     \<and> oc_initialized c' = oc_initialized c"

lemma path_server_setup:
  "same_setup c c' \<Longrightarrow> path_server L k c' w T = path_server L k c w T"
  by (simp add: path_server_def same_setup_def)

lemma path_server_host [simp]: "path_server L k c (w\<lparr>w_host := h\<rparr>) T = path_server L k c w T"
  by (simp add: path_server_def)

lemma ReadBucket_view:
  assumes L: "sodium_ok L" "lz4_ok L" and k: "keyed k (w_host w)"
    and srv: "path_server L k c w T" and leafs: "po_leafs c = 2 ^ po_tree_level c"
    and x: "unat x < 2 ^ po_tree_level c" and l: "l \<le> po_tree_level c"
  shows "\<exists>ds w'. ReadBucket L x l (c, w)
      = Inr ((OK, ds), c\<lparr>po_communication := po_communication c + length ds\<rparr>, w')
    \<and> map payload ds = map payload (T (path_tag c x l)) \<and> list_all wf_block ds
    \<and> w_host w' = w_host w \<and> path_server L k c w' (T(path_tag c x l := []))"
proof -
  let ?t = "path_tag c x l"
  from srv obtain s st where s: "w_srv w = Some s" "storages s (oc_id c) = Some (Tree st)"
    "st_type st = kTreeStorage" "st_instance_hash st = oc_hash c" "tree_level st = po_tree_level c"
    and tags: "\<forall>t \<in> tree_tags (po_tree_level c). \<exists>es. tree_map st t = Some es
          \<and> list_all2 (stored L k) (filter (\<lambda>e. e \<noteq> []) es) (T t) \<and> length (T t) < 256"
    and small: "po_tree_level c < 32" "length (oc_hash c) = 32"
    by (auto simp: path_server_def)
  from tags path_tag_in [OF x l] obtain es where es: "tree_map st ?t = Some es"
    "list_all2 (stored L k) (filter (\<lambda>e. e \<noteq> []) es) (T ?t)" "length (T ?t) < 256" by blast
  from read_entries_stored [OF L(2) es(2)] obtain cs where
    cs: "read_entries L es = (OK, cs, map (\<lambda>_. []) es)" "list_all2 (sealed L k) cs (T ?t)" by blast
  let ?st = "st\<lparr>tree_map := (tree_map st)(?t \<mapsto> map (\<lambda>_. []) es)\<rparr>"
  let ?s = "put_storage (assemble_header c) (Tree ?st) s"
  let ?w = "(logged (Call_ReadPath (assemble_header c) x l) w)\<lparr>w_srv := Some ?s\<rparr>"
  from open_bucket_sealed [OF L(1) k cs(2)] obtain ds where
    ds: "open_bucket L (SerializeToStringVector cs) (w_host w) = Inr ds"
      "map payload ds = map payload (T ?t)" "list_all wf_block ds" by blast
  have len: "length (SerializeToStringVector cs) = length ds"
    using cs(2) ds(2) by (auto simp: SerializeToStringVector_def list_all2_lengthD
        dest: map_eq_imp_length_eq)
  have "list_all (\<lambda>d. length d = 560) (SerializeToStringVector cs)" "length (SerializeToStringVector cs) < 256"
    using sealed_strings [OF cs(2)] es(3) by simp_all
  note fits = bucket_fits(2) [OF _ this, of "assemble_header c" 0 0] small_requests(7) [of "assemble_header c" l x]
  have "Tree_ReadPath L l x st = Inr ((OK, cs), ?st)"
    using l s(5) es(1) cs(1) by (simp add: Tree_ReadPath_def path_tag_def)
  then have "ReadPath L (assemble_header c) x l s
      = Inr ((grpc_ok, SerializeToStringVector cs), ?s)"
    using s unfolding ReadPath_def
    by (subst on_storage_ok [where st = "Tree st" and d = st]) (simp_all add: assemble_header_def)
  then have "stub_ReadPath L (assemble_header c) x l w
      = ((grpc_ok, SerializeToStringVector cs), ?w)"
    using s(1) fits small l by (simp add: rpc_ok)
  then have "ReadBucket L x l (c, w)
      = Inr ((OK, ds), c\<lparr>po_communication := po_communication c + length ds\<rparr>,
             ?w)"
    using x l leafs ds(1) len by (simp add: ReadBucket_def)
  moreover have "path_server L k c ?w (T(?t := []))"
    using s tags small by (simp add: path_server_def put_storage_def assemble_header_def)
  ultimately show ?thesis using ds by (intro exI [of _ ds] exI [of _ "?w"]) simp
qed

lemma WriteBucket_view:
  assumes L: "sodium_ok L" "lz4_ok L" and k: "keyed k (w_host w)"
    and srv: "path_server L k c w T"
    and x: "unat x < 2 ^ po_tree_level c" and l: "l \<le> po_tree_level c"
    and bs: "list_all wf_block bs" "list_all (dense_block L k) bs" "length bs < 256"
  shows "\<exists>w'. WriteBucket L x l bs (c, w)
      = Inr (OK, c\<lparr>po_communication := po_communication c + length bs\<rparr>, w')
    \<and> keyed k (w_host w') \<and> path_server L k c w' (T(path_tag c x l := bs))"
proof -
  let ?t = "path_tag c x l"
  from srv obtain s st where s: "w_srv w = Some s" "storages s (oc_id c) = Some (Tree st)"
    "st_type st = kTreeStorage" "st_instance_hash st = oc_hash c" "tree_level st = po_tree_level c"
    and tags: "\<forall>t \<in> tree_tags (po_tree_level c). \<exists>es. tree_map st t = Some es
          \<and> list_all2 (stored L k) (filter (\<lambda>e. e \<noteq> []) es) (T t) \<and> length (T t) < 256"
    and small: "po_tree_level c < 32" "length (oc_hash c) = 32"
    by (auto simp: path_server_def)
  from tags path_tag_in [OF x l] obtain es where es: "tree_map st ?t = Some es" by blast
  have t32: "l < 2 ^ 32" using l small(1) by simp
  from seal_bucket_sealed [OF L(1) bs(1,2) k] obtain cs h' where
    cs: "seal_bucket L bs (w_host w) = Inr (SerializeToStringVector cs, h')" "keyed k h'"
      "list_all2 (\<lambda>c b. sealed L k c b \<and> bulky L c) cs bs" by blast
  have "list_all (\<lambda>d. length d = 560) (SerializeToStringVector cs)" "length (SerializeToStringVector cs) < 256"
    using sealed_strings [of L k cs bs] bs(3) list_all2_mono [OF cs(3), of "sealed L k"] by simp_all
  note fits = bucket_fits(1) [OF _ this, of "assemble_header c" l]
  have "list_all wf_block cs" using cs(3)
    by (auto simp: list_all2_conv_all_nth list_all_length sealed_def)
  then have des: "DeserializeFromStringVector (SerializeToStringVector cs) = Inr cs"
    by (rule Deserialize_Serialize)
  from write_entries_stored [OF L(2) cs(3), of "[]"] obtain fs where
    fs: "write_entries L cs [] = (OK, fs)" "list_all2 (stored L k) fs bs" by auto
  let ?st = "st\<lparr>tree_map := (tree_map st)(?t \<mapsto> fs)\<rparr>"
  let ?s = "put_storage (assemble_header c) (Tree ?st) s"
  let ?w = "(logged (Call_WritePath (assemble_header c) x l 0 kNormal (SerializeToStringVector cs)) (w\<lparr>w_host := h'\<rparr>))\<lparr>w_srv := Some ?s\<rparr>"
  have "Tree_WritePath L l x cs st = Inr (OK, ?st)"
    using l s(5) es fs(1)
    by (simp add: Tree_WritePath_def AccurateWritePath_def path_tag_def Let_def)
  then have "WritePath L (assemble_header c) x l 0 kNormal (SerializeToStringVector cs) s
      = Inr ((grpc_ok, ()), ?s)"
    using s des unfolding WritePath_def
    by (subst on_storage_ok [where st = "Tree st" and d = st]) (simp_all add: assemble_header_def)
  then have "stub_WritePath L (assemble_header c) x l 0 kNormal (SerializeToStringVector cs)
      (w\<lparr>w_host := h'\<rparr>) = ((grpc_ok, ()), ?w)"
    using s(1) fits [of 0 x kNormal] small t32 by (simp add: rpc_ok)
  then have "WriteBucket L x l bs (c, w)
      = Inr (OK, c\<lparr>po_communication := po_communication c + length bs\<rparr>,
             ?w)"
    using cs(1) by (simp add: WriteBucket_def Let_def assemble_header_def)
  moreover have "path_server L k c ?w (T(?t := bs))"
    using s tags fs small bs(3) filter_stored [OF L(2) fs(2)]
    by (simp add: path_server_def put_storage_def assemble_header_def)
  ultimately show ?thesis using cs(2) by fastforce
qed

lemma AccurateWriteBucket_view:
  assumes L: "sodium_ok L" "lz4_ok L" and k: "keyed k (w_host w)"
    and srv: "path_server L k c w T" and t: "(l, j) \<in> tree_tags (po_tree_level c)"
    and bs: "list_all wf_block bs" "list_all (dense_block L k) bs" "length (T (l, j) @ bs) < 256"
  shows "\<exists>w'. AccurateWriteBucket L c l j bs w = Inr (OK, w')
    \<and> keyed k (w_host w') \<and> path_server L k c w' (T((l, j) := T (l, j) @ bs))"
proof -
  let ?t = "(l, j)"
  from srv obtain s st where s: "w_srv w = Some s" "storages s (oc_id c) = Some (Tree st)"
    "st_type st = kTreeStorage" "st_instance_hash st = oc_hash c" "tree_level st = po_tree_level c"
    and tags: "\<forall>t \<in> tree_tags (po_tree_level c). \<exists>es. tree_map st t = Some es
          \<and> list_all2 (stored L k) (filter (\<lambda>e. e \<noteq> []) es) (T t) \<and> length (T t) < 256"
    and small: "po_tree_level c < 32" "length (oc_hash c) = 32"
    by (auto simp: path_server_def)
  have t32: "l < 2 ^ 32" "j < 2 ^ 32" using tag_small [OF t small(1)] by simp_all
  from tags t obtain es where es: "tree_map st ?t = Some es"
    "list_all2 (stored L k) (filter (\<lambda>e. e \<noteq> []) es) (T ?t)" by blast
  from seal_bucket_sealed [OF L(1) bs(1,2) k] obtain cs h' where
    cs: "seal_bucket L bs (w_host w) = Inr (SerializeToStringVector cs, h')" "keyed k h'"
      "list_all2 (\<lambda>c b. sealed L k c b \<and> bulky L c) cs bs" by blast
  have "list_all (\<lambda>d. length d = 560) (SerializeToStringVector cs)" "length (SerializeToStringVector cs) < 256"
    using sealed_strings [of L k cs bs] bs(3) list_all2_mono [OF cs(3), of "sealed L k"] by simp_all
  note fits = bucket_fits(1) [OF _ this, of "assemble_header c" l]
  have "list_all wf_block cs" using cs(3)
    by (auto simp: list_all2_conv_all_nth list_all_length sealed_def)
  then have des: "DeserializeFromStringVector (SerializeToStringVector cs) = Inr cs"
    by (rule Deserialize_Serialize)
  from write_entries_stored [OF L(2) cs(3), of es] obtain fs where
    fs: "write_entries L cs es = (OK, es @ fs)" "list_all2 (stored L k) fs bs" by auto
  let ?st = "st\<lparr>tree_map := (tree_map st)(?t \<mapsto> es @ fs)\<rparr>"
  let ?s = "put_storage (assemble_header c) (Tree ?st) s"
  let ?w = "(logged (Call_WritePath (assemble_header c) 0 l j kInit (SerializeToStringVector cs)) (w\<lparr>w_host := h'\<rparr>))\<lparr>w_srv := Some ?s\<rparr>"
  have "AccurateWritePath L l j cs kInit st = Inr (OK, ?st)"
    using es fs(1) by (simp add: AccurateWritePath_def Let_def)
  then have "WritePath L (assemble_header c) 0 l j kInit (SerializeToStringVector cs) s
      = Inr ((grpc_ok, ()), ?s)"
    using s des unfolding WritePath_def
    by (subst on_storage_ok [where st = "Tree st" and d = st]) (simp_all add: assemble_header_def)
  then have "stub_WritePath L (assemble_header c) 0 l j kInit (SerializeToStringVector cs)
      (w\<lparr>w_host := h'\<rparr>) = ((grpc_ok, ()), ?w)"
    using s(1) fits [of j 0 kInit] small t32 by (simp add: rpc_ok)
  then have "AccurateWriteBucket L c l j bs w = Inr (OK, ?w)"
    using cs(1) by (simp add: AccurateWriteBucket_def)
  moreover have "path_server L k c ?w (T(?t := T ?t @ bs))"
    using s tags fs es small bs(3) filter_stored [OF L(2) fs(2)]
    by (simp add: path_server_def put_storage_def assemble_header_def list_all2_appendI)
  ultimately show ?thesis using cs(2) by fastforce
qed

end
