(* ===== verification/Path_Stash.thy ===== *)
theory Path_Stash
  imports Path_Bucket "HOL-Library.Multiset"
begin

text \<open>
  The blocks of a Path ORAM as multisets: the normal blocks of a list (\<open>goods\<close>), of a tree
  (\<open>bag\<close>); what reading a path, merging it into the stash, choosing the blocks of a bucket
  and padding it do to them.
\<close>

section \<open>Counting the blocks\<close>

definition is_normal :: "oram_block \<Rightarrow> bool" where
  "is_normal b \<longleftrightarrow> btype (header b) = BlockType_kNormal"

definition goods :: "oram_block list \<Rightarrow> oram_block multiset" where
  "goods bs = mset (map payload (filter is_normal bs))"

lemma goods_simps [simp]:
  "goods [] = {#}"
  "goods (b # bs) = (if is_normal b then {#payload b#} else {#}) + goods bs"
  "goods (bs @ cs) = goods bs + goods cs"
  by (simp_all add: goods_def)

lemma goods_filter [simp]: "goods (filter is_normal bs) = goods bs"
  by (simp add: goods_def)

lemma goods_mset: "mset bs = mset cs \<Longrightarrow> goods bs = goods cs"
  unfolding goods_def mset_map mset_filter by simp

lemma normal_ids_simps [simp]:
  "normal_ids [] = []"
  "normal_ids (b # bs) = (if is_normal b then block_id (header b) # normal_ids bs else normal_ids bs)"
  "normal_ids (bs @ cs) = normal_ids bs @ normal_ids cs"
  by (simp_all add: normal_ids_def is_normal_def)

lemma in_normal_ids: "a \<in> set (normal_ids bs) \<longleftrightarrow> (\<exists>b \<in> set bs. is_normal b \<and> block_id (header b) = a)"
  by (induction bs) auto

lemma is_normal_payload [simp]: "is_normal (payload b) = is_normal b"
  by (simp add: is_normal_def)

lemma goods_payload: "map payload bs = map payload cs \<Longrightarrow> goods bs = goods cs"
proof (induction bs arbitrary: cs)
  case (Cons b bs)
  then obtain c cs' where c: "cs = c # cs'" "payload b = payload c" "map payload bs = map payload cs'"
    by (cases cs) auto
  moreover from c(2) have "is_normal b = is_normal c" by (metis is_normal_payload)
  ultimately show ?case using Cons.IH [OF c(3)] by simp
qed simp

lemma goods_none: "\<forall>b \<in> set bs. \<not> is_normal b \<Longrightarrow> goods bs = {#}"
  by (induction bs) simp_all

lemma in_goods: "p \<in># goods bs \<longleftrightarrow> (\<exists>b \<in> set bs. is_normal b \<and> p = payload b)"
  by (auto simp: goods_def)

lemma normal_ids_goods: "mset (normal_ids bs) = image_mset (\<lambda>p. block_id (header p)) (goods bs)"
  by (induction bs) auto

text \<open>The blocks with one identifier are one block.\<close>

lemma goods_unique:
  assumes "distinct (normal_ids bs)" "p \<in># goods bs" "q \<in># goods bs"
    "block_id (header p) = block_id (header q)"
  shows "p = q"
  using assms
proof (induction bs)
  case (Cons b bs)
  have other: "block_id (header r) \<noteq> block_id (header b)" if "is_normal b" "r \<in># goods bs" for r
    using that Cons.prems(1) by (auto simp: in_goods in_normal_ids)
  have same: "p = q" if "p \<in># goods bs" "q \<in># goods bs"
    using Cons.IH Cons.prems(1,4) that by (simp split: if_splits)
  show ?case
  proof (cases "is_normal b")
    case True
    with Cons.prems(2,3) have "p = payload b \<or> p \<in># goods bs" "q = payload b \<or> q \<in># goods bs"
      by auto
    with other [OF True] Cons.prems(4) same show ?thesis by (metis payload_fields(1))
  next
    case False
    with Cons.prems(2,3) same show ?thesis by simp
  qed
qed simp

lemma blocks_map_goods:
  assumes "distinct (normal_ids bs)"
  shows "blocks_map bs a = Some d \<longleftrightarrow>
    (\<exists>p. p \<in># goods bs \<and> block_id (header p) = a \<and> data p = d)"
proof
  assume "blocks_map bs a = Some d"
  then have "(a, d) \<in> set (map (\<lambda>b. (block_id (header b), data b))
     (filter (\<lambda>b. btype (header b) = BlockType_kNormal) bs))"
    unfolding blocks_map_def by (rule map_of_SomeD)
  then show "\<exists>p. p \<in># goods bs \<and> block_id (header p) = a \<and> data p = d"
    by (force simp: in_goods is_normal_def)
next
  assume "\<exists>p. p \<in># goods bs \<and> block_id (header p) = a \<and> data p = d"
  then obtain p where p: "p \<in># goods bs" "block_id (header p) = a" "data p = d" by blast
  from p obtain b where b: "b \<in> set bs" "is_normal b" "p = payload b" by (auto simp: in_goods)
  show "blocks_map bs a = Some d"
    unfolding blocks_map_def
  proof (rule map_of_is_SomeI)
    show "distinct (map fst (map (\<lambda>b. (block_id (header b), data b))
        (filter (\<lambda>b. btype (header b) = BlockType_kNormal) bs)))"
      using assms by (simp add: normal_ids_def comp_def)
    show "(a, d) \<in> set (map (\<lambda>b. (block_id (header b), data b))
        (filter (\<lambda>b. btype (header b) = BlockType_kNormal) bs))"
      using b p by (auto simp: is_normal_def)
  qed
qed

lemma distinct_submset: "mset xs \<subseteq># mset ys \<Longrightarrow> distinct ys \<Longrightarrow> distinct xs"
proof -
  assume "mset xs \<subseteq># mset ys" "distinct ys"
  then obtain zs where "mset ys = mset (xs @ zs)"
    by (metis ex_mset mset_append subset_mset.le_iff_add)
  with \<open>distinct ys\<close> have "distinct (xs @ zs)" by (metis mset_eq_imp_distinct_iff)
  then show "distinct xs" by simp
qed

section \<open>The blocks in the tree\<close>

lemma finite_tree_tags [simp]: "finite (tree_tags n)"
proof -
  have "tree_tags n \<subseteq> {..n} \<times> {..<2 ^ n}"
    by (auto simp: tree_tags_def intro: less_le_trans power_increasing)
  then show ?thesis by (rule finite_subset) simp
qed

definition bag :: "nat \<Rightarrow> (tag \<Rightarrow> oram_block list) \<Rightarrow> oram_block multiset" where
  "bag n T = (\<Sum>t \<in> tree_tags n. goods (T t))"

lemma bag_upd:
  assumes "t \<in> tree_tags n"
  shows "bag n (T(t := bs)) + goods (T t) = bag n T + goods bs"
proof -
  have "(\<Sum>u \<in> tree_tags n - {t}. goods ((T(t := bs)) u)) = (\<Sum>u \<in> tree_tags n - {t}. goods (T u))"
    by (rule sum.cong) auto
  then show ?thesis
    using assms by (simp add: bag_def sum.remove [of _ t] ac_simps)
qed

lemma in_bag: "p \<in># bag n T \<longleftrightarrow> (\<exists>t \<in> tree_tags n. p \<in># goods (T t))"
  by (simp add: bag_def set_mset_sum)

section \<open>Reading a path\<close>

lemma path_server_fields [simp]:
  "path_server L k (c\<lparr>po_communication := m\<rparr>) w T = path_server L k c w T"
  "path_server L k (c\<lparr>po_stash := st\<rparr>) w T = path_server L k c w T"
  "path_server L k (c\<lparr>po_stash_size := j\<rparr>) w T = path_server L k c w T"
  "path_server L k (c\<lparr>po_position := pm\<rparr>) w T = path_server L k c w T"
  "path_server L k (c\<lparr>oc_initialized := i\<rparr>) w T = path_server L k c w T"
  "path_tag (c\<lparr>po_communication := m\<rparr>) = path_tag c"
  "path_tag (c\<lparr>po_stash := st\<rparr>) = path_tag c"
  "path_tag (c\<lparr>po_stash_size := j\<rparr>) = path_tag c"
  "path_tag (c\<lparr>po_position := pm\<rparr>) = path_tag c"
  by (simp_all add: path_server_def path_tag_def fun_eq_iff)

lemma path_tag_level: "path_tag c x l = path_tag c y j \<Longrightarrow> l = j"
  by (simp add: path_tag_def)

lemma read_path_view:
  assumes L: "sodium_ok L" "lz4_ok L" and leafs: "po_leafs c = 2 ^ po_tree_level c"
    and x: "unat x < 2 ^ po_tree_level c"
  shows "i + n \<le> po_tree_level c + 1 \<Longrightarrow> keyed k (w_host w) \<Longrightarrow> path_server L k c w T \<Longrightarrow>
    \<exists>ds m' w' T'. read_path L x i n (c\<lparr>po_communication := m\<rparr>, w)
        = Inr ((OK, ds), c\<lparr>po_communication := m'\<rparr>, w')
      \<and> w_host w' = w_host w \<and> path_server L k c w' T' \<and> list_all wf_block ds
      \<and> bag (po_tree_level c) T' + goods ds = bag (po_tree_level c) T
      \<and> (\<forall>l. i \<le> l \<and> l < i + n \<longrightarrow> T' (path_tag c x l) = []) \<and> (\<forall>t. T' t = [] \<or> T' t = T t)"
proof (induction n arbitrary: i w T m)
  case 0
  then show ?case
    by (intro exI [of _ "[]"] exI [of _ m] exI [of _ w] exI [of _ T]) auto
next
  case (Suc n)
  let ?t = "path_tag c x i" and ?n = "po_tree_level c" and ?c = "c\<lparr>po_communication := m\<rparr>"
  have i: "i \<le> ?n" using Suc.prems(1) by simp
  from ReadBucket_view [OF L Suc.prems(2), of ?c T x i] Suc.prems(3) leafs x i obtain ds w1 where
    r: "ReadBucket L x i (?c, w) = Inr ((OK, ds), c\<lparr>po_communication := m + length ds\<rparr>, w1)"
      "map payload ds = map payload (T ?t)" "list_all wf_block ds" "w_host w1 = w_host w"
      "path_server L k c w1 (T(?t := []))" by auto
  have "Suc i + n \<le> ?n + 1" "keyed k (w_host w1)" using Suc.prems r(4) by simp_all
  from Suc.IH [OF this r(5), of "m + length ds"] obtain es m' w' T' where
    IH: "read_path L x (Suc i) n (c\<lparr>po_communication := m + length ds\<rparr>, w1)
        = Inr ((OK, es), c\<lparr>po_communication := m'\<rparr>, w')"
      "w_host w' = w_host w1" "path_server L k c w' T'" "list_all wf_block es"
      "bag ?n T' + goods es = bag ?n (T(?t := []))"
      "\<forall>l. Suc i \<le> l \<and> l < Suc i + n \<longrightarrow> T' (path_tag c x l) = []"
      "\<forall>t. T' t = [] \<or> T' t = (T(?t := [])) t" by blast
  have "bag ?n (T(?t := [])) + goods ds = bag ?n T"
    using bag_upd [OF path_tag_in [OF x i], of T "[]"] goods_payload [OF r(2)] by simp
  with IH(5) have bag: "bag ?n T' + goods (ds @ es) = bag ?n T"
    by (simp add: add.commute add.left_commute)
  have clear: "T' (path_tag c x l) = []" if "i \<le> l" "l < i + Suc n" for l
  proof (cases "l = i")
    case True
    with IH(7) show ?thesis by (metis fun_upd_same)
  next
    case False
    with that IH(6) show ?thesis by simp
  qed
  have "T' t = [] \<or> T' t = T t" for t using IH(7) by (metis fun_upd_apply)
  then show ?case using r(1,3,4) IH(1-4) bag clear
    by (intro exI [of _ "ds @ es"] exI [of _ m'] exI [of _ w'] exI [of _ T']) simp
qed

section \<open>The stash\<close>

lemma merge_stash_append:
  "distinct (normal_ids (st @ bs)) \<Longrightarrow> merge_stash st bs = st @ filter is_normal bs"
proof (induction bs arbitrary: st)
  case (Cons b bs)
  show ?case
  proof (cases "is_normal b")
    case True
    with Cons.prems have "find (BlockEqual (block_id (header b))) st = None"
      by (auto simp: find_None_iff BlockEqual_def in_normal_ids is_normal_def)
    then show ?thesis using True Cons.IH [of "st @ [b]"] Cons.prems
      by (simp add: is_normal_def)
  next
    case False
    with Cons show ?thesis by (simp add: is_normal_def)
  qed
qed simp

lemma subset_loop_splits:
  "(\<forall>b \<in> set bs. pm (block_id (header b)) \<noteq> None) \<Longrightarrow>
    \<exists>sub kept. subset_loop n x bs pm = (sub, kept, pm) \<and> mset bs = mset sub + mset kept
      \<and> (\<forall>b \<in> set sub. pm (block_id (header b)) = Some x)"
proof (induction bs arbitrary: n)
  case (Cons b bs)
  from Cons.prems obtain p where p: "pm (block_id (header b)) = Some p" by auto
  from Cons.IH [of n] Cons.IH [of "n - 1"] Cons.prems obtain s1 k1 s2 k2 where
    "subset_loop n x bs pm = (s1, k1, pm)" "mset bs = mset s1 + mset k1"
    "\<forall>b \<in> set s1. pm (block_id (header b)) = Some x"
    "subset_loop (n - 1) x bs pm = (s2, k2, pm)" "mset bs = mset s2 + mset k2"
    "\<forall>b \<in> set s2. pm (block_id (header b)) = Some x" by auto
  with p show ?case by (auto simp: touch_def)
qed simp

text \<open>
  The dummies of \<open>PadStash\<close> are random in every field: what the controllers rely on is that
  none has the type of a normal block, and that their encryptions do not compress. (It is a
  condition on the random numbers of a run. What \<open>randombytes_buf L\<close> yields beyond those the run
  makes has no influence on it.)
\<close>

definition pads_ok :: "libs \<Rightarrow> bytes \<Rightarrow> bool" where
  "pads_ok L k \<longleftrightarrow> (\<forall>n. \<not> is_normal (bytes_block (randombytes_buf L n ORAM_BLOCK_SIZE))
     \<and> dense_block L k (bytes_block (randombytes_buf L n ORAM_BLOCK_SIZE)))"

lemma pad_loop_view:
  assumes L: "sodium_ok L" "pads_ok L k"
  shows "keyed k h \<Longrightarrow> \<exists>ps h'. pad_loop L n st h = Inr (st @ ps, h') \<and> keyed k h'
    \<and> list_all wf_block ps \<and> list_all (dense_block L k) ps \<and> (\<forall>b \<in> set ps. \<not> is_normal b)"
proof (induction n arbitrary: st h)
  case 0
  then show ?case by (intro exI [of _ "[]"]) simp
next
  case (Suc n)
  let ?b = "bytes_block (randombytes_buf L (draws h) ORAM_BLOCK_SIZE)"
  have b: "wf_block ?b" "\<not> is_normal ?b" "dense_block L k ?b"
    using L by (simp_all add: sodium_ok_def pads_ok_def ORAM_BLOCK_SIZE_def)
  from Suc.IH [of "h\<lparr>draws := draws h + 1\<rparr>" "st @ [?b]"] Suc.prems obtain ps h' where
    "pad_loop L n (st @ [?b]) (h\<lparr>draws := draws h + 1\<rparr>) = Inr ((st @ [?b]) @ ps, h')"
    "keyed k h'" "list_all wf_block ps" "list_all (dense_block L k) ps" "\<forall>b \<in> set ps. \<not> is_normal b" by auto
  with b show ?case
    by (intro exI [of _ "?b # ps"] exI [of _ h'])
      (simp add: RandomBytes_def CheckStatus_def ORAM_BLOCK_SIZE_def)
qed

lemma pad_loop_length: "pad_loop L n st h = Inr (st', h') \<Longrightarrow> length st' = length st + n"
  by (induction n arbitrary: st h) (auto simp: CheckStatus_def split: prod.splits if_splits)

lemma subset_loop_views:
  "subset_loop n x st pm = (sub, kept, pm') \<Longrightarrow> length sub \<le> n \<and> set sub \<subseteq> set st \<and> set kept \<subseteq> set st"
proof (induction n x st pm arbitrary: sub kept pm' rule: subset_loop.induct)
  case (2 n x b bs pm)
  then show ?case by (fastforce split: prod.splits if_splits)
qed simp

lemma PadStash_view:
  assumes L: "sodium_ok L" "pads_ok L k" and k: "keyed k h"
  shows "\<exists>ps h'. PadStash L st n h = Inr (st @ ps, h') \<and> keyed k h'
    \<and> list_all wf_block ps \<and> list_all (dense_block L k) ps \<and> (\<forall>b \<in> set ps. \<not> is_normal b)
    \<and> (length st \<le> n \<longrightarrow> length (st @ ps) = n)"
proof (cases "length st < n")
  case True
  from pad_loop_view [OF L k, of "n - length st" st] obtain ps h' where
    r: "pad_loop L (n - length st) st h = Inr (st @ ps, h')" "keyed k h'"
      "list_all wf_block ps" "list_all (dense_block L k) ps" "\<forall>b \<in> set ps. \<not> is_normal b" by blast
  from pad_loop_length [OF r(1)] True have "length (st @ ps) = n" by simp
  with True r show ?thesis by (intro exI [of _ ps] exI [of _ h']) (simp add: PadStash_def)
next
  case False
  with k show ?thesis by (intro exI [of _ "[]"] exI [of _ h]) (simp add: PadStash_def)
qed

end
