(* ===== verification/Path_Oram_Correct.thy ===== *)
theory Path_Oram_Correct
  imports Path_Stash
begin

text \<open>
  The Path ORAM is a memory. \<open>path_inv\<close> is the invariant (every normal block is in the stash or
  in a bucket on the path of its position); an access fetches a path into the stash without
  losing a block (\<open>fetch_path\<close>), finds the block, and writes the path back without losing one
  (\<open>write_path_view\<close>). The interpretation \<open>path\<close> of \<open>block_ram\<close> gives sequences of accesses.
\<close>

section \<open>The invariant\<close>

text \<open>
  A normal block in the tree lies on the path of its position; the stash has well-formed
  normal blocks with a position; the encryption of every block is dense.
\<close>

definition placed :: "(u32 \<rightharpoonup> u32) \<Rightarrow> nat \<Rightarrow> (tag \<Rightarrow> oram_block list) \<Rightarrow> bool" where
  "placed pm n T \<longleftrightarrow> (\<forall>t \<in> tree_tags n. \<forall>p. p \<in># goods (T t) \<longrightarrow>
     (\<exists>x. pm (block_id (header p)) = Some x \<and> path_offset n (fst t) (unat x) = snd t))"

definition stash_ok :: "(u32 \<rightharpoonup> u32) \<Rightarrow> oram_block list \<Rightarrow> bool" where
  "stash_ok pm st \<longleftrightarrow> (\<forall>b \<in> set st. wf_block b \<and> is_normal b \<and> pm (block_id (header b)) \<noteq> None)"

definition positions_ok :: "(u32 \<rightharpoonup> u32) \<Rightarrow> nat \<Rightarrow> bool" where
  "positions_ok pm n \<longleftrightarrow> (\<forall>a x. pm a = Some x \<longrightarrow> unat x < 2 ^ n)"

definition stock :: "path_oram \<Rightarrow> (tag \<Rightarrow> oram_block list) \<Rightarrow> oram_block multiset" where
  "stock c T = goods (po_stash c) + bag (po_tree_level c) T"

definition path_inv :: "libs \<Rightarrow> bytes \<Rightarrow> path_oram \<times> world \<Rightarrow> (tag \<Rightarrow> oram_block list) \<Rightarrow> bool" where
  "path_inv L k cw T \<longleftrightarrow> (case cw of (c, w) \<Rightarrow>
     oc_initialized c \<and> po_leafs c = 2 ^ po_tree_level c \<and> po_tree_level c < 32
     \<and> keyed k (w_host w) \<and> path_server L k c w T
     \<and> placed (po_position c) (po_tree_level c) T
     \<and> stash_ok (po_position c) (po_stash c) \<and> positions_ok (po_position c) (po_tree_level c)
     \<and> (\<forall>p. p \<in># stock c T \<longrightarrow> dense_data L k p))"

section \<open>Writing a path back\<close>

lemma placed_upd:
  assumes "placed pm n T" and "\<forall>p. p \<in># goods bs \<longrightarrow> pm (block_id (header p)) = Some x"
    and "path_offset n l (unat x) = j"
  shows "placed pm n (T((l, j) := bs))"
  using assms by (auto simp: placed_def)

text \<open>One level: the blocks for the leaf leave the stash and fill the bucket.\<close>

lemma write_level_view:
  assumes L: "sodium_ok L" "lz4_ok L" "pads_ok L k"
    and x: "unat x < 2 ^ po_tree_level c" and n: "n \<le> po_tree_level c"
    and inv: "path_inv L k (c\<lparr>po_stash := st, po_communication := m\<rparr>, w) T" and empty: "T (path_tag c x n) = []"
  shows "\<exists>b kept h m' w1. FindSubsetOf L x (c\<lparr>po_stash := st, po_communication := m\<rparr>, w)
        = Inr (b, c\<lparr>po_stash := kept, po_communication := m\<rparr>, w\<lparr>w_host := h\<rparr>)
    \<and> WriteBucket L x n b (c\<lparr>po_stash := kept, po_communication := m\<rparr>, w\<lparr>w_host := h\<rparr>)
        = Inr (OK, c\<lparr>po_stash := kept, po_communication := m'\<rparr>, w1)
    \<and> path_inv L k (c\<lparr>po_stash := kept, po_communication := m'\<rparr>, w1) (T(path_tag c x n := b))
    \<and> goods kept + bag (po_tree_level c) (T(path_tag c x n := b)) = goods st + bag (po_tree_level c) T"
proof -
  let ?N = "po_tree_level c" and ?pm = "po_position c" and ?t = "path_tag c x n"
  from inv have i: "oc_initialized c" "po_leafs c = 2 ^ ?N" "?N < 32"
    "keyed k (w_host w)" "path_server L k c w T" "placed ?pm ?N T" "stash_ok ?pm st"
    "positions_ok ?pm ?N" "\<forall>p. p \<in># goods st + bag ?N T \<longrightarrow> dense_data L k p"
    by (simp_all add: path_inv_def stock_def)
  have "\<forall>b \<in> set st. ?pm (block_id (header b)) \<noteq> None" using i(7) by (auto simp: stash_ok_def)
  from subset_loop_splits [OF this, of "unat (po_bucket_size c)" x] obtain sub kept where
    sub: "subset_loop (unat (po_bucket_size c)) x st ?pm = (sub, kept, ?pm)"
      "mset st = mset sub + mset kept" "\<forall>b \<in> set sub. ?pm (block_id (header b)) = Some x" by blast
  from sub(2) have sets: "set st = set sub \<union> set kept" by (metis set_mset_mset set_mset_union)
  from PadStash_view [OF L(1,3) i(4), of sub "unat (po_bucket_size c)"] obtain ps h where
    ps: "PadStash L sub (unat (po_bucket_size c)) (w_host w) = Inr (sub @ ps, h)" "keyed k h"
      "list_all wf_block ps" "list_all (dense_block L k) ps" "\<forall>b \<in> set ps. \<not> is_normal b"
      "length sub \<le> unat (po_bucket_size c) \<longrightarrow> length (sub @ ps) = unat (po_bucket_size c)" by blast
  let ?b = "sub @ ps" and ?w = "w\<lparr>w_host := h\<rparr>"
  have "dense_block L k b" if "b \<in> set sub" for b
  proof -
    have b: "b \<in> set st" "wf_block b" "is_normal b" using that i(7) sets by (auto simp: stash_ok_def)
    then have "payload b \<in># goods st + bag ?N T" by (auto simp: in_goods)
    with i(9) have "dense_data L k b" by (metis dense_data_payload)
    with b show ?thesis by (intro dense_dataD) (simp_all add: is_normal_def)
  qed
  then have dense: "list_all (dense_block L k) ?b" and wf: "list_all wf_block ?b"
    using ps(3,4) i(7) sets by (auto simp: stash_ok_def list_all_iff)
  have len: "length ?b < 256"
    using ps(6) subset_loop_views [OF sub(1)] unsigned_less [of "po_bucket_size c"] by simp
  from WriteBucket_view [OF L(1,2), of k ?w "c\<lparr>po_stash := kept, po_communication := m\<rparr>" T x n ?b]
    ps(2) i(5) x n wf dense len obtain w1 where
    w1: "WriteBucket L x n ?b (c\<lparr>po_stash := kept, po_communication := m\<rparr>, ?w)
      = Inr (OK, c\<lparr>po_stash := kept, po_communication := m + length ?b\<rparr>, w1)"
      "keyed k (w_host w1)" "path_server L k c w1 (T(?t := ?b))" by auto
  have gb: "goods ?b = goods sub" using ps(5) by (simp add: goods_none)
  have "\<forall>p. p \<in># goods ?b \<longrightarrow> ?pm (block_id (header p)) = Some x" using sub(3) unfolding gb by (auto simp: in_goods)
  then have pl: "placed ?pm ?N (T(?t := ?b))" unfolding path_tag_def by (rule placed_upd [OF i(6)]) simp
  have gst: "goods st = goods sub + goods kept" using goods_mset [of st "sub @ kept"] sub(2) by simp
  have gT: "bag ?N (T(?t := ?b)) = bag ?N T + goods sub" using bag_upd [OF path_tag_in [OF x n], of T ?b] empty gb by simp
  have "path_inv L k (c\<lparr>po_stash := kept, po_communication := m + length ?b\<rparr>, w1) (T(?t := ?b))"
    using i w1 sets pl gst gT by (auto simp: path_inv_def stash_ok_def stock_def)
  moreover have "goods kept + bag ?N (T(?t := ?b)) = goods st + bag ?N T" using gst gT by (simp add: ac_simps)
  moreover have "FindSubsetOf L x (c\<lparr>po_stash := st, po_communication := m\<rparr>, w)
      = Inr (?b, c\<lparr>po_stash := kept, po_communication := m\<rparr>, ?w)"
    using sub(1) ps(1) by (simp add: FindSubsetOf_def)
  ultimately show ?thesis using w1(1) by blast
qed

lemma write_path_view:
  assumes L: "sodium_ok L" "lz4_ok L" "pads_ok L k"
    and x: "unat x < 2 ^ po_tree_level c"
  shows "n \<le> po_tree_level c + 1 \<Longrightarrow> path_inv L k (c\<lparr>po_stash := st, po_communication := m\<rparr>, w) T \<Longrightarrow>
    (\<forall>l < n. T (path_tag c x l) = []) \<Longrightarrow>
    \<exists>st' m' w' T'. write_path L x n (c\<lparr>po_stash := st, po_communication := m\<rparr>, w)
        = Inr (OK, c\<lparr>po_stash := st', po_communication := m'\<rparr>, w')
      \<and> path_inv L k (c\<lparr>po_stash := st', po_communication := m'\<rparr>, w') T'
      \<and> goods st' + bag (po_tree_level c) T' = goods st + bag (po_tree_level c) T"
proof (induction n arbitrary: st m w T)
  case 0
  then show ?case by (intro exI [of _ st] exI [of _ m] exI [of _ w] exI [of _ T]) simp
next
  case (Suc n)
  let ?T = "\<lambda>b. T(path_tag c x n := b)"
  from Suc.prems(1) have n: "n \<le> po_tree_level c" "n \<le> po_tree_level c + 1" by simp_all
  have empty: "T (path_tag c x n) = []" using Suc.prems(3) by simp
  from write_level_view [OF L x n(1) Suc.prems(2) empty] obtain b kept h m1 w1 where
    lev: "FindSubsetOf L x (c\<lparr>po_stash := st, po_communication := m\<rparr>, w)
        = Inr (b, c\<lparr>po_stash := kept, po_communication := m\<rparr>, w\<lparr>w_host := h\<rparr>)"
      "WriteBucket L x n b (c\<lparr>po_stash := kept, po_communication := m\<rparr>, w\<lparr>w_host := h\<rparr>)
        = Inr (OK, c\<lparr>po_stash := kept, po_communication := m1\<rparr>, w1)"
      "path_inv L k (c\<lparr>po_stash := kept, po_communication := m1\<rparr>, w1) (?T b)"
      "goods kept + bag (po_tree_level c) (?T b) = goods st + bag (po_tree_level c) T" by blast
  have "\<forall>l < n. (?T b) (path_tag c x l) = []" using Suc.prems(3) by (auto simp: path_tag_def)
  from Suc.IH [OF n(2) lev(3) this] obtain st' m' w' T' where
    IH: "write_path L x n (c\<lparr>po_stash := kept, po_communication := m1\<rparr>, w1)
        = Inr (OK, c\<lparr>po_stash := st', po_communication := m'\<rparr>, w')"
      "path_inv L k (c\<lparr>po_stash := st', po_communication := m'\<rparr>, w') T'"
      "goods st' + bag (po_tree_level c) T' = goods st + bag (po_tree_level c) T" unfolding lev(4) by blast
  then have "write_path L x (Suc n) (c\<lparr>po_stash := st, po_communication := m\<rparr>, w)
      = Inr (OK, c\<lparr>po_stash := st', po_communication := m'\<rparr>, w')" using lev(1,2) by simp
  with IH(2,3) show ?case by blast
qed

declare write_path.simps(2) [simp del]

lemma RandomPosition_view:
  assumes live: "random_live L" and leafs: "po_leafs c = 2 ^ n" and n: "n < 32"
  shows "\<exists>x h'. RandomPosition L c h = Inr (x, h') \<and> unat x < 2 ^ n \<and> singleton h' = singleton h"
proof -
  have p: "unat (of_nat (2 ^ n) :: u32) = 2 ^ n"
    using n power_strict_increasing [of n 32 "2 :: nat"] by (intro unat_of_nat_u32) simp
  then have "(of_nat (2 ^ n) :: u32) \<noteq> 0" by (metis power_not_zero unat_0 zero_neq_numeral)
  then have u: "unat (of_nat (2 ^ n) - 1 :: u32) = 2 ^ n - 1"
    using p by (simp add: unat_minus_one del: of_nat_power)
  have "(0 :: u32) \<le> of_nat (2 ^ n) - 1" "(of_nat (2 ^ n) - 1 :: u32) - 0 + 1 \<noteq> 0"
    using \<open>(of_nat (2 ^ n) :: u32) \<noteq> 0\<close> by simp_all
  from UniformRandom_returns [OF live this, of h] obtain v h' where
    v: "UniformRandom L 0 (of_nat (2 ^ n) - 1) h = Inr ((OK, Some v), h')"
      "v \<le> of_nat (2 ^ n) - 1" "singleton h' = singleton h" by blast
  have "unat v < 2 ^ n"
    using v(2) u by (simp add: word_le_nat_alt del: of_nat_power) (metis Suc_pred le_imp_less_Suc zero_less_numeral zero_less_power)
  with v leafs show ?thesis by (simp add: RandomPosition_def CheckStatus_def del: of_nat_power)
qed

section \<open>Fetching a path into the stash\<close>

text \<open>What is left in the tree when a path is emptied is not on the path, and stays in its place.\<close>

lemma off_path:
  assumes "placed pm (po_tree_level c) T" "\<forall>t. T' t = [] \<or> T' t = T t"
    and "\<forall>l < po_tree_level c + 1. T' (path_tag c x l) = []" "p \<in># bag (po_tree_level c) T'"
  shows "pm (block_id (header p)) \<noteq> Some x"
proof
  let ?N = "po_tree_level c"
  assume a: "pm (block_id (header p)) = Some x"
  from assms(4) obtain t where t: "t \<in> tree_tags ?N" "p \<in># goods (T' t)" by (auto simp: in_bag)
  then have "T' t = T t" using assms(2) by (metis goods_simps(1) empty_iff set_mset_empty)
  with assms(1) t a have "path_offset ?N (fst t) (unat x) = snd t" by (force simp: placed_def)
  then have "t = path_tag c x (fst t)" by (simp add: path_tag_def prod_eq_iff)
  moreover have "fst t < ?N + 1" using t(1) by (auto simp: tree_tags_def)
  ultimately show False using t(2) assms(3) by (metis goods_simps(1) empty_iff set_mset_empty)
qed

lemma placed_emptied:
  assumes "placed pm n T" "\<forall>t. T' t = [] \<or> T' t = T t"
  shows "placed pm n T'"
  unfolding placed_def
proof (intro ballI allI impI)
  fix t p assume t: "t \<in> tree_tags n" "p \<in># goods (T' t)"
  then have "T' t = T t" using assms(2) by (metis empty_iff goods_simps(1) set_mset_empty)
  with t assms(1) show "\<exists>x. pm (block_id (header p)) = Some x \<and> path_offset n (fst t) (unat x) = snd t"
    by (simp add: placed_def)
qed

lemma placed_remap:
  assumes "placed pm n T" "\<forall>p. p \<in># bag n T \<longrightarrow> block_id (header p) \<noteq> a"
  shows "placed (pm(a := q)) n T"
  using assms by (fastforce simp: placed_def in_bag)

text \<open>The fetched normal blocks join the stash, as no block is in two places.\<close>

lemma merge_fetched:
  assumes "goods st + (goods ds + B) = goods bs" "distinct (normal_ids bs)"
  shows "merge_stash st ds = st @ filter is_normal ds"
proof (rule merge_stash_append)
  have "goods (st @ ds) + B = goods bs" using assms(1) by (simp add: add.assoc)
  then have "mset (normal_ids (st @ ds)) \<subseteq># mset (normal_ids bs)"
    unfolding normal_ids_goods by (metis image_mset_subseteq_mono mset_subset_eq_add_left)
  then show "distinct (normal_ids (st @ ds))" using assms(2) by (rule distinct_submset)
qed

lemma fetch_path:
  assumes L: "sodium_ok L" "lz4_ok L"
    and inv: "path_inv L k (c, w) T" and bs: "stock c T = goods bs" "distinct (normal_ids bs)"
    and x: "unat x < 2 ^ po_tree_level c" and q: "unat q < 2 ^ po_tree_level c"
    and h: "singleton h = singleton (w_host w)"
    and on: "\<forall>p. p \<in># goods bs \<and> block_id (header p) = a \<longrightarrow> po_position c a = Some x"
    and c1: "c1 = c\<lparr>po_position := (po_position c)(a \<mapsto> q)\<rparr>"
  shows "\<exists>ds m w' T'. read_path L x 0 (po_tree_level c + 1) (c1, w\<lparr>w_host := h\<rparr>)
        = Inr ((OK, ds), c1\<lparr>po_communication := m\<rparr>, w')
    \<and> path_inv L k (c1\<lparr>po_stash := merge_stash (po_stash c) ds, po_communication := m\<rparr>, w') T'
    \<and> goods (merge_stash (po_stash c) ds) + bag (po_tree_level c) T' = goods bs
    \<and> (\<forall>l < po_tree_level c + 1. T' (path_tag c x l) = [])
    \<and> (\<forall>p. p \<in># goods bs \<and> block_id (header p) = a \<longrightarrow> p \<in># goods (merge_stash (po_stash c) ds))"
proof -
  let ?N = "po_tree_level c" and ?pm = "po_position c" and ?w = "w\<lparr>w_host := h\<rparr>"
  from inv have i: "oc_initialized c" "po_leafs c = 2 ^ ?N" "?N < 32" "keyed k (w_host w)"
    "path_server L k c w T" "placed ?pm ?N T" "stash_ok ?pm (po_stash c)" "positions_ok ?pm ?N"
    "\<forall>p. p \<in># goods bs \<longrightarrow> dense_data L k p"
    using bs(1) by (simp_all add: path_inv_def)
  have kh: "keyed k (w_host ?w)" using i(4) h by (simp add: keyed_def)
  have "po_leafs c1 = 2 ^ po_tree_level c1" "unat x < 2 ^ po_tree_level c1"
    "path_server L k c1 ?w T" using i x c1 by simp_all
  from read_path_view [OF L this(1,2) _ kh this(3), of 0 "?N + 1" "po_communication c"]
  obtain ds m w' T' where r: "read_path L x 0 (?N + 1) (c1, ?w) = Inr ((OK, ds), c1\<lparr>po_communication := m\<rparr>, w')"
    "w_host w' = h" "path_server L k c1 w' T'" "list_all wf_block ds"
    "bag ?N T' + goods ds = bag ?N T" "\<forall>l < ?N + 1. T' (path_tag c x l) = []"
    "\<forall>t. T' t = [] \<or> T' t = T t"
    using c1 by auto
  let ?st = "merge_stash (po_stash c) ds"
  have split: "goods (po_stash c) + (goods ds + bag ?N T') = goods bs" using r(5) bs(1) by (simp add: stock_def ac_simps)
  note st = merge_fetched [OF split bs(2)]
  have gst: "goods ?st + bag ?N T' = goods bs" using split st by (simp add: add.assoc)
  have gone: "block_id (header p) \<noteq> a" if "p \<in># bag ?N T'" for p
    using off_path [OF i(6) r(7,6) that] on that gst by (metis union_iff)
  then have "placed (?pm(a \<mapsto> q)) ?N T'" using placed_remap [OF placed_emptied [OF i(6) r(7)]] by blast
  moreover have "?pm (block_id (header b)) \<noteq> None" if "b \<in> set ds" "is_normal b" for b
  proof -
    have "payload b \<in># goods ds" using that by (auto simp: in_goods)
    then have "payload b \<in># bag ?N T" using r(5) by (metis union_iff)
    with i(6) show ?thesis by (force simp: in_bag placed_def)
  qed
  then have "stash_ok (?pm(a \<mapsto> q)) ?st"
    using i(7) r(4) st by (auto simp: stash_ok_def list_all_iff)
  moreover have dense: "\<forall>p. p \<in># goods ?st + bag ?N T' \<longrightarrow> dense_data L k p"
    using i(9) unfolding gst .
  moreover have "positions_ok (?pm(a \<mapsto> q)) ?N" using i(8) q by (auto simp: positions_ok_def)
  ultimately have "path_inv L k (c1\<lparr>po_stash := ?st, po_communication := m\<rparr>, w') T'"
    using i r(2,3) kh c1 dense by (simp add: path_inv_def stock_def)
  moreover have "p \<in># goods ?st" if "p \<in># goods bs" "block_id (header p) = a" for p
    using that gone gst by (metis union_iff)
  ultimately show ?thesis using r(1,6) gst by blast
qed

section \<open>Finding a block\<close>

lemma find_SomeD: "find P xs = Some x \<Longrightarrow> x \<in> set xs \<and> P x"
  by (induction xs) (auto split: if_splits)

lemma find_first:
  assumes "distinct (normal_ids bs)" "goods st \<subseteq># goods bs" "p \<in># goods st" "block_id (header p) = a"
  shows "\<exists>b. find (BlockEqual a) st = Some b \<and> b \<in> set st \<and> BlockEqual a b \<and> payload b = p"
proof -
  from assms(3) obtain b0 where "b0 \<in> set st" "is_normal b0" "p = payload b0" by (auto simp: in_goods)
  with assms(4) have "find (BlockEqual a) st \<noteq> None"
    by (auto simp: find_None_iff BlockEqual_def is_normal_def)
  then obtain b where b0: "find (BlockEqual a) st = Some b" by blast
  note b = b0 find_SomeD [OF b0, THEN conjunct1] find_SomeD [OF b0, THEN conjunct2]
  then have "payload b \<in># goods st" by (auto simp: in_goods BlockEqual_def is_normal_def)
  then have "payload b = p"
    using assms b(3) by (intro goods_unique [OF assms(1)]) (auto dest: mset_subset_eqD simp: BlockEqual_def)
  with b show ?thesis by blast
qed

lemma find_missing:
  assumes "blocks_map bs a = None" "goods st \<subseteq># goods bs"
  shows "find (BlockEqual a) st = None"
proof -
  have "\<not> BlockEqual a b" if "b \<in> set st" for b
  proof
    assume "BlockEqual a b"
    with that have "payload b \<in># goods st" "block_id (header b) = a"
      by (auto simp: in_goods BlockEqual_def is_normal_def)
    with assms(2) have "payload b \<in># goods bs" by (auto dest: mset_subset_eqD)
    then obtain c where "c \<in> set bs" "is_normal c" "payload b = payload c"
      by (auto simp: in_goods)
    with assms(1) \<open>block_id (header b) = a\<close> payload_eqD(1) [OF this(3)] show False
      by (auto simp: blocks_map_None in_normal_ids)
  qed
  then show ?thesis by (simp add: find_None_iff)
qed

lemma update_first_goods:
  "find (BlockEqual a) st = Some b \<Longrightarrow>
    goods (update_first (BlockEqual a) (write_into x) st) + {#payload b#}
      = goods st + {#payload (write_into x b)#}"
  by (induction st) (auto simp: BlockEqual_def is_normal_def write_into_def split: if_splits)

lemma remove_first_goods:
  "find (BlockEqual a) st = Some b \<Longrightarrow> goods (remove_first (BlockEqual a) st) + {#payload b#} = goods st"
  by (induction st) (auto simp: BlockEqual_def is_normal_def split: if_splits)

lemma payload_write_into:
  "payload b = payload c \<Longrightarrow> payload (write_into x b) = payload (write_into x c)"
  by (cases b; cases c; cases "header b"; cases "header c") (auto simp: write_into_def payload_def)

lemma update_first_views:
  "normal_ids (update_first (BlockEqual a) (write_into x) bs) = normal_ids bs"
  "blocks_map bs a \<noteq> None \<Longrightarrow>
    blocks_map (update_first (BlockEqual a) (write_into x) bs) = (blocks_map bs)(a \<mapsto> data x)"
proof -
  show "normal_ids (update_first (BlockEqual a) (write_into x) bs) = normal_ids bs"
    by (induction bs) (auto simp: write_into_def is_normal_def)
  have eq: "BlockEqual e (write_into x b) = BlockEqual e b" "data (write_into x b) = data x" for e b
    by (auto simp: write_into_def BlockEqual_def)
  have id: "BlockEqual a b \<Longrightarrow> BlockEqual e b = (e = a)" for b e by (auto simp: BlockEqual_def)
  show "blocks_map bs a \<noteq> None \<Longrightarrow>
      blocks_map (update_first (BlockEqual a) (write_into x) bs) = (blocks_map bs)(a \<mapsto> data x)"
  proof (induction bs)
    case (Cons b bs)
    then show ?case using id [of b]
      by (cases "BlockEqual a b") (auto simp: fun_eq_iff blocks_map_Cons eq)
  qed (simp add: blocks_map_def)
qed

lemma remove_first_views:
  assumes "distinct (normal_ids bs)"
  shows "distinct (normal_ids (remove_first (BlockEqual a) bs))"
    "blocks_map (remove_first (BlockEqual a) bs) = (blocks_map bs)(a := None)"
proof -
  have sub: "set (normal_ids (remove_first (BlockEqual a) bs)) \<subseteq> set (normal_ids bs)" for bs
    by (induction bs) auto
  show "distinct (normal_ids (remove_first (BlockEqual a) bs))"
    using assms by (induction bs) (use sub in \<open>auto split: if_splits\<close>)
  show "blocks_map (remove_first (BlockEqual a) bs) = (blocks_map bs)(a := None)"
    using assms
  proof (induction bs)
    case (Cons b bs)
    show ?case
    proof (cases "BlockEqual a b")
      case True
      with Cons.prems have "blocks_map bs a = None"
        by (auto simp: blocks_map_None BlockEqual_def is_normal_def)
      with True show ?thesis by (auto simp: fun_eq_iff blocks_map_Cons BlockEqual_def)
    next
      case False
      with Cons show ?thesis by (auto simp: fun_eq_iff blocks_map_Cons split: if_splits)
    qed
  qed (simp add: blocks_map_def)
qed

section \<open>An access\<close>

text \<open>What follows the fetching of the path, with the stash as the fetch left it.\<close>

definition after_fetch :: "libs \<Rightarrow> operation \<Rightarrow> u32 \<Rightarrow> u32 \<Rightarrow> oram_block \<Rightarrow> oram_block list
    \<Rightarrow> path_oram \<times> world \<Rightarrow> ((oram_status \<times> oram_block) \<times> path_oram \<times> world) exec" where
  "after_fetch L op address x blk stash cw =
     (case cw of (c, w) \<Rightarrow>
      case find (BlockEqual address) stash of
        None \<Rightarrow> Inr ((mk_status kObjectNotFound
               (''Failed to find the block '' @ to_string (unat address) @ '' in the stash!'')
               ''InternalAccessDirect'', blk), c\<lparr>po_stash := stash\<rparr>, w)
      | Some b \<Rightarrow>
          (let c1 = c\<lparr>po_stash := stash\<rparr>;
               c2 = c1\<lparr>po_stash_size := max (po_stash_size c1) (length stash)\<rparr>;
               c3 = (if op = Operation_kWrite
                     then c2\<lparr>po_stash := update_first (BlockEqual address) (write_into blk) stash\<rparr>
                     else if \<not> oc_standalone c2
                     then c2\<lparr>po_stash := remove_first (BlockEqual address) stash,
                             po_position := (po_position c2)(address := None)\<rparr>
                     else c2)
           in andThen (write_path L x (po_tree_level c3 + 1) (c3, w)) (\<lambda>(s, cw').
                Inr ((s, if op = Operation_kWrite then blk else b), cw'))))"

lemma InternalAccessDirect_fetch:
  "read_path L x 0 (po_tree_level (fst cw) + 1) cw = Inr ((OK, blocks), c, w) \<Longrightarrow>
    InternalAccessDirect L op a x blk False cw
      = after_fetch L op a x blk (merge_stash (po_stash c) blocks) (c, w)"
  by (simp add: InternalAccessDirect_def after_fetch_def Let_def cong: option.case_cong)

lemma after_fetch_stash:
  "after_fetch L op a x blk st (c\<lparr>po_stash := st', po_communication := m\<rparr>, w)
     = after_fetch L op a x blk st (c\<lparr>po_communication := m\<rparr>, w)"
  by (cases c) (simp add: after_fetch_def Let_def split: option.split)

definition path_holds :: "libs \<Rightarrow> bytes \<Rightarrow> path_oram \<times> world \<Rightarrow> (u32 \<rightharpoonup> bytes) \<Rightarrow> bool" where
  "path_holds L k cw m \<longleftrightarrow> sodium_ok L \<and> lz4_ok L \<and> random_live L \<and> pads_ok L k
     \<and> (\<exists>T bs. path_inv L k cw T \<and> stock (fst cw) T = goods bs
          \<and> distinct (normal_ids bs) \<and> blocks_map bs = m)"

text \<open>The stash never holds more blocks than the ORAM.\<close>

lemma stash_bounded:
  assumes "path_holds L k (c, w) m"
  shows "length (po_stash c) \<le> card (dom m)"
proof -
  from assms obtain T bs where inv: "path_inv L k (c, w) T" and bs: "stock c T = goods bs" "distinct (normal_ids bs)"
    and m: "blocks_map bs = m" by (auto simp: path_holds_def)
  from inv have "\<forall>b \<in> set (po_stash c). is_normal b" by (auto simp: path_inv_def stash_ok_def)
  then have "length (po_stash c) = size (goods (po_stash c))" by (simp add: goods_def)
  also have "\<dots> \<le> size (stock c T)" by (simp add: stock_def)
  also have "\<dots> = length (normal_ids bs)" unfolding bs(1) by (simp add: goods_def normal_ids_def is_normal_def [abs_def] flip: mset_filter)
  also have "\<dots> = card (set (normal_ids bs))" by (simp add: distinct_card bs(2))
  also have "set (normal_ids bs) = dom m" using dom_blocks_map m by blast
  finally show ?thesis .
qed

text \<open>
  A state with the path to \<open>x\<close> fetched into the stash: every block with identifier \<open>a\<close> is in
  the stash and the buckets on the path are empty.
\<close>

definition fetched :: "libs \<Rightarrow> bytes \<Rightarrow> u32 \<Rightarrow> u32 \<Rightarrow> path_oram \<times> world \<Rightarrow> (tag \<Rightarrow> oram_block list)
    \<Rightarrow> oram_block list \<Rightarrow> bool" where
  "fetched L k a x cw T bs \<longleftrightarrow> (case cw of (c, w) \<Rightarrow>
     path_inv L k (c, w) T \<and> stock c T = goods bs \<and> distinct (normal_ids bs)
     \<and> unat x < 2 ^ po_tree_level c \<and> (\<forall>l < po_tree_level c + 1. T (path_tag c x l) = [])
     \<and> (\<forall>p. p \<in># goods bs \<and> block_id (header p) = a \<longrightarrow> p \<in># goods (po_stash c)))"

lemma path_access_parts:
  assumes holds: "path_holds L k (c, w) m" and op: "op \<noteq> Operation_kInvalid"
  shows "\<exists>T bs x q h ds n w'.
    let c1 = c\<lparr>po_position := (po_position c)(a \<mapsto> q)\<rparr>;
        c' = c1\<lparr>po_stash := merge_stash (po_stash c) ds, po_communication := n\<rparr> in
      x = fst (touch a (po_position c)) \<and> RandomPosition L c (w_host w) = Inr (q, h)
    \<and> read_path L x 0 (po_tree_level c + 1) (c1, w\<lparr>w_host := h\<rparr>) = Inr ((OK, ds), c1\<lparr>po_communication := n\<rparr>, w')
    \<and> fetched L k a x (c', w') T bs \<and> blocks_map bs = m
    \<and> Path_Access L op a blk (c, w) = after_fetch L op a x blk (po_stash c') (c', w')"
proof -
  from holds obtain T bs where L: "sodium_ok L" "lz4_ok L" "random_live L"
    and inv: "path_inv L k (c, w) T" and bs: "stock c T = goods bs" "distinct (normal_ids bs)"
    and m: "blocks_map bs = m"
    by (auto simp: path_holds_def)
  let ?N = "po_tree_level c" and ?pm = "po_position c"
  from inv have i: "oc_initialized c" "po_leafs c = 2 ^ ?N" "?N < 32" "positions_ok ?pm ?N"
    "placed ?pm ?N T" "stash_ok ?pm (po_stash c)"
    by (simp_all add: path_inv_def)
  from RandomPosition_view [OF L(3) i(2,3), of "w_host w"] obtain q h where
    q: "RandomPosition L c (w_host w) = Inr (q, h)" "unat q < 2 ^ ?N"
      "singleton h = singleton (w_host w)" by blast
  define x where "x = fst (touch a ?pm)"
  have x: "unat x < 2 ^ ?N" using i(4) by (auto simp: x_def touch_def positions_ok_def split: option.split)
  have on: "?pm a = Some x" if "p \<in># goods bs" "block_id (header p) = a" for p
  proof -
    from that(1) bs(1) have "p \<in># goods (po_stash c) \<or> p \<in># bag ?N T"
      by (metis stock_def union_iff)
    then have "?pm (block_id (header p)) \<noteq> None"
      using i(5,6) by (force simp: in_goods in_bag placed_def stash_ok_def)
    with that(2) show ?thesis by (auto simp: x_def touch_def)
  qed
  then have on: "\<forall>p. p \<in># goods bs \<and> block_id (header p) = a \<longrightarrow> ?pm a = Some x" by blast
  define c1 where "c1 = c\<lparr>po_position := ?pm(a \<mapsto> q)\<rparr>"
  from fetch_path [OF L(1,2) inv bs x q(2,3) on c1_def] obtain ds n w' T' where
    r: "read_path L x 0 (?N + 1) (c1, w\<lparr>w_host := h\<rparr>) = Inr ((OK, ds), c1\<lparr>po_communication := n\<rparr>, w')"
      "path_inv L k (c1\<lparr>po_stash := merge_stash (po_stash c) ds, po_communication := n\<rparr>, w') T'"
      "goods (merge_stash (po_stash c) ds) + bag ?N T' = goods bs"
      "\<forall>l < ?N + 1. T' (path_tag c x l) = []"
      "\<forall>p. p \<in># goods bs \<and> block_id (header p) = a \<longrightarrow> p \<in># goods (merge_stash (po_stash c) ds)"
    by blast
  let ?st = "merge_stash (po_stash c) ds"
  let ?c' = "c1\<lparr>po_stash := ?st, po_communication := n\<rparr>"
  have acc: "Path_Access L op a blk (c, w) = InternalAccessDirect L op a x blk False (c1, w\<lparr>w_host := h\<rparr>)"
    using i(1) op q(1) by (simp add: Path_Access_def Path_InternalAccess_def x_def c1_def)
  have "InternalAccessDirect L op a x blk False (c1, w\<lparr>w_host := h\<rparr>)
      = after_fetch L op a x blk ?st (c1\<lparr>po_communication := n\<rparr>, w')"
    using InternalAccessDirect_fetch [of L x "(c1, w\<lparr>w_host := h\<rparr>)"] r(1) by (simp add: c1_def)
  also have "\<dots> = after_fetch L op a x blk (po_stash ?c') (?c', w')"
    by (simp add: after_fetch_stash)
  finally have "Path_Access L op a blk (c, w) = after_fetch L op a x blk (po_stash ?c') (?c', w')"
    using acc by simp
  moreover have "fetched L k a x (?c', w') T' bs"
    using r bs(2) x by (simp add: fetched_def stock_def c1_def)
  ultimately show ?thesis using m q(1) r(1) unfolding Let_def c1_def x_def by blast
qed

lemma path_access_fetches:
  assumes holds: "path_holds L k (c, w) m" and op: "op \<noteq> Operation_kInvalid"
  shows "\<exists>T bs x c' w'. fetched L k a x (c', w') T bs \<and> blocks_map bs = m
    \<and> oc_standalone c' = oc_standalone c
    \<and> Path_Access L op a blk (c, w) = after_fetch L op a x blk (po_stash c') (c', w')"
proof -
  from path_access_parts [OF assms, of a blk] obtain T bs x q ds n w' where
    r: "fetched L k a x (c\<lparr>po_position := (po_position c)(a \<mapsto> q), po_stash := merge_stash (po_stash c) ds, po_communication := n\<rparr>, w') T bs"
      "blocks_map bs = m"
      "Path_Access L op a blk (c, w) = after_fetch L op a x blk
        (po_stash (c\<lparr>po_position := (po_position c)(a \<mapsto> q), po_stash := merge_stash (po_stash c) ds, po_communication := n\<rparr>))
        (c\<lparr>po_position := (po_position c)(a \<mapsto> q), po_stash := merge_stash (po_stash c) ds, po_communication := n\<rparr>, w')"
    unfolding Let_def by blast
  then show ?thesis by fastforce
qed

lemma path_inv_stash_size [simp]:
  "path_inv L k (c\<lparr>po_stash_size := j\<rparr>, w) T = path_inv L k (c, w) T"
  by (simp add: path_inv_def stock_def)

lemma stash_size_stash [simp]:
  "c\<lparr>po_stash_size := j, po_stash := po_stash c\<rparr> = c\<lparr>po_stash_size := j\<rparr>"
  by (cases c) simp

lemma fetched_find:
  assumes "fetched L k a x (c, w) T bs" and "blocks_map bs a = Some d"
  shows "\<exists>b. find (BlockEqual a) (po_stash c) = Some b \<and> BlockEqual a b \<and> data b = d
    \<and> payload b \<in># goods bs"
proof -
  from assms have f: "stock c T = goods bs" "distinct (normal_ids bs)"
    "\<And>p. p \<in># goods bs \<Longrightarrow> block_id (header p) = a \<Longrightarrow> p \<in># goods (po_stash c)"
    by (auto simp: fetched_def)
  from assms(2) blocks_map_goods [OF f(2)] obtain p where
    p: "p \<in># goods bs" "block_id (header p) = a" "data p = d" by blast
  have "goods (po_stash c) \<subseteq># goods bs" using f(1) by (metis stock_def mset_subset_eq_add_left)
  from find_first [OF f(2) this f(3) [OF p(1,2)] p(2)] p show ?thesis
    by (metis payload_fields(5))
qed

text \<open>Writing the path back from any stash that keeps the invariant.\<close>

lemma path_write_back:
  assumes L: "sodium_ok L" "lz4_ok L" "random_live L" "pads_ok L k"
    and inv: "path_inv L k (c, w) T" and x: "unat x < 2 ^ po_tree_level c"
    and clear: "\<forall>l < po_tree_level c + 1. T (path_tag c x l) = []"
    and bs: "stock c T = goods bs" "distinct (normal_ids bs)"
  shows "\<exists>c' w'. write_path L x (po_tree_level c + 1) (c, w) = Inr (OK, c', w')
    \<and> path_holds L k (c', w') (blocks_map bs) \<and> oc_standalone c' = oc_standalone c"
proof -
  have "path_inv L k (c\<lparr>po_stash := po_stash c, po_communication := po_communication c\<rparr>, w) T"
    using inv by simp
  from write_path_view [OF L(1,2,4) x order_refl this clear] obtain st' m' w' T' where
    r: "write_path L x (po_tree_level c + 1) (c, w)
        = Inr (OK, c\<lparr>po_stash := st', po_communication := m'\<rparr>, w')"
      "path_inv L k (c\<lparr>po_stash := st', po_communication := m'\<rparr>, w') T'"
      "goods st' + bag (po_tree_level c) T' = stock c T"
    by (auto simp: stock_def)
  then have "path_holds L k (c\<lparr>po_stash := st', po_communication := m'\<rparr>, w') (blocks_map bs)"
    using L bs unfolding path_holds_def
    by (intro conjI exI [of _ T'] exI [of _ bs]) (simp_all add: stock_def)
  with r(1) show ?thesis by simp
qed

lemma path_read_keep:
  assumes h: "path_holds L k (c, w) m" and a: "m a = Some d" and s: "oc_standalone c"
  shows "\<exists>b c' w'. Path_Access L Operation_kRead a x (c, w) = Inr ((OK, b), c', w')
    \<and> BlockEqual a b \<and> data b = d \<and> path_holds L k (c', w') m \<and> oc_standalone c'"
proof -
  from h have L: "sodium_ok L" "lz4_ok L" "random_live L" "pads_ok L k"
    by (simp_all add: path_holds_def)
  from path_access_fetches [OF h, of Operation_kRead a x] obtain T bs y c1 w1 where
    f: "fetched L k a y (c1, w1) T bs" "blocks_map bs = m" "oc_standalone c1"
      "Path_Access L Operation_kRead a x (c, w)
        = after_fetch L Operation_kRead a y x (po_stash c1) (c1, w1)" using s by auto
  from fetched_find [OF f(1)] a f(2) obtain b where
    b: "find (BlockEqual a) (po_stash c1) = Some b" "BlockEqual a b" "data b = d" by blast
  let ?c = "c1\<lparr>po_stash_size := max (po_stash_size c1) (length (po_stash c1))\<rparr>"
  have "\<exists>c' w'. write_path L y (po_tree_level ?c + 1) (?c, w1) = Inr (OK, c', w')
    \<and> path_holds L k (c', w') (blocks_map bs) \<and> oc_standalone c' = oc_standalone ?c"
    using f(1) by (intro path_write_back [OF L]) (auto simp: fetched_def stock_def)
  with f b show ?thesis by (auto simp: after_fetch_def Let_def)
qed

lemma path_write:
  assumes h: "path_holds L k (c, w) m" and a: "m a = Some d" and x: "storable L k x"
  shows "\<exists>c' w'. Path_Access L Operation_kWrite a x (c, w) = Inr ((OK, x), c', w')
    \<and> path_holds L k (c', w') (m(a \<mapsto> data x)) \<and> oc_standalone c' = oc_standalone c"
proof -
  from h have L: "sodium_ok L" "lz4_ok L" "random_live L" "pads_ok L k"
    by (simp_all add: path_holds_def)
  from path_access_fetches [OF h, of Operation_kWrite a x] obtain T bs y c1 w1 where
    f: "fetched L k a y (c1, w1) T bs" "blocks_map bs = m"
      "oc_standalone c1 = oc_standalone c"
      "Path_Access L Operation_kWrite a x (c, w)
        = after_fetch L Operation_kWrite a y x (po_stash c1) (c1, w1)" by auto
  from fetched_find [OF f(1)] a f(2) obtain b where
    b: "find (BlockEqual a) (po_stash c1) = Some b" "payload b \<in># goods bs" "BlockEqual a b" by blast
  from f(1) have g: "path_inv L k (c1, w1) T" "stock c1 T = goods bs" "distinct (normal_ids bs)"
    by (simp_all add: fetched_def)
  let ?u = "update_first (BlockEqual a) (write_into x)"
  let ?st = "?u (po_stash c1)"
  let ?c = "c1\<lparr>po_stash_size := max (po_stash_size c1) (length (po_stash c1)), po_stash := ?st\<rparr>"
  from find_first [OF g(3) _ b(2), of a] b(3) obtain b0 where
    b0: "find (BlockEqual a) bs = Some b0" "payload b0 = payload b" by (auto simp: BlockEqual_def)
  have "goods ?st + {#payload b#} + bag (po_tree_level c1) T
      = stock c1 T + {#payload (write_into x b)#}"
    using update_first_goods [OF b(1), of x] by (simp add: stock_def ac_simps)
  also have "\<dots> = goods (?u bs) + {#payload b#}"
    using update_first_goods [OF b0(1), of x] b0(2) payload_write_into [OF b0(2), of x] g(2) by simp
  finally have st: "stock ?c T = goods (?u bs)" by (simp add: stock_def)
  have upd: "\<forall>e \<in> set (?u es). (\<exists>e' \<in> set es. e = e' \<or> e = write_into x e')" for es
    by (induction es) auto
  have "dense_data L k p" if "p \<in># goods (?u bs)" for p
  proof -
    from that obtain e where e: "e \<in> set (?u bs)" "is_normal e" "p = payload e" by (auto simp: in_goods)
    with upd [of bs] obtain e' where e': "e' \<in> set bs" "e = e' \<or> e = write_into x e'" by blast
    have "dense_data L k (write_into x e')" using x by (simp add: storable_def dense_data_def write_into_def)
    moreover have "dense_data L k e'" if "is_normal e'"
    proof -
      have "payload e' \<in># goods bs" using that e'(1) by (auto simp: in_goods)
      with g(1,2) have "dense_data L k (payload e')" unfolding path_inv_def by (metis (no_types, lifting) split_conv)
      then show ?thesis by simp
    qed
    ultimately show ?thesis using e e'(2) by auto
  qed
  note dense = this
  have "stash_ok (po_position c1) ?st" using g(1) x upd [of "po_stash c1"]
    by (fastforce simp: storable_def path_inv_def stash_ok_def write_into_def wf_block_def is_normal_def)
  then have inv: "path_inv L k (?c, w1) T" using g(1) dense unfolding path_inv_def split_conv st by simp
  have "\<exists>c' w'. write_path L y (po_tree_level ?c + 1) (?c, w1) = Inr (OK, c', w')
    \<and> path_holds L k (c', w') (blocks_map (?u bs)) \<and> oc_standalone c' = oc_standalone ?c"
    using f(1) st by (intro path_write_back [OF L inv])
      (auto simp: fetched_def update_first_views(1))
  with f b a show ?thesis by (auto simp: after_fetch_def Let_def update_first_views(2))
qed

text \<open>The block of an address that is in the stash is taken out, and with it the address's position.\<close>

lemma remove_inv:
  assumes inv: "path_inv L k (c, w) T" and bs: "stock c T = goods bs" "distinct (normal_ids bs)"
    and b: "find (BlockEqual a) (po_stash c) = Some b" "payload b \<in># goods bs" "BlockEqual a b"
    and c': "c' = c\<lparr>po_stash_size := n, po_stash := remove_first (BlockEqual a) (po_stash c),
      po_position := (po_position c)(a := None)\<rparr>"
  shows "path_inv L k (c', w) T \<and> stock c' T = goods (remove_first (BlockEqual a) bs)"
proof -
  let ?N = "po_tree_level c" and ?r = "remove_first (BlockEqual a)"
  let ?st = "?r (po_stash c)" and ?pm = "(po_position c)(a := None)"
  from find_first [OF bs(2) _ b(2), of a] b(3) obtain b0 where
    b0: "find (BlockEqual a) bs = Some b0" "payload b0 = payload b" by (auto simp: BlockEqual_def)
  have "goods ?st + bag ?N T + {#payload b#} = goods (?r bs) + {#payload b#}"
    using remove_first_goods [OF b(1)] remove_first_goods [OF b0(1)] b0(2) bs(1)
    by (simp add: stock_def) (metis add.commute add_mset_add_single union_mset_add_mset_left)
  then have eq: "goods ?st + bag ?N T = goods (?r bs)" by simp
  then have st: "stock c' T = goods (?r bs)" by (simp add: stock_def c')
  have gone: "block_id (header p) \<noteq> a" if "p \<in># goods ?st + bag ?N T" for p
  proof
    assume "block_id (header p) = a"
    with that eq have "a \<in># mset (normal_ids (?r bs))" unfolding normal_ids_goods by force
    then have "blocks_map (?r bs) a \<noteq> None" by (simp add: blocks_map_None)
    then show False using remove_first_views(2) [OF bs(2), of a] by simp
  qed
  have sub: "set (?r es) \<subseteq> set es" for es by (induction es) auto
  have "wf_block e \<and> is_normal e \<and> ?pm (block_id (header e)) \<noteq> None" if e: "e \<in> set ?st" for e
  proof -
    from e sub [of "po_stash c"] inv have ok: "wf_block e" "is_normal e" "po_position c (block_id (header e)) \<noteq> None"
      by (auto simp: path_inv_def stash_ok_def)
    then have "payload e \<in># goods ?st" using e by (auto simp: in_goods)
    with gone have "block_id (header e) \<noteq> a" by (metis payload_fields(1) union_iff)
    with ok show ?thesis by simp
  qed
  then have "stash_ok ?pm ?st" by (simp add: stash_ok_def)
  moreover have "placed ?pm ?N T" using gone inv by (intro placed_remap) (auto simp: path_inv_def)
  moreover have "dense_data L k p" if "p \<in># goods (?r bs)" for p
    using that inv bs(1) sub [of bs] by (auto simp: path_inv_def in_goods)
  ultimately have "path_inv L k (c', w) T"
    using inv st unfolding path_inv_def split_conv by (simp add: positions_ok_def c' stock_def)
  with st show ?thesis by simp
qed

lemma path_read_remove:
  assumes h: "path_holds L k (c, w) m" and a: "m a = Some d" and s: "\<not> oc_standalone c"
  shows "\<exists>b c' w'. Path_Access L Operation_kRead a x (c, w) = Inr ((OK, b), c', w')
    \<and> BlockEqual a b \<and> data b = d \<and> path_holds L k (c', w') (m(a := None)) \<and> \<not> oc_standalone c'"
proof -
  from h have L: "sodium_ok L" "lz4_ok L" "random_live L" "pads_ok L k"
    by (simp_all add: path_holds_def)
  from path_access_fetches [OF h, of Operation_kRead a x] obtain T bs y c1 w1 where
    f: "fetched L k a y (c1, w1) T bs" "blocks_map bs = m" "\<not> oc_standalone c1"
      "Path_Access L Operation_kRead a x (c, w)
        = after_fetch L Operation_kRead a y x (po_stash c1) (c1, w1)" using s by auto
  from fetched_find [OF f(1)] a f(2) obtain b where
    b: "find (BlockEqual a) (po_stash c1) = Some b" "payload b \<in># goods bs" "BlockEqual a b" "data b = d" by blast
  from f(1) have g: "path_inv L k (c1, w1) T" "stock c1 T = goods bs" "distinct (normal_ids bs)"
    by (simp_all add: fetched_def)
  let ?c = "c1\<lparr>po_stash_size := max (po_stash_size c1) (length (po_stash c1)),
    po_stash := remove_first (BlockEqual a) (po_stash c1), po_position := (po_position c1)(a := None)\<rparr>"
  from remove_inv [OF g b(1-3) refl] have inv: "path_inv L k (?c, w1) T" "stock ?c T = goods (remove_first (BlockEqual a) bs)"
    by blast+
  have "\<exists>c' w'. write_path L y (po_tree_level ?c + 1) (?c, w1) = Inr (OK, c', w')
    \<and> path_holds L k (c', w') (blocks_map (remove_first (BlockEqual a) bs)) \<and> oc_standalone c' = oc_standalone ?c"
    using f(1) inv(2) remove_first_views(1) [OF g(3), of a]
    by (intro path_write_back [OF L inv(1)]) (auto simp: fetched_def)
  with f b g(3) show ?thesis by (auto simp: after_fetch_def Let_def remove_first_views(2))
qed

text \<open>A missing block: an error, and nothing of the contents is lost.\<close>

lemma path_miss_status:
  assumes h: "path_holds L k (c, w) m" and a: "m a = None" and op: "op \<noteq> Operation_kInvalid"
  shows "\<exists>s c' w'. Path_Access L op a x (c, w) = Inr ((s, x), c', w')
    \<and> error_code s = kObjectNotFound \<and> nested_status s = [] \<and> path_holds L k (c', w') m
    \<and> oc_standalone c' = oc_standalone c"
proof -
  from path_access_fetches [OF h op, of a x] obtain T bs y c1 w1 where
    f: "fetched L k a y (c1, w1) T bs" "blocks_map bs = m"
      "oc_standalone c1 = oc_standalone c"
      "Path_Access L op a x (c, w) = after_fetch L op a y x (po_stash c1) (c1, w1)" by auto
  have "goods (po_stash c1) \<subseteq># goods bs"
    using f(1) by (simp add: fetched_def) (metis stock_def mset_subset_eq_add_left)
  with a f(2) have "find (BlockEqual a) (po_stash c1) = None" by (intro find_missing) auto
  moreover have "path_holds L k (c1, w1) m"
    using h f unfolding path_holds_def
    by (intro conjI exI [of _ T] exI [of _ bs]) (auto simp: fetched_def)
  ultimately show ?thesis using f(3,4) by (simp add: after_fetch_def mk_status_def)
qed

lemma path_miss:
  assumes "path_holds L k (c, w) m" "m a = None" "op \<noteq> Operation_kInvalid"
  shows "\<exists>s c' w'. Path_Access L op a x (c, w) = Inr ((s, x), c', w')
    \<and> error_code s = kObjectNotFound \<and> path_holds L k (c', w') m \<and> oc_standalone c' = oc_standalone c"
  using path_miss_status [OF assms, of x] by blast

definition path_serves :: "libs \<Rightarrow> bytes \<Rightarrow> path_oram \<times> world \<Rightarrow> (u32 \<rightharpoonup> bytes) \<Rightarrow> bool" where
  "path_serves L k cw m \<longleftrightarrow> path_holds L k cw m \<and> oc_standalone (fst cw)"

interpretation path: block_ram "Path_Access L" "path_serves L k" "storable L k" for L k
proof unfold_locales
  fix s m a d x
  assume h: "path_serves L k s m" and a: "m a = Some d"
  obtain c w where s: "s = (c, w)" by (cases s)
  from path_read_keep [of L k c w m a d x] h a s
  show "\<exists>b s'. Path_Access L Operation_kRead a x s = Inr ((OK, b), s') \<and> data b = d
      \<and> block_id (header b) = a \<and> btype (header b) = BlockType_kNormal \<and> path_serves L k s' m"
    by (auto simp: path_serves_def BlockEqual_def)
next
  fix s m a d x
  assume h: "path_serves L k s m" and a: "m a = Some d" and x: "storable L k x"
  obtain c w where s: "s = (c, w)" by (cases s)
  from path_write [of L k c w m a d x] h a x s
  show "\<exists>b s'. Path_Access L Operation_kWrite a x s = Inr ((OK, b), s')
      \<and> path_serves L k s' (m(a \<mapsto> data x))"
    by (auto simp: path_serves_def)
qed

end
