(* ===== verification/Path_Fill.thy ===== *)
theory Path_Fill
  imports Path_Oram_Correct
begin

text \<open>
  From the constructor to a filled tree: \<open>InitOram\<close> makes an empty tree on the server,
  \<open>FillWithData\<close> stores as many entries as the tree has room for, and the result is a memory
  of these entries.
\<close>

section \<open>One bucket\<close>

lemma fill_bucket_view:
  assumes live: "random_live L" and r: "lo \<le> hi" "hi - lo + 1 \<noteq> 0"
  shows "\<exists>pm' h'. fill_bucket L lo hi n ds pm bucket h
      = Inr ((drop n ds, pm', bucket @ filter is_normal (take n ds)), h')
    \<and> singleton h' = singleton h
    \<and> (\<forall>a \<in> set (normal_ids (take n ds)). \<exists>x. pm' a = Some x \<and> lo \<le> x \<and> x \<le> hi)
    \<and> (\<forall>a. a \<notin> set (normal_ids (take n ds)) \<longrightarrow> pm' a = pm a)"
proof (induction n arbitrary: ds pm bucket h)
  case (Suc n)
  show ?case
  proof (cases ds)
    case (Cons d es)
    show ?thesis
    proof (cases "is_normal d")
      case False
      with Cons Suc.IH [of es pm bucket h] show ?thesis by (auto simp: is_normal_def)
    next
      case True
      from UniformRandom_returns [OF live r, of h] obtain p h1 where
        p: "UniformRandom L lo hi h = Inr ((OK, Some p), h1)" "lo \<le> p" "p \<le> hi"
          "singleton h1 = singleton h" by blast
      from Suc.IH [of es "pm(block_id (header d) \<mapsto> p)" "bucket @ [d]" h1] obtain pm' h' where
        IH: "fill_bucket L lo hi n es (pm(block_id (header d) \<mapsto> p)) (bucket @ [d]) h1
            = Inr ((drop n es, pm', (bucket @ [d]) @ filter is_normal (take n es)), h')"
          "singleton h' = singleton h1"
          "\<forall>a \<in> set (normal_ids (take n es)). \<exists>x. pm' a = Some x \<and> lo \<le> x \<and> x \<le> hi"
          "\<forall>a. a \<notin> set (normal_ids (take n es)) \<longrightarrow> pm' a = (pm(block_id (header d) \<mapsto> p)) a"
        by blast
      have "\<exists>x. pm' (block_id (header d)) = Some x \<and> lo \<le> x \<and> x \<le> hi"
        using IH(3,4) p(2,3) by (cases "block_id (header d) \<in> set (normal_ids (take n es))") auto
      moreover have "btype (header d) = BlockType_kNormal" using True by (simp add: is_normal_def)
      ultimately show ?thesis using True Cons IH p(1,4)
        by (intro exI [of _ pm'] exI [of _ h']) (simp add: CheckStatus_def)
    qed
  qed simp
qed simp

section \<open>A level, the levels\<close>

text \<open>The state while the tree is filled: \<open>bs\<close> is what has been stored so far.\<close>

definition fill_inv :: "libs \<Rightarrow> bytes \<Rightarrow> path_oram \<Rightarrow> (u32 \<rightharpoonup> u32) \<Rightarrow> world
    \<Rightarrow> (tag \<Rightarrow> oram_block list) \<Rightarrow> oram_block list \<Rightarrow> bool" where
  "fill_inv L k c pm w T bs \<longleftrightarrow> po_leafs c = 2 ^ po_tree_level c \<and> po_tree_level c < 32
     \<and> keyed k (w_host w) \<and> path_server L k c w T \<and> placed pm (po_tree_level c) T
     \<and> positions_ok pm (po_tree_level c) \<and> bag (po_tree_level c) T = goods bs
     \<and> (\<forall>b \<in> set bs. dense_data L k b)"

lemma leaf_span:
  assumes "N < 32" "i \<le> N" "j < 2 ^ i"
  defines "lo \<equiv> j * 2 ^ (N - i)" and "hi \<equiv> j * 2 ^ (N - i) + 2 ^ (N - i) - 1"
  shows "(of_nat lo :: u32) \<le> of_nat hi" "of_nat hi - of_nat lo + 1 \<noteq> (0 :: u32)"
    "of_nat lo \<le> x \<Longrightarrow> x \<le> of_nat hi \<Longrightarrow> unat (x :: u32) < 2 ^ N \<and> unat x div 2 ^ (N - i) = j"
proof -
  let ?s = "2 ^ (N - i) :: nat"
  have pow: "(2 :: nat) ^ N = 2 ^ i * ?s" using assms(2) by (simp flip: power_add)
  have "(j + 1) * ?s \<le> 2 ^ i * ?s" using assms(3) by (intro mult_le_mono1) simp
  then have top: "j * ?s + ?s \<le> 2 ^ N" using pow by simp
  have N: "(2 :: nat) ^ N < 2 ^ 32" using assms(1) by (intro power_strict_increasing) simp_all
  have s: "0 < ?s" by simp
  have hi: "hi < 2 ^ N" "lo \<le> hi" "hi = lo + (?s - 1)" using top s unfolding lo_def hi_def by linarith+
  then have u: "unat (of_nat hi :: u32) = hi" "unat (of_nat lo :: u32) = lo"
    using N by (simp_all add: unat_of_nat_u32)
  show le: "(of_nat lo :: u32) \<le> of_nat hi" using u hi(2) by (simp add: word_le_nat_alt)
  have d: "unat (of_nat hi - of_nat lo :: u32) = ?s - 1" using le u hi(3) by (simp add: unat_sub)
  have "?s - 1 < 2 ^ 32 - 1" using top N s by linarith
  show "of_nat hi - of_nat lo + 1 \<noteq> (0 :: u32)"
  proof
    assume "of_nat hi - of_nat lo + 1 = (0 :: u32)"
    then have "of_nat hi - of_nat lo = (- 1 :: u32)" by (simp only: eq_neg_iff_add_eq_0)
    then have "?s - 1 = unat (- 1 :: u32)" using d by simp
    moreover have "unat (- 1 :: u32) = 2 ^ 32 - 1"
      by (simp add: unsigned_minus_1_eq_mask mask_eq_exp_minus_1)
    ultimately show False using \<open>?s - 1 < 2 ^ 32 - 1\<close> by simp
  qed
  assume x: "of_nat lo \<le> x" "x \<le> of_nat hi"
  then have "lo \<le> unat x" "unat x \<le> hi" using u by (simp_all add: word_le_nat_alt)
  then have "j * ?s \<le> unat x" "unat x < Suc j * ?s" "unat x < 2 ^ N"
    using hi s unfolding lo_def hi_def by (simp_all, linarith+)
  then show "unat x < 2 ^ N \<and> unat x div ?s = j" by (metis div_nat_eqI mult.commute)
qed

text \<open>The blocks of one bucket get leaves below it; the others keep theirs.\<close>

lemma placed_fill:
  assumes pl: "placed pm N T" and bag: "bag N T = goods bs" and disj: "set (normal_ids bs) \<inter> set (normal_ids new) = {}"
    and pm1: "\<forall>a \<in> set (normal_ids new). \<exists>x. pm1 a = Some x \<and> path_offset N i (unat x) = j"
      "\<forall>a. a \<notin> set (normal_ids new) \<longrightarrow> pm1 a = pm a"
    and ps: "\<forall>b \<in> set ps. \<not> is_normal b"
  shows "placed pm1 N (T((i, j) := T (i, j) @ filter is_normal new @ ps))"
  unfolding placed_def
proof (intro ballI allI impI)
  let ?T = "T((i, j) := T (i, j) @ filter is_normal new @ ps)"
  fix t p assume t: "t \<in> tree_tags N" "p \<in># goods (?T t)"
  have "p \<in># goods (T t) \<or> (t = (i, j) \<and> p \<in># goods (filter is_normal new))"
    using t(2) ps by (auto simp: goods_none split: if_splits)
  then show "\<exists>x. pm1 (block_id (header p)) = Some x \<and> path_offset N (fst t) (unat x) = snd t"
  proof
    assume p: "p \<in># goods (T t)"
    then have "p \<in># goods bs" using t(1) bag by (metis in_bag)
    then have "block_id (header p) \<in> set (normal_ids bs)" by (auto simp: in_goods in_normal_ids)
    then have "pm1 (block_id (header p)) = pm (block_id (header p))" using pm1(2) disj by blast
    with p t(1) pl show ?thesis by (simp add: placed_def)
  next
    assume p: "t = (i, j) \<and> p \<in># goods (filter is_normal new)"
    then have "block_id (header p) \<in> set (normal_ids new)" by (auto simp: in_goods in_normal_ids)
    with pm1(1) p show ?thesis by auto
  qed
qed

text \<open>Filling one bucket.\<close>

lemma fill_one_bucket:
  fixes c :: path_oram
  defines "B \<equiv> unat (po_bucket_size c)" and "N \<equiv> po_tree_level c"
  assumes L: "sodium_ok L" "lz4_ok L" "random_live L" "pads_ok L k"
    and i: "i \<le> N" "j < 2 ^ i" and ds: "list_all (storable L k) ds" "distinct (normal_ids (bs @ ds))"
    and fi: "fill_inv L k c pm w T bs" and empty: "T (i, j) = []"
  shows "\<exists>pm1 h1 ps h2 w1 T'. fill_bucket L (of_nat (j * 2 ^ (N - i))) (of_nat (j * 2 ^ (N - i) + 2 ^ (N - i) - 1)) B ds pm []
      (w_host w) = Inr ((drop B ds, pm1, filter is_normal (take B ds)), h1)
    \<and> PadStash L (filter is_normal (take B ds)) B h1 = Inr (filter is_normal (take B ds) @ ps, h2)
    \<and> AccurateWriteBucket L (c\<lparr>po_position := pm1\<rparr>) i j (filter is_normal (take B ds) @ ps) (w\<lparr>w_host := h2\<rparr>) = Inr (OK, w1)
    \<and> fill_inv L k c pm1 w1 T' (bs @ take B ds) \<and> (\<forall>t. t \<noteq> (i, j) \<longrightarrow> T' t = T t)"
proof -
  let ?lo = "j * 2 ^ (N - i)" and ?hi = "j * 2 ^ (N - i) + 2 ^ (N - i) - 1" and ?new = "filter is_normal (take B ds)"
  from fi have inv: "po_leafs c = 2 ^ N" "N < 32" "keyed k (w_host w)" "path_server L k c w T" "placed pm N T"
    "positions_ok pm N" "bag N T = goods bs" "\<forall>b \<in> set bs. dense_data L k b" by (simp_all add: fill_inv_def N_def)
  have j: "(i, j) \<in> tree_tags N" using i by (simp add: tree_tags_def)
  note span = leaf_span [OF inv(2) i]
  from fill_bucket_view [OF L(3) span(1,2), of B ds pm "[]" "w_host w"] obtain pm1 h1 where
    b: "fill_bucket L (of_nat ?lo) (of_nat ?hi) B ds pm [] (w_host w) = Inr ((drop B ds, pm1, ?new), h1)"
      "singleton h1 = singleton (w_host w)"
      "\<forall>a \<in> set (normal_ids (take B ds)). \<exists>x. pm1 a = Some x \<and> of_nat ?lo \<le> x \<and> x \<le> of_nat ?hi"
      "\<forall>a. a \<notin> set (normal_ids (take B ds)) \<longrightarrow> pm1 a = pm a" by auto
  have "keyed k h1" using inv(3) b(2) by (simp add: keyed_def)
  from PadStash_view [OF L(1,4) this, of ?new B] obtain ps h2 where
    ps: "PadStash L ?new B h1 = Inr (?new @ ps, h2)" "keyed k h2" "list_all wf_block ps"
      "list_all (dense_block L k) ps" "\<forall>b \<in> set ps. \<not> is_normal b"
      "length ?new \<le> B \<longrightarrow> length (?new @ ps) = B" by blast
  have "length ?new \<le> B" using length_filter_le [of is_normal "take B ds"] by simp
  then have len: "length (T (i, j) @ ?new @ ps) < 256"
    using ps(6) empty unsigned_less [of "po_bucket_size c"] by (simp add: B_def)
  let ?T = "T((i, j) := T (i, j) @ ?new @ ps)" and ?c = "c\<lparr>po_position := pm1\<rparr>"
  have wf: "list_all wf_block (?new @ ps)" and dense: "list_all (dense_block L k) (?new @ ps)"
    using ds(1) ps(3,4) by (auto simp: list_all_iff storable_def is_normal_def dest!: in_set_takeD intro: dense_dataD)
  have "keyed k (w_host (w\<lparr>w_host := h2\<rparr>))" "path_server L k ?c (w\<lparr>w_host := h2\<rparr>) T"
    "(i, j) \<in> tree_tags (po_tree_level ?c)" using ps(2) inv(4) j by (simp_all add: N_def)
  from AccurateWriteBucket_view [OF L(1,2) this wf dense len] obtain w1 where
    w1: "AccurateWriteBucket L ?c i j (?new @ ps) (w\<lparr>w_host := h2\<rparr>) = Inr (OK, w1)"
      "keyed k (w_host w1)" "path_server L k c w1 ?T" by auto
  have disj: "set (normal_ids bs) \<inter> set (normal_ids (take B ds)) = {}"
    using ds(2) append_take_drop_id [of B ds]
    by (metis Int_commute distinct_append normal_ids_simps(3) append.assoc distinct_append inf_commute)
  have "\<forall>a \<in> set (normal_ids (take B ds)). \<exists>x. pm1 a = Some x \<and> path_offset N i (unat x) = j"
    using b(3) span(3) by (fastforce simp: path_offset_def POW2_def)
  from placed_fill [OF inv(5,7) disj this b(4) ps(5)] have "placed pm1 N ?T" .
  moreover have "positions_ok pm1 N"
    using b(3,4) inv(6) span(3) unfolding positions_ok_def by (metis option.inject)
  moreover have "bag N ?T = goods (bs @ take B ds)"
    using bag_upd [OF j, of T "T (i, j) @ ?new @ ps"] inv(7) ps(5) by (simp add: goods_none)
  ultimately have "fill_inv L k c pm1 w1 ?T (bs @ take B ds)"
    using inv(1,2,8) w1 ds(1) by (auto simp: fill_inv_def N_def list_all_iff storable_def dest: in_set_takeD)
  with b(1) ps(1) w1(1) show ?thesis
    by (intro exI [of _ pm1] exI [of _ h1] exI [of _ ps] exI [of _ h2] exI [of _ w1] exI [of _ ?T]) simp
qed

lemma fill_level_view:
  assumes L: "sodium_ok L" "lz4_ok L" "random_live L" "pads_ok L k"
  shows "i \<le> po_tree_level c \<Longrightarrow> (\<forall>j \<in> set js. j < 2 ^ i) \<Longrightarrow> list_all (storable L k) ds \<Longrightarrow>
    distinct (normal_ids (bs @ ds)) \<Longrightarrow> fill_inv L k c pm w T bs \<Longrightarrow> distinct js \<Longrightarrow> \<forall>j \<in> set js. T (i, j) = [] \<Longrightarrow>
    \<exists>pm' w' T'. fill_level L i js ds (c\<lparr>po_position := pm\<rparr>, w)
        = Inr (drop (unat (po_bucket_size c) * length js) ds, c\<lparr>po_position := pm'\<rparr>, w')
      \<and> fill_inv L k c pm' w' T' (bs @ take (unat (po_bucket_size c) * length js) ds)
      \<and> (\<forall>t. fst t \<noteq> i \<longrightarrow> T' t = T t)"
proof (induction js arbitrary: ds bs pm w T)
  case Nil
  then show ?case by (intro exI [of _ pm] exI [of _ w] exI [of _ T]) simp
next
  case (Cons j js)
  let ?N = "po_tree_level c" and ?B = "unat (po_bucket_size c)"
  have j: "j < 2 ^ i" "\<forall>j \<in> set js. j < 2 ^ i" using Cons.prems(2) by simp_all
  have "T (i, j) = []" using Cons.prems(7) by simp
  from fill_one_bucket [OF L Cons.prems(1) j(1) Cons.prems(3-5) this] obtain pm1 h1 ps h2 w1 T1 where
    b: "fill_bucket L (of_nat (j * 2 ^ (?N - i))) (of_nat (j * 2 ^ (?N - i) + 2 ^ (?N - i) - 1)) ?B ds pm []
        (w_host w) = Inr ((drop ?B ds, pm1, filter is_normal (take ?B ds)), h1)"
      "PadStash L (filter is_normal (take ?B ds)) ?B h1 = Inr (filter is_normal (take ?B ds) @ ps, h2)"
      "AccurateWriteBucket L (c\<lparr>po_position := pm1\<rparr>) i j (filter is_normal (take ?B ds) @ ps) (w\<lparr>w_host := h2\<rparr>) = Inr (OK, w1)"
      "fill_inv L k c pm1 w1 T1 (bs @ take ?B ds)" "\<forall>t. t \<noteq> (i, j) \<longrightarrow> T1 t = T t" by blast
  have "T1 (i, l) = []" if "l \<in> set js" for l
    using that b(5) [THEN spec, of "(i, l)"] Cons.prems(6,7) by auto
  then have later: "distinct js" "\<forall>j \<in> set js. T1 (i, j) = []" using Cons.prems(6) by simp_all
  have rest: "list_all (storable L k) (drop ?B ds)" "distinct (normal_ids ((bs @ take ?B ds) @ drop ?B ds))"
    using Cons.prems(3,4) by (auto simp: list_all_iff dest: in_set_dropD)
  from Cons.IH [OF Cons.prems(1) j(2) rest b(4) later] obtain pm' w' T' where
    IH: "fill_level L i js (drop ?B ds) (c\<lparr>po_position := pm1\<rparr>, w1)
        = Inr (drop (?B * length js) (drop ?B ds), c\<lparr>po_position := pm'\<rparr>, w')"
      "fill_inv L k c pm' w' T' ((bs @ take ?B ds) @ take (?B * length js) (drop ?B ds))"
      "\<forall>t. fst t \<noteq> i \<longrightarrow> T' t = T1 t"
    by blast
  have "fill_level L i (j # js) ds (c\<lparr>po_position := pm\<rparr>, w)
      = Inr (drop (?B * length (j # js)) ds, c\<lparr>po_position := pm'\<rparr>, w')"
    using b(1-3) IH(1) by (simp add: Let_def POW2_def CheckStatus_def add.commute)
  moreover have "fill_inv L k c pm' w' T' (bs @ take (?B * length (j # js)) ds)"
    using IH(2) by (simp add: take_add)
  moreover have "\<forall>t. fst t \<noteq> i \<longrightarrow> T' t = T t" using IH(3) b(5) by (metis fst_conv)
  ultimately show ?case by (intro exI [of _ pm'] exI [of _ w'] exI [of _ T'] conjI)
qed

lemma fill_levels_view:
  assumes L: "sodium_ok L" "lz4_ok L" "random_live L" "pads_ok L k"
  shows "n \<le> po_tree_level c + 1 \<Longrightarrow> list_all (storable L k) ds \<Longrightarrow>
    distinct (normal_ids (bs @ ds)) \<Longrightarrow> fill_inv L k c pm w T bs \<Longrightarrow> \<forall>t. fst t < n \<longrightarrow> T t = [] \<Longrightarrow>
    \<exists>pm' w' T'. fill_levels L n ds (c\<lparr>po_position := pm\<rparr>, w)
        = Inr (drop (unat (po_bucket_size c) * (2 ^ n - 1)) ds, c\<lparr>po_position := pm'\<rparr>, w')
      \<and> fill_inv L k c pm' w' T' (bs @ take (unat (po_bucket_size c) * (2 ^ n - 1)) ds)"
proof (induction n arbitrary: ds bs pm w T)
  case 0
  then show ?case by (intro exI [of _ pm] exI [of _ w] exI [of _ T]) simp
next
  case (Suc n)
  let ?B = "unat (po_bucket_size c)"
  let ?k = "?B * 2 ^ n"
  have "n \<le> po_tree_level c" "\<forall>j \<in> set [0..<POW2 n]. j < 2 ^ n"
    using Suc.prems(1) by (simp_all add: POW2_def)
  from fill_level_view [OF L this Suc.prems(2-4)] Suc.prems(5) obtain pm1 w1 T1 where
    l: "fill_level L n [0..<POW2 n] ds (c\<lparr>po_position := pm\<rparr>, w)
        = Inr (drop ?k ds, c\<lparr>po_position := pm1\<rparr>, w1)"
      "fill_inv L k c pm1 w1 T1 (bs @ take ?k ds)" "\<forall>t. fst t \<noteq> n \<longrightarrow> T1 t = T t"
    by (auto simp: POW2_def)
  have later: "\<forall>t. fst t < n \<longrightarrow> T1 t = []" using l(3) Suc.prems(5) by auto
  have "n \<le> po_tree_level c + 1" "list_all (storable L k) (drop ?k ds)"
    "distinct (normal_ids ((bs @ take ?k ds) @ drop ?k ds))"
    using Suc.prems(1-3) by (auto simp: list_all_iff dest: in_set_dropD)
  from Suc.IH [OF this l(2) later] obtain pm' w' T' where
    IH: "fill_levels L n (drop ?k ds) (c\<lparr>po_position := pm1\<rparr>, w1)
        = Inr (drop (?B * (2 ^ n - 1)) (drop ?k ds), c\<lparr>po_position := pm'\<rparr>, w')"
      "fill_inv L k c pm' w' T' ((bs @ take ?k ds) @ take (?B * (2 ^ n - 1)) (drop ?k ds))"
    by blast
  have "?B * (2 ^ n - 1) + ?k = ?B * (2 ^ n - 1 + 2 ^ n)" by (simp only: distrib_left)
  also have "(2 :: nat) ^ n - 1 + 2 ^ n = 2 ^ Suc n - 1" by simp
  finally have eq: "?B * (2 ^ n - 1) + ?k = ?B * (2 ^ Suc n - 1)" .
  have "fill_levels L (Suc n) ds (c\<lparr>po_position := pm\<rparr>, w)
      = Inr (drop (?B * (2 ^ Suc n - 1)) ds, c\<lparr>po_position := pm'\<rparr>, w')"
    using l(1) IH(1) unfolding eq [symmetric] by simp
  moreover have "fill_inv L k c pm' w' T' (bs @ take (?B * (2 ^ Suc n - 1)) ds)"
    using IH(2) unfolding eq [symmetric] add.commute [of _ ?k] take_add by simp
  ultimately show ?case by blast
qed

section \<open>Filling an empty tree\<close>

text \<open>The state after \<open>InitOram\<close>: an empty tree, nothing in the stash.\<close>

definition path_fresh :: "libs \<Rightarrow> bytes \<Rightarrow> path_oram \<times> world \<Rightarrow> bool" where
  "path_fresh L k cw \<longleftrightarrow> (case cw of (c, w) \<Rightarrow>
     po_leafs c = 2 ^ po_tree_level c \<and> po_tree_level c < 32 \<and> keyed k (w_host w)
     \<and> path_server L k c w (\<lambda>_. []) \<and> po_position c = Map.empty \<and> po_stash c = [])"

definition tree_capacity :: "path_oram \<Rightarrow> nat" where
  "tree_capacity c = unat (po_bucket_size c) * (2 ^ (po_tree_level c + 1) - 1)"

lemma Path_FillWithData_holds:
  assumes L: "sodium_ok L" "lz4_ok L" "random_live L" "pads_ok L k"
    and fresh: "path_fresh L k (c, w)" and wf: "list_all (storable L k) ds"
    and dist: "distinct (normal_ids ds)"
  shows "\<exists>c' w'. Path_FillWithData L ds (c, w) = Inr (OK, c', w')
    \<and> path_holds L k (c', w') (blocks_map (take (tree_capacity c) ds))
    \<and> oc_standalone c' = oc_standalone c"
proof -
  have inv: "fill_inv L k c Map.empty w (\<lambda>_. []) []"
    using fresh by (simp add: fill_inv_def path_fresh_def placed_def positions_ok_def bag_def)
  have c: "c\<lparr>po_position := Map.empty\<rparr> = c" "po_stash c = []"
    using fresh by (simp_all add: path_fresh_def)
  from fill_levels_view [OF L(1-4) order_refl wf _ inv] dist obtain pm' w' T' where
    r: "fill_levels L (po_tree_level c + 1) ds (c\<lparr>po_position := Map.empty\<rparr>, w)
        = Inr (drop (tree_capacity c) ds, c\<lparr>po_position := pm'\<rparr>, w')"
      "fill_inv L k c pm' w' T' (take (tree_capacity c) ds)"
    by (auto simp: tree_capacity_def)
  let ?c = "c\<lparr>po_position := pm', oc_initialized := True\<rparr>"
  have "Path_FillWithData L ds (c, w) = Inr (OK, ?c, w')"
    using r(1) c(1) by (simp add: Path_FillWithData_def)
  moreover have "path_inv L k (?c, w') T'" "stock ?c T' = goods (take (tree_capacity c) ds)"
    using r(2) c(2) by (auto simp: fill_inv_def path_inv_def stash_ok_def stock_def in_goods)
  moreover have "distinct (normal_ids (take (tree_capacity c) ds))"
    using dist append_take_drop_id [of "tree_capacity c" ds]
    by (metis distinct_append normal_ids_simps(3))
  ultimately show ?thesis using L unfolding path_holds_def
    by (intro exI [of _ ?c] exI [of _ w']) auto
qed

section \<open>Initialisation\<close>

lemma init_tree_lookup:
  "t \<in> tree_tags n \<Longrightarrow> fold init_level [0..<n + 1] Map.empty t = Some []"
  using init_tree_map [of "n + 1" t] by (auto simp: tree_tags_def)

lemma Path_InitOram_ready:
  assumes c: "po_leafs c = 2 ^ po_tree_level c" "po_tree_level c < 32" "po_position c = Map.empty"
      "po_stash c = []" "length (oc_hash c) = 32"
    and w: "w_srv w = Some s" "storages s (oc_id c) = None" "oc_id c < kMaximumOramStorageNum"
  shows "\<exists>w'. Path_InitOram (c, w) = (OK, c, w') \<and> w_host w' = w_host w
    \<and> (\<forall>k h. keyed k h \<longrightarrow> path_fresh L k (c, w'\<lparr>w_host := h\<rparr>))"
proof -
  have "(2 :: nat) ^ po_tree_level c < 2 ^ 32" using c(2) by (intro power_strict_increasing) simp_all
  then have u: "unat (of_nat (po_leafs c) :: u32) = 2 ^ po_tree_level c"
    unfolding c(1) by (intro unat_of_nat_u32) simp
  let ?st = "\<lparr>st_id = oc_id c, st_capacity = 2 ^ po_tree_level c, st_type = kTreeStorage,
      st_block_size = 560, st_instance_hash = oc_hash c,
      tree_map = fold init_level [0..<po_tree_level c + 1] Map.empty, tree_level = po_tree_level c,
      tree_bucket_size = unat (ucast (po_bucket_size c) :: u32)\<rparr>"
  let ?s = "put_storage (assemble_header c) (Tree ?st) s"
  let ?w = "(logged (Call_InitTree (assemble_header c) (ucast (po_bucket_size c)) (of_nat (po_leafs c))
      (of_nat ORAM_BLOCK_SIZE)) w)\<lparr>w_srv := Some ?s\<rparr>"
  have "TreeOramServerStorage (oc_id c) (2 ^ po_tree_level c) 560
      (unat (ucast (po_bucket_size c) :: u32)) (oc_hash c)
      = Inr ?st"
    using ceil_LOG_BASE2_pow [of "po_tree_level c"] by (simp add: TreeOramServerStorage_def Let_def)
  then have "InitTreeOram (assemble_header c) (ucast (po_bucket_size c)) (of_nat (po_leafs c))
      (of_nat ORAM_BLOCK_SIZE) s = Inr ((grpc_ok, ()), ?s)"
    using u w(2,3) by (simp add: InitTreeOram_def CheckInitRequest_def assemble_header_def Let_def
        ORAM_BLOCK_SIZE_def not_le)
  then have "Path_InitOram (c, w) = (OK, c, ?w)"
    using w(1) c(5) by (simp add: Path_InitOram_def rpc_ok small_requests)
  moreover have "path_fresh L k (c, ?w\<lparr>w_host := h\<rparr>)" if "keyed k h" for k h
    using c that init_tree_lookup [of _ "po_tree_level c"]
    by (simp add: path_fresh_def path_server_def put_storage_def assemble_header_def)
  ultimately show ?thesis by (intro exI [of _ ?w]) auto
qed

lemma Path_InitOram_fresh:
  assumes "po_leafs c = 2 ^ po_tree_level c" "po_tree_level c < 32" "po_position c = Map.empty" "po_stash c = []"
      "length (oc_hash c) = 32"
    and "w_srv w = Some s" "storages s (oc_id c) = None" "oc_id c < kMaximumOramStorageNum" "keyed k (w_host w)"
  shows "\<exists>w'. Path_InitOram (c, w) = (OK, c, w') \<and> path_fresh L k (c, w')"
proof -
  from Path_InitOram_ready [OF assms(1-8), of L] obtain w' where
    w': "Path_InitOram (c, w) = (OK, c, w')" "w_host w' = w_host w"
      "\<forall>k h. keyed k h \<longrightarrow> path_fresh L k (c, w'\<lparr>w_host := h\<rparr>)" by blast
  have "w'\<lparr>w_host := w_host w\<rparr> = w'" using w'(2) by (cases w') simp
  with w'(1,3) assms(9) show ?thesis by metis
qed

section \<open>From the constructor on\<close>

lemma PathOramController_starts:
  assumes L: "sodium_ok L" and k: "singleton h = Some cr" and n: "block_num \<noteq> 0" "bucket_size \<noteq> 0"
  shows "\<exists>c h'. PathOramController L memory i block_num bucket_size standalone h = Inr (c, h')
    \<and> singleton h' = Some cr \<and> draws h' = draws h + 1 \<and> oc_type c = kPathOram \<and> oc_id c = i \<and> oc_standalone c = standalone \<and> \<not> oc_initialized c
    \<and> po_tree_level c + 1 = ceil_LOG_BASE2 ((unat block_num + unat bucket_size - 1) div unat bucket_size + 1)
    \<and> po_leafs c = 2 ^ po_tree_level c \<and> po_tree_level c < 32
    \<and> po_bucket_size c = ucast bucket_size \<and> po_position c = Map.empty \<and> po_stash c = []
    \<and> length (oc_hash c) = 32"
proof -
  let ?n = "(unat block_num + unat bucket_size - 1) div unat bucket_size"
  have pos: "0 < unat bucket_size" "0 < unat block_num" using n by (simp_all add: unat_gt_0)
  have le: "1 \<le> ?n" using pos by (simp add: div_greater_zero_iff Suc_le_eq)
  have "?n \<le> unat block_num"
  proof -
    have "unat block_num + unat bucket_size - 1 < Suc (unat block_num) * unat bucket_size"
      using pos by (cases "unat bucket_size") (auto simp: algebra_simps)
    then have "?n < Suc (unat block_num)" by (simp add: less_mult_imp_div_less)
    then show ?thesis by simp
  qed
  then have "?n + 1 \<le> 2 ^ 32" using unat_u32_less [of block_num] by simp
  then have up: "ceil_LOG_BASE2 (?n + 1) \<le> 32" by (rule ceil_LOG_BASE2_32)
  have low: "1 \<le> ceil_LOG_BASE2 (?n + 1)" using le by (intro ceil_LOG_BASE2_pos) simp
  obtain c0 where c0: "OramController L memory i standalone (unat block_num) kPathOram h
      = Inr (c0, h\<lparr>draws := draws h + 1\<rparr>)" "oc_id c0 = i" "oc_standalone c0 = standalone"
      "\<not> oc_initialized c0" "oc_type c0 = kPathOram" "length (oc_hash c0) = 32"
    using k L by (auto simp: OramController_def GetInstance_def RandomBytes_def sodium_ok_def)
  show ?thesis using c0 n k up low
    by (simp add: PathOramController_def Let_def POW2_def oram_controller.defs path_oram.defs)
qed

lemma PathOramController_shape:
  assumes L: "sodium_ok L" and k: "keyed k h" and n: "block_num \<noteq> 0" "bucket_size \<noteq> 0"
  shows "\<exists>c h'. PathOramController L memory i block_num bucket_size standalone h = Inr (c, h')
    \<and> keyed k h' \<and> oc_id c = i \<and> oc_standalone c = standalone \<and> \<not> oc_initialized c
    \<and> po_tree_level c + 1 = ceil_LOG_BASE2 ((unat block_num + unat bucket_size - 1) div unat bucket_size + 1)
    \<and> po_leafs c = 2 ^ po_tree_level c \<and> po_tree_level c < 32
    \<and> po_bucket_size c = ucast bucket_size \<and> po_position c = Map.empty \<and> po_stash c = []
    \<and> length (oc_hash c) = 32"
  using PathOramController_starts [OF L _ n] k unfolding keyed_def by blast

lemma tree_capacity_enough:
  assumes "po_tree_level c + 1 = ceil_LOG_BASE2 ((unat block_num + unat bucket_size - 1) div unat bucket_size + 1)"
    and "po_bucket_size c = ucast (bucket_size :: u32)" and "bucket_size < 256" "bucket_size \<noteq> 0"
  shows "unat block_num \<le> tree_capacity c"
proof -
  let ?b = "unat bucket_size" and ?n = "(unat block_num + unat bucket_size - 1) div unat bucket_size"
  have b: "0 < ?b" "?b < 256" using assms(3,4) by (simp_all add: unat_gt_0 word_less_nat_alt)
  have "unat (ucast bucket_size :: u8) = ?b"
    using b(2) by (simp add: unsigned_ucast_eq take_bit_eq_mod)
  then have cap: "tree_capacity c = ?b * (2 ^ (po_tree_level c + 1) - 1)"
    using assms(2) by (simp add: tree_capacity_def)
  have "?n + 1 \<le> 2 ^ (po_tree_level c + 1)" unfolding assms(1) by (rule ceil_LOG_BASE2_ge)
  then have "?n \<le> 2 ^ (po_tree_level c + 1) - 1" by linarith
  then have "?b * ?n \<le> tree_capacity c" unfolding cap by (rule mult_le_mono2)
  moreover have "unat block_num \<le> ?b * ?n"
  proof -
    let ?m = "unat block_num + ?b - 1"
    have "?m = ?b * (?m div ?b) + ?m mod ?b" by simp
    moreover have "?m mod ?b < ?b" using b(1) by simp
    ultimately show ?thesis using b(1) by linarith
  qed
  ultimately show ?thesis by linarith
qed

lemma path_oram_set_up:
  assumes L: "sodium_ok L" "lz4_ok L" "random_live L" "pads_ok L k"
    and h: "keyed k h" and n: "block_num \<noteq> 0" "bucket_size \<noteq> 0"
    and s: "storages s i = None" "i < kMaximumOramStorageNum"
    and ds: "list_all (storable L k) ds" "distinct (normal_ids ds)"
  shows "\<exists>c h0 w1 c2 w2. PathOramController L memory i block_num bucket_size standalone h = Inr (c, h0)
    \<and> Path_InitOram (c, \<lparr>w_host = h0, w_srv = Some s, w_log = []\<rparr>) = (OK, c, w1)
    \<and> Path_FillWithData L ds (c, w1) = Inr (OK, c2, w2)
    \<and> path_holds L k (c2, w2) (blocks_map (take (tree_capacity c) ds)) \<and> oc_standalone c2 = standalone
    \<and> (bucket_size < 256 \<longrightarrow> unat block_num \<le> tree_capacity c)"
proof -
  from PathOramController_shape [OF L(1) h n, of memory i standalone] obtain c h0 where
    c: "PathOramController L memory i block_num bucket_size standalone h = Inr (c, h0)" "keyed k h0"
      "oc_id c = i" "oc_standalone c = standalone"
      "po_tree_level c + 1 = ceil_LOG_BASE2 ((unat block_num + unat bucket_size - 1) div unat bucket_size + 1)"
      "po_leafs c = 2 ^ po_tree_level c" "po_tree_level c < 32" "po_bucket_size c = ucast bucket_size"
      "po_position c = Map.empty" "po_stash c = []" "length (oc_hash c) = 32" by blast
  let ?w = "\<lparr>w_host = h0, w_srv = Some s, w_log = []\<rparr>"
  from Path_InitOram_fresh [OF c(6,7,9-11), of ?w s k] c(2,3) s obtain w1 where
    w1: "Path_InitOram (c, ?w) = (OK, c, w1)" "path_fresh L k (c, w1)" by auto
  from Path_FillWithData_holds [OF L w1(2) ds] tree_capacity_enough [OF c(5,8) _ n(2)] c(1,4) w1(1)
  show ?thesis by blast
qed

text \<open>With room for all blocks, the filled ORAM serves the memory they stand for.\<close>

lemma path_memory_set_up:
  assumes "sodium_ok L" "lz4_ok L" "random_live L" "pads_ok L k"
    and "keyed k h" and "block_num \<noteq> 0" "bucket_size \<noteq> 0" "bucket_size < 256"
    and "storages s i = None" "i < kMaximumOramStorageNum"
    and "list_all (storable L k) ds" "distinct (normal_ids ds)" "length ds \<le> unat block_num"
  shows "\<exists>c h0 w1 c2 w2. PathOramController L memory i block_num bucket_size True h = Inr (c, h0)
    \<and> Path_InitOram (c, \<lparr>w_host = h0, w_srv = Some s, w_log = []\<rparr>) = (OK, c, w1)
    \<and> Path_FillWithData L ds (c, w1) = Inr (OK, c2, w2) \<and> path_serves L k (c2, w2) (blocks_map ds)"
proof -
  from path_oram_set_up [OF assms(1-7,9-12), of memory True] assms(8) obtain c h0 w1 c2 w2 where
    "PathOramController L memory i block_num bucket_size True h = Inr (c, h0)"
      "Path_InitOram (c, \<lparr>w_host = h0, w_srv = Some s, w_log = []\<rparr>) = (OK, c, w1)"
      "Path_FillWithData L ds (c, w1) = Inr (OK, c2, w2)"
      "path_holds L k (c2, w2) (blocks_map (take (tree_capacity c) ds))" "oc_standalone c2"
      "unat block_num \<le> tree_capacity c" by blast
  with assms(13) show ?thesis by (auto simp: path_serves_def)
qed

end
