(* ===== verification/Oram_Instance.thy ===== *)
theory Oram_Instance
  imports Path_Fill
begin

text \<open>
  A concrete instance of the external functions that behaves as documented, and concrete
  states and blocks: the inputs of the witnesses.
\<close>

definition toy_libs :: libs where
  "toy_libs = \<lparr>sodium_init_ok = True,
     randombytes_random = (\<lambda>n. of_nat (n mod 8)),
     randombytes_buf = (\<lambda>n k. replicate k (of_nat n)),
     aes_is_available = True,
     aes_encrypt = (\<lambda>k nonce m. Some (m @ replicate 16 0)),
     aes_decrypt = (\<lambda>k nonce c. Some (take (length c - 16) c)),
     hash_sha256 = (\<lambda>m. Some (replicate 32 0)),
     kx_keypair = (\<lambda>n. Some (replicate 32 (of_nat n), replicate 32 (of_nat n))),
     kx_client_session_keys = (\<lambda>pk sk peer. Some (peer, pk)),
     kx_server_session_keys = (\<lambda>pk sk peer. Some (peer, pk)),
     ff3_encrypt = (\<lambda>k s. rev s),
     lz4_compress = (\<lambda>d. d),
     lz4_decompress = (\<lambda>d n. (int (length d), d))\<rparr>"

lemma toy_sodium_ok [simp]: "sodium_ok toy_libs"
  by (simp add: sodium_ok_def toy_libs_def)

lemma toy_random_live [simp]: "random_live toy_libs"
  unfolding random_live_def
proof
  fix n
  have "unat (randombytes_random toy_libs (8 * n)) < 2 ^ 31" by (simp add: toy_libs_def)
  then show "\<exists>k\<ge>n. unat (randombytes_random toy_libs k) < 2 ^ 31"
    by (intro exI [of _ "8 * n"]) simp
qed

lemma toy_ff3_ok [simp]: "ff3_ok toy_libs"
  by (simp add: ff3_ok_def toy_libs_def)

lemma toy_lz4_ok [simp]: "lz4_ok toy_libs"
  by (simp add: lz4_ok_def toy_libs_def)

lemma toy_dense_block: "wf_block b \<Longrightarrow> dense_block toy_libs k b"
  unfolding dense_block_def
proof (intro allI impI, elim conjE)
  fix h b' h'
  assume b: "wf_block b" and k: "keyed k h" and e: "EncryptBlock toy_libs b h = Inr ((OK, b'), h')"
  from EncryptBlock_seals [OF toy_sodium_ok b k] e have "sealed toy_libs k b' b" by auto
  then show "bulky toy_libs b'" by (simp add: bulky_def toy_libs_def sealed_length)
qed

lemma toy_storable [simp]: "storable toy_libs k b = wf_block b"
  by (auto simp: storable_def dense_data_def toy_dense_block)

lemma toy_pads_ok [simp]: "pads_ok toy_libs k"
proof -
  have "le_word [b, b, b, b] \<noteq> (1 :: u32)" for b :: u8
  proof
    assume "le_word [b, b, b, b] = (1 :: u32)"
    also have "\<dots> = le_word [1, 0, 0, 0]" by simp
    finally have "le_bytes 4 (le_word [b, b, b, b] :: u32) = le_bytes 4 (le_word [1, 0, 0, 0] :: u32)"
      by simp
    then show False by (subst (asm) (1 2) le_bytes_le_word) auto
  qed
  moreover have "replicate 4 b = [b, b, b, b]" for b :: u8 by (simp add: numeral_eq_Suc)
  ultimately have "\<not> is_normal (bytes_block (randombytes_buf toy_libs n 560))" for n
    by (simp add: is_normal_def toy_libs_def bytes_block_def bytes_header_def BlockType_kNormal_def)
  moreover have "length (randombytes_buf toy_libs n 560) = 560" for n by (simp add: toy_libs_def)
  ultimately show ?thesis by (simp add: pads_ok_def ORAM_BLOCK_SIZE_def toy_dense_block)
qed

text \<open>The same with a cipher whose tag is 16 ones.\<close>

definition strict_libs :: libs where
  "strict_libs = toy_libs\<lparr>aes_encrypt := (\<lambda>k nonce m. Some (m @ replicate 16 1)),
     aes_decrypt := (\<lambda>k nonce c. if drop (length c - 16) c = replicate 16 1
       then Some (take (length c - 16) c) else None)\<rparr>"

lemma strict_sodium_ok [simp]: "sodium_ok strict_libs"
  by (simp add: sodium_ok_def strict_libs_def toy_libs_def)

text \<open>
  A compressor that does compress: a block whose data end with 460 zeros shrinks to 101 bytes, and
  the server could not expand it any more.
\<close>

definition zip_libs :: libs where
  "zip_libs = toy_libs\<lparr>randombytes_buf := (\<lambda>n k. replicate k 1),
     lz4_compress := (\<lambda>d. if length d = 560 \<and> drop 100 d = replicate 460 0 then take 100 d @ [1] else d @ [0]),
     lz4_decompress := (\<lambda>c n. let d = (if last c = 1 then butlast c @ replicate 460 0 else butlast c) in (int (length d), d))\<rparr>"

lemma zip_randombytes [simp]: "randombytes_buf zip_libs n k = replicate k 1"
  by (simp add: zip_libs_def)

lemma zip_sodium_ok [simp]: "sodium_ok zip_libs"
  by (simp add: sodium_ok_def zip_libs_def toy_libs_def)

lemma zip_random_live [simp]: "random_live zip_libs"
  using toy_random_live by (simp add: random_live_def zip_libs_def)

lemma zip_lz4_ok [simp]: "lz4_ok zip_libs"
proof -
  have "take 100 d @ replicate 460 0 = d" if "drop 100 d = replicate 460 (0 :: u8)" for d
    using that append_take_drop_id [of 100 d] by simp
  then show ?thesis by (simp add: lz4_ok_def zip_libs_def Let_def)
qed

text \<open>The cipher leaves the data as they are.\<close>

lemma zip_sealed:
  assumes "sealed zip_libs k b' b"
  shows "bulky zip_libs b' \<longleftrightarrow> drop 52 (data b) \<noteq> replicate 460 0"
proof -
  from assms have wf: "wf_block b'" "wf_block b" and d: "drop 508 (data b') = drop 508 (data b)"
    and e: "enc_region b' = enc_region b"
    by (auto simp: sealed_def zip_libs_def toy_libs_def wf_block_def)
  have "drop 16 (enc_region c) = take 508 (data c)" if "wf_block c" for c
    using that block_bytes_split(2) [OF that] by (simp add: wf_block_def)
  with wf e have "take 508 (data b') = take 508 (data b)" by metis
  with d have data: "data b' = data b" by (metis append_take_drop_id)
  have "drop 100 (block_bytes b') = drop 52 (drop 48 (block_bytes b'))" by simp
  also have "drop 48 (block_bytes b') = data b'"
    using block_bytes_split(1,2) [OF wf(1)] wf(1) by (simp add: wf_block_def)
  finally have "drop 100 (block_bytes b') = drop 52 (data b)" by (simp only: data)
  then show ?thesis using wf(1) by (simp add: bulky_def zip_libs_def)
qed

lemma zip_dense:
  assumes "wf_block b" "drop 52 (data b) \<noteq> replicate 460 0"
  shows "dense_block zip_libs k b"
  unfolding dense_block_def
proof (intro allI impI, elim conjE)
  fix h b' h'
  assume k: "keyed k h" and e: "EncryptBlock zip_libs b h = Inr ((OK, b'), h')"
  from EncryptBlock_seals [OF zip_sodium_ok assms(1) k] e have "sealed zip_libs k b' b" by auto
  with assms(2) zip_sealed show "bulky zip_libs b'" by blast
qed

lemma zip_storable: "wf_block b \<Longrightarrow> drop 52 (data b) \<noteq> replicate 460 0 \<Longrightarrow> storable zip_libs k b"
  by (auto simp: storable_def dense_data_def zip_dense)

lemma zip_pads_ok [simp]: "pads_ok zip_libs k"
proof -
  have "btype (header (bytes_block (replicate 560 1))) = le_word [1, 1, 1, 1]"
    by (simp add: bytes_block_def bytes_header_def numeral_eq_Suc)
  then have "\<not> is_normal (bytes_block (replicate 560 1))" by (simp add: is_normal_def BlockType_kNormal_def)
  moreover have "drop 52 (data (bytes_block (replicate 560 1))) \<noteq> replicate 460 0"
    by (simp add: bytes_block_def numeral_eq_Suc)
  ultimately show ?thesis by (simp add: pads_ok_def zip_dense ORAM_BLOCK_SIZE_def)
qed

definition toy_cryptor :: cryptor where
  "toy_cryptor = \<lparr>session_key_rx = replicate 32 7, session_key_tx = replicate 32 8,
     random_val = replicate 12 0, public_key = replicate 32 1, secret_key = replicate 32 2,
     is_initialized = True, is_setup = True\<rparr>"

definition toy_host :: host where
  "toy_host = \<lparr>draws = 0, singleton = Some toy_cryptor\<rparr>"

lemma toy_keyed [simp]: "keyed (replicate 32 7) toy_host"
  by (simp add: keyed_def toy_host_def toy_cryptor_def)

definition toy_block :: "u32 \<Rightarrow> u32 \<Rightarrow> u8 \<Rightarrow> oram_block" where
  "toy_block i t d = \<lparr>header = \<lparr>iv = replicate 12 0, mac_tag = replicate 16 0, block_id = i,
      btype = t, pad = replicate 4 0, data_len = 512\<rparr>, data = replicate 512 d\<rparr>"

lemma toy_wf_block [simp]: "wf_block (toy_block i t d)"
  by (simp add: wf_block_def toy_block_def)

lemma toy_block_fields [simp]:
  "block_id (header (toy_block i t d)) = i" "btype (header (toy_block i t d)) = t"
  "data (toy_block i t d) = replicate 512 d"
  by (simp_all add: toy_block_def)

lemma toy_is_normal [simp]: "is_normal (toy_block i t d) \<longleftrightarrow> t = 1"
  by (simp add: is_normal_def BlockType_kNormal_def)

text \<open>Not every block can be stored with a compressor.\<close>

lemma zip_not_storable: "\<not> storable zip_libs (replicate 32 7) (toy_block 5 1 0)"
proof
  assume "storable zip_libs (replicate 32 7) (toy_block 5 1 0)"
  then have "dense_block zip_libs (replicate 32 7) (toy_block 5 1 0)"
    using dense_dataD by (auto simp: storable_def BlockType_kNormal_def)
  with EncryptBlock_seals [OF zip_sodium_ok toy_wf_block toy_keyed, of 5 1 0] obtain b' where
    "sealed zip_libs (replicate 32 7) b' (toy_block 5 1 0)" "bulky zip_libs b'"
    unfolding dense_block_def using toy_keyed by blast
  with zip_sealed show False by auto
qed

text \<open>A server with no storage yet.\<close>

definition toy_server :: server where
  "toy_server = \<lparr>storages = Map.empty, server_host = toy_host, cryptor_set = True,
     server_running = True\<rparr>"

lemma toy_server_free [simp]: "storages toy_server i = None"
  by (simp add: toy_server_def)

lemma toy_id_ok [simp]: "(1 :: u32) < kMaximumOramStorageNum"
  by (simp add: kMaximumOramStorageNum_def)

lemma toy_kx_ok [simp]: "kx_ok toy_libs"
  by (auto simp: kx_ok_def toy_libs_def)

text \<open>A cipher that writes its key into the ciphertext.\<close>

definition keyed_libs :: libs where
  "keyed_libs = toy_libs\<lparr>aes_encrypt := (\<lambda>k nonce m. Some (m @ take 16 (k @ replicate 16 0))),
     aes_decrypt := (\<lambda>k nonce c. if drop (length c - 16) c = take 16 (k @ replicate 16 0)
       then Some (take (length c - 16) c) else None)\<rparr>"

lemma keyed_sodium_ok [simp]: "sodium_ok keyed_libs"
proof -
  have "length (take 16 (k @ replicate 16 0)) = 16" for k :: bytes by (simp add: min_def)
  then show ?thesis by (simp add: sodium_ok_def keyed_libs_def toy_libs_def min_def)
qed

lemma keyed_kx_ok [simp]: "kx_ok keyed_libs"
  by (auto simp: kx_ok_def keyed_libs_def toy_libs_def)

definition toy_flat :: flat_storage where
  "toy_flat = FlatOramServerStorage 1 4 560 (replicate 32 9)"

definition toy_tree :: tree_storage where
  "toy_tree = projr (TreeOramServerStorage 2 3 560 2 (replicate 32 9))"

definition busy_server :: server where
  "busy_server = toy_server\<lparr>storages := [1 \<mapsto> Flat toy_flat, 2 \<mapsto> Tree toy_tree]\<rparr>"

definition toy_header :: "u32 \<Rightarrow> u8 \<Rightarrow> request_header" where
  "toy_header i d = \<lparr>hdr_id = i, hdr_instance_hash = replicate 32 d, hdr_version = GetVersion\<rparr>"

section \<open>Two blocks, and a Path ORAM that holds them\<close>

lemma toy_contents:
  "blocks_map [toy_block 5 1 10, toy_block 6 1 11] = [5 \<mapsto> replicate 512 10, 6 \<mapsto> replicate 512 11]"
  by (auto simp: fun_eq_iff blocks_map_Cons BlockEqual_def BlockType_kNormal_def)
    (simp add: blocks_map_def)

lemma toy_two_ids: "distinct (normal_ids [toy_block 5 1 10, toy_block 6 1 11])"
  by simp

lemma toy_path_oram:
  "\<exists>c w. path_holds toy_libs (replicate 32 7) (c, w)
     [5 \<mapsto> replicate 512 10, 6 \<mapsto> replicate 512 11]"
proof -
  let ?ds = "[toy_block 5 1 10, toy_block 6 1 11]"
  from path_oram_set_up [of toy_libs "replicate 32 7" toy_host 2 1 toy_server 1 ?ds toy_cryptor True]
  obtain c c2 w2 where h: "path_holds toy_libs (replicate 32 7) (c2, w2)
      (blocks_map (take (tree_capacity c) ?ds))" "2 \<le> tree_capacity c"
    using toy_two_ids by (auto simp: toy_server_def kMaximumOramStorageNum_def)
  then have "take (tree_capacity c) ?ds = ?ds" by simp
  then have "blocks_map (take (tree_capacity c) ?ds) = [5 \<mapsto> replicate 512 10, 6 \<mapsto> replicate 512 11]"
    by (simp only: toy_contents)
  with h(1) have "path_holds toy_libs (replicate 32 7) (c2, w2)
      [5 \<mapsto> replicate 512 10, 6 \<mapsto> replicate 512 11]" by (simp only:)
  then show ?thesis by blast
qed

end
