(* ===== verification/Uniform_Sampling.thy ===== *)
theory Uniform_Sampling
  imports Oram_Crypto
begin

text \<open>
  What rejection sampling gives: the loop of \<open>UniformRandom\<close> accepts the same number of the
  generator's values for every result, and the shuffle built on it returns.
\<close>

section \<open>Uniform sampling\<close>

lemma draw_until_result:
  assumes "draw_until L m n = Some y"
  shows "fst y \<le> m \<and> n < snd y \<and> fst y = randombytes_random L (snd y - 1)"
  by (rule draw_until.raw_induct [of "\<lambda>L m n y. fst y \<le> m \<and> n < snd y
        \<and> fst y = randombytes_random L (snd y - 1)", OF _ assms])
    (force split: if_splits)

lemma card_residue:
  assumes "d < r" shows "card {v :: nat. v < q * r \<and> v mod r = d} = q"
proof -
  have "{v. v < q * r \<and> v mod r = d} = (\<lambda>k. k * r + d) ` {..<q}"
  proof (intro set_eqI iffI)
    fix v assume v: "v \<in> {v. v < q * r \<and> v mod r = d}"
    then have "v div r < q" by (simp add: less_mult_imp_div_less)
    moreover have "v = (v div r) * r + d" using v by (metis (mono_tags, lifting) div_mult_mod_eq mem_Collect_eq)
    ultimately show "v \<in> (\<lambda>k. k * r + d) ` {..<q}" by blast
  next
    fix v assume "v \<in> (\<lambda>k. k * r + d) ` {..<q}"
    then obtain k where k: "k < q" "v = k * r + d" by auto
    have "k * r + d < (k + 1) * r" using assms by simp
    also have "\<dots> \<le> q * r" using k(1) by (intro mult_le_mono1) simp
    finally show "v \<in> {v. v < q * r \<and> v mod r = d}" using assms k(2) by simp
  qed
  moreover have "inj_on (\<lambda>k. k * r + d) {..<q}" using assms by (auto simp: inj_on_def)
  ultimately show ?thesis by (simp add: card_image)
qed

lemma card_u32: "card {w :: u32. P (unat w)} = card {v. v < 2 ^ 32 \<and> P v}"
proof -
  have "{v. v < 2 ^ 32 \<and> P v} = unat ` {w :: u32. P (unat w)}"
  proof (intro set_eqI iffI)
    fix v :: nat assume "v \<in> {v. v < 2 ^ 32 \<and> P v}"
    then have "unat (of_nat v :: u32) = v" "P v" by (simp_all add: unat_of_nat_u32)
    then show "v \<in> unat ` {w :: u32. P (unat w)}" by (metis (mono_tags) image_eqI mem_Collect_eq)
  next
    fix v assume "v \<in> unat ` {w :: u32. P (unat w)}"
    then show "v \<in> {v. v < 2 ^ 32 \<and> P v}" using unat_u32_less by auto
  qed
  moreover have "inj_on unat {w :: u32. P (unat w)}" by (simp add: inj_on_def word_unat_eq_iff)
  ultimately show ?thesis by (simp add: card_image)
qed

text \<open>A generator whose every call returns \<open>v\<close>.\<close>

definition always :: "libs \<Rightarrow> u32 \<Rightarrow> libs" where
  "always L v = L\<lparr>randombytes_random := (\<lambda>_. v)\<rparr>"

lemma UniformRandom_always:
  assumes "lo \<le> hi" "hi - lo + 1 \<noteq> 0"
  shows "UniformRandom (always L v) lo hi h
    = (if v \<le> max_acceptable (hi - lo + 1)
       then Inr ((OK, Some (v mod (hi - lo + 1) + lo)), h\<lparr>draws := draws h + 1\<rparr>)
       else Inl Never_Returns)"
proof -
  have "draw_until (always L v) (max_acceptable (hi - lo + 1)) (draws h) = None"
    if "\<not> v \<le> max_acceptable (hi - lo + 1)"
    using draw_until_result [of "always L v" "max_acceptable (hi - lo + 1)" "draws h"] that
    by (cases "draw_until (always L v) (max_acceptable (hi - lo + 1)) (draws h)")
      (auto simp: always_def)
  moreover have "draw_until (always L v) m n = Some (v, n + 1)" if "v \<le> m" for m n
    using that by (subst draw_until.simps) (simp add: always_def)
  ultimately show ?thesis using assms by (simp add: UniformRandom_def Let_def not_less)
qed

lemma UniformRandom_count:
  assumes le: "lo \<le> hi" and nfull: "hi - lo + 1 \<noteq> 0" and x: "lo \<le> x" "x \<le> hi"
  shows "card {v. UniformRandom (always L v) lo hi h = Inr ((OK, Some x), h\<lparr>draws := draws h + 1\<rparr>)}
    = 0xFFFFFFFF div unat (hi - lo + 1)"
proof -
  let ?r = "hi - lo + 1"
  let ?q = "0xFFFFFFFF div unat ?r"
  have ur: "unat ?r = unat hi - unat lo + 1"
  proof -
    have "unat (hi - lo) = unat hi - unat lo" using le by (simp add: unat_sub)
    then show ?thesis using nfull by (simp add: unatSuc add.commute)
  qed
  have d: "unat x - unat lo < unat ?r" using x ur by (simp add: word_le_nat_alt)
  have q: "?q * unat ?r \<le> 0xFFFFFFFF" by (simp add: div_times_less_eq_dividend)
  have "UniformRandom (always L v) lo hi h = Inr ((OK, Some x), h\<lparr>draws := draws h + 1\<rparr>)
      \<longleftrightarrow> unat v < ?q * unat ?r \<and> unat v mod unat ?r = unat x - unat lo" for v
  proof -
    have "v \<le> max_acceptable ?r \<longleftrightarrow> unat v < ?q * unat ?r"
      using unat_max_acceptable(1) [OF nfull] by (simp add: word_le_nat_alt) linarith
    moreover have "v mod ?r + lo = x \<longleftrightarrow> unat v mod unat ?r = unat x - unat lo"
      using mod_range_bounds(3) [OF le nfull, of v] ur x
      by (metis add_diff_cancel_right' le_add_diff_inverse2 word_le_nat_alt word_unat_eq_iff)
    ultimately show ?thesis using UniformRandom_always [OF le nfull, of L v h] by auto
  qed
  then have "{v. UniformRandom (always L v) lo hi h = Inr ((OK, Some x), h\<lparr>draws := draws h + 1\<rparr>)}
      = {v :: u32. unat v < ?q * unat ?r \<and> unat v mod unat ?r = unat x - unat lo}" by simp
  then have "card {v. UniformRandom (always L v) lo hi h = Inr ((OK, Some x), h\<lparr>draws := draws h + 1\<rparr>)}
      = card {v. v < 2 ^ 32 \<and> v < ?q * unat ?r \<and> v mod unat ?r = unat x - unat lo}"
    using card_u32 [of "\<lambda>v. v < ?q * unat ?r \<and> v mod unat ?r = unat x - unat lo"] by simp
  also have "{v. v < 2 ^ 32 \<and> v < ?q * unat ?r \<and> v mod unat ?r = unat x - unat lo}
      = {v. v < ?q * unat ?r \<and> v mod unat ?r = unat x - unat lo}"
    using le_less_trans [OF q, of "2 ^ 32"] by (auto intro: less_trans)
  also have "card \<dots> = ?q" using d by (rule card_residue)
  finally show ?thesis .
qed

lemma shuffle_from_returns:
  assumes live: "random_live L"
  shows "i < length arr \<Longrightarrow> length arr < 2 ^ 32 \<Longrightarrow>
    \<exists>arr' h'. shuffle_from L i arr h = Inr ((OK, arr'), h')"
proof (induction i arbitrary: arr h)
  case (Suc i)
  let ?n = "of_nat (Suc i) :: u32"
  have n: "unat ?n = Suc i" using Suc.prems by (intro unat_of_nat_u32) simp
  have "?n - 0 + 1 \<noteq> 0"
  proof
    assume "?n - 0 + 1 = 0"
    then have "?n = - 1" by (simp only: diff_0_right eq_neg_iff_add_eq_0)
    then have "Suc i = unat (- 1 :: u32)" using n by (simp only:)
    then show False using Suc.prems by (simp add: unsigned_minus_1_eq_mask mask_eq_exp_minus_1)
  qed
  from UniformRandom_returns [OF live _ this, of h] obtain v h' where
    v: "UniformRandom L 0 ?n h = Inr ((OK, Some v), h')" by auto
  with Suc.IH [of "swap_at arr (Suc i) (unat v)" h'] Suc.prems show ?case by simp
qed simp

end
