(* ===== verification/Base_Properties.thy ===== *)
theory Base_Properties
  imports Oram_Instance Uniform_Sampling
begin

text \<open>
  The properties of the base library: encryption of blocks, memory images, sampling and
  permuting, statuses and names. Each is followed by a witness that applies it to a concrete
  input.
\<close>

section \<open>Blocks\<close>

text \<open>
  C25. Decrypting what \<open>EncryptBlock\<close> made gives back the block, up to the nonce and the tag it
  stored in the header, with status OK; the identifier is in the clear in between.
\<close>

theorem encrypt_decrypt:
  assumes "sodium_ok L" and "wf_block b" and "keyed k h"
  shows "\<exists>b' h'. EncryptBlock L b h = Inr ((OK, b'), h')
    \<and> block_id (header b') = block_id (header b)
    \<and> (\<exists>b''. DecryptBlock L b' h' = Inr (OK, b'') \<and> payload b'' = payload b \<and> wf_block b'')"
proof -
  from EncryptBlock_seals [OF assms] obtain b' where
    b': "EncryptBlock L b h = Inr ((OK, b'), h\<lparr>draws := draws h + 1\<rparr>)" "sealed L k b' b" by blast
  from DecryptBlock_sealed [OF assms(1) b'(2), of "h\<lparr>draws := draws h + 1\<rparr>"] assms(3) b'
  show ?thesis by (auto simp: sealed_def)
qed

theorem encrypt_decrypt_witness:
  "\<exists>b' h'. EncryptBlock toy_libs (toy_block 5 1 10) toy_host = Inr ((OK, b'), h')
    \<and> block_id (header b') = 5
    \<and> (\<exists>b''. DecryptBlock toy_libs b' h' = Inr (OK, b'') \<and> payload b'' = payload (toy_block 5 1 10)
         \<and> wf_block b'')"
  using encrypt_decrypt [of toy_libs "toy_block 5 1 10" "replicate 32 7" toy_host] by simp

text \<open>
  C40. The encrypted region starts after the identifier and ends 4 bytes before the end of the
  block: the identifier and the last 4 bytes of the data leave the client as they are.
\<close>

theorem encrypt_leaves_tail:
  assumes "sodium_ok L" and "wf_block b" and "keyed k h"
    and "EncryptBlock L b h = Inr ((s, b'), h')"
  shows "block_id (header b') = block_id (header b) \<and> drop 508 (data b') = drop 508 (data b)"
  using EncryptBlock_seals [OF assms(1-3)] assms(4) by (auto simp: sealed_def)

theorem encrypt_leaves_tail_witness:
  "\<exists>b' h'. EncryptBlock toy_libs (toy_block 5 1 10) toy_host = Inr ((OK, b'), h')
    \<and> block_id (header b') = 5 \<and> drop 508 (data b') = [10, 10, 10, 10]"
proof -
  from EncryptBlock_seals [of toy_libs "toy_block 5 1 10" "replicate 32 7" toy_host]
  obtain b' h' where e: "EncryptBlock toy_libs (toy_block 5 1 10) toy_host = Inr ((OK, b'), h')"
    by auto
  from encrypt_leaves_tail [OF _ _ toy_keyed e] e show ?thesis by (simp add: numeral_eq_Suc)
qed

text \<open>
  A block that fails to decrypt (a wrong tag) is left as it is, and the status names both
  the library's failure and \<open>DecryptBlock\<close>.
\<close>

lemma decrypt_failure:
  assumes "sodium_ok L" and "keyed k h" and "wf_block b"
    and "aes_decrypt L k (iv (header b)) (enc_region b @ mac_tag (header b)) = None"
  shows "\<exists>s. DecryptBlock L b h = Inr (s, b) \<and> error_code s = kUnknownError
    \<and> map error_code (nested_status s) = [kInvalidArgument]
    \<and> map location (nested_status s) = [''DecryptBlock'']"
proof -
  from assms(2) obtain c where c: "singleton h = Some c" "is_initialized c" "is_setup c"
    "session_key_rx c = k" by (auto simp: keyed_def)
  have "length (enc_region b @ mac_tag (header b)) = 540"
    using assms(3) block_bytes_split(3) [OF assms(3)] by (simp add: wf_block_def)
  then show ?thesis
    using assms(1,4) c
    by (simp add: DecryptBlock_def with_cryptor_def Cryptor_Decrypt_def CryptoPrelogue_def
        sodium_ok_def size_defs nested_status_Append) (simp add: mk_status_def)
qed

lemma decrypt_failure_witness:
  "\<exists>s. DecryptBlock strict_libs (toy_block 5 1 10) toy_host = Inr (s, toy_block 5 1 10)
    \<and> error_code s = kUnknownError"
proof -
  have "aes_decrypt strict_libs (replicate 32 7) (iv (header (toy_block 5 1 10)))
      (enc_region (toy_block 5 1 10) @ mac_tag (header (toy_block 5 1 10))) = None"
    by (simp add: strict_libs_def toy_block_def)
  from decrypt_failure [OF strict_sodium_ok toy_keyed toy_wf_block this] show ?thesis by blast
qed

text \<open>
  Blocks and their 560 bytes correspond one to one: \<open>ConvertToBlock\<close> inverts
  \<open>ConvertToString\<close> and the other way round, and rejects any other length.
\<close>

theorem block_image:
  "(wf_block b \<longrightarrow> ConvertToBlock (ConvertToString b) = Inr b)
   \<and> (length d = 560 \<longrightarrow> (\<exists>c. ConvertToBlock d = Inr c \<and> wf_block c \<and> ConvertToString c = d))
   \<and> (length d \<noteq> 560 \<longrightarrow> ConvertToBlock d = Inl Assert_Failed)"
  by (auto simp: ConvertToBlock_ConvertToString ConvertToBlock_def ConvertToString_def
      panic_if_def ORAM_BLOCK_SIZE_def)

theorem block_image_witness:
  "ConvertToBlock (ConvertToString (toy_block 5 1 10)) = Inr (toy_block 5 1 10)
   \<and> ConvertToBlock [1, 2, 3] = Inl Assert_Failed"
  using block_image [of "toy_block 5 1 10" "[1, 2, 3]"] by simp

text \<open>
  A bucket comes through the wire format unchanged.
\<close>

theorem bucket_over_the_wire:
  assumes "list_all wf_block bs"
  shows "DeserializeFromStringVector (SerializeToStringVector bs) = Inr bs"
  using assms by (rule Deserialize_Serialize)

theorem bucket_over_the_wire_witness:
  "DeserializeFromStringVector (SerializeToStringVector [toy_block 5 1 10, toy_block 6 0 11])
    = Inr [toy_block 5 1 10, toy_block 6 0 11]"
  by (rule bucket_over_the_wire) simp

section \<open>Sampling and permuting\<close>

text \<open>
  C35. \<open>UniformRandom\<close> is unbiased: for every result in the range, the same number of values of
  the generator, \<open>0xFFFFFFFF div range\<close>, makes the loop end at once with that result.
\<close>

theorem uniform_random_unbiased:
  assumes "lo \<le> hi" "hi - lo + 1 \<noteq> 0" "lo \<le> x" "x \<le> hi"
  shows "card {v. UniformRandom (always L v) lo hi h = Inr ((OK, Some x), h\<lparr>draws := draws h + 1\<rparr>)}
    = 0xFFFFFFFF div unat (hi - lo + 1)"
  using assms by (rule UniformRandom_count)

theorem uniform_random_unbiased_witness:
  "card {v. UniformRandom (always toy_libs v) 3 8 toy_host
      = Inr ((OK, Some 5), toy_host\<lparr>draws := draws toy_host + 1\<rparr>)} = 715827882"
  using uniform_random_unbiased [of 3 8 5 toy_libs toy_host] by simp

text \<open>
  C36. \<open>UniformRandom\<close> returns whenever the generator does not stay above \<open>2\<^sup>31\<close> for ever, with a
  value between the bounds; with the bounds swapped it reports an error and draws nothing; and
  the full range of 32 bits divides by zero.
\<close>

theorem uniform_random_returns:
  assumes "random_live L"
  shows "(lo \<le> hi \<and> hi - lo + 1 \<noteq> 0 \<longrightarrow>
      (\<exists>v h'. UniformRandom L lo hi h = Inr ((OK, Some v), h') \<and> lo \<le> v \<and> v \<le> hi))
    \<and> (hi < lo \<longrightarrow> (\<exists>s. UniformRandom L lo hi h = Inr ((s, None), h) \<and> error_code s = kInvalidArgument))
    \<and> UniformRandom L 0 0xFFFFFFFF h = Inl Undefined_Behaviour"
proof (intro conjI)
  show "lo \<le> hi \<and> hi - lo + 1 \<noteq> 0 \<longrightarrow>
      (\<exists>v h'. UniformRandom L lo hi h = Inr ((OK, Some v), h') \<and> lo \<le> v \<and> v \<le> hi)"
    using UniformRandom_returns [OF assms, of lo hi h] by blast
qed (auto simp: UniformRandom_def)

theorem uniform_random_returns_witness:
  "(\<exists>v h'. UniformRandom toy_libs 3 8 toy_host = Inr ((OK, Some v), h') \<and> 3 \<le> v \<and> v \<le> 8)
    \<and> UniformRandom toy_libs 0 0xFFFFFFFF toy_host = Inl Undefined_Behaviour"
  using uniform_random_returns [OF toy_random_live, of 3 8 toy_host] by simp

section \<open>Compression\<close>

text \<open>
  What \<open>DataCompress\<close> made is decompressed to the same bytes when it is at least half as
  long; a result of zero is an error, and a negative error code of LZ4 is taken for success.
\<close>

lemma compression:
  assumes "lz4_ok L" and "d \<noteq> []"
  shows "(\<exists>c. DataCompress L d = (OK, c) \<and> (length d \<le> 2 * length c \<longrightarrow> DataDecompress L c = (OK, d)))
    \<and> (\<forall>c. ok (fst (DataDecompress L c)) \<longleftrightarrow> fst (lz4_decompress L c (2 * length c)) \<noteq> 0)"
proof -
  have "DataDecompress L (lz4_compress L d) = (OK, d)" if "length d \<le> 2 * length (lz4_compress L d)"
    using that assms by (simp add: DataDecompress_def lz4_ok_def mult.commute)
  moreover have "ok (fst (DataDecompress L c)) \<longleftrightarrow> fst (lz4_decompress L c (2 * length c)) \<noteq> 0" for c
    by (simp add: DataDecompress_def mult.commute split: prod.split)
  ultimately show ?thesis using assms by (simp add: DataCompress_ok)
qed

lemma compression_witness:
  "\<exists>c. DataCompress toy_libs [1, 2, 3] = (OK, c) \<and> DataDecompress toy_libs c = (OK, [1, 2, 3])"
proof -
  from compression [OF toy_lz4_ok, of "[1, 2, 3]"] obtain c where
    c: "DataCompress toy_libs [1, 2, 3] = (OK, c)"
      "length [1, 2, 3 :: u8] \<le> 2 * length c \<longrightarrow> DataDecompress toy_libs c = (OK, [1, 2, 3])" by auto
  from c(1) have "c = [1, 2, 3]" by (simp add: DataCompress_def toy_libs_def)
  with c show ?thesis by simp
qed

section \<open>Statuses and names\<close>

text \<open>
  \<open>EmitString\<close> reports the nested causes from the last to the first and then the status
  itself; it throws exactly when one of them has a code that the table of names misses
  (\<open>kAlreadyUsed\<close>, \<open>kUnimplemented\<close>).
\<close>

lemma status_report:
  "EmitString s =
    (if (\<exists>t \<in> set (nested_status s). error_code t \<in> {kAlreadyUsed, kUnimplemented})
       \<or> error_code s \<in> {kAlreadyUsed, kUnimplemented}
     then Inl Uncaught_Exception
     else Inr ([CHR 0x0A, CHR 0x09]
       @ concat (map (\<lambda>t. projr (emit_line t) @ caused_by) (rev (nested_status s)))
       @ (if error_code s = kOK then [] else projr (emit_line s))))"
proof -
  have all: "list_all printable (rev ss) \<longleftrightarrow>
      \<not> (\<exists>t \<in> set ss. error_code t \<in> {kAlreadyUsed, kUnimplemented})" for ss
    by (auto simp: list_all_iff printable_iff)
  show ?thesis
  proof (cases "\<exists>t \<in> set (nested_status s). error_code t \<in> {kAlreadyUsed, kUnimplemented}")
    case True
    with all [of "nested_status s"] have "\<not> list_all printable (rev (nested_status s))" by simp
    from emit_nested_throws [OF this] True show ?thesis by (simp add: EmitString_def)
  next
    case False
    with all [of "nested_status s"] have "list_all printable (rev (nested_status s))" by simp
    from emit_nested_ok [OF this] False show ?thesis
      by (auto simp: EmitString_def emit_line_cases printable_iff)
  qed
qed

end
