(* ===== verification/Server_Invariant.thy ===== *)
theory Server_Invariant
  imports Server_Calls
begin

text \<open>
  The server as a state machine: a step is one remote call. The invariant of every reachable
  state, and what a call leaves alone.
\<close>

section \<open>Steps\<close>

inductive server_reachable :: "libs \<Rightarrow> server \<Rightarrow> bool" for L where
  start: "ServerRunner_Run L memory started h = Inr s \<Longrightarrow> server_reachable L s"
| step: "server_reachable L s \<Longrightarrow> serve L c s = Inr (status, s') \<Longrightarrow> server_reachable L s'"

section \<open>The invariant\<close>

fun storage_wf :: "u32 \<Rightarrow> storage \<Rightarrow> bool" where
  "storage_wf i (Flat st) \<longleftrightarrow> st_id st = i \<and> st_type st = kFlatStorage"
| "storage_wf i (Sqrt st) \<longleftrightarrow> st_id st = i \<and> st_type st = kSqrtStorage
     \<and> length (shelter st) = length (dummy st)"
| "storage_wf i (Tree st) \<longleftrightarrow> st_id st = i \<and> st_type st = kTreeStorage
     \<and> dom (tree_map st) = {(l, j). l \<le> tree_level st \<and> j < 2 ^ l}
     \<and> 0 < st_capacity st \<and> tree_level st = ceil_LOG_BASE2 (st_capacity st + 1) - 1"

definition server_wf :: "server \<Rightarrow> bool" where
  "server_wf s \<longleftrightarrow> (\<forall>i st. storages s i = Some st \<longrightarrow> storage_wf i st \<and> i < kMaximumOramStorageNum)"

lemma server_wfD: "server_wf s \<Longrightarrow> storages s i = Some st \<Longrightarrow> storage_wf i st"
  by (simp add: server_wf_def)

lemma put_storage_wf:
  "server_wf s \<Longrightarrow> storages s (hdr_id hdr) \<noteq> None \<Longrightarrow> storage_wf (hdr_id hdr) st
    \<Longrightarrow> server_wf (put_storage hdr st s)"
  by (auto simp: server_wf_def put_storage_def)

text \<open>What a call on a storage does to the state is its body's doing.\<close>

lemma on_storage_Inr:
  assumes "on_storage cast type hdr resp body s = Inr ((st, r), s')"
  shows "s' = s \<or> (\<exists>x d. storages s (hdr_id hdr) = Some x \<and> cast x = Some d \<and> st_type d = type
    \<and> st_instance_hash d = hdr_instance_hash hdr \<and> body d = Inr ((st, r), s'))"
  using assms
  by (auto simp: on_storage_def CheckIdValid_def CheckStorage_def Let_def andThen_eq_Inr
      split: if_splits option.splits)

lemma cast_simps:
  "cast_flat x = Some d \<longleftrightarrow> x = Flat d" "cast_sqrt x = Some e \<longleftrightarrow> x = Sqrt e"
  "cast_tree x = Some t \<longleftrightarrow> x = Tree t"
  by (cases x; auto)+

section \<open>The storages' operations keep it\<close>

lemma fill_loop_lengths:
  "length (shelter st) = length (dummy st) \<Longrightarrow>
    length (shelter (fill_loop ds i st)) = length (dummy (fill_loop ds i st))"
  by (induction ds i st rule: fill_loop.induct) auto

lemma fill_loop_fields [simp]:
  "st_id (fill_loop ds i st) = st_id st" "st_type (fill_loop ds i st) = st_type st"
  by (induction ds i st rule: fill_loop.induct) auto

lemma write_shelter_length: "write_shelter sh tag d = Inr sh' \<Longrightarrow> length sh' = length sh"
  by (induction sh tag d arbitrary: sh' rule: write_shelter.induct)
    (auto simp: andThen_eq_Inr split: if_splits)

lemma flush_shelter_lengths:
  "flush_shelter sh mm dm = Inr (mm', dm') \<Longrightarrow> length mm' = length mm \<and> length dm' = length dm"
  by (induction sh mm dm rule: flush_shelter.induct) (auto split: if_splits)

lemma permute_loop_length: "permute_loop perm i xs clone = Inr out \<Longrightarrow> length out = length clone"
  by (induction perm i xs clone rule: permute_loop.induct) (auto split: if_splits)

lemma DoPermute_shape:
  "DoPermute st perm = Inr st' \<Longrightarrow> length (shelter st') = length (shelter st)
    \<and> length (dummy st') = length (dummy st) \<and> length (main_memory st') = length (main_memory st)
    \<and> st_id st' = st_id st \<and> st_type st' = st_type st"
  by (auto simp: DoPermute_def PermuteBy_def panic_if_def andThen_eq_Inr
      dest!: flush_shelter_lengths permute_loop_length split: if_splits)

lemma Tree_ReadPath_shape:
  "Tree_ReadPath L l x st = Inr (r, st') \<Longrightarrow> dom (tree_map st') = dom (tree_map st)
    \<and> tree_level st' = tree_level st \<and> st_id st' = st_id st \<and> st_type st' = st_type st
    \<and> st_capacity st' = st_capacity st"
  by (auto simp: Tree_ReadPath_def Let_def split: if_splits option.splits prod.splits)

lemma AccurateWritePath_shape:
  "AccurateWritePath L l j bs ty st = Inr (r, st') \<Longrightarrow> dom (tree_map st') = dom (tree_map st)
    \<and> tree_level st' = tree_level st \<and> st_id st' = st_id st \<and> st_type st' = st_type st
    \<and> st_capacity st' = st_capacity st"
  by (auto simp: AccurateWritePath_def Let_def split: if_splits option.splits prod.splits)

lemma Tree_WritePath_shape:
  "Tree_WritePath L l x bs st = Inr (r, st') \<Longrightarrow> dom (tree_map st') = dom (tree_map st)
    \<and> tree_level st' = tree_level st \<and> st_id st' = st_id st \<and> st_type st' = st_type st
    \<and> st_capacity st' = st_capacity st"
  by (auto simp: Tree_WritePath_def split: if_splits dest!: AccurateWritePath_shape)

lemma init_tree_dom: "dom (fold init_level [0..<n] Map.empty) = {(l, j). l < n \<and> j < 2 ^ l}"
  by (auto simp: dom_def init_tree_map)

lemma TreeOramServerStorage_wf:
  "TreeOramServerStorage i n sz bk hash = Inr st \<Longrightarrow> storage_wf i (Tree st)"
  using init_tree_dom [of "ceil_LOG_BASE2 (n + 1) - 1 + 1"]
  by (cases "n = 0") (clarsimp simp: TreeOramServerStorage_def Let_def less_Suc_eq_le
      simp del: upt_Suc fold_simps)+

text \<open>
  How the level of a tree follows from the number of buckets asked for: the two capacities whose
  logarithm is rounded up get one level more than they need.
\<close>

lemma tree_level_bounds:
  assumes n: "0 < n" and l: "l = ceil_LOG_BASE2 (n + 1) - 1"
  shows "n < 2 ^ (l + 1)"
    "if n = 2 ^ 29 - 1 \<or> n = 2 ^ 31 - 1 then 2 ^ l = n + 1 else 2 ^ l \<le> n"
proof -
  have s: "ceil_LOG_BASE2 (n + 1) = l + 1" using ceil_LOG_BASE2_pos [of "n + 1"] n l by simp
  then show "n < 2 ^ (l + 1)" using ceil_LOG_BASE2_ge [of "n + 1"] by simp
  consider "n + 1 = 2 ^ 29" | "n + 1 = 2 ^ 31" | "n + 1 \<noteq> 2 ^ 29" "n + 1 \<noteq> 2 ^ 31" by blast
  then show "if n = 2 ^ 29 - 1 \<or> n = 2 ^ 31 - 1 then 2 ^ l = n + 1 else 2 ^ l \<le> n"
  proof cases
    case 1
    then have "l = 29" using s unfolding ceil_LOG_BASE2_def by (simp only: ceil_log2_pow2) simp
    with 1 show ?thesis by simp
  next
    case 2
    then have "l = 31" using s unfolding ceil_LOG_BASE2_def by (simp only: ceil_log2_pow2) simp
    with 2 show ?thesis by simp
  next
    case 3
    then have "ceil_log2 (n + 1) = l + 1" using s unfolding ceil_LOG_BASE2_def by presburger
    then have "\<not> ceil_log2 (n + 1) \<le> l" by simp
    then have "2 ^ l \<le> n" unfolding ceil_log2_le_iff by simp
    with 3 show ?thesis by simp
  qed
qed

section \<open>Every call keeps it\<close>

lemmas call_defs = after_call_def andThen_eq_Inr InitTreeOram_def InitFlatOram_def InitSqrtOram_def
  CheckInitRequest_def Let_def

lemma init_wf:
  "server_wf s \<Longrightarrow> storage_wf i st \<Longrightarrow> i < kMaximumOramStorageNum \<Longrightarrow>
    server_wf (s\<lparr>storages := (storages s)(i \<mapsto> st)\<rparr>)"
  by (auto simp: server_wf_def)

lemma InitTreeOram_wf: "server_wf s \<Longrightarrow> InitTreeOram hdr bk n sz s = Inr (r, s') \<Longrightarrow> server_wf s'"
  by (auto simp: call_defs put_storage_def not_le intro!: init_wf
      dest!: TreeOramServerStorage_wf split: if_splits)

lemma InitFlatOram_wf: "server_wf s \<Longrightarrow> InitFlatOram hdr n sz s = Inr (r, s') \<Longrightarrow> server_wf s'"
  by (auto simp: call_defs put_storage_def not_le FlatOramServerStorage_def intro!: init_wf
      split: if_splits)

lemma InitSqrtOram_wf: "server_wf s \<Longrightarrow> InitSqrtOram hdr n m sz s = Inr (r, s') \<Longrightarrow> server_wf s'"
  by (auto simp: call_defs put_storage_def not_le SqrtOramServerStorage_def intro!: init_wf
      split: if_splits)

text \<open>A call on a storage: it is enough that the body puts back a well-formed storage.\<close>

lemma on_storage_wf:
  assumes "server_wf s" and "on_storage cast type hdr resp body s = Inr (r, s')"
    and "\<And>x d r s'. storages s (hdr_id hdr) = Some x \<Longrightarrow> cast x = Some d \<Longrightarrow>
      body d = Inr (r, s') \<Longrightarrow>
      s' = s \<or> (\<exists>y. s' = put_storage hdr y s \<and> (storage_wf (hdr_id hdr) x \<longrightarrow> storage_wf (hdr_id hdr) y))"
  shows "server_wf s'"
proof -
  obtain st q where r: "r = (st, q)" by (cases r)
  from on_storage_Inr [OF assms(2) [unfolded r]] show ?thesis
  proof
    assume "s' = s" with assms(1) show ?thesis by simp
  next
    assume "\<exists>x d. storages s (hdr_id hdr) = Some x \<and> cast x = Some d \<and> st_type d = type
      \<and> st_instance_hash d = hdr_instance_hash hdr \<and> body d = Inr ((st, q), s')"
    then obtain x d where x: "storages s (hdr_id hdr) = Some x" "cast x = Some d"
      "body d = Inr ((st, q), s')" by blast
    from assms(3) [OF x] show ?thesis
      using assms(1) server_wfD [OF assms(1) x(1)] x(1) by (auto intro: put_storage_wf)
  qed
qed

lemma serve_wf:
  assumes wf: "server_wf s" and c: "serve L c s = Inr (status, s')"
  shows "server_wf s'"
proof (cases c)
  case (Call_InitTree hdr bk n sz)
  with wf c show ?thesis by (auto simp: after_call_def andThen_eq_Inr dest: InitTreeOram_wf)
next
  case (Call_InitFlat hdr n sz)
  with wf c show ?thesis by (auto simp: after_call_def andThen_eq_Inr dest: InitFlatOram_wf)
next
  case (Call_InitSqrt hdr n m sz)
  with wf c show ?thesis by (auto simp: after_call_def andThen_eq_Inr dest: InitSqrtOram_wf)
next
  case (Call_ReadSqrt hdr ty tag)
  with c obtain r where r: "ReadSqrtMemory hdr ty tag s = Inr (r, s')"
    by (auto simp: after_call_def andThen_eq_Inr)
  show ?thesis
    by (rule on_storage_wf [OF wf r [unfolded ReadSqrtMemory_def]])
      (auto simp: cast_simps andThen_eq_Inr ReadBlockFromShelter_def split: if_splits)
next
  case (Call_WriteSqrt hdr d tag)
  with c obtain r where r: "WriteSqrtMemory hdr d tag s = Inr (r, s')"
    by (auto simp: after_call_def andThen_eq_Inr)
  show ?thesis
    by (rule on_storage_wf [OF wf r [unfolded WriteSqrtMemory_def]])
      (auto simp: cast_simps andThen_eq_Inr WriteBlockToShelter_def dest!: write_shelter_length)
next
  case (Call_Permute hdr perm)
  with c obtain r where r: "SqrtPermute hdr perm s = Inr (r, s')"
    by (auto simp: after_call_def andThen_eq_Inr)
  show ?thesis
    by (rule on_storage_wf [OF wf r [unfolded SqrtPermute_def]])
      (auto simp: cast_simps andThen_eq_Inr dest!: DoPermute_shape)
next
  case (Call_LoadSqrt hdr ds)
  with c obtain r where r: "LoadSqrtOram hdr ds s = Inr (r, s')"
    by (auto simp: after_call_def andThen_eq_Inr)
  show ?thesis
    by (rule on_storage_wf [OF wf r [unfolded LoadSqrtOram_def]])
      (auto simp: cast_simps Fill_def fill_loop_lengths)
next
  case (Call_ReadFlat hdr)
  with c obtain r where r: "ReadFlatMemory hdr s = Inr (r, s')"
    by (auto simp: after_call_def andThen_eq_Inr)
  show ?thesis
    by (rule on_storage_wf [OF wf r [unfolded ReadFlatMemory_def]]) (auto simp: cast_simps)
next
  case (Call_WriteFlat hdr d)
  with c obtain r where r: "WriteFlatMemory hdr d s = Inr (r, s')"
    by (auto simp: after_call_def andThen_eq_Inr)
  show ?thesis
    by (rule on_storage_wf [OF wf r [unfolded WriteFlatMemory_def]])
      (auto simp: cast_simps From_def ResetStorage_def)
next
  case (Call_ReadPath hdr x l)
  with c obtain r where r: "ReadPath L hdr x l s = Inr (r, s')"
    by (auto simp: after_call_def andThen_eq_Inr)
  show ?thesis
    by (rule on_storage_wf [OF wf r [unfolded ReadPath_def]])
      (auto simp: cast_simps andThen_eq_Inr dest!: Tree_ReadPath_shape split: if_splits)
next
  case (Call_WritePath hdr x l j ty ds)
  with c obtain r where r: "WritePath L hdr x l j ty ds s = Inr (r, s')"
    by (auto simp: after_call_def andThen_eq_Inr)
  show ?thesis
    by (rule on_storage_wf [OF wf r [unfolded WritePath_def]])
      (auto simp: cast_simps andThen_eq_Inr dest!: Tree_WritePath_shape AccurateWritePath_shape
        split: if_splits)
next
  case (Call_KeyExchange pk)
  with wf c show ?thesis
    by (auto simp: after_call_def andThen_eq_Inr KeyExchange_def server_cryptor_def with_cryptor_def
        put_cryptor_def server_wf_def Let_def split: if_splits option.splits)
qed (use wf c in \<open>auto simp: andThen_eq_Inr ResetServer_def CloseConnection_def server_wf_def\<close>)

lemma server_reachable_wf: "server_reachable L s \<Longrightarrow> server_wf s"
proof (induction rule: server_reachable.induct)
  case (start memory h s)
  then show ?case by (auto simp: ServerRunner_Run_def andThen_eq_Inr server_wf_def split: if_splits)
next
  case (step s c status s')
  then show ?case by (blast intro: serve_wf)
qed

section \<open>What a call leaves alone, and what it rejects\<close>

lemma on_storage_frame:
  assumes "on_storage cast type hdr resp body s = Inr (r, s')"
    and "\<And>d r s'. body d = Inr (r, s') \<Longrightarrow> s' = s \<or> (\<exists>y. s' = put_storage hdr y s)"
    and "j \<noteq> hdr_id hdr"
  shows "storages s' j = storages s j"
proof -
  obtain st q where r: "r = (st, q)" by (cases r)
  from on_storage_Inr [OF assms(1) [unfolded r]] have "s' = s \<or> (\<exists>y. s' = put_storage hdr y s)"
    using assms(2) by blast
  then show ?thesis using assms(3) by (auto simp: put_storage_def)
qed

lemma serve_frame:
  assumes c: "serve L c s = Inr (status, s')" and hdr: "call_header c = Some hdr" and j: "j \<noteq> hdr_id hdr"
  shows "storages s' j = storages s j"
proof (cases c)
  case (Call_ReadSqrt hdr' ty tag)
  with c hdr obtain r where r: "ReadSqrtMemory hdr ty tag s = Inr (r, s')"
    by (auto simp: after_call_def andThen_eq_Inr)
  show ?thesis by (rule on_storage_frame [OF r [unfolded ReadSqrtMemory_def] _ j])
    (auto simp: andThen_eq_Inr split: if_splits)
next
  case (Call_WriteSqrt hdr' d tag)
  with c hdr obtain r where r: "WriteSqrtMemory hdr d tag s = Inr (r, s')"
    by (auto simp: after_call_def andThen_eq_Inr)
  show ?thesis by (rule on_storage_frame [OF r [unfolded WriteSqrtMemory_def] _ j])
    (auto simp: andThen_eq_Inr)
next
  case (Call_Permute hdr' perm)
  with c hdr obtain r where r: "SqrtPermute hdr perm s = Inr (r, s')"
    by (auto simp: after_call_def andThen_eq_Inr)
  show ?thesis by (rule on_storage_frame [OF r [unfolded SqrtPermute_def] _ j])
    (auto simp: andThen_eq_Inr)
next
  case (Call_LoadSqrt hdr' ds)
  with c hdr obtain r where r: "LoadSqrtOram hdr ds s = Inr (r, s')"
    by (auto simp: after_call_def andThen_eq_Inr)
  show ?thesis by (rule on_storage_frame [OF r [unfolded LoadSqrtOram_def] _ j]) auto
next
  case (Call_ReadFlat hdr')
  with c hdr obtain r where r: "ReadFlatMemory hdr s = Inr (r, s')"
    by (auto simp: after_call_def andThen_eq_Inr)
  show ?thesis by (rule on_storage_frame [OF r [unfolded ReadFlatMemory_def] _ j]) auto
next
  case (Call_WriteFlat hdr' d)
  with c hdr obtain r where r: "WriteFlatMemory hdr d s = Inr (r, s')"
    by (auto simp: after_call_def andThen_eq_Inr)
  show ?thesis by (rule on_storage_frame [OF r [unfolded WriteFlatMemory_def] _ j]) auto
next
  case (Call_ReadPath hdr' x l)
  with c hdr obtain r where r: "ReadPath L hdr x l s = Inr (r, s')"
    by (auto simp: after_call_def andThen_eq_Inr)
  show ?thesis by (rule on_storage_frame [OF r [unfolded ReadPath_def] _ j])
    (auto simp: andThen_eq_Inr split: if_splits)
next
  case (Call_WritePath hdr' x l i ty ds)
  with c hdr obtain r where r: "WritePath L hdr x l i ty ds s = Inr (r, s')"
    by (auto simp: after_call_def andThen_eq_Inr)
  show ?thesis by (rule on_storage_frame [OF r [unfolded WritePath_def] _ j])
    (auto simp: andThen_eq_Inr split: if_splits)
qed (use hdr in simp_all)

lemma init_frame:
  assumes "serve L c s = Inr (status, s')" and "init_header c = Some hdr" and "j \<noteq> hdr_id hdr"
  shows "storages s' j = storages s j"
  using assms by (cases c) (auto simp: call_defs put_storage_def split: if_splits)

lemmas handler_defs = ReadSqrtMemory_def WriteSqrtMemory_def SqrtPermute_def LoadSqrtOram_def
  ReadFlatMemory_def WriteFlatMemory_def ReadPath_def WritePath_def

lemma serve_unknown:
  "call_header c = Some hdr \<Longrightarrow> storages s (hdr_id hdr) = None \<Longrightarrow>
    serve L c s = Inr (grpc_error NOT_FOUND
      (''ORAM id: '' @ to_string (unat (hdr_id hdr)) @ '' does not exist.''), s)"
  by (cases c) (auto simp: handler_defs after_call_def on_storage_def CheckIdValid_def Let_def)

lemma serve_foreign:
  "call_header c = Some hdr \<Longrightarrow> server_wf s \<Longrightarrow> storages s (hdr_id hdr) = Some x \<Longrightarrow>
    call_kind c = storage_kind x \<Longrightarrow> storage_hash x \<noteq> hdr_instance_hash hdr \<Longrightarrow>
    serve L c s = Inr (grpc_error UNAVAILABLE oram_hash_mismatch_err, s)"
  by (cases c; cases x) (auto simp: handler_defs after_call_def on_storage_def CheckIdValid_def
      CheckStorage_def Let_def dest!: server_wfD)

lemma serve_other_kind:
  "call_header c = Some hdr \<Longrightarrow> storages s (hdr_id hdr) = Some x \<Longrightarrow>
    call_kind c \<noteq> storage_kind x \<Longrightarrow> serve L c s = Inl Assert_Failed"
  by (cases c; cases x) (auto simp: handler_defs after_call_def on_storage_def CheckIdValid_def
      CheckStorage_def Let_def)

lemma init_rejected:
  "init_header c = Some hdr \<Longrightarrow>
    storages s (hdr_id hdr) \<noteq> None \<or> hdr_id hdr \<ge> kMaximumOramStorageNum \<Longrightarrow>
    \<exists>status. serve L c s = Inr (status, s) \<and> grpc_code status
      = (if storages s (hdr_id hdr) \<noteq> None then ALREADY_EXISTS else INVALID_ARGUMENT)"
  by (cases c) (auto simp: call_defs grpc_error_def is_ok_def)

end
