(* ===== verification/Server_Properties.thy ===== *)
theory Server_Properties
  imports Oram_Instance Server_Invariant
begin

text \<open>
  The properties of the server and of its storages, and of the negotiation of the session keys.
\<close>

section \<open>The service\<close>

text \<open>
  C26. In every state that the server reaches from its start by remote calls, each storage has
  the identifier it is filed under and the type of its class, a tree has a bucket for exactly
  the tags of its levels, and a square root storage has a shelter as long as its dummies. A tree
  has the least number of levels with as many buckets as its capacity asks for, except for the
  capacities \<open>2 ^ 29 - 1\<close> and \<open>2 ^ 31 - 1\<close>, whose logarithm the code rounds up: these trees have one
  level more.
\<close>

theorem server_states_well_formed:
  assumes "server_reachable L s"
  shows "\<forall>i st. storages s i = Some st \<longrightarrow> i < kMaximumOramStorageNum \<and> (case st of
      Flat d \<Rightarrow> st_id d = i \<and> st_type d = kFlatStorage
    | Sqrt d \<Rightarrow> st_id d = i \<and> st_type d = kSqrtStorage \<and> length (shelter d) = length (dummy d)
    | Tree d \<Rightarrow> st_id d = i \<and> st_type d = kTreeStorage
        \<and> dom (tree_map d) = {(l, j). l \<le> tree_level d \<and> j < 2 ^ l}
        \<and> 0 < st_capacity d \<and> st_capacity d < 2 ^ (tree_level d + 1)
        \<and> (if st_capacity d = 2 ^ 29 - 1 \<or> st_capacity d = 2 ^ 31 - 1 then 2 ^ tree_level d = st_capacity d + 1
            else 2 ^ tree_level d \<le> st_capacity d))"
proof -
  from server_reachable_wf [OF assms] have wf: "server_wf s" .
  show ?thesis
  proof (intro allI impI)
    fix i st assume "storages s i = Some st"
    with wf have st: "storage_wf i st" "i < kMaximumOramStorageNum" by (auto simp: server_wf_def)
    show "i < kMaximumOramStorageNum \<and> (case st of
      Flat d \<Rightarrow> st_id d = i \<and> st_type d = kFlatStorage
    | Sqrt d \<Rightarrow> st_id d = i \<and> st_type d = kSqrtStorage \<and> length (shelter d) = length (dummy d)
    | Tree d \<Rightarrow> st_id d = i \<and> st_type d = kTreeStorage
        \<and> dom (tree_map d) = {(l, j). l \<le> tree_level d \<and> j < 2 ^ l}
        \<and> 0 < st_capacity d \<and> st_capacity d < 2 ^ (tree_level d + 1)
        \<and> (if st_capacity d = 2 ^ 29 - 1 \<or> st_capacity d = 2 ^ 31 - 1 then 2 ^ tree_level d = st_capacity d + 1
            else 2 ^ tree_level d \<le> st_capacity d))"
    proof (cases st)
      case (Tree d)
      with st(1) have d: "0 < st_capacity d" "tree_level d = ceil_LOG_BASE2 (st_capacity d + 1) - 1"
        and "st_id d = i" "st_type d = kTreeStorage" "dom (tree_map d) = {(l, j). l \<le> tree_level d \<and> j < 2 ^ l}"
        by auto
      with tree_level_bounds [OF d] d(1) this(3-) st(2) Tree show ?thesis by (simp only: storage.case)
    qed (use st in auto)
  qed
qed

theorem server_states_well_formed_witness:
  "\<exists>s d. server_reachable toy_libs s \<and> storages s 2 = Some (Tree d)
    \<and> dom (tree_map d) = {(l, j). l \<le> tree_level d \<and> j < 2 ^ l}"
proof -
  have "ServerRunner_Run toy_libs toy_cryptor True toy_host = Inr toy_server"
    by (simp add: ServerRunner_Run_def GetInstance_def toy_host_def toy_server_def)
  then have r0: "server_reachable toy_libs toy_server" by (rule server_reachable.start)
  obtain st s' where s': "serve toy_libs (Call_InitTree (toy_header 2 9) 2 3 560) toy_server = Inr (st, s')"
    "\<exists>d. storages s' 2 = Some (Tree d)"
    by (auto simp: after_call_def InitTreeOram_def CheckInitRequest_def toy_server_def
        toy_header_def kMaximumOramStorageNum_def TreeOramServerStorage_def Let_def put_storage_def)
  from server_reachable.step [OF r0 s'(1)] have r: "server_reachable toy_libs s'" .
  from server_states_well_formed [OF r] s'(2) r show ?thesis by fastforce
qed

text \<open>
  C27. A call on one storage (an initialisation or an access) leaves every other storage of the
  server as it is.
\<close>

theorem server_isolates_storages:
  assumes "serve L c s = Inr (status, s')"
    and "call_header c = Some hdr \<or> init_header c = Some hdr" and "j \<noteq> hdr_id hdr"
  shows "storages s' j = storages s j"
  using assms serve_frame [OF assms(1) _ assms(3)] init_frame [OF assms(1) _ assms(3)] by blast

theorem server_isolates_storages_witness:
  "\<exists>status s'. serve toy_libs (Call_WriteFlat (toy_header 1 9) [1, 2, 3]) busy_server = Inr (status, s')
    \<and> storages s' 1 \<noteq> storages busy_server 1 \<and> storages s' 2 = storages busy_server 2"
proof -
  obtain status s' where s': "serve toy_libs (Call_WriteFlat (toy_header 1 9) [1, 2, 3]) busy_server
      = Inr (status, s')" "storages s' 1 \<noteq> storages busy_server 1"
    by (auto simp: after_call_def WriteFlatMemory_def on_storage_def CheckIdValid_def CheckStorage_def
        busy_server_def toy_server_def toy_header_def toy_flat_def FlatOramServerStorage_def
        put_storage_def From_def ResetStorage_def Let_def)
  from server_isolates_storages [OF s'(1), of "toy_header 1 9" 2] s' show ?thesis
    by (auto simp: toy_header_def)
qed

text \<open>
  C28. What the server does with a request it should not serve, on a well-formed state: an
  unknown identifier and a foreign instance hash are answered with an error and change
  nothing, while a storage of another kind is a failed assertion that takes the process down.
\<close>

theorem server_rejects:
  assumes "server_wf s" and "call_header c = Some hdr"
  shows "case storages s (hdr_id hdr) of
      None \<Rightarrow> (\<exists>status. serve L c s = Inr (status, s) \<and> grpc_code status = NOT_FOUND)
    | Some x \<Rightarrow> (call_kind c \<noteq> storage_kind x \<longrightarrow> serve L c s = Inl Assert_Failed)
        \<and> (call_kind c = storage_kind x \<and> storage_hash x \<noteq> hdr_instance_hash hdr \<longrightarrow>
             serve L c s = Inr (grpc_error UNAVAILABLE oram_hash_mismatch_err, s))"
  using serve_unknown [OF assms(2), of s L] serve_other_kind [OF assms(2), of s _ L]
    serve_foreign [OF assms(2,1), of _ L]
  by (auto simp: grpc_error_def split: option.split)

theorem server_rejects_witness:
  "serve toy_libs (Call_ReadFlat (toy_header 1 8)) (toy_server\<lparr>storages := [1 \<mapsto> Flat toy_flat]\<rparr>)
     = Inr (grpc_error UNAVAILABLE oram_hash_mismatch_err, toy_server\<lparr>storages := [1 \<mapsto> Flat toy_flat]\<rparr>)
   \<and> serve toy_libs (Call_ReadPath (toy_header 1 9) 0 0) (toy_server\<lparr>storages := [1 \<mapsto> Flat toy_flat]\<rparr>)
     = Inl Assert_Failed"
proof -
  let ?s = "toy_server\<lparr>storages := [1 \<mapsto> Flat toy_flat]\<rparr>"
  have wf: "server_wf ?s"
    by (auto simp: server_wf_def toy_flat_def FlatOramServerStorage_def kMaximumOramStorageNum_def
        split: if_splits)
  show ?thesis
    using server_rejects [OF wf, of "Call_ReadFlat (toy_header 1 8)" "toy_header 1 8" toy_libs]
      server_rejects [OF wf, of "Call_ReadPath (toy_header 1 9) 0 0" "toy_header 1 9" toy_libs]
    by (simp add: toy_header_def toy_flat_def FlatOramServerStorage_def)
qed

text \<open>
  A storage is initialised once: a second initialisation of an identifier, of whatever
  kind, or one of an identifier that is too large, fails and changes nothing.
\<close>

theorem server_initialises_once:
  assumes "init_header c = Some hdr"
    and "storages s (hdr_id hdr) \<noteq> None \<or> hdr_id hdr \<ge> kMaximumOramStorageNum"
  shows "\<exists>status. serve L c s = Inr (status, s) \<and> grpc_code status
      = (if storages s (hdr_id hdr) \<noteq> None then ALREADY_EXISTS else INVALID_ARGUMENT)"
  using assms by (rule init_rejected)

theorem server_initialises_once_witness:
  "\<exists>status. serve toy_libs (Call_InitTree (toy_header 1 9) 4 8 560) busy_server = Inr (status, busy_server)
    \<and> grpc_code status = ALREADY_EXISTS"
  using server_initialises_once [of "Call_InitTree (toy_header 1 9) 4 8 560" "toy_header 1 9"
      busy_server toy_libs]
  by (simp add: toy_header_def busy_server_def)

section \<open>Storages\<close>

text \<open>
  C29. A bucket of a tree that was written is read back by every path that crosses it, once:
  the entries are emptied by the first read.
\<close>

theorem tree_bucket_read_once:
  assumes "lz4_ok L" "list_all wf_block bs" "list_all (bulky L) bs"
    and "dom (tree_map st) = {(l, j). l \<le> tree_level st \<and> j < 2 ^ l}"
    and "l \<le> tree_level st" "unat x < 2 ^ tree_level st"
    and "path_offset (tree_level st) l (unat y) = path_offset (tree_level st) l (unat x)"
  shows "\<exists>st1 st2 st3. Tree_WritePath L l x bs st = Inr (OK, st1)
    \<and> Tree_ReadPath L l y st1 = Inr ((OK, bs), st2) \<and> Tree_ReadPath L l y st2 = Inr ((OK, []), st3)"
  using assms by (rule Tree_write_read)

theorem tree_bucket_read_once_witness:
  "\<exists>st0 st1 st2 st3. TreeOramServerStorage 2 3 560 2 [] = Inr st0
    \<and> Tree_WritePath toy_libs 0 1 [toy_block 5 1 10] st0 = Inr (OK, st1)
    \<and> Tree_ReadPath toy_libs 0 0 st1 = Inr ((OK, [toy_block 5 1 10]), st2)
    \<and> Tree_ReadPath toy_libs 0 0 st2 = Inr ((OK, []), st3)"
proof -
  have c: "ceil_LOG_BASE2 4 = 2" by code_simp
  obtain st0 where st0: "TreeOramServerStorage 2 3 560 2 [] = Inr st0" "tree_level st0 = 1"
    by (auto simp: TreeOramServerStorage_def Let_def c)
  from TreeOramServerStorage_wf [OF st0(1)] have "dom (tree_map st0) = {(l, j). l \<le> tree_level st0 \<and> j < 2 ^ l}"
    by simp
  from tree_bucket_read_once [OF toy_lz4_ok _ _ this, of "[toy_block 5 1 10]" 0 1 0] st0
  show ?thesis by (simp add: path_offset_def POW2_def bulky_def toy_libs_def)
qed

text \<open>
  C30. \<open>DoPermute\<close> of the square root storage first writes the shelter's blocks over the array
  (main memory followed by the dummies), later entries last, then moves element \<open>j\<close> to place
  \<open>perm[j]\<close>, keeps the sizes and leaves an empty shelter.
\<close>

theorem sqrt_permute:
  assumes "length perm = length (main_memory st) + length (dummy st)" "distinct perm"
      "\<forall>j < length perm. unat (perm ! j) < length perm"
    and "\<forall>(tag, d) \<in> set (shelter st). tag = kInvalidMask \<or> d = [] \<or> unat tag < length perm"
  shows "\<exists>st'. DoPermute st perm = Inr st'
    \<and> (\<forall>j < length perm. (main_memory st' @ dummy st') ! unat (perm ! j)
         = sheltered (shelter st) (main_memory st @ dummy st) ! j)
    \<and> length (main_memory st') = length (main_memory st) \<and> length (dummy st') = length (dummy st)
    \<and> shelter st' = replicate (length (shelter st)) (kInvalidMask, [])"
  using assms by (rule DoPermute_view)

theorem sqrt_permute_witness:
  "\<exists>st'. DoPermute ((SqrtOramServerStorage 3 2 560 1 [])\<lparr>main_memory := [[1], [2]], dummy := [[3]],
      shelter := [(1, [9])]\<rparr>) [2, 0, 1] = Inr st'
    \<and> (main_memory st' @ dummy st') ! 0 = [9] \<and> (main_memory st' @ dummy st') ! 2 = [1]"
proof -
  let ?st = "(SqrtOramServerStorage 3 2 560 1 [])\<lparr>main_memory := [[1], [2]], dummy := [[3]],
      shelter := [(1, [9])]\<rparr>"
  have p: "length [2, 0, 1 :: u32] = length (main_memory ?st) + length (dummy ?st)"
    "distinct [2, 0, 1 :: u32]"
    "\<forall>j < length [2, 0, 1 :: u32]. unat ([2, 0, 1 :: u32] ! j) < length [2, 0, 1 :: u32]"
    by (auto simp: SqrtOramServerStorage_def less_Suc_eq)
  have t: "\<forall>(tag, d) \<in> set (shelter ?st). tag = kInvalidMask \<or> d = [] \<or> unat tag < length [2, 0, 1 :: u32]"
    by simp
  from sqrt_permute [OF p t] obtain st' where st': "DoPermute ?st [2, 0, 1] = Inr st'"
    "\<forall>j < length [2, 0, 1 :: u32]. (main_memory st' @ dummy st') ! unat ([2, 0, 1 :: u32] ! j)
       = sheltered (shelter ?st) (main_memory ?st @ dummy ?st) ! j" by blast
  have "sheltered (shelter ?st) (main_memory ?st @ dummy ?st) = [[1], [9], [3]]"
    by (simp add: sheltered_def kInvalidMask_def)
  with st'(1) spec [OF st'(2), of 0] spec [OF st'(2), of 1] show ?thesis by simp
qed

section \<open>Session keys\<close>

text \<open>
  C31. Negotiating the keys succeeds and leaves the two ends with mirrored session keys: what
  the client receives with is what the server sends with, and the other way round. The
  server's storages are not touched.
\<close>

theorem key_negotiation:
  assumes "sodium_ok L" "kx_ok L"
    and "singleton (w_host w) = Some c" "is_initialized c"
    and "w_srv w = Some s" "cryptor_set s" "singleton (server_host s) = Some e" "is_initialized e"
  shows "\<exists>w' c' s' e'. KeyNegotiate L w = Inr (OK, w')
    \<and> singleton (w_host w') = Some c' \<and> w_srv w' = Some s' \<and> singleton (server_host s') = Some e'
    \<and> is_setup c' \<and> is_setup e'
    \<and> session_key_rx c' = session_key_tx e' \<and> session_key_tx c' = session_key_rx e'
    \<and> storages s' = storages s"
  using KeyNegotiate_keys [OF assms] by blast

theorem key_negotiation_witness:
  "\<exists>w' c' s' e'. KeyNegotiate toy_libs \<lparr>w_host = toy_host, w_srv = Some busy_server, w_log = []\<rparr> = Inr (OK, w')
    \<and> singleton (w_host w') = Some c' \<and> w_srv w' = Some s' \<and> singleton (server_host s') = Some e'
    \<and> session_key_rx c' = session_key_tx e' \<and> session_key_tx c' = session_key_rx e'"
proof -
  let ?w = "\<lparr>w_host = toy_host, w_srv = Some busy_server, w_log = []\<rparr>"
  have c: "singleton (w_host ?w) = Some toy_cryptor" "is_initialized toy_cryptor"
    by (simp_all add: toy_host_def toy_cryptor_def)
  have s: "w_srv ?w = Some busy_server" "cryptor_set busy_server"
    "singleton (server_host busy_server) = Some toy_cryptor"
    by (simp_all add: busy_server_def toy_server_def toy_host_def)
  from key_negotiation [OF toy_sodium_ok toy_kx_ok c s c(2)] show ?thesis by blast
qed

text \<open>
  C32. Both ends encrypt and decrypt with their receiving key. So after a negotiation the server
  accepts a greeting that the client encrypted exactly when the ciphertext, made with the
  client's receiving key, decrypts under the client's sending key: with two different keys an
  authenticated cipher makes the server answer with an error.
\<close>

theorem hello_uses_other_key:
  assumes "sodium_ok L" "kx_ok L"
    and "singleton (w_host w) = Some c" "is_initialized c"
    and "w_srv w = Some s" "cryptor_set s" "singleton (server_host s) = Some e" "is_initialized e"
  shows "\<exists>w' c' s' d status. KeyNegotiate L w = Inr (OK, w')
    \<and> singleton (w_host w') = Some c' \<and> w_srv w' = Some s'
    \<and> Cryptor_Encrypt L c' m nonce = Inr (OK, d) \<and> aes_encrypt L (session_key_rx c') nonce m = Some d
    \<and> SendHello L d nonce s' = Inr status
    \<and> (is_ok status \<longleftrightarrow> aes_decrypt L (session_key_tx c') nonce d \<noteq> None)"
proof -
  have aes: "aes_is_available L" using assms(1) by (simp add: sodium_ok_def)
  from KeyNegotiate_keys [OF assms] obtain w' c' s' e' where
    k: "KeyNegotiate L w = Inr (OK, w')" "singleton (w_host w') = Some c'" "w_srv w' = Some s'"
      "singleton (server_host s') = Some e'" "is_initialized c'" "is_setup c'" "is_initialized e'"
      "is_setup e'" "cryptor_set s'" "session_key_tx c' = session_key_rx e'" by blast
  from assms(1) obtain d where d: "aes_encrypt L (session_key_rx c') nonce m = Some d"
    "length d = length m + 16" unfolding sodium_ok_def by blast
  have enc: "Cryptor_Encrypt L c' m nonce = Inr (OK, d)"
    using k(5,6) d(1) aes by (simp add: Cryptor_Encrypt_def CryptoPrelogue_def panic_if_def)
  have "\<exists>status. SendHello L d nonce s' = Inr status
      \<and> (is_ok status \<longleftrightarrow> aes_decrypt L (session_key_rx e') nonce d \<noteq> None)"
    using k(4,7-9) d(2) aes
    by (auto simp: SendHello_def server_cryptor_def with_cryptor_def Cryptor_Decrypt_def
        CryptoPrelogue_def panic_if_def size_defs EmitString_def emit_line_cases printable_iff
        mk_status_def ok_def split: option.split)
  with k enc d(1) show ?thesis by auto
qed

theorem hello_uses_other_key_witness:
  "\<exists>w' c' s' d status. KeyNegotiate keyed_libs
      \<lparr>w_host = toy_host, w_srv = Some (toy_server\<lparr>server_host := toy_host\<lparr>draws := 5\<rparr>\<rparr>), w_log = []\<rparr> = Inr (OK, w')
    \<and> singleton (w_host w') = Some c' \<and> w_srv w' = Some s'
    \<and> Cryptor_Encrypt keyed_libs c' [1, 2, 3] (replicate 12 0) = Inr (OK, d)
    \<and> SendHello keyed_libs d (replicate 12 0) s' = Inr status"
proof -
  let ?s = "toy_server\<lparr>server_host := toy_host\<lparr>draws := 5\<rparr>\<rparr>"
  let ?w = "\<lparr>w_host = toy_host, w_srv = Some ?s, w_log = []\<rparr>"
  have c: "singleton (w_host ?w) = Some toy_cryptor" "is_initialized toy_cryptor"
    by (simp_all add: toy_host_def toy_cryptor_def)
  have s: "w_srv ?w = Some ?s" "cryptor_set ?s" "singleton (server_host ?s) = Some toy_cryptor"
    by (simp_all add: toy_server_def toy_host_def)
  from hello_uses_other_key [OF keyed_sodium_ok keyed_kx_ok c s c(2), of "[1, 2, 3]" "replicate 12 0"]
  show ?thesis by blast
qed

end
