(* ===== verification/Linear_Oram.thy ===== *)
theory Linear_Oram
  imports Oram_Views
begin

text \<open>The linear ORAM (core/linear\_oram\_controller.h and .cc).\<close>

section \<open>Operations\<close>

definition LinearOramController :: "libs \<Rightarrow> cryptor \<Rightarrow> u32 \<Rightarrow> bool \<Rightarrow> nat \<Rightarrow> host
    \<Rightarrow> (oram_controller \<times> host) exec" where
  "LinearOramController L memory i standalone block_num h =
     OramController L memory i standalone block_num kLinearOram h"

definition ReadFromServer :: "oram_controller \<Rightarrow> world \<Rightarrow> (oram_status \<times> bytes) \<times> world" where
  "ReadFromServer c w =
     (case stub_ReadFlatMemory (assemble_header c) w of ((status, content), w') \<Rightarrow>
        if is_ok status then ((OK, content), w')
        else ((mk_status kServerError (grpc_message status) ''ReadFromServer'', []), w'))"

definition WriteToServer :: "oram_controller \<Rightarrow> bytes \<Rightarrow> world \<Rightarrow> oram_status \<times> world" where
  "WriteToServer c input w =
     (case stub_WriteFlatMemory (assemble_header c) input w of ((status, _), w') \<Rightarrow>
        if \<not> is_ok status
        then (mk_status kServerError (grpc_message status) ''WriteToServer'', w')
        else (OK, w'))"

text \<open>
  The loop over the blocks of the downloaded storage: each is decrypted, looked at,
  possibly read or changed, and encrypted again. The statuses of the two cipher calls are
  not looked at. \<open>buf\<close> is the caller's block.
\<close>

fun linear_loop :: "libs \<Rightarrow> operation \<Rightarrow> u32 \<Rightarrow> nat \<Rightarrow> bytes \<Rightarrow> oram_block \<Rightarrow> host
    \<Rightarrow> ((bytes \<times> oram_block) \<times> host) exec" where
  "linear_loop L op address 0 storage buf h = Inr ((storage, buf), h)"
| "linear_loop L op address (Suc n) storage buf h =
     andThen (DecryptBlock L (bytes_block (take ORAM_BLOCK_SIZE storage)) h) (\<lambda>(_, b).
       let hit = btype (header b) = BlockType_kNormal \<and> block_id (header b) = address;
           buf' = (if hit \<and> op = Operation_kRead then b else buf);
           b' = (if hit \<and> op \<noteq> Operation_kRead then b\<lparr>data := data buf\<rparr> else b)
       in andThen (EncryptBlock L b' h) (\<lambda>((_, b''), h').
          andThen (linear_loop L op address n (drop ORAM_BLOCK_SIZE storage) buf' h')
            (\<lambda>((rest, out), h''). Inr ((block_bytes b'' @ rest, out), h''))))"

definition Linear_InternalAccess :: "libs \<Rightarrow> operation \<Rightarrow> u32 \<Rightarrow> oram_block \<Rightarrow> bool
    \<Rightarrow> oram_controller \<times> world \<Rightarrow> ((oram_status \<times> oram_block) \<times> oram_controller \<times> world) exec"
  where
  "Linear_InternalAccess L op address buf dum cw =
     panic_if (op = Operation_kInvalid)
       (case cw of (c, w) \<Rightarrow>
        case ReadFromServer c w of ((status, storage), w1) \<Rightarrow>
          if \<not> ok status
          then Inr ((Append status (mk_status kInvalidOperation ''Cannot read from the server''
                 ''InternalAccess''), buf), c, w1)
          else andThen (linear_loop L op address (length storage div ORAM_BLOCK_SIZE) storage buf
                          (w_host w1)) (\<lambda>((storage', out), h).
            case WriteToServer c storage' (w1\<lparr>w_host := h\<rparr>) of (status, w2) \<Rightarrow>
              Inr ((if ok status then OK
                    else mk_status kServerError ''Cannot invoke WriteToServer on the server side''
                           ''InternalAccess'', out), c, w2)))"

definition Linear_Access :: "libs \<Rightarrow> operation \<Rightarrow> u32 \<Rightarrow> oram_block
    \<Rightarrow> oram_controller \<times> world \<Rightarrow> ((oram_status \<times> oram_block) \<times> oram_controller \<times> world) exec"
  where
  "Linear_Access L = Access (Linear_InternalAccess L)"

definition Linear_InitOram :: "oram_controller \<times> world \<Rightarrow> oram_status \<times> oram_controller \<times> world" where
  "Linear_InitOram cw =
     (case cw of (c, w) \<Rightarrow>
      case stub_InitFlatOram (assemble_header c) (of_nat (oc_block_num c))
                  (of_nat ORAM_BLOCK_SIZE) w of ((status, _), w') \<Rightarrow>
        (if is_ok status then OK
         else mk_status kServerError ''Cannot invoke InitOram on the server side'' ''InitOram'',
         c, w'))"

fun encrypt_all :: "libs \<Rightarrow> oram_block list \<Rightarrow> host \<Rightarrow> (bytes \<times> host) exec" where
  "encrypt_all L [] h = Inr ([], h)"
| "encrypt_all L (b # bs) h =
     andThen (EncryptBlock L b h) (\<lambda>((_, b'), h').
     andThen (encrypt_all L bs h') (\<lambda>(rest, h''). Inr (block_bytes b' @ rest, h'')))"

definition Linear_FillWithData :: "libs \<Rightarrow> oram_block list \<Rightarrow> oram_controller \<times> world
    \<Rightarrow> (oram_status \<times> oram_controller \<times> world) exec" where
  "Linear_FillWithData L blocks cw =
     (case cw of (c, w) \<Rightarrow>
      andThen (encrypt_all L blocks (w_host w)) (\<lambda>(content, h).
        let c' = c\<lparr>oc_initialized := True\<rparr> in
        case stub_WriteFlatMemory (assemble_header c') content (w\<lparr>w_host := h\<rparr>) of
          ((status, _), w') \<Rightarrow>
            Inr (if is_ok status then OK
                 else mk_status kServerError ''Cannot invoke WriteFlatMemory on the server side''
                        ''FillWithData'', c', w')))"

section \<open>The loop\<close>

lemma linear_loop_read:
  assumes L: "sodium_ok L"
  shows "list_all2 (sealed L k) cs bs \<Longrightarrow> keyed k h \<Longrightarrow>
    \<exists>cs' bs' out h'. linear_loop L Operation_kRead a (length bs) (concat (map block_bytes cs)) buf h
        = Inr ((concat (map block_bytes cs'), out), h')
      \<and> keyed k h' \<and> list_all2 (sealed L k) cs' bs' \<and> map payload bs' = map payload bs
      \<and> payload out = payload (pick a bs buf)"
proof (induction arbitrary: h buf rule: list_all2_induct)
  case Nil
  then show ?case by (intro exI [of _ "[]"]) (simp add: pick_def)
next
  case (Cons c cs b bs)
  from reseal [OF L Cons.hyps(1) Cons.prems, of "\<lambda>x. x"] obtain d e where
    d: "DecryptBlock L c h = Inr (OK, d)" "payload d = payload b"
    and e: "EncryptBlock L d h = Inr ((OK, e), h\<lparr>draws := draws h + 1\<rparr>)" "sealed L k e d"
    by blast
  let ?h = "h\<lparr>draws := draws h + 1\<rparr>" and ?buf = "if BlockEqual a d then d else buf"
  obtain cs' bs' out h' where
    IH: "linear_loop L Operation_kRead a (length bs) (concat (map block_bytes cs)) ?buf ?h
        = Inr ((concat (map block_bytes cs'), out), h')" "keyed k h'"
      "list_all2 (sealed L k) cs' bs'" "map payload bs' = map payload bs"
      "payload out = payload (pick a bs ?buf)"
    using Cons.IH [of ?h ?buf] Cons.prems by auto
  have "wf_block c" "length (block_bytes c) = 560"
    using Cons.hyps(1) by (simp_all add: sealed_def)
  then have run: "linear_loop L Operation_kRead a (length (b # bs))
      (concat (map block_bytes (c # cs))) buf h
      = Inr ((concat (map block_bytes (e # cs')), out), h')"
    using d(1) e(1) IH(1) by (simp add: ORAM_BLOCK_SIZE_def Let_def BlockEqual_def conj_commute)
  have "payload out = payload (pick a (b # bs) buf)"
    using IH(5) d(2) BlockEqual_payload [OF d(2)]
      pick_payload [of d b a bs] by (simp add: pick_def)
  with run IH e(2) d(2) show ?case
    by (intro exI [of _ "e # cs'"] exI [of _ "d # bs'"] exI [of _ out] exI [of _ h']) simp
qed

lemma linear_loop_write:
  assumes L: "sodium_ok L" and x: "wf_block x"
  shows "list_all2 (sealed L k) cs bs \<Longrightarrow> keyed k h \<Longrightarrow>
    \<exists>cs' bs' h'. linear_loop L Operation_kWrite a (length bs) (concat (map block_bytes cs)) x h
        = Inr ((concat (map block_bytes cs'), x), h')
      \<and> keyed k h' \<and> list_all2 (sealed L k) cs' bs'
      \<and> map payload bs' = map (\<lambda>b. payload (put_data a (data x) b)) bs"
proof (induction arbitrary: h rule: list_all2_induct)
  case Nil
  then show ?case by (intro exI [of _ "[]"]) simp
next
  case (Cons c cs b bs)
  let ?f = "put_data a (data x)"
  have wf: "wf_block y \<Longrightarrow> wf_block (?f y)" for y
    using x by (auto simp: put_data_def wf_block_def)
  from reseal [OF L Cons.hyps(1) Cons.prems, of ?f] wf obtain d e where
    d: "DecryptBlock L c h = Inr (OK, d)" "payload d = payload b"
    and e: "EncryptBlock L (?f d) h = Inr ((OK, e), h\<lparr>draws := draws h + 1\<rparr>)" "sealed L k e (?f d)"
    by blast
  let ?h = "h\<lparr>draws := draws h + 1\<rparr>"
  obtain cs' bs' h' where
    IH: "linear_loop L Operation_kWrite a (length bs) (concat (map block_bytes cs)) x ?h
        = Inr ((concat (map block_bytes cs'), x), h')" "keyed k h'"
      "list_all2 (sealed L k) cs' bs'"
      "map payload bs' = map (\<lambda>b. payload (?f b)) bs"
    using Cons.IH [of ?h] Cons.prems by auto
  have "wf_block c" "length (block_bytes c) = 560"
    using Cons.hyps(1) by (simp_all add: sealed_def)
  then have run: "linear_loop L Operation_kWrite a (length (b # bs))
      (concat (map block_bytes (c # cs))) x h
      = Inr ((concat (map block_bytes (e # cs')), x), h')"
    using d(1) e(1) IH(1)
    by (simp add: ORAM_BLOCK_SIZE_def Let_def BlockEqual_def conj_commute put_data_def)
  with IH e(2) payload_put_data [OF d(2), of a "data x"] show ?case
    by (intro exI [of _ "e # cs'"] exI [of _ "?f d # bs'"] exI [of _ h']) simp
qed

section \<open>The storage a linear ORAM stands on\<close>

text \<open>
  The storage travels in one message each way, so there is a limit to the number of its blocks
  (\<open>flat_storage_fits\<close>).
\<close>

definition fits_message :: "bytes \<Rightarrow> bool" where
  "fits_message img \<longleftrightarrow> (\<exists>n \<le> 7489. length img = 560 * n)"

definition flat_image :: "oram_controller \<Rightarrow> world \<Rightarrow> bytes \<Rightarrow> bool" where
  "flat_image c w img \<longleftrightarrow> (\<exists>s st. w_srv w = Some s \<and> storages s (oc_id c) = Some (Flat st)
     \<and> st_type st = kFlatStorage \<and> st_instance_hash st = oc_hash c \<and> flat_memory st = img)
     \<and> fits_message img \<and> length (oc_hash c) = 32"

lemma fits_message_sizes:
  assumes "fits_message img" "length (oc_hash c) = 32"
  shows "request_size (Call_ReadFlat (assemble_header c)) \<le> max_message" "content_size img \<le> max_message"
    "request_size (Call_WriteFlat (assemble_header c) img) \<le> max_message"
proof -
  have h: "small_header (assemble_header c)" using assms(2) by simp
  from assms(1) obtain n where n: "n \<le> 7489" "length img = 560 * n" by (auto simp: fits_message_def)
  from flat_storage_fits [OF h n(2)] n(1) show "content_size img \<le> max_message"
    "request_size (Call_WriteFlat (assemble_header c) img) \<le> max_message" by simp_all
  from small_requests(5) [OF h] show "request_size (Call_ReadFlat (assemble_header c)) \<le> max_message" .
qed

lemma ReadFromServer_image:
  assumes "flat_image c w img"
  shows "\<exists>w'. ReadFromServer c w = ((OK, img), w') \<and> w_host w' = w_host w
    \<and> flat_image c w' img \<and> made [Call_ReadFlat (assemble_header c)] w w'"
proof -
  from assms obtain s st where s: "w_srv w = Some s" "storages s (oc_id c) = Some (Flat st)"
    "st_type st = kFlatStorage" "st_instance_hash st = oc_hash c" "flat_memory st = img"
    and m: "fits_message img" "length (oc_hash c) = 32" by (auto simp: flat_image_def)
  let ?w = "(logged (Call_ReadFlat (assemble_header c)) w)\<lparr>w_srv := Some s\<rparr>"
  have "ReadFlatMemory (assemble_header c) s = Inr ((grpc_ok, img), s)" using s
    by (simp add: ReadFlatMemory_def on_storage_def CheckIdValid_def CheckStorage_def assemble_header_def GetStorage_def)
  then have "ReadFromServer c w = ((OK, img), ?w)"
    using s(1) fits_message_sizes [OF m] by (simp add: ReadFromServer_def rpc_ok)
  then show ?thesis using assms s(1) by (auto simp: flat_image_def made_def)
qed

lemma WriteToServer_image:
  assumes "flat_image c w img" and d: "fits_message img'"
  shows "\<exists>w'. WriteToServer c img' w = (OK, w') \<and> w_host w' = w_host w \<and> flat_image c w' img'
    \<and> made [Call_WriteFlat (assemble_header c) img'] w w'"
proof -
  from assms(1) obtain s st where s: "w_srv w = Some s" "storages s (oc_id c) = Some (Flat st)"
    "st_type st = kFlatStorage" "st_instance_hash st = oc_hash c" "flat_memory st = img"
    and h: "length (oc_hash c) = 32" by (auto simp: flat_image_def)
  let ?s = "put_storage (assemble_header c) (Flat (From (ResetStorage st) img')) s"
  let ?w = "(logged (Call_WriteFlat (assemble_header c) img') w)\<lparr>w_srv := Some ?s\<rparr>"
  have "WriteFlatMemory (assemble_header c) img' s = Inr ((grpc_ok, ()), ?s)" using s
    by (simp add: WriteFlatMemory_def on_storage_def CheckIdValid_def CheckStorage_def assemble_header_def)
  then have "WriteToServer c img' w = (OK, ?w)"
    using s(1) fits_message_sizes [OF d h] by (simp add: WriteToServer_def rpc_ok)
  then show ?thesis using s d h
    by (auto simp: flat_image_def made_def From_def ResetStorage_def put_storage_def assemble_header_def)
qed

lemma flat_image_host [simp]: "flat_image c (w\<lparr>w_host := h\<rparr>) img = flat_image c w img"
  by (simp add: flat_image_def)

lemma length_sealed_concat:
  "list_all2 (sealed L k) cs bs \<Longrightarrow> length (concat (map block_bytes cs)) = 560 * length bs"
  by (induction rule: list_all2_induct) (simp_all add: sealed_length)

definition linear_view :: "libs \<Rightarrow> bytes \<Rightarrow> oram_controller \<times> world \<Rightarrow> oram_block list \<Rightarrow> bool" where
  "linear_view L k cw bs \<longleftrightarrow> oc_initialized (fst cw) \<and> keyed k (w_host (snd cw))
     \<and> (\<exists>cs. flat_image (fst cw) (snd cw) (concat (map block_bytes cs))
          \<and> list_all2 (sealed L k) cs bs)"

text \<open>An access downloads the whole storage and uploads it again.\<close>

definition linear_calls :: "oram_controller \<Rightarrow> bytes \<Rightarrow> server_call list" where
  "linear_calls c d = [Call_ReadFlat (assemble_header c), Call_WriteFlat (assemble_header c) d]"

lemma Linear_Access_read:
  assumes L: "sodium_ok L" and v: "linear_view L k cw bs"
  shows "\<exists>out cw' bs'. Linear_Access L Operation_kRead a buf cw = Inr ((OK, out), cw')
    \<and> linear_view L k cw' bs' \<and> map payload bs' = map payload bs
    \<and> payload out = payload (pick a bs buf) \<and> fst cw' = fst cw
    \<and> (\<exists>d. length d = 560 * length bs \<and> made (linear_calls (fst cw) d) (snd cw) (snd cw'))"
proof -
  obtain c w where cw: "cw = (c, w)" by (cases cw)
  with v obtain cs where init: "oc_initialized c" and k: "keyed k (w_host w)"
    and img: "flat_image c w (concat (map block_bytes cs))"
    and cs: "list_all2 (sealed L k) cs bs"
    by (auto simp: linear_view_def)
  from linear_loop_read [OF L cs k, of a buf] obtain cs' bs' out h' where
    loop: "linear_loop L Operation_kRead a (length bs) (concat (map block_bytes cs)) buf (w_host w)
      = Inr ((concat (map block_bytes cs'), out), h')" "keyed k h'"
      "list_all2 (sealed L k) cs' bs'" "map payload bs' = map payload bs"
      "payload out = payload (pick a bs buf)"
    by blast
  from ReadFromServer_image [OF img] obtain w1 where
    w1: "ReadFromServer c w = ((OK, concat (map block_bytes cs)), w1)" "w_host w1 = w_host w"
      "flat_image c w1 (concat (map block_bytes cs))" "made [Call_ReadFlat (assemble_header c)] w w1" by blast
  let ?d = "concat (map block_bytes cs')"
  from w1(3) have "flat_image c (w1\<lparr>w_host := h'\<rparr>) (concat (map block_bytes cs))" by simp
  have len: "length ?d = 560 * length bs"
    using length_sealed_concat [OF loop(3)] map_eq_imp_length_eq [OF loop(4)] by simp
  then have "fits_message ?d"
    using img length_sealed_concat [OF cs] by (simp add: flat_image_def fits_message_def)
  from WriteToServer_image [OF \<open>flat_image c (w1\<lparr>w_host := h'\<rparr>) _\<close> this] obtain w'
    where w': "WriteToServer c ?d (w1\<lparr>w_host := h'\<rparr>) = (OK, w')"
      "w_host w' = h'" "flat_image c w' ?d" "made [Call_WriteFlat (assemble_header c) ?d] w1 w'" by auto
  have calls: "made (linear_calls c ?d) w w'" "length ?d = 560 * length bs"
    using made_trans [OF w1(4) w'(4)] len by (simp_all add: linear_calls_def)
  have "Linear_Access L Operation_kRead a buf cw = Inr ((OK, out), c, w')"
    using cw init loop(1) w'(1) w1(1,2) length_sealed_concat [OF cs]
    by (simp add: Linear_Access_def Access_def Linear_InternalAccess_def ORAM_BLOCK_SIZE_def)
  moreover have "linear_view L k (c, w') bs'"
    using init w' loop by (auto simp: linear_view_def)
  ultimately show ?thesis using loop calls cw by auto
qed

lemma Linear_Access_write:
  assumes L: "sodium_ok L" and v: "linear_view L k cw bs" and x: "wf_block x"
  shows "\<exists>cw' bs'. Linear_Access L Operation_kWrite a x cw = Inr ((OK, x), cw')
    \<and> linear_view L k cw' bs' \<and> map payload bs' = map (\<lambda>b. payload (put_data a (data x) b)) bs
    \<and> fst cw' = fst cw
    \<and> (\<exists>d. length d = 560 * length bs \<and> made (linear_calls (fst cw) d) (snd cw) (snd cw'))"
proof -
  obtain c w where cw: "cw = (c, w)" by (cases cw)
  with v obtain cs where init: "oc_initialized c" and k: "keyed k (w_host w)"
    and img: "flat_image c w (concat (map block_bytes cs))"
    and cs: "list_all2 (sealed L k) cs bs"
    by (auto simp: linear_view_def)
  from linear_loop_write [OF L x cs k, of a] obtain cs' bs' h' where
    loop: "linear_loop L Operation_kWrite a (length bs) (concat (map block_bytes cs)) x (w_host w)
      = Inr ((concat (map block_bytes cs'), x), h')" "keyed k h'"
      "list_all2 (sealed L k) cs' bs'"
      "map payload bs' = map (\<lambda>b. payload (put_data a (data x) b)) bs"
    by blast
  from ReadFromServer_image [OF img] obtain w1 where
    w1: "ReadFromServer c w = ((OK, concat (map block_bytes cs)), w1)" "w_host w1 = w_host w"
      "flat_image c w1 (concat (map block_bytes cs))" "made [Call_ReadFlat (assemble_header c)] w w1" by blast
  let ?d = "concat (map block_bytes cs')"
  from w1(3) have "flat_image c (w1\<lparr>w_host := h'\<rparr>) (concat (map block_bytes cs))" by simp
  have len: "length ?d = 560 * length bs"
    using length_sealed_concat [OF loop(3)] map_eq_imp_length_eq [OF loop(4)] by simp
  then have "fits_message ?d"
    using img length_sealed_concat [OF cs] by (simp add: flat_image_def fits_message_def)
  from WriteToServer_image [OF \<open>flat_image c (w1\<lparr>w_host := h'\<rparr>) _\<close> this] obtain w'
    where w': "WriteToServer c ?d (w1\<lparr>w_host := h'\<rparr>) = (OK, w')"
      "w_host w' = h'" "flat_image c w' ?d" "made [Call_WriteFlat (assemble_header c) ?d] w1 w'" by auto
  have calls: "made (linear_calls c ?d) w w'" "length ?d = 560 * length bs"
    using made_trans [OF w1(4) w'(4)] len by (simp_all add: linear_calls_def)
  have "Linear_Access L Operation_kWrite a x cw = Inr ((OK, x), c, w')"
    using cw init loop(1) w'(1) w1(1,2) length_sealed_concat [OF cs]
    by (simp add: Linear_Access_def Access_def Linear_InternalAccess_def ORAM_BLOCK_SIZE_def)
  moreover have "linear_view L k (c, w') bs'"
    using init w' loop by (auto simp: linear_view_def)
  ultimately show ?thesis using loop calls cw by auto
qed

section \<open>A linear ORAM is a memory of blocks\<close>

definition linear_holds :: "libs \<Rightarrow> oram_controller \<times> world \<Rightarrow> (u32 \<rightharpoonup> bytes) \<Rightarrow> bool" where
  "linear_holds L cw m \<longleftrightarrow> sodium_ok L
     \<and> (\<exists>k bs. linear_view L k cw bs \<and> distinct (normal_ids bs) \<and> m = blocks_map bs)"

lemma linear_read_hit:
  assumes "linear_holds L cw m" and "m a = Some d"
  shows "\<exists>b cw'. Linear_Access L Operation_kRead a x cw = Inr ((OK, b), cw') \<and> data b = d
    \<and> block_id (header b) = a \<and> btype (header b) = BlockType_kNormal \<and> linear_holds L cw' m"
proof -
  from assms(1) obtain k bs where L: "sodium_ok L" and v: "linear_view L k cw bs"
    and dist: "distinct (normal_ids bs)" and m: "m = blocks_map bs"
    by (auto simp: linear_holds_def)
  from Linear_Access_read [OF L v, of a x] obtain out cw' bs' where
    r: "Linear_Access L Operation_kRead a x cw = Inr ((OK, out), cw')"
      "linear_view L k cw' bs'" "map payload bs' = map payload bs"
      "payload out = payload (pick a bs x)" by blast
  have "BlockEqual a (pick a bs x) \<and> data (pick a bs x) = d"
    using pick_found [OF dist] assms(2) m by simp
  then have "BlockEqual a out" "data out = d"
    using BlockEqual_payload [OF r(4)] payload_eqD [OF r(4)] by auto
  moreover have "linear_holds L cw' m"
    unfolding linear_holds_def using L r(2) dist m map_payload_views [OF r(3)]
    by (intro conjI exI [of _ k] exI [of _ bs']) simp_all
  ultimately show ?thesis using r(1) by (auto simp: BlockEqual_def)
qed

text \<open>An address that is not there: the status is OK, and the caller's block stays as it is.\<close>

lemma linear_read_miss:
  assumes "linear_holds L cw m" and "m a = None"
  shows "\<exists>b cw'. Linear_Access L Operation_kRead a x cw = Inr ((OK, b), cw') \<and> payload b = payload x
    \<and> linear_holds L cw' m"
proof -
  from assms(1) obtain k bs where L: "sodium_ok L" and v: "linear_view L k cw bs"
    and dist: "distinct (normal_ids bs)" and m: "m = blocks_map bs"
    by (auto simp: linear_holds_def)
  from Linear_Access_read [OF L v, of a x] obtain out cw' bs' where
    r: "Linear_Access L Operation_kRead a x cw = Inr ((OK, out), cw')"
      "linear_view L k cw' bs'" "map payload bs' = map payload bs"
      "payload out = payload (pick a bs x)" by blast
  have "pick a bs x = x" using pick_notin assms(2) m by (simp add: blocks_map_None)
  moreover have "linear_holds L cw' m"
    unfolding linear_holds_def using L r(2) dist m map_payload_views [OF r(3)]
    by (intro conjI exI [of _ k] exI [of _ bs']) simp_all
  ultimately show ?thesis using r(1,4) by auto
qed

lemma linear_write_hit:
  assumes "linear_holds L cw m" and "m a = Some d" and x: "wf_block x"
  shows "\<exists>b cw'. Linear_Access L Operation_kWrite a x cw = Inr ((OK, b), cw')
    \<and> linear_holds L cw' (m(a \<mapsto> data x))"
proof -
  from assms(1) obtain k bs where L: "sodium_ok L" and v: "linear_view L k cw bs"
    and dist: "distinct (normal_ids bs)" and m: "m = blocks_map bs"
    by (auto simp: linear_holds_def)
  from Linear_Access_write [OF L v x, of a] obtain cw' bs' where
    r: "Linear_Access L Operation_kWrite a x cw = Inr ((OK, x), cw')"
      "linear_view L k cw' bs'"
      "map payload bs' = map (\<lambda>b. payload (put_data a (data x) b)) bs" by blast
  have eq: "map payload bs' = map payload (map (put_data a (data x)) bs)"
    using r(3) by simp
  have "linear_holds L cw' (m(a \<mapsto> data x))"
    unfolding linear_holds_def
    using L r(2) dist m assms(2) map_payload_views [OF eq] put_data_views(1) [of a "data x" bs]
      put_data_views(2) [of bs a "data x"]
    by (intro conjI exI [of _ k] exI [of _ bs']) auto
  with r(1) show ?thesis by blast
qed

interpretation linear: block_ram "Linear_Access L" "linear_holds L" wf_block for L
  by unfold_locales (fact linear_read_hit, fact linear_write_hit)

section \<open>Filling\<close>

lemma encrypt_all_seals:
  assumes L: "sodium_ok L"
  shows "list_all wf_block bs \<Longrightarrow> keyed k h \<Longrightarrow>
    \<exists>cs h'. encrypt_all L bs h = Inr (concat (map block_bytes cs), h') \<and> keyed k h'
      \<and> list_all2 (sealed L k) cs bs"
proof (induction bs arbitrary: h)
  case Nil
  then show ?case by (intro exI [of _ "[]"]) simp
next
  case (Cons b bs)
  from EncryptBlock_seals [OF L, of b k h] Cons.prems obtain e where
    e: "EncryptBlock L b h = Inr ((OK, e), h\<lparr>draws := draws h + 1\<rparr>)" "sealed L k e b" by auto
  from Cons.IH [of "h\<lparr>draws := draws h + 1\<rparr>"] Cons.prems obtain cs h' where
    "encrypt_all L bs (h\<lparr>draws := draws h + 1\<rparr>) = Inr (concat (map block_bytes cs), h')"
    "keyed k h'" "list_all2 (sealed L k) cs bs" by auto
  with e show ?case by (intro exI [of _ "e # cs"] exI [of _ h']) simp
qed

lemma Linear_FillWithData_view:
  assumes L: "sodium_ok L" and k: "keyed k (w_host w)" and img: "flat_image c w img"
    and bs: "list_all wf_block bs" "length bs \<le> 7489"
  shows "\<exists>w'. Linear_FillWithData L bs (c, w) = Inr (OK, c\<lparr>oc_initialized := True\<rparr>, w')
    \<and> linear_view L k (c\<lparr>oc_initialized := True\<rparr>, w') bs"
proof -
  from encrypt_all_seals [OF L bs(1) k] obtain cs h where
    cs: "encrypt_all L bs (w_host w) = Inr (concat (map block_bytes cs), h)" "keyed k h"
      "list_all2 (sealed L k) cs bs" by blast
  let ?c = "c\<lparr>oc_initialized := True\<rparr>" and ?d = "concat (map block_bytes cs)"
  have img': "flat_image ?c (w\<lparr>w_host := h\<rparr>) img" using img by (simp add: flat_image_def)
  have "fits_message ?d" using length_sealed_concat [OF cs(3)] bs(2) by (auto simp: fits_message_def)
  from WriteToServer_image [OF img' this] obtain w' where
    w': "WriteToServer ?c ?d (w\<lparr>w_host := h\<rparr>) = (OK, w')" "w_host w' = h" "flat_image ?c w' ?d" by auto
  obtain status u w2 where r: "stub_WriteFlatMemory (assemble_header ?c) ?d (w\<lparr>w_host := h\<rparr>) = ((status, u), w2)"
    by (metis prod.collapse)
  with w'(1) have "is_ok status" "w2 = w'"
    by (auto simp: WriteToServer_def OK_def mk_status_def split: if_splits)
  then have "Linear_FillWithData L bs (c, w) = Inr (OK, ?c, w')"
    using cs(1) r by (simp add: Linear_FillWithData_def Let_def)
  moreover have "linear_view L k (?c, w') bs"
    using w' cs by (auto simp: linear_view_def)
  ultimately show ?thesis by blast
qed

lemma Linear_FillWithData_holds:
  assumes L: "sodium_ok L" and k: "keyed k (w_host w)" and img: "flat_image c w img"
    and bs: "list_all wf_block bs" "length bs \<le> 7489" and dist: "distinct (normal_ids bs)"
  shows "\<exists>cw'. Linear_FillWithData L bs (c, w) = Inr (OK, cw')
    \<and> linear_holds L cw' (blocks_map bs)"
  using Linear_FillWithData_view [OF L k img bs] L dist by (auto simp: linear_holds_def)

text \<open>More blocks than fit into a message: the request is refused and the filling fails.\<close>

lemma Linear_FillWithData_too_large:
  assumes L: "sodium_ok L" and k: "keyed k (w_host w)" and c: "length (oc_hash c) = 32"
    and bs: "list_all wf_block bs" "\<not> length bs \<le> 7489"
  shows "\<exists>st w'. Linear_FillWithData L bs (c, w) = Inr (st, c\<lparr>oc_initialized := True\<rparr>, w')
    \<and> error_code st = kServerError \<and> nested_status st = []"
proof -
  from encrypt_all_seals [OF L bs(1) k] obtain cs h where
    cs: "encrypt_all L bs (w_host w) = Inr (concat (map block_bytes cs), h)"
      "list_all2 (sealed L k) cs bs" by blast
  let ?c = "c\<lparr>oc_initialized := True\<rparr>" and ?d = "concat (map block_bytes cs)"
  have "small_header (assemble_header ?c)" using c by simp
  from flat_storage_fits(1) [OF this length_sealed_concat [OF cs(2)]] bs(2)
  have "max_message < request_size (Call_WriteFlat (assemble_header ?c) ?d)" by simp
  then have "\<exists>st u w'. stub_WriteFlatMemory (assemble_header ?c) ?d (w\<lparr>w_host := h\<rparr>) = ((st, u), w') \<and> \<not> is_ok st"
    by (simp add: rpc_def split: option.split)
  with cs(1) show ?thesis by (auto simp: Linear_FillWithData_def Let_def mk_status_def)
qed

lemma Linear_InitOram_image:
  assumes "w_srv w = Some s" and "storages s (oc_id c) = None"
    and "oc_id c < kMaximumOramStorageNum" "length (oc_hash c) = 32"
  shows "\<exists>w'. Linear_InitOram (c, w) = (OK, c, w') \<and> flat_image c w' [] \<and> w_host w' = w_host w"
proof -
  let ?c = "Call_InitFlat (assemble_header c) (of_nat (oc_block_num c)) (of_nat ORAM_BLOCK_SIZE)"
  have "request_size ?c \<le> max_message" using assms(4) by (intro small_requests(2)) simp
  moreover let ?st = "FlatOramServerStorage (oc_id c) (unat (of_nat (oc_block_num c) :: u32))
      (unat (of_nat ORAM_BLOCK_SIZE :: u32)) (oc_hash c)"
  let ?s = "put_storage (assemble_header c) (Flat ?st) s"
  have "InitFlatOram (assemble_header c) (of_nat (oc_block_num c)) (of_nat ORAM_BLOCK_SIZE) s
      = Inr ((grpc_ok, ()), ?s)"
    using assms(2,3) by (simp add: not_le [symmetric] InitFlatOram_def CheckInitRequest_def assemble_header_def Let_def)
  ultimately have "Linear_InitOram (c, w) = (OK, c, (logged ?c w)\<lparr>w_srv := Some ?s\<rparr>)"
    using assms(1) by (simp add: Linear_InitOram_def rpc_ok)
  moreover have "storages ?s (oc_id c) = Some (Flat ?st)" "st_type ?st = kFlatStorage"
    "st_instance_hash ?st = oc_hash c" "flat_memory ?st = []"
    by (simp_all add: put_storage_def assemble_header_def FlatOramServerStorage_def)
  ultimately show ?thesis using assms(4) by (auto simp: flat_image_def fits_message_def)
qed

lemma linear_oram_set_up:
  assumes "sodium_ok L" and "keyed k h" and "storages s i = None" "i < kMaximumOramStorageNum"
    and "list_all wf_block ds"
  shows "\<exists>c h0 w1. LinearOramController L memory i True block_num h = Inr (c, h0)
    \<and> Linear_InitOram (c, \<lparr>w_host = h0, w_srv = Some s, w_log = []\<rparr>) = (OK, c, w1)
    \<and> (if length ds \<le> 7489 then \<exists>cw2. Linear_FillWithData L ds (c, w1) = Inr (OK, cw2) \<and> linear_view L k cw2 ds
       else \<exists>st cw2. Linear_FillWithData L ds (c, w1) = Inr (st, cw2) \<and> error_code st = kServerError)"
proof -
  from assms(1,2) obtain c h0 where c: "LinearOramController L memory i True block_num h = Inr (c, h0)"
    "oc_id c = i" "keyed k h0" "length (oc_hash c) = 32"
    by (auto simp: LinearOramController_def OramController_def GetInstance_def keyed_def RandomBytes_def sodium_ok_def)
  from Linear_InitOram_image [of "\<lparr>w_host = h0, w_srv = Some s, w_log = []\<rparr>" s c] c(2,4) assms(3,4) obtain w1 where
    w1: "Linear_InitOram (c, \<lparr>w_host = h0, w_srv = Some s, w_log = []\<rparr>) = (OK, c, w1)" "flat_image c w1 []"
      "w_host w1 = h0" by auto
  have k1: "keyed k (w_host w1)" using c(3) w1(3) by simp
  show ?thesis
  proof (cases "length ds \<le> 7489")
    case True
    from Linear_FillWithData_view [OF assms(1) k1 w1(2) assms(5) this] c(1) w1(1) True show ?thesis by auto
  next
    case False
    from Linear_FillWithData_too_large [OF assms(1) k1 c(4) assms(5) False] c(1) w1(1) False show ?thesis by auto
  qed
qed

section \<open>What the server sees\<close>

text \<open>
  Every access makes the same two calls, of the same lengths, whatever its operation and its
  address and whether the block is there.
\<close>

lemma linear_request_calls:
  assumes L: "sodium_ok L" and v: "linear_view L k cw bs" and r: "writes_wf r"
  shows "\<exists>o1 cw' bs' cs. run_requests (Linear_Access L) buf [r] cw = Inr (o1, cw')
    \<and> linear_view L k cw' bs' \<and> length bs' = length bs \<and> fst cw' = fst cw \<and> made cs (snd cw) (snd cw')
    \<and> map shape cs = linear_calls (fst cw) (replicate (560 * length bs) 0)"
proof (cases r)
  case (Read a)
  from Linear_Access_read [OF L v, of a buf] obtain out cw' bs' d where
    "Linear_Access L Operation_kRead a buf cw = Inr ((OK, out), cw')" "linear_view L k cw' bs'"
    "map payload bs' = map payload bs" "fst cw' = fst cw" "length d = 560 * length bs"
    "made (linear_calls (fst cw) d) (snd cw) (snd cw')" by blast
  with Read show ?thesis
    by (intro exI [of _ "[(OK, data out)]"] exI [of _ cw'] exI [of _ bs'] exI [of _ "linear_calls (fst cw) d"])
      (auto simp: linear_calls_def dest: map_eq_imp_length_eq)
next
  case (Write a x)
  with r have "wf_block x" by simp
  from Linear_Access_write [OF L v this, of a] obtain cw' bs' d where
    "Linear_Access L Operation_kWrite a x cw = Inr ((OK, x), cw')" "linear_view L k cw' bs'"
    "map payload bs' = map (\<lambda>b. payload (put_data a (data x) b)) bs" "fst cw' = fst cw"
    "length d = 560 * length bs" "made (linear_calls (fst cw) d) (snd cw) (snd cw')" by blast
  with Write show ?thesis
    by (intro exI [of _ "[(OK, [])]"] exI [of _ cw'] exI [of _ bs'] exI [of _ "linear_calls (fst cw) d"])
      (auto simp: linear_calls_def dest: map_eq_imp_length_eq)
qed

lemma linear_requests_calls:
  assumes "sodium_ok L" "linear_view L k cw bs" "\<forall>r \<in> set rs. writes_wf r"
  shows "\<exists>outs cw' cs. run_requests (Linear_Access L) buf rs cw = Inr (outs, cw') \<and> made cs (snd cw) (snd cw')
    \<and> map shape cs = concat (replicate (length rs) (linear_calls (fst cw) (replicate (560 * length bs) 0)))"
  using assms(2,3)
proof (induction rs arbitrary: cw bs)
  case Nil
  then show ?case by (simp add: made_def)
next
  case (Cons r rs)
  from linear_request_calls [OF assms(1) Cons.prems(1), of r buf] Cons.prems(2) obtain o1 cw1 bs1 cs where
    one: "run_requests (Linear_Access L) buf [r] cw = Inr (o1, cw1)" "linear_view L k cw1 bs1"
      "length bs1 = length bs" "fst cw1 = fst cw" "made cs (snd cw) (snd cw1)"
      "map shape cs = linear_calls (fst cw) (replicate (560 * length bs) 0)" by auto
  from Cons.IH [OF one(2)] Cons.prems(2) obtain outs cw' cs' where
    "run_requests (Linear_Access L) buf rs cw1 = Inr (outs, cw')" "made cs' (snd cw1) (snd cw')"
    "map shape cs' = concat (replicate (length rs) (linear_calls (fst cw1) (replicate (560 * length bs1) 0)))" by auto
  with one made_trans [OF one(5)] show ?case
    by (intro exI [of _ "o1 @ outs"] exI [of _ cw'] exI [of _ "cs @ cs'"]) (simp add: run_requests_Cons [of _ _ r rs])
qed

end
