(* ===== verification/Sqrt_Oram.thy ===== *)
theory Sqrt_Oram
  imports Oram_Views
begin

text \<open>
  The square root ORAM (core/square\_root\_oram\_controller.h and .cc). What is proved of it is
  in the theory \<open>Sqrt_Oram_Correct\<close>.
\<close>

section \<open>State and constructor\<close>

record sqrt_oram = oram_controller +
  so_sqrt_m :: nat
  so_next_dummy :: nat
  so_position :: "u32 \<rightharpoonup> u32"
  so_counter :: u32

definition kShelter :: u32 where "kShelter = 0"
definition kMainMemory :: u32 where "kMainMemory = 1"
definition kDummy :: u32 where "kDummy = 2"

text \<open>The square root, rounded up: the first \<open>s\<close>, from a given start, with \<open>n \<le> s * s\<close>.\<close>

function sqrt_up_from :: "nat \<Rightarrow> nat \<Rightarrow> nat" where
  "sqrt_up_from n s = (if n \<le> s * s then s else sqrt_up_from n (Suc s))"
  by pat_completeness auto
termination
proof (relation "measure (\<lambda>(n, s). n - s)")
  fix n s :: nat assume "\<not> n \<le> s * s"
  then have "s < n" by (meson le_square not_le order_trans)
  then show "((n, Suc s), (n, s)) \<in> measure (\<lambda>(n, s). n - s)" by simp
qed simp

declare sqrt_up_from.simps [simp del]

definition ceil_sqrt :: "nat \<Rightarrow> nat" where
  "ceil_sqrt n = sqrt_up_from n 0"

text \<open>The constructor insists on \<open>m + \<surd>m\<close> being a power of two (or zero).\<close>

definition SquareRootOramController :: "libs \<Rightarrow> cryptor \<Rightarrow> u32 \<Rightarrow> bool \<Rightarrow> nat \<Rightarrow> host
    \<Rightarrow> (sqrt_oram \<times> host) exec" where
  "SquareRootOramController L memory i standalone block_num h =
     andThen (OramController L memory i standalone block_num kSquareOram h) (\<lambda>(c, h').
       let m = ceil_sqrt block_num in
       panic_if (and (m + block_num) (m + block_num - 1) \<noteq> 0)
         (Inr (oram_controller.extend c (sqrt_oram.fields m 0 Map.empty 0), h')))"

section \<open>Filling\<close>

text \<open>
  \<open>memory i\<close> is what the uninitialised local block holds in iteration \<open>i\<close>. With more data than
  places the loop of \<open>Padded\<close> never meets its end.
\<close>

definition Padded :: "(nat \<Rightarrow> oram_block) \<Rightarrow> oram_block list \<Rightarrow> nat \<Rightarrow> oram_block list exec" where
  "Padded memory ds num =
     (if num < length ds then Inl Never_Returns
      else Inr (ds @ map (\<lambda>i. (memory i)\<lparr>header := (header (memory i))
        \<lparr>btype := BlockType_kInvalid, block_id := of_nat i\<rparr>\<rparr>) [length ds..<num]))"

definition CreateVec :: "nat \<Rightarrow> u32 list" where
  "CreateVec n = map of_nat [0..<n]"

text \<open>\<open>position_map_[i]\<close> is set to \<open>perm[i]\<close> first and composed with \<open>perm\<close> later on.\<close>

fun update_position :: "u32 list \<Rightarrow> nat list \<Rightarrow> (u32 \<rightharpoonup> u32) \<Rightarrow> (u32 \<rightharpoonup> u32) exec" where
  "update_position perm [] pm = Inr pm"
| "update_position perm (i # is) pm =
     (case pm (of_nat i) of
        None \<Rightarrow> update_position perm is (pm(of_nat i \<mapsto> perm ! i))
      | Some p \<Rightarrow>
          if unat p < length perm then update_position perm is (pm(of_nat i \<mapsto> perm ! unat p))
          else Inl Undefined_Behaviour)"

definition UpdatePosition :: "u32 list \<Rightarrow> (u32 \<rightharpoonup> u32) \<Rightarrow> (u32 \<rightharpoonup> u32) exec" where
  "UpdatePosition perm pm = update_position perm [0..<length perm] pm"

text \<open>
  \<open>std::sort\<close> with \<open><=\<close> for a comparison. With distinct identifiers it is the comparison by \<open><\<close> of any two
  different blocks, and sorts, as the implementations do not compare a block with itself; two
  equal identifiers make it inconsistent.
\<close>

definition sort_blocks :: "oram_block list \<Rightarrow> oram_block list exec" where
  "sort_blocks bs =
     (if distinct (map (\<lambda>b. block_id (header b)) bs)
      then Inr (sort_key (\<lambda>b. block_id (header b)) bs) else Inl Undefined_Behaviour)"

definition Sqrt_InitOram :: "sqrt_oram \<times> world \<Rightarrow> oram_status \<times> sqrt_oram \<times> world" where
  "Sqrt_InitOram cw =
     (case cw of (c, w) \<Rightarrow>
      case stub_InitSqrtOram (assemble_header c) (of_nat (oc_block_num c)) (of_nat (so_sqrt_m c))
                  (of_nat ORAM_BLOCK_SIZE) w of ((status, _), w') \<Rightarrow>
        (if \<not> is_ok status then mk_status kServerError (grpc_message status) ''InitOram''
         else OK, c, w'))"

fun seal_all :: "libs \<Rightarrow> oram_block list \<Rightarrow> host \<Rightarrow> (bytes list \<times> host) exec" where
  "seal_all L [] h = Inr ([], h)"
| "seal_all L (b # bs) h =
     andThen (EncryptBlock L b h) (\<lambda>((_, b'), h').
     andThen (seal_all L bs h') (\<lambda>(rest, h''). Inr (ConvertToString b' # rest, h'')))"

text \<open>The status of \<open>RandomPermutation\<close> is not looked at.\<close>

definition Sqrt_FillWithData :: "libs \<Rightarrow> (nat \<Rightarrow> oram_block) \<Rightarrow> oram_block list \<Rightarrow> sqrt_oram \<times> world
    \<Rightarrow> (oram_status \<times> sqrt_oram \<times> world) exec" where
  "Sqrt_FillWithData L memory ds cw =
     (case cw of (c, w) \<Rightarrow>
      andThen (Padded memory ds (oc_block_num c + so_sqrt_m c)) (\<lambda>padded.
      andThen (RandomPermutation L (CreateVec (length padded)) (w_host w)) (\<lambda>((_, perm), h).
      andThen (UpdatePosition perm (so_position c)) (\<lambda>pm.
      andThen (sort_blocks padded) (\<lambda>sorted.
      andThen (PermuteBy perm sorted) (\<lambda>placed.
      andThen (seal_all L placed h) (\<lambda>(contents, h').
        let c1 = c\<lparr>so_position := pm\<rparr> in
        case stub_LoadSqrtOram (assemble_header c1) contents (w\<lparr>w_host := h'\<rparr>) of
          ((status, _), w') \<Rightarrow>
            Inr (if \<not> is_ok status
                 then (mk_status kServerError (grpc_message status) ''FillWithData'', c1, w')
                 else (OK, c1\<lparr>oc_initialized := True\<rparr>, w')))))))))"

section \<open>Reading and writing\<close>

text \<open>
  The scan of the whole shelter, \<open>n\<close> entries from entry \<open>i\<close> on; the block the caller passes is
  replaced by the last match.
\<close>

fun scan_shelter :: "libs \<Rightarrow> nat \<Rightarrow> nat \<Rightarrow> bool \<Rightarrow> oram_block \<Rightarrow> sqrt_oram \<times> world
    \<Rightarrow> ((oram_status \<times> bool \<times> oram_block) \<times> world) exec" where
  "scan_shelter L i 0 found blk (c, w) = Inr ((OK, found, blk), w)"
| "scan_shelter L i (Suc n) found blk (c, w) =
     (case stub_ReadSqrtMemory (assemble_header c) kShelter (of_nat i) w of
        ((status, content), w') \<Rightarrow>
          if \<not> is_ok status
          then Inr ((mk_status kServerError (grpc_message status) ''ReadShelter'', False, blk), w')
          else if content = [] then scan_shelter L (Suc i) n found blk (c, w')
          else andThen (ConvertToBlock content) (\<lambda>b.
               andThen (DecryptBlock L b (w_host w')) (\<lambda>(_, b').
                 if btype (header b') = BlockType_kNormal
                    \<and> block_id (header b') = block_id (header blk)
                 then scan_shelter L (Suc i) n True b' (c, w')
                 else scan_shelter L (Suc i) n found blk (c, w'))))"

definition ReadShelter :: "libs \<Rightarrow> oram_block \<Rightarrow> sqrt_oram \<times> world
    \<Rightarrow> ((oram_status \<times> oram_block) \<times> world) exec" where
  "ReadShelter L blk cw =
     andThen (scan_shelter L 0 (so_sqrt_m (fst cw)) False blk cw) (\<lambda>((status, found, blk'), w').
       Inr ((if \<not> ok status then status
             else if found then OK
             else mk_status kObjectNotFound
               (''The target block '' @ to_string (unat (block_id (header blk')))
                @ '' is not found in the shelter.'') '''', blk'), w'))"

text \<open>\<open>ReadBlock\<close> from main memory or from the dummies; a dummy's contents are not looked at.\<close>

definition ReadBlock :: "libs \<Rightarrow> u32 \<Rightarrow> u32 \<Rightarrow> oram_block \<Rightarrow> sqrt_oram \<times> world
    \<Rightarrow> ((oram_status \<times> oram_block) \<times> world) exec" where
  "ReadBlock L from pos blk cw =
     (if from = kShelter then ReadShelter L blk cw
      else case cw of (c, w) \<Rightarrow>
        case stub_ReadSqrtMemory (assemble_header c) from pos w of ((status, content), w') \<Rightarrow>
          if \<not> is_ok status
          then Inr ((mk_status kServerError (grpc_message status) ''ReadBlock'', blk), w')
          else if from \<noteq> kDummy
          then if content \<noteq> []
               then andThen (ConvertToBlock content) (\<lambda>b.
                    andThen (DecryptBlock L b (w_host w')) (\<lambda>(_, b'). Inr ((OK, b'), w')))
               else Inr ((mk_status kObjectNotFound
                 ''The target block cannot be found both in shelter and main memory.'' '''', blk), w')
          else Inr ((OK, blk), w'))"

text \<open>\<open>WriteBlock\<close> encrypts the caller's block where it is.\<close>

definition WriteBlock :: "libs \<Rightarrow> u32 \<Rightarrow> oram_block \<Rightarrow> sqrt_oram \<times> world
    \<Rightarrow> ((oram_status \<times> oram_block) \<times> world) exec" where
  "WriteBlock L position blk cw =
     (case cw of (c, w) \<Rightarrow>
      andThen (EncryptBlock L blk (w_host w)) (\<lambda>((_, blk'), h).
        case stub_WriteSqrtMemory (assemble_header c) (ConvertToString blk') position
               (w\<lparr>w_host := h\<rparr>) of ((status, _), w') \<Rightarrow>
          Inr ((if \<not> is_ok status
                then mk_status kServerError (grpc_message status) ''WriteBlock''
                else OK, blk'), w')))"

section \<open>Permuting\<close>

definition Sqrt_DoPermute :: "u32 list \<Rightarrow> sqrt_oram \<times> world
    \<Rightarrow> (oram_status \<times> sqrt_oram \<times> world) exec" where
  "Sqrt_DoPermute perm cw =
     (case cw of (c, w) \<Rightarrow>
      case stub_SqrtPermute (assemble_header c) perm w of ((status, _), w') \<Rightarrow>
        if \<not> is_ok status
        then Inr (mk_status kServerError (grpc_message status) ''DoPermute'', c, w')
        else andThen (UpdatePosition perm (so_position c)) (\<lambda>pm.
               Inr (OK, c\<lparr>so_position := pm\<rparr>, w')))"

definition PermuteOnFull :: "libs \<Rightarrow> sqrt_oram \<times> world
    \<Rightarrow> (oram_status \<times> sqrt_oram \<times> world) exec" where
  "PermuteOnFull L cw =
     (case cw of (c, w) \<Rightarrow>
      let c1 = c\<lparr>so_counter := so_counter c + 1\<rparr> in
      if unat (so_counter c1) = so_sqrt_m c1
      then let c2 = c1\<lparr>so_counter := 0, so_next_dummy := 0\<rparr> in
        andThen (RandomPermutation L (CreateVec (oc_block_num c2 + so_sqrt_m c2)) (w_host w))
          (\<lambda>((status, perm), h).
            let w' = w\<lparr>w_host := h\<rparr> in
            if \<not> ok status
            then Inr (Append status (mk_status kInvalidOperation
                   ''Sqaure Root Oram Controller cannot permute the memory'' ''PermuteOnFull''), c2, w')
            else Sqrt_DoPermute perm (c2, w'))
      else Inr (OK, c1, w))"

section \<open>Access\<close>

text \<open>What follows the reading of the block: the check of its identifier, the write, the permutation.\<close>

definition write_back :: "libs \<Rightarrow> operation \<Rightarrow> u32 \<Rightarrow> u32 \<Rightarrow> oram_block \<Rightarrow> oram_block
    \<Rightarrow> sqrt_oram \<times> world \<Rightarrow> ((oram_status \<times> oram_block) \<times> sqrt_oram \<times> world) exec" where
  "write_back L op address position block blk cw =
     (case cw of (c, w) \<Rightarrow>
      if btype (header block) = BlockType_kNormal \<and> block_id (header block) \<noteq> address
      then Inr ((mk_status kUnknownError
             (''The requested id '' @ to_string (unat address)
              @ '' does not match with the fetched block ''
              @ to_string (unat (block_id (header block)))) ''InternalAccess'', blk), c, w)
      else andThen (WriteBlock L position (if op = Operation_kRead then block else blk) (c, w))
        (\<lambda>((status, blk'), w').
          if op \<noteq> Operation_kRead \<and> \<not> ok status
          then Inr ((Append status (mk_status kInvalidOperation ''Cannot write back the block''
                 ''InternalAccess''), blk'), c, w')
          else andThen (PermuteOnFull L (c, w')) (\<lambda>(status, cw').
            Inr ((if \<not> ok status
                  then Append status (mk_status kUnknownError
                         ''Permutation failed or internal logic error!'' ''InternalAccess'')
                  else OK, blk'), cw'))))"

text \<open>\<open>memory\<close> is what the uninitialised local block holds.\<close>

definition Sqrt_InternalAccess :: "libs \<Rightarrow> oram_block \<Rightarrow> operation \<Rightarrow> u32 \<Rightarrow> oram_block \<Rightarrow> bool
    \<Rightarrow> sqrt_oram \<times> world \<Rightarrow> ((oram_status \<times> oram_block) \<times> sqrt_oram \<times> world) exec" where
  "Sqrt_InternalAccess L memory op address blk dum cw =
     (case cw of (c, w) \<Rightarrow>
      if \<not> oc_initialized c
      then Inr ((mk_status kInvalidOperation
             (''Cannot access ORAM before it is initialized. You may need to call `InitOram()` ''
              @ ''and `FillWithData()` method first.'') ''InternalAccess'', blk), c, w)
      else panic_if (op = Operation_kInvalid)
        (case so_position c address of
           None \<Rightarrow> Inr ((mk_status kInvalidArgument ''The requested block does not exist!''
                  ''InternalAccess'', blk), c, w)
         | Some position \<Rightarrow>
             let block = memory\<lparr>header := (header memory)
                   \<lparr>block_id := address, btype := BlockType_kNormal\<rparr>\<rparr> in
             andThen (ReadBlock L kShelter position block (c, w)) (\<lambda>((status, block), w1).
               if \<not> ok status \<and> error_code status \<noteq> kObjectNotFound
               then Inr ((Append status (mk_status kInvalidOperation
                      ''Square Root Oram Controller cannot read the block from the shelter''
                      ''InternalAccess''), blk), c, w1)
               else if ok status
               then andThen (ReadBlock L kDummy (of_nat (so_next_dummy c)) block (c, w1))
                 (\<lambda>((status, _), w2).
                   let c1 = c\<lparr>so_next_dummy := so_next_dummy c + 1\<rparr> in
                   if \<not> ok status
                   then Inr ((Append status (mk_status kInvalidOperation
                          (''Square Root Oram Controller cannot read the ''
                           @ ''block from the dummy area'') ''InternalAccess''), blk), c1, w2)
                   else write_back L op address position block blk (c1, w2))
               else andThen (ReadBlock L kMainMemory position block (c, w1))
                 (\<lambda>((status, block), w2).
                   if \<not> ok status
                   then Inr ((Append status (mk_status kInvalidOperation
                          (''Square Root Oram Controller cannot read the ''
                           @ ''block from the main memory'') ''InternalAccess''), blk), c, w2)
                   else write_back L op address position block blk (c, w2)))))"

definition Sqrt_Access :: "libs \<Rightarrow> oram_block \<Rightarrow> operation \<Rightarrow> u32 \<Rightarrow> oram_block
    \<Rightarrow> sqrt_oram \<times> world \<Rightarrow> ((oram_status \<times> oram_block) \<times> sqrt_oram \<times> world) exec" where
  "Sqrt_Access L memory = Access (Sqrt_InternalAccess L memory)"

end
