(* ===== verification/Sqrt_Views.thy ===== *)
theory Sqrt_Views
  imports Sqrt_Oram
begin

text \<open>
  The square root ORAM as its server keeps it: the sealed blocks of main memory and dummies, the
  shelter with its one entry, and what the controller's calls do to them; permutations and the
  position map.
\<close>

section \<open>The server's side\<close>

definition sealed_bytes :: "libs \<Rightarrow> bytes \<Rightarrow> bytes \<Rightarrow> oram_block \<Rightarrow> bool" where
  "sealed_bytes L k d b \<longleftrightarrow> (\<exists>e. d = block_bytes e \<and> sealed L k e b)"

text \<open>
  The storage of the controller \<open>c\<close>: the array (main memory, then dummies) holds the sealed
  blocks \<open>arr\<close>, and the shelter is \<open>sh\<close>. It is as large as one message can fill it, at most.
\<close>

definition sqrt_server :: "libs \<Rightarrow> bytes \<Rightarrow> sqrt_oram \<Rightarrow> world \<Rightarrow> oram_block list
    \<Rightarrow> (u32 \<times> bytes) list \<Rightarrow> bool" where
  "sqrt_server L k c w arr sh \<longleftrightarrow> (\<exists>s st. w_srv w = Some s \<and> storages s (oc_id c) = Some (Sqrt st)
     \<and> st_type st = kSqrtStorage \<and> st_instance_hash st = oc_hash c
     \<and> length (main_memory st) = oc_block_num c \<and> length (dummy st) = so_sqrt_m c
     \<and> list_all2 (sealed_bytes L k) (main_memory st @ dummy st) arr \<and> shelter st = sh
     \<and> length (oc_hash c) = 32 \<and> oc_block_num c + so_sqrt_m c \<le> 7449)"

lemma sqrt_server_fields [simp]:
  "sqrt_server L k (c\<lparr>so_position := pm\<rparr>) w arr sh = sqrt_server L k c w arr sh"
  "sqrt_server L k (c\<lparr>so_counter := n\<rparr>) w arr sh = sqrt_server L k c w arr sh"
  "sqrt_server L k (c\<lparr>so_next_dummy := d\<rparr>) w arr sh = sqrt_server L k c w arr sh"
  "sqrt_server L k c (w\<lparr>w_host := h\<rparr>) arr sh = sqrt_server L k c w arr sh"
  by (simp_all add: sqrt_server_def)

lemma sqrt_serverE:
  assumes "sqrt_server L k c w arr sh"
  obtains s st where "w_srv w = Some s" "storages s (oc_id c) = Some (Sqrt st)"
    "st_type st = kSqrtStorage" "st_instance_hash st = oc_hash c"
    "length (main_memory st) = oc_block_num c" "length (dummy st) = so_sqrt_m c"
    "list_all2 (sealed_bytes L k) (main_memory st @ dummy st) arr" "shelter st = sh"
    "length (oc_hash c) = 32" "oc_block_num c + so_sqrt_m c \<le> 7449"
  using assms by (auto simp: sqrt_server_def)

lemma sqrt_server_length:
  "sqrt_server L k c w arr sh \<Longrightarrow> length arr = oc_block_num c + so_sqrt_m c"
  by (auto simp: sqrt_server_def dest!: list_all2_lengthD)

lemma sealed_bytes_length: "sealed_bytes L k d b \<Longrightarrow> length d = 560"
  by (auto simp: sealed_bytes_def sealed_length)

lemma sealed_bytes_nonempty: "sealed_bytes L k d b \<Longrightarrow> d \<noteq> []"
  by (auto dest: sealed_bytes_length)

lemma sealed_bytes_all: "list_all2 (sealed_bytes L k) ds bs \<Longrightarrow> list_all (\<lambda>d. length d = 560) ds"
  by (auto simp: list_all_length list_all2_conv_all_nth intro: sealed_bytes_length)

text \<open>Opening what came from the server.\<close>

lemma open_sealed:
  assumes L: "sodium_ok L" and k: "keyed k h" and d: "sealed_bytes L k d b"
  shows "\<exists>c e. ConvertToBlock d = Inr c \<and> DecryptBlock L c h = Inr (OK, e) \<and> payload e = payload b
    \<and> wf_block e"
proof -
  from d obtain c where c: "d = block_bytes c" "sealed L k c b" by (auto simp: sealed_bytes_def)
  from DecryptBlock_sealed [OF L c(2) k] obtain e where
    "DecryptBlock L c h = Inr (OK, e)" "payload e = payload b" "wf_block e" by blast
  moreover have "ConvertToBlock d = Inr c"
    using c ConvertToBlock_ConvertToString [of c] by (simp add: ConvertToString_def sealed_def)
  ultimately show ?thesis by blast
qed

section \<open>The shelter\<close>

text \<open>An empty shelter, and one with a single entry, in its first place.\<close>

definition empty_shelter :: "nat \<Rightarrow> (u32 \<times> bytes) list" where
  "empty_shelter m = replicate m (kInvalidMask, [])"

definition shelter_with :: "nat \<Rightarrow> u32 \<Rightarrow> bytes \<Rightarrow> (u32 \<times> bytes) list" where
  "shelter_with m p d = (empty_shelter m)[0 := (p, d)]"

text \<open>The calls of a scan: \<open>n\<close> entries of the shelter from entry \<open>i\<close> on.\<close>

definition shelter_calls :: "request_header \<Rightarrow> nat \<Rightarrow> nat \<Rightarrow> server_call list" where
  "shelter_calls hdr i n = map (\<lambda>i. Call_ReadSqrt hdr kShelter (of_nat i)) [i..<i + n]"

lemma shelter_calls_simps [simp]:
  "shelter_calls hdr i 0 = []"
  "shelter_calls hdr i (Suc n) = Call_ReadSqrt hdr kShelter (of_nat i) # shelter_calls hdr (Suc i) n"
  by (simp_all add: shelter_calls_def upt_conv_Cons del: upt_Suc)

lemma read_shelter_entry:
  assumes srv: "sqrt_server L k c w arr sh" and i: "i < length sh" "length (snd (sh ! i)) \<le> 560" and m: "i < 2 ^ 32"
  shows "\<exists>w'. stub_ReadSqrtMemory (assemble_header c) kShelter (of_nat i) w
      = ((grpc_ok, snd (sh ! i)), w')
    \<and> w_host w' = w_host w \<and> sqrt_server L k c w' arr (sh[i := (kInvalidMask, [])])
    \<and> made [Call_ReadSqrt (assemble_header c) kShelter (of_nat i)] w w'"
proof -
  from srv obtain s st where s: "w_srv w = Some s" "storages s (oc_id c) = Some (Sqrt st)"
    "st_type st = kSqrtStorage" "st_instance_hash st = oc_hash c"
    "length (main_memory st) = oc_block_num c" "length (dummy st) = so_sqrt_m c"
    "list_all2 (sealed_bytes L k) (main_memory st @ dummy st) arr" "shelter st = sh"
    "length (oc_hash c) = 32" "oc_block_num c + so_sqrt_m c \<le> 7449"
    by (rule sqrt_serverE)
  have u: "unat (of_nat i :: u32) = i" using m by (intro unat_of_nat_u32) simp
  let ?st = "st\<lparr>shelter := sh[i := (kInvalidMask, [])]\<rparr>"
  let ?s = "put_storage (assemble_header c) (Sqrt ?st) s"
  let ?w = "(logged (Call_ReadSqrt (assemble_header c) kShelter (of_nat i)) w)\<lparr>w_srv := Some ?s\<rparr>"
  have "ReadSqrtMemory (assemble_header c) kShelter (of_nat i) s = Inr ((grpc_ok, snd (sh ! i)), ?s)"
    using s i u unfolding ReadSqrtMemory_def
    by (subst on_storage_ok [where st = "Sqrt st" and d = st])
      (simp_all add: assemble_header_def Check_def kShelter_def ReadBlockFromShelter_def)
  then have "stub_ReadSqrtMemory (assemble_header c) kShelter (of_nat i) w
      = ((grpc_ok, snd (sh ! i)), ?w)"
    using s(1,9) i(2) by (simp add: rpc_ok small_requests one_block_fits)
  moreover have "sqrt_server L k c ?w arr (sh[i := (kInvalidMask, [])])"
    using s by (simp add: sqrt_server_def put_storage_def assemble_header_def)
  ultimately show ?thesis by (intro exI [of _ ?w]) (simp add: made_def)
qed

lemma empty_shelter_update [simp]: "(empty_shelter m)[i := (kInvalidMask, [])] = empty_shelter m"
  by (cases "i < m") (auto simp: empty_shelter_def list_update_beyond intro: nth_equalityI simp: nth_list_update)

lemma scan_empty:
  "sqrt_server L k c w arr (empty_shelter m) \<Longrightarrow> i + n \<le> m \<Longrightarrow> m < 2 ^ 32 \<Longrightarrow>
    \<exists>w'. scan_shelter L i n found blk (c, w) = Inr ((OK, found, blk), w')
      \<and> w_host w' = w_host w \<and> sqrt_server L k c w' arr (empty_shelter m)
      \<and> made (shelter_calls (assemble_header c) i n) w w'"
proof (induction n arbitrary: i w)
  case (Suc n)
  have i: "i < length (empty_shelter m)" "length (snd (empty_shelter m ! i)) \<le> 560" "i < 2 ^ 32"
    using Suc.prems by (simp_all add: empty_shelter_def)
  have e: "snd (empty_shelter m ! i) = []" using i(1) by (simp add: empty_shelter_def)
  from read_shelter_entry [OF Suc.prems(1) i] obtain w1 where
    w1: "stub_ReadSqrtMemory (assemble_header c) kShelter (of_nat i) w = ((grpc_ok, []), w1)"
      "w_host w1 = w_host w" "sqrt_server L k c w1 arr (empty_shelter m)"
    "made [Call_ReadSqrt (assemble_header c) kShelter (of_nat i)] w w1"
    unfolding e empty_shelter_update by blast
  from Suc.IH [OF w1(3), of "Suc i"] Suc.prems w1 show ?case by (auto simp: made_def)
qed (simp add: made_def)

lemma ReadShelter_empty:
  assumes srv: "sqrt_server L k c w arr (empty_shelter (so_sqrt_m c))" and m: "so_sqrt_m c < 2 ^ 32"
  shows "\<exists>s w'. ReadShelter L blk (c, w) = Inr ((s, blk), w') \<and> error_code s = kObjectNotFound
    \<and> w_host w' = w_host w \<and> sqrt_server L k c w' arr (empty_shelter (so_sqrt_m c))
    \<and> made (shelter_calls (assemble_header c) 0 (so_sqrt_m c)) w w'"
proof -
  from scan_empty [OF srv _ m, where i = 0 and n = "so_sqrt_m c" and found = False and blk = blk]
  obtain w' where "scan_shelter L 0 (so_sqrt_m c) False blk (c, w) = Inr ((OK, False, blk), w')"
    "w_host w' = w_host w" "sqrt_server L k c w' arr (empty_shelter (so_sqrt_m c))"
    "made (shelter_calls (assemble_header c) 0 (so_sqrt_m c)) w w'" by auto
  then show ?thesis by (simp add: ReadShelter_def)
qed

lemma ReadShelter_one:
  assumes L: "sodium_ok L" and k: "keyed k (w_host w)" and d: "sealed_bytes L k d b"
    and srv: "sqrt_server L k c w arr (shelter_with (so_sqrt_m c) p d)"
    and m: "0 < so_sqrt_m c" "so_sqrt_m c < 2 ^ 32"
  shows "\<exists>s b' w'. ReadShelter L blk (c, w) = Inr ((s, if BlockEqual (block_id (header blk)) b then b' else blk), w')
    \<and> error_code s = (if BlockEqual (block_id (header blk)) b then kOK else kObjectNotFound)
    \<and> payload b' = payload b \<and> wf_block b'
    \<and> w_host w' = w_host w \<and> sqrt_server L k c w' arr (empty_shelter (so_sqrt_m c))
    \<and> made (shelter_calls (assemble_header c) 0 (so_sqrt_m c)) w w'"
proof -
  let ?m = "so_sqrt_m c" and ?sh = "shelter_with (so_sqrt_m c) p d"
  obtain n where n: "?m = Suc n" using m(1) by (cases ?m) auto
  have sh: "0 < length ?sh" "snd (?sh ! 0) = d" "?sh[0 := (kInvalidMask, [])] = empty_shelter ?m"
    using m(1) by (simp_all add: shelter_with_def empty_shelter_def n)
  from read_shelter_entry [OF srv sh(1)] sh sealed_bytes_length [OF d] obtain w1 where
    w1: "stub_ReadSqrtMemory (assemble_header c) kShelter (of_nat 0) w = ((grpc_ok, d), w1)"
      "w_host w1 = w_host w" "sqrt_server L k c w1 arr (empty_shelter ?m)"
      "made [Call_ReadSqrt (assemble_header c) kShelter 0] w w1" by auto
  have k1: "keyed k (w_host w1)" using k w1(2) by simp
  from open_sealed [OF L k1 d] obtain e b' where
    e: "ConvertToBlock d = Inr e" "DecryptBlock L e (w_host w1) = Inr (OK, b')" "payload b' = payload b"
      "wf_block b'" by blast
  let ?hit = "BlockEqual (block_id (header blk)) b"
  have hit: "btype (header b') = BlockType_kNormal \<and> block_id (header b') = block_id (header blk) \<longleftrightarrow> ?hit"
    using payload_eqD [OF e(3)] by (auto simp: BlockEqual_def)
  let ?blk = "if ?hit then b' else blk"
  from scan_empty [OF w1(3) _ m(2), where i = 1 and n = n and found = ?hit and blk = ?blk] n
  obtain w' where
    w': "scan_shelter L 1 n ?hit ?blk (c, w1) = Inr ((OK, ?hit, ?blk), w')"
      "w_host w' = w_host w1" "sqrt_server L k c w' arr (empty_shelter ?m)"
      "made (shelter_calls (assemble_header c) 1 n) w1 w'" by auto
  have "scan_shelter L 0 ?m False blk (c, w) = Inr ((OK, ?hit, ?blk), w')"
    using w1(1) e(1,2) w'(1) sealed_bytes_nonempty [OF d] hit
    by (cases ?hit) (simp_all add: n, blast+)
  then have "\<exists>s. ReadShelter L blk (c, w) = Inr ((s, ?blk), w')
      \<and> error_code s = (if ?hit then kOK else kObjectNotFound)"
    by (auto simp: ReadShelter_def)
  moreover have "made (shelter_calls (assemble_header c) 0 ?m) w w'"
    using made_trans [OF w1(4) w'(4)] by (simp add: n)
  ultimately show ?thesis using e(3,4) w' w1(2) by auto
qed

section \<open>Main memory, dummies, writing\<close>

lemma ReadBlock_main:
  assumes L: "sodium_ok L" and k: "keyed k (w_host w)" and srv: "sqrt_server L k c w arr sh"
    and p: "unat p < length arr"
  shows "\<exists>b w'. ReadBlock L kMainMemory p blk (c, w) = Inr ((OK, b), w') \<and> payload b = payload (arr ! unat p)
    \<and> wf_block b \<and> w_host w' = w_host w \<and> sqrt_server L k c w' arr sh
    \<and> made [Call_ReadSqrt (assemble_header c) kMainMemory p] w w'"
proof -
  from srv obtain s st where s: "w_srv w = Some s" "storages s (oc_id c) = Some (Sqrt st)"
    "st_type st = kSqrtStorage" "st_instance_hash st = oc_hash c"
    "length (main_memory st) = oc_block_num c" "length (dummy st) = so_sqrt_m c"
    "list_all2 (sealed_bytes L k) (main_memory st @ dummy st) arr" "shelter st = sh"
    "length (oc_hash c) = 32" "oc_block_num c + so_sqrt_m c \<le> 7449"
    by (rule sqrt_serverE)
  let ?d = "(main_memory st @ dummy st) ! unat p"
  let ?w = "(logged (Call_ReadSqrt (assemble_header c) kMainMemory p) w)\<lparr>w_srv := Some s\<rparr>"
  have len: "length arr = length (main_memory st) + length (dummy st)"
    using list_all2_lengthD [OF s(7)] by simp
  have d: "sealed_bytes L k ?d (arr ! unat p)" using s(7) p by (simp add: list_all2_nthD2)
  have "ReadBlockFromMain st p = Inr ?d"
    using p len
    by (cases "unat p < length (main_memory st)")
      (simp_all add: ReadBlockFromMain_def ReadBlockFromDummy_def nth_append less_diff_conv2)
  then have "ReadSqrtMemory (assemble_header c) kMainMemory p s = Inr ((grpc_ok, ?d), s)"
    using s p len unfolding ReadSqrtMemory_def
    by (subst on_storage_ok [where st = "Sqrt st" and d = st])
      (simp_all add: assemble_header_def Check_def kMainMemory_def)
  then have r: "stub_ReadSqrtMemory (assemble_header c) kMainMemory p w = ((grpc_ok, ?d), ?w)"
    using s(1,9) sealed_bytes_length [OF d] by (simp add: rpc_ok small_requests one_block_fits)
  from open_sealed [OF L k d] obtain e b where
    e: "ConvertToBlock ?d = Inr e" "DecryptBlock L e (w_host w) = Inr (OK, b)"
      "payload b = payload (arr ! unat p)" "wf_block b" by blast
  have "ReadBlock L kMainMemory p blk (c, w) = Inr ((OK, b), ?w)"
    using r e(1,2) sealed_bytes_nonempty [OF d]
    by (simp add: ReadBlock_def kMainMemory_def kShelter_def kDummy_def)
  moreover have "sqrt_server L k c ?w arr sh" using s by (simp add: sqrt_server_def)
  ultimately show ?thesis using e(3,4) by (intro exI [of _ b] exI [of _ ?w]) (simp add: made_def)
qed

lemma ReadBlock_dummy:
  assumes srv: "sqrt_server L k c w arr sh" and n: "n < so_sqrt_m c" and m: "so_sqrt_m c < 2 ^ 32"
  shows "\<exists>w'. ReadBlock L kDummy (of_nat n) blk (c, w) = Inr ((OK, blk), w') \<and> w_host w' = w_host w
    \<and> sqrt_server L k c w' arr sh \<and> made [Call_ReadSqrt (assemble_header c) kDummy (of_nat n)] w w'"
proof -
  from srv obtain s st where s: "w_srv w = Some s" "storages s (oc_id c) = Some (Sqrt st)"
    "st_type st = kSqrtStorage" "st_instance_hash st = oc_hash c"
    "length (main_memory st) = oc_block_num c" "length (dummy st) = so_sqrt_m c"
    "list_all2 (sealed_bytes L k) (main_memory st @ dummy st) arr" "shelter st = sh"
    "length (oc_hash c) = 32" "oc_block_num c + so_sqrt_m c \<le> 7449"
    by (rule sqrt_serverE)
  have u: "unat (of_nat n :: u32) = n" using n m by (intro unat_of_nat_u32) simp
  from sealed_bytes_all [OF s(7)] n s(6) have dl: "length (dummy st ! n) = 560" by (auto simp: list_all_iff)
  let ?w = "(logged (Call_ReadSqrt (assemble_header c) kDummy (of_nat n)) w)\<lparr>w_srv := Some s\<rparr>"
  have "ReadSqrtMemory (assemble_header c) kDummy (of_nat n) s = Inr ((grpc_ok, dummy st ! n), s)"
    using s n u unfolding ReadSqrtMemory_def
    by (subst on_storage_ok [where st = "Sqrt st" and d = st])
      (simp_all add: assemble_header_def Check_def kDummy_def ReadBlockFromDummy_def)
  then have "stub_ReadSqrtMemory (assemble_header c) kDummy (of_nat n) w
      = ((grpc_ok, dummy st ! n), ?w)"
    using s(1,9) one_block_fits [of "dummy st ! n"] dl by (simp add: rpc_ok small_requests)
  then have "ReadBlock L kDummy (of_nat n) blk (c, w) = Inr ((OK, blk), ?w)"
    by (simp add: ReadBlock_def kDummy_def kShelter_def)
  moreover have "sqrt_server L k c ?w arr sh" using s by (simp add: sqrt_server_def)
  ultimately show ?thesis by (intro exI [of _ ?w]) (simp add: made_def)
qed

lemma WriteBlock_view:
  assumes L: "sodium_ok L" and k: "keyed k (w_host w)" and b: "wf_block b"
    and srv: "sqrt_server L k c w arr (empty_shelter (so_sqrt_m c))" and m: "0 < so_sqrt_m c"
  shows "\<exists>e w'. WriteBlock L p b (c, w) = Inr ((OK, e), w') \<and> sealed L k e b \<and> keyed k (w_host w')
    \<and> sqrt_server L k c w' arr (shelter_with (so_sqrt_m c) p (block_bytes e))
    \<and> made [Call_WriteSqrt (assemble_header c) (block_bytes e) p] w w'"
proof -
  from srv obtain s st where s: "w_srv w = Some s" "storages s (oc_id c) = Some (Sqrt st)"
    "st_type st = kSqrtStorage" "st_instance_hash st = oc_hash c"
    "length (main_memory st) = oc_block_num c" "length (dummy st) = so_sqrt_m c"
    "list_all2 (sealed_bytes L k) (main_memory st @ dummy st) arr"
    "shelter st = empty_shelter (so_sqrt_m c)"
    "length (oc_hash c) = 32" "oc_block_num c + so_sqrt_m c \<le> 7449"
    by (rule sqrt_serverE)
  let ?h = "(w_host w)\<lparr>draws := draws (w_host w) + 1\<rparr>"
  from EncryptBlock_seals [OF L b k] obtain e where
    e: "EncryptBlock L b (w_host w) = Inr ((OK, e), ?h)" "sealed L k e b" by blast
  let ?sh = "shelter_with (so_sqrt_m c) p (block_bytes e)"
  let ?st = "st\<lparr>shelter := ?sh\<rparr>"
  let ?s = "put_storage (assemble_header c) (Sqrt ?st) s"
  let ?w = "(logged (Call_WriteSqrt (assemble_header c) (block_bytes e) p) (w\<lparr>w_host := ?h\<rparr>))\<lparr>w_srv := Some ?s\<rparr>"
  obtain n where n: "so_sqrt_m c = Suc n" using m by (cases "so_sqrt_m c") auto
  have "write_shelter (empty_shelter (so_sqrt_m c)) p (block_bytes e) = Inr ?sh"
    by (simp add: empty_shelter_def shelter_with_def n)
  then have "WriteSqrtMemory (assemble_header c) (block_bytes e) p s = Inr ((grpc_ok, ()), ?s)"
    using s unfolding WriteSqrtMemory_def
    by (subst on_storage_ok [where st = "Sqrt st" and d = st])
      (simp_all add: assemble_header_def WriteBlockToShelter_def)
  then have "stub_WriteSqrtMemory (assemble_header c) (block_bytes e) p (w\<lparr>w_host := ?h\<rparr>)
      = ((grpc_ok, ()), ?w)"
    using s(1,9) sealed_length [OF e(2)] by (simp add: rpc_ok small_requests)
  then have "WriteBlock L p b (c, w) = Inr ((OK, e), ?w)"
    using e(1) by (simp add: WriteBlock_def ConvertToString_def)
  moreover have "sqrt_server L k c ?w arr ?sh"
    using s by (simp add: sqrt_server_def put_storage_def assemble_header_def)
  moreover have "keyed k (w_host ?w)"
    using k by (simp add: keyed_def)
  moreover have "made [Call_WriteSqrt (assemble_header c) (block_bytes e) p] w ?w" by (simp add: made_def)
  ultimately show ?thesis using e(2) by blast
qed

section \<open>Permutations and the position map\<close>

definition permutes :: "nat \<Rightarrow> u32 list \<Rightarrow> bool" where
  "permutes N perm \<longleftrightarrow> length perm = N \<and> distinct perm \<and> (\<forall>j < N. unat (perm ! j) < N)"

lemma permutes_of_mset:
  assumes "mset perm = mset (CreateVec N)" and "N < 2 ^ 32" shows "permutes N perm"
proof -
  have u: "unat (of_nat i :: u32) = i" if "i < N" for i
    using that assms(2) by (intro unat_of_nat_u32) simp
  have "distinct (CreateVec N)"
    unfolding CreateVec_def distinct_map
    by (intro conjI inj_onI distinct_upt) (metis u atLeastLessThan_iff set_upt)
  then have "distinct perm" using assms(1) by (metis mset_eq_imp_distinct_iff)
  moreover have len: "length perm = N"
    using assms(1) by (metis CreateVec_def length_map length_upt minus_nat.diff_0 mset_eq_length)
  moreover have "unat (perm ! j) < N" if "j < N" for j
  proof -
    have "perm ! j \<in> set (CreateVec N)"
      using that len assms(1) by (metis mset_eq_setD nth_mem)
    then show ?thesis using u by (auto simp: CreateVec_def)
  qed
  ultimately show ?thesis by (simp add: permutes_def)
qed

lemma permutes_onto:
  assumes "permutes N perm" and "q < N" shows "\<exists>j < N. unat (perm ! j) = q"
proof -
  have "inj_on (\<lambda>j. unat (perm ! j)) {..<N}"
    using assms(1) by (auto simp: permutes_def inj_on_def nth_eq_iff_index_eq word_unat_eq_iff [symmetric])
  moreover have "(\<lambda>j. unat (perm ! j)) ` {..<N} \<subseteq> {..<N}" using assms(1) by (auto simp: permutes_def)
  ultimately have "(\<lambda>j. unat (perm ! j)) ` {..<N} = {..<N}" by (simp add: endo_inj_surj)
  with assms(2) show ?thesis by (metis (no_types, lifting) imageE lessThan_iff)
qed

text \<open>The place of an address: where the map says, or its own number at first.\<close>

definition place :: "(u32 \<rightharpoonup> u32) \<Rightarrow> u32 \<Rightarrow> nat" where
  "place pm a = (case pm a of None \<Rightarrow> unat a | Some p \<Rightarrow> unat p)"

lemma update_position_view:
  "distinct is \<Longrightarrow> length perm < 2 ^ 32 \<Longrightarrow> \<forall>i \<in> set is. i < length perm \<Longrightarrow>
    \<forall>i \<in> set is. place pm (of_nat i) < length perm \<Longrightarrow>
    update_position perm is pm
      = Inr (\<lambda>a. if unat a \<in> set is then Some (perm ! place pm a) else pm a)"
proof (induction "is" arbitrary: pm)
  case (Cons i "is")
  have u: "unat (of_nat j :: u32) = j" if "j \<in> set (i # is)" for j
    using that Cons.prems(2,3) by (intro unat_of_nat_u32) force
  let ?pm = "pm(of_nat i \<mapsto> perm ! place pm (of_nat i))"
  have step: "update_position perm (i # is) pm = update_position perm is ?pm"
    using Cons.prems(4) u by (cases "pm (of_nat i)") (simp_all add: place_def)
  have ne: "(of_nat j :: u32) \<noteq> of_nat i" if "j \<in> set is" for j
    using that Cons.prems(1) u by (metis distinct.simps(2) list.set_intros)
  have same: "place ?pm (of_nat j) = place pm (of_nat j)" if "j \<in> set is" for j
    using ne [OF that] by (simp add: place_def)
  have "update_position perm is ?pm
      = Inr (\<lambda>a. if unat a \<in> set is then Some (perm ! place ?pm a) else ?pm a)"
    using Cons.prems by (intro Cons.IH ballI) (simp_all add: same del: fun_upd_apply)
  moreover have "(if unat a \<in> set is then Some (perm ! place ?pm a) else ?pm a)
      = (if unat a \<in> set (i # is) then Some (perm ! place pm a) else pm a)" for a
  proof (cases "unat a = i")
    case True
    then have "a = of_nat i" "i \<notin> set is" using Cons.prems(1) by auto
    with True show ?thesis by simp
  next
    case False
    then have "a \<noteq> of_nat i" using u by auto
    with False show ?thesis by (simp add: place_def)
  qed
  ultimately show ?case unfolding step by simp
qed simp

text \<open>Every address below \<open>N\<close> has a place of its own below \<open>N\<close>.\<close>

definition places_ok :: "nat \<Rightarrow> (u32 \<rightharpoonup> u32) \<Rightarrow> bool" where
  "places_ok N pm \<longleftrightarrow> dom pm = {a. unat a < N} \<and> (\<forall>a. unat a < N \<longrightarrow> place pm a < N)
     \<and> inj_on (place pm) {a. unat a < N}"

lemma UpdatePosition_view:
  assumes perm: "permutes N perm" and N: "N < 2 ^ 32" and pm: "places_ok N pm \<or> pm = Map.empty"
  shows "\<exists>pm'. UpdatePosition perm pm = Inr pm' \<and> places_ok N pm'
    \<and> (\<forall>a. unat a < N \<longrightarrow> place pm' a = unat (perm ! place pm a))"
proof -
  have p: "place pm a < N" if "unat a < N" for a
    using pm that by (auto simp: places_ok_def place_def)
  have inj: "inj_on (place pm) {a. unat a < N}"
    using pm by (auto simp: places_ok_def place_def inj_on_def word_unat_eq_iff)
  have u: "unat (of_nat i :: u32) = i" if "i < N" for i
    using that N by (intro unat_of_nat_u32) simp
  let ?pm = "\<lambda>a. if unat a < N then Some (perm ! place pm a) else pm a"
  have len: "length perm = N" using perm by (simp add: permutes_def)
  have "UpdatePosition perm pm = Inr ?pm"
    using update_position_view [of "[0..<N]" perm pm] N p u len
    by (simp add: UpdatePosition_def)
  moreover have pl: "place ?pm a = unat (perm ! place pm a)" if "unat a < N" for a
    using that by (simp add: place_def)
  moreover have "places_ok N ?pm"
    unfolding places_ok_def
  proof (intro conjI allI impI)
    show "dom ?pm = {a. unat a < N}" using pm by (auto simp: places_ok_def dom_def)
    show "place ?pm a < N" if "unat a < N" for a
      using pl [OF that] p [OF that] perm by (simp add: permutes_def)
    show "inj_on (place ?pm) {a. unat a < N}"
    proof (rule inj_onI)
      fix a b assume ab: "a \<in> {a. unat a < N}" "b \<in> {a. unat a < N}" "place ?pm a = place ?pm b"
      then have "perm ! place pm a = perm ! place pm b" using pl by (simp add: word_unat_eq_iff)
      then have "place pm a = place pm b"
        using perm p ab(1,2) by (simp add: permutes_def nth_eq_iff_index_eq)
      then show "a = b" using inj ab(1,2) by (auto dest: inj_onD)
    qed
  qed
  ultimately show ?thesis by blast
qed

end
