(* ===== verification/Sqrt_Oram_Correct.thy ===== *)
theory Sqrt_Oram_Correct
  imports Sqrt_Views
begin

text \<open>
  What the square root ORAM implements, access by access: a memory with one pending write, which
  the next access to another address forgets. The contract is the locale \<open>forgetful_ram\<close>, and
  the controller with its server is an instance.
\<close>

section \<open>A memory that forgets\<close>

text \<open>
  What the code implements: a memory with one pending entry. An access answers from the pending
  entry or from the memory, and replaces the pending entry by its own; only every \<open>lim\<close>-th access
  writes its entry to the memory.
\<close>

type_synonym forgetful = "(u32 \<rightharpoonup> bytes) \<times> (u32 \<times> bytes) option \<times> nat"

fun seen :: "forgetful \<Rightarrow> u32 \<Rightarrow> bytes option" where
  "seen (m, None, n) a = m a"
| "seen (m, Some (b, d), n) a = (if a = b then Some d else m a)"

fun settle :: "nat \<Rightarrow> u32 \<Rightarrow> bytes \<Rightarrow> forgetful \<Rightarrow> forgetful" where
  "settle lim a d (m, p, n) =
     (if Suc n = lim then (m(a \<mapsto> d), None, 0) else (m, Some (a, d), Suc n))"

fun forgetful_run :: "nat \<Rightarrow> request list \<Rightarrow> forgetful \<Rightarrow> (oram_status \<times> bytes) list \<times> forgetful" where
  "forgetful_run lim [] s = ([], s)"
| "forgetful_run lim (Read a # rs) s =
     (case forgetful_run lim rs (settle lim a (the (seen s a)) s) of
        (outs, s') \<Rightarrow> ((OK, the (seen s a)) # outs, s'))"
| "forgetful_run lim (Write a x # rs) s =
     (case forgetful_run lim rs (settle lim a (data x) s) of (outs, s') \<Rightarrow> ((OK, []) # outs, s'))"

text \<open>A request for an address of the memory; a write brings a normal block of that address.\<close>

fun own_request :: "(u32 \<rightharpoonup> bytes) \<Rightarrow> request \<Rightarrow> bool" where
  "own_request m (Read a) \<longleftrightarrow> m a \<noteq> None"
| "own_request m (Write a x) \<longleftrightarrow> m a \<noteq> None \<and> BlockEqual a x \<and> wf_block x"

lemma own_request_settle: "own_request (fst s) r \<Longrightarrow> own_request (fst (settle lim a d s)) r"
  by (cases s; cases r) auto

section \<open>The view\<close>

text \<open>The block of address \<open>a\<close> with data \<open>d\<close>.\<close>

definition cell :: "u32 \<Rightarrow> bytes \<Rightarrow> oram_block \<Rightarrow> bool" where
  "cell a d b \<longleftrightarrow> BlockEqual a b \<and> wf_block b \<and> data b = d"

lemma cell_payload:
  assumes "payload b = payload b'" and "wf_block b" and "cell a d b'" shows "cell a d b"
  using BlockEqual_payload [OF assms(1)] payload_eqD [OF assms(1)] assms(2,3) by (simp add: cell_def)

definition memory_in :: "(u32 \<rightharpoonup> u32) \<Rightarrow> oram_block list \<Rightarrow> (u32 \<rightharpoonup> bytes) \<Rightarrow> bool" where
  "memory_in pm arr m \<longleftrightarrow>
     (\<forall>a d. m a = Some d \<longrightarrow> unat a < length arr \<and> cell a d (arr ! place pm a))"

definition pending_in :: "libs \<Rightarrow> bytes \<Rightarrow> nat \<Rightarrow> (u32 \<rightharpoonup> u32) \<Rightarrow> (u32 \<rightharpoonup> bytes)
    \<Rightarrow> (u32 \<times> bytes) option \<Rightarrow> (u32 \<times> bytes) list \<Rightarrow> bool" where
  "pending_in L k lim pm m p sh \<longleftrightarrow>
     (case p of None \<Rightarrow> sh = empty_shelter lim
      | Some (a, d) \<Rightarrow> m a \<noteq> None \<and> (\<exists>e b. sh = shelter_with lim (the (pm a)) e
          \<and> sealed_bytes L k e b \<and> cell a d b))"

definition sqrt_core :: "libs \<Rightarrow> bytes \<Rightarrow> nat \<Rightarrow> sqrt_oram \<times> world \<Rightarrow> (u32 \<rightharpoonup> bytes)
    \<Rightarrow> (u32 \<times> bytes) option \<Rightarrow> bool" where
  "sqrt_core L k lim cw m p \<longleftrightarrow> sodium_ok L \<and> ff3_ok L \<and> so_sqrt_m (fst cw) = lim \<and> 0 < lim
     \<and> oc_block_num (fst cw) + lim < 2 ^ 32 \<and> oc_initialized (fst cw) \<and> keyed k (w_host (snd cw))
     \<and> places_ok (oc_block_num (fst cw) + lim) (so_position (fst cw))
     \<and> (\<exists>arr sh. sqrt_server L k (fst cw) (snd cw) arr sh \<and> memory_in (so_position (fst cw)) arr m
          \<and> pending_in L k lim (so_position (fst cw)) m p sh)"

text \<open>The controller and its server hold the state \<open>s\<close> of a forgetful memory.\<close>

fun sqrt_holds :: "libs \<Rightarrow> bytes \<Rightarrow> nat \<Rightarrow> sqrt_oram \<times> world \<Rightarrow> forgetful \<Rightarrow> bool" where
  "sqrt_holds L k lim cw (m, p, n) \<longleftrightarrow> sqrt_core L k lim cw m p \<and> n < lim
     \<and> unat (so_counter (fst cw)) = n \<and> so_next_dummy (fst cw) \<le> n"

lemma places_okD:
  "places_ok N pm \<Longrightarrow> unat a < N \<Longrightarrow> \<exists>p. pm a = Some p \<and> place pm a = unat p \<and> unat p < N"
  by (force simp: places_ok_def place_def)

section \<open>Permuting\<close>

text \<open>The pending entry goes to its place, and everything moves.\<close>

definition flushed :: "(u32 \<rightharpoonup> u32) \<Rightarrow> u32 \<Rightarrow> oram_block \<Rightarrow> oram_block list \<Rightarrow> oram_block list" where
  "flushed pm a b arr = arr[place pm a := b]"

lemma memory_in_flushed:
  assumes pm: "places_ok (length arr) pm" and m: "memory_in pm arr m" "m a \<noteq> None"
    and b: "cell a d b"
  shows "memory_in pm (flushed pm a b arr) (m(a \<mapsto> d))"
  unfolding memory_in_def
proof (intro allI impI)
  fix e v assume e: "(m(a \<mapsto> d)) e = Some v"
  from m have a: "unat a < length arr" by (auto simp: memory_in_def)
  have e': "unat e < length arr" using e m(1) a by (auto simp: memory_in_def split: if_splits)
  have "place pm e = place pm a \<longleftrightarrow> e = a"
    using pm a e' by (auto simp: places_ok_def dest: inj_onD)
  moreover have "place pm a < length arr" using pm a by (simp add: places_ok_def)
  ultimately show "unat e < length (flushed pm a b arr) \<and> cell e v (flushed pm a b arr ! place pm e)"
    using e e' m(1) b by (auto simp: flushed_def memory_in_def split: if_splits)
qed

lemma memory_in_permuted:
  assumes m: "memory_in pm arr m" and pm: "places_ok (length arr) pm"
    and pm': "\<forall>a. unat a < length arr \<longrightarrow> place pm' a = unat (perm ! place pm a)"
    and arr': "length arr' = length arr" "\<forall>j < length arr. arr' ! unat (perm ! j) = arr ! j"
  shows "memory_in pm' arr' m"
  using assms by (fastforce simp: memory_in_def places_ok_def)

text \<open>Entries and blocks that are moved alike stay sealed.\<close>

lemma sealed_permuted:
  assumes s: "list_all2 (sealed_bytes L k) es bs" and perm: "permutes (length bs) perm"
    and es': "length es' = length es" "\<forall>j < length bs. es' ! unat (perm ! j) = es ! j"
    and bs': "length bs' = length bs" "\<forall>j < length bs. bs' ! unat (perm ! j) = bs ! j"
  shows "list_all2 (sealed_bytes L k) es' bs'"
proof (rule list_all2_all_nthI)
  have len: "length es = length bs" using list_all2_lengthD [OF s] .
  then show "length es' = length bs'" using es'(1) bs'(1) by simp
  fix q assume "q < length es'"
  then have "q < length bs" using es'(1) len by simp
  from permutes_onto [OF perm this] obtain j where j: "j < length bs" "unat (perm ! j) = q" by blast
  from s j(1) len have "sealed_bytes L k (es ! j) (bs ! j)" by (simp add: list_all2_nthD2)
  then show "sealed_bytes L k (es' ! q) (bs' ! q)"
    unfolding es'(2) [rule_format, OF j(1), unfolded j(2)] bs'(2) [rule_format, OF j(1), unfolded j(2)] .
qed

text \<open>A shelter of one entry is written to the place of its tag.\<close>

lemma sheltered_one:
  assumes p: "unat p < length xs" "length xs < 2 ^ 32" and e: "e \<noteq> []" and m: "0 < n"
  shows "sheltered (shelter_with n p e) xs = xs[unat p := e]"
    "(tag, d) \<in> set (shelter_with n p e) \<Longrightarrow> tag = kInvalidMask \<or> d = [] \<or> unat tag < length xs"
proof -
  obtain n' where n: "n = Suc n'" using m by (cases n) auto
  have sh: "shelter_with n p e = (p, e) # replicate n' (kInvalidMask, [])"
    by (simp add: shelter_with_def empty_shelter_def n)
  have same: "((\<lambda>a. a) ^^ i) ys = ys" for i and ys :: "bytes list" by (induction i) simp_all
  have "p \<noteq> kInvalidMask"
    using p by (auto simp: kInvalidMask_def unsigned_minus_1_eq_mask mask_eq_exp_minus_1)
  then show "sheltered (shelter_with n p e) xs = xs[unat p := e]"
    using e same by (simp add: sh sheltered_def fold_replicate)
  show "(tag, d) \<in> set (shelter_with n p e) \<Longrightarrow> tag = kInvalidMask \<or> d = [] \<or> unat tag < length xs"
    using p(1) by (auto simp: sh)
qed

lemma SqrtPermute_view:
  assumes srv: "sqrt_server L k c w arr (shelter_with (so_sqrt_m c) p e)"
    and e: "sealed_bytes L k e b" and p: "unat p < length arr" and m: "0 < so_sqrt_m c"
    and N: "length arr < 2 ^ 32" and perm: "permutes (length arr) perm"
  shows "\<exists>w' arr'. stub_SqrtPermute (assemble_header c) perm w = ((grpc_ok, ()), w')
    \<and> w_host w' = w_host w \<and> sqrt_server L k c w' arr' (empty_shelter (so_sqrt_m c))
    \<and> length arr' = length arr \<and> (\<forall>j < length arr. arr' ! unat (perm ! j) = arr[unat p := b] ! j)
    \<and> made [Call_Permute (assemble_header c) perm] w w'"
proof -
  let ?sh = "shelter_with (so_sqrt_m c) p e"
  from srv obtain s st where s: "w_srv w = Some s" "storages s (oc_id c) = Some (Sqrt st)"
    "st_type st = kSqrtStorage" "st_instance_hash st = oc_hash c"
    "length (main_memory st) = oc_block_num c" "length (dummy st) = so_sqrt_m c"
    "list_all2 (sealed_bytes L k) (main_memory st @ dummy st) arr" "shelter st = ?sh"
    "length (oc_hash c) = 32" "oc_block_num c + so_sqrt_m c \<le> 7449"
    by (rule sqrt_serverE)
  let ?all = "main_memory st @ dummy st"
  have len: "length ?all = length arr" using list_all2_lengthD [OF s(7)] .
  have "unat p < length ?all" "length ?all < 2 ^ 32" using p N len by simp_all
  note one = sheltered_one [OF this sealed_bytes_nonempty [OF e] m]
  have lsh: "replicate (length ?sh) (kInvalidMask, []) = empty_shelter (so_sqrt_m c)"
    by (simp add: shelter_with_def empty_shelter_def)
  have tags: "\<forall>(tag, d) \<in> set (shelter st). tag = kInvalidMask \<or> d = [] \<or> unat tag < length perm"
    using one(2) perm len by (auto simp: s(8) permutes_def)
  have "\<exists>st'. DoPermute st perm = Inr st' \<and> (\<forall>j < length perm. (main_memory st' @ dummy st') ! unat (perm ! j)
         = sheltered (shelter st) ?all ! j)
    \<and> length (main_memory st') = length (main_memory st) \<and> length (dummy st') = length (dummy st)
    \<and> shelter st' = replicate (length (shelter st)) (kInvalidMask, [])"
    using perm len tags by (intro DoPermute_view) (simp_all add: permutes_def)
  then obtain st' where st': "DoPermute st perm = Inr st'"
    "\<forall>j < length arr. (main_memory st' @ dummy st') ! unat (perm ! j) = ?all[unat p := e] ! j"
    "length (main_memory st') = length (main_memory st)" "length (dummy st') = length (dummy st)"
    "shelter st' = empty_shelter (so_sqrt_m c)"
    using one(1) perm lsh by (auto simp: permutes_def s(8))
  have base: "st_type st' = st_type st \<and> st_instance_hash st' = st_instance_hash st"
    using st'(1) by (auto simp: DoPermute_def panic_if_def andThen_eq_Inr split: if_splits)
  from PermuteBy_permutes [of "arr[unat p := b]" perm] perm obtain arr' where
    arr': "length arr' = length arr" "\<forall>j < length arr. arr' ! unat (perm ! j) = arr[unat p := b] ! j"
    by (auto simp: permutes_def)
  have "list_all2 (sealed_bytes L k) (?all[unat p := e]) (arr[unat p := b])"
    using list_all2_update_cong [OF s(7) e] .
  then have sealed: "list_all2 (sealed_bytes L k) (main_memory st' @ dummy st') arr'"
    by (rule sealed_permuted [where perm = perm]) (use perm st'(2-4) arr' in simp_all)
  let ?s = "put_storage (assemble_header c) (Sqrt st') s"
  let ?w = "(logged (Call_Permute (assemble_header c) perm) w)\<lparr>w_srv := Some ?s\<rparr>"
  have "SqrtPermute (assemble_header c) perm s = Inr ((grpc_ok, ()), ?s)"
    using s st'(1) unfolding SqrtPermute_def
    by (subst on_storage_ok [where st = "Sqrt st" and d = st]) (simp_all add: assemble_header_def)
  moreover have "length perm \<le> 500000" using perm len s(5,6,10) by (simp add: permutes_def)
  ultimately have "stub_SqrtPermute (assemble_header c) perm w = ((grpc_ok, ()), ?w)"
    using s(1,9) by (simp add: rpc_ok permutation_fits)
  moreover have "sqrt_server L k c ?w arr' (empty_shelter (so_sqrt_m c))"
    using s base st'(3-5) sealed by (simp add: sqrt_server_def put_storage_def assemble_header_def)
  ultimately show ?thesis using arr' by (intro exI [of _ ?w]) (auto simp: made_def)
qed

lemma Sqrt_DoPermute_view:
  assumes core: "sqrt_core L k lim (c, w) m (Some (a, d))"
    and perm: "permutes (oc_block_num c + lim) perm"
  shows "\<exists>pm w'. Sqrt_DoPermute perm (c, w) = Inr (OK, c\<lparr>so_position := pm\<rparr>, w')
    \<and> sqrt_core L k lim (c\<lparr>so_position := pm\<rparr>, w') (m(a \<mapsto> d)) None
    \<and> made [Call_Permute (assemble_header c) perm] w w'"
proof -
  let ?N = "oc_block_num c + lim"
  from core obtain arr e b where c: "sodium_ok L" "ff3_ok L" "so_sqrt_m c = lim" "0 < lim"
    "?N < 2 ^ 32" "oc_initialized c" "keyed k (w_host w)" "places_ok ?N (so_position c)"
    "sqrt_server L k c w arr (shelter_with lim (the (so_position c a)) e)"
    "memory_in (so_position c) arr m" "m a \<noteq> None" "sealed_bytes L k e b" "cell a d b"
    by (auto simp: sqrt_core_def pending_in_def)
  have len: "length arr = ?N" using sqrt_server_length [OF c(9)] c(3) by simp
  from c(10,11) len have "unat a < ?N" by (auto simp: memory_in_def)
  from places_okD [OF c(8) this] obtain p where
    p: "so_position c a = Some p" "place (so_position c) a = unat p" "unat p < ?N" by blast
  from SqrtPermute_view [of L k c w arr p e b perm] c len p perm obtain w' arr' where
    w': "stub_SqrtPermute (assemble_header c) perm w = ((grpc_ok, ()), w')" "w_host w' = w_host w"
      "sqrt_server L k c w' arr' (empty_shelter lim)" "length arr' = ?N"
      "\<forall>j < ?N. arr' ! unat (perm ! j) = arr[unat p := b] ! j"
      "made [Call_Permute (assemble_header c) perm] w w'" by auto
  from UpdatePosition_view [OF perm c(5)] c(8) obtain pm where
    pm: "UpdatePosition perm (so_position c) = Inr pm" "places_ok ?N pm"
      "\<forall>a. unat a < ?N \<longrightarrow> place pm a = unat (perm ! place (so_position c) a)" by blast
  have "memory_in (so_position c) (flushed (so_position c) a b arr) (m(a \<mapsto> d))"
    using c(8,10,11,13) len by (intro memory_in_flushed) simp_all
  then have "memory_in pm arr' (m(a \<mapsto> d))"
    by (rule memory_in_permuted) (use c(8) len pm(3) w'(4,5) p(2) in \<open>simp_all add: flushed_def\<close>)
  then have "sqrt_core L k lim (c\<lparr>so_position := pm\<rparr>, w') (m(a \<mapsto> d)) None"
    using c w'(2,3) pm(2) by (auto simp: sqrt_core_def pending_in_def)
  moreover have "Sqrt_DoPermute perm (c, w) = Inr (OK, c\<lparr>so_position := pm\<rparr>, w')"
    using w'(1) pm(1) by (simp add: Sqrt_DoPermute_def)
  ultimately show ?thesis using w'(6) by blast
qed

lemma sqrt_core_fields [simp]:
  "sqrt_core L k lim (c\<lparr>so_counter := n\<rparr>, w) m p = sqrt_core L k lim (c, w) m p"
  "sqrt_core L k lim (c\<lparr>so_next_dummy := j\<rparr>, w) m p = sqrt_core L k lim (c, w) m p"
  by (simp_all add: sqrt_core_def)

lemma sqrt_core_host:
  "sqrt_core L k lim (c, w) m p \<Longrightarrow> keyed k h \<Longrightarrow> sqrt_core L k lim (c, w\<lparr>w_host := h\<rparr>) m p"
  by (simp add: sqrt_core_def)

text \<open>
  The calls of \<open>PermuteOnFull\<close> after \<open>n\<close> accesses since the last permutation.
\<close>

definition permute_calls :: "nat \<Rightarrow> nat \<Rightarrow> request_header \<Rightarrow> server_call list \<Rightarrow> bool" where
  "permute_calls lim n hdr cs \<longleftrightarrow>
     (if Suc n = lim then \<exists>perm. cs = [Call_Permute hdr perm] else cs = [])"

lemma assemble_header_sqrt [simp]:
  "assemble_header (c\<lparr>so_counter := n\<rparr>) = assemble_header c"
  "assemble_header (c\<lparr>so_next_dummy := j\<rparr>) = assemble_header c"
  "assemble_header (c\<lparr>so_position := pm\<rparr>) = assemble_header c"
  by (simp_all add: assemble_header_def)

lemma PermuteOnFull_view:
  assumes core: "sqrt_core L k lim (c, w) m (Some (a, d))" and n: "unat (so_counter c) = n" "n < lim"
    and j: "so_next_dummy c \<le> Suc n"
  shows "\<exists>cw' cs. PermuteOnFull L (c, w) = Inr (OK, cw') \<and> sqrt_holds L k lim cw' (settle lim a d (m, p, n))
    \<and> made cs w (snd cw') \<and> permute_calls lim n (assemble_header c) cs
    \<and> assemble_header (fst cw') = assemble_header c \<and> (Suc n < lim \<longrightarrow> so_position (fst cw') = so_position c)"
proof -
  from core have c: "so_sqrt_m c = lim" "ff3_ok L" "0 < lim" "oc_block_num c + lim < 2 ^ 32"
    "keyed k (w_host w)" by (simp_all add: sqrt_core_def)
  have u: "unat (so_counter c + 1) = Suc n"
  proof -
    have "Suc n < 2 ^ 32" using n(2) c(4) by simp
    then have "unat (of_nat (Suc n) :: u32) = Suc n" by (intro unat_of_nat_u32) simp
    moreover have "of_nat (Suc n) = so_counter c + 1" unfolding n(1) [symmetric] by simp
    ultimately show ?thesis by (simp only:)
  qed
  show ?thesis
  proof (cases "Suc n = lim")
    case False
    with u c(1) have "PermuteOnFull L (c, w) = Inr (OK, c\<lparr>so_counter := so_counter c + 1\<rparr>, w)"
      by (simp add: PermuteOnFull_def Let_def)
    moreover have "sqrt_holds L k lim (c\<lparr>so_counter := so_counter c + 1\<rparr>, w) (m, Some (a, d), Suc n)"
      using core u n(2) False j by simp
    ultimately show ?thesis using False n(2)
      by (intro exI [of _ "(c\<lparr>so_counter := so_counter c + 1\<rparr>, w)"] exI [of _ "[]"])
        (simp add: made_def permute_calls_def)
  next
    case True
    let ?c = "c\<lparr>so_counter := 0, so_next_dummy := 0\<rparr>" and ?N = "oc_block_num c + lim"
    let ?h = "(w_host w)\<lparr>draws := draws (w_host w) + 1\<rparr>"
    have v: "CreateVec ?N \<noteq> []" "length (CreateVec ?N) < 2 ^ 32" using c(3,4) by (simp_all add: CreateVec_def)
    from RandomPermutation_returns [OF c(2) v, of "w_host w"] obtain perm where
      perm: "RandomPermutation L (CreateVec ?N) (w_host w) = Inr ((OK, perm), ?h)"
        "mset perm = mset (CreateVec ?N)" by blast
    have "keyed k ?h" using c(5) by (simp add: keyed_def)
    with core have "sqrt_core L k lim (?c, w\<lparr>w_host := ?h\<rparr>) m (Some (a, d))"
      by (simp add: sqrt_core_host)
    from Sqrt_DoPermute_view [OF this, of perm] permutes_of_mset [OF perm(2) c(4)] obtain pm w' where
      w': "Sqrt_DoPermute perm (?c, w\<lparr>w_host := ?h\<rparr>) = Inr (OK, ?c\<lparr>so_position := pm\<rparr>, w')"
        "sqrt_core L k lim (?c\<lparr>so_position := pm\<rparr>, w') (m(a \<mapsto> d)) None"
        "made [Call_Permute (assemble_header c) perm] w w'" by auto
    have "PermuteOnFull L (c, w) = Inr (OK, ?c\<lparr>so_position := pm\<rparr>, w')"
      using u True c(1) perm(1) w'(1) by (simp add: PermuteOnFull_def Let_def)
    moreover have "sqrt_holds L k lim (?c\<lparr>so_position := pm\<rparr>, w') (m(a \<mapsto> d), None, 0)"
      using w'(2) c(3) by simp
    ultimately show ?thesis using True w'(3)
      by (intro exI [of _ "(?c\<lparr>so_position := pm\<rparr>, w')"] exI [of _ "[Call_Permute (assemble_header c) perm]"])
        (simp add: permute_calls_def)
  qed
qed

section \<open>An access\<close>

text \<open>
  What follows the reading of a block: the write names the block's position, and the position map
  changes with a permutation only.
\<close>

definition sqrt_follows :: "nat \<Rightarrow> nat \<Rightarrow> u32 \<Rightarrow> sqrt_oram \<times> world \<Rightarrow> sqrt_oram \<times> world \<Rightarrow> bool" where
  "sqrt_follows lim n position cw cw' \<longleftrightarrow> assemble_header (fst cw') = assemble_header (fst cw)
     \<and> (Suc n < lim \<longrightarrow> so_position (fst cw') = so_position (fst cw))
     \<and> (\<exists>d cs. length d = 560 \<and> permute_calls lim n (assemble_header (fst cw)) cs
          \<and> made (Call_WriteSqrt (assemble_header (fst cw)) d position # cs) (snd cw) (snd cw'))"

text \<open>The state between the reading and the writing of a block: the shelter is empty.\<close>

lemma write_back_view:
  assumes core: "sqrt_core L k lim (c, w) m None" and n: "unat (so_counter c) = n" "n < lim"
    and j: "so_next_dummy c \<le> Suc n" and a: "m a \<noteq> None" "so_position c a = Some position"
    and blk: "cell a v block" and x: "op = Operation_kRead \<or> BlockEqual a x \<and> wf_block x"
    and d: "d = (if op = Operation_kRead then v else data x)"
  shows "\<exists>e cw'. write_back L op a position block x (c, w) = Inr ((OK, e), cw')
    \<and> sealed L k e (if op = Operation_kRead then block else x)
    \<and> sqrt_holds L k lim cw' (settle lim a d (m, p, n))
    \<and> sqrt_follows lim n position (c, w) cw'"
proof -
  let ?b = "if op = Operation_kRead then block else x"
  have b: "cell a d ?b" using blk x d by (auto simp: cell_def)
  from core obtain arr where c: "sodium_ok L" "ff3_ok L" "so_sqrt_m c = lim" "0 < lim"
    "oc_block_num c + lim < 2 ^ 32" "oc_initialized c" "keyed k (w_host w)"
    "places_ok (oc_block_num c + lim) (so_position c)"
    "sqrt_server L k c w arr (empty_shelter lim)" "memory_in (so_position c) arr m"
    by (auto simp: sqrt_core_def pending_in_def)
  from WriteBlock_view [of L k w ?b c arr position] c b obtain e w' where
    w': "WriteBlock L position ?b (c, w) = Inr ((OK, e), w')" "sealed L k e ?b" "keyed k (w_host w')"
      "sqrt_server L k c w' arr (shelter_with lim position (block_bytes e))"
      "made [Call_WriteSqrt (assemble_header c) (block_bytes e) position] w w'"
    by (auto simp: cell_def)
  have "sealed_bytes L k (block_bytes e) ?b" using w'(2) by (auto simp: sealed_bytes_def)
  then have "pending_in L k lim (so_position c) m (Some (a, d))
      (shelter_with lim position (block_bytes e))"
    using a b by (auto simp: pending_in_def)
  then have "sqrt_core L k lim (c, w') m (Some (a, d))"
    using c w'(3,4) by (auto simp: sqrt_core_def)
  from PermuteOnFull_view [OF this n j] obtain cw' cs where
    po: "PermuteOnFull L (c, w') = Inr (OK, cw')" "sqrt_holds L k lim cw' (settle lim a d (m, p, n))"
      "made cs w' (snd cw')" "permute_calls lim n (assemble_header c) cs"
      "assemble_header (fst cw') = assemble_header c"
      "Suc n < lim \<longrightarrow> so_position (fst cw') = so_position c" by blast
  moreover have "sqrt_follows lim n position (c, w) cw'"
    unfolding sqrt_follows_def using made_trans [OF w'(5) po(3)] po(4-6) sealed_length [OF w'(2)] by auto
  moreover have "block_id (header block) = a" using blk by (simp add: cell_def BlockEqual_def)
  ultimately show ?thesis using w'(1,2) po(1,2) by (auto simp: write_back_def)
qed

text \<open>The scan empties the shelter and hands out the pending block if it has the address.\<close>

lemma ReadBlock_shelter:
  assumes core: "sqrt_core L k lim (c, w) m p" and a: "block_id (header blk) = a"
  shows "\<exists>s b w'. ReadBlock L kShelter position blk (c, w) = Inr ((s, b), w')
    \<and> sqrt_core L k lim (c, w') m None
    \<and> (if \<exists>d. p = Some (a, d) then error_code s = kOK \<and> cell a (the (seen (m, p, n) a)) b
       else error_code s = kObjectNotFound)
    \<and> made (shelter_calls (assemble_header c) 0 lim) w w'"
proof (cases p)
  case None
  with core obtain arr where c: "so_sqrt_m c = lim" "lim < 2 ^ 32"
    "sqrt_server L k c w arr (empty_shelter lim)" "memory_in (so_position c) arr m"
    by (auto simp: sqrt_core_def pending_in_def)
  from ReadShelter_empty [of L k c w arr blk] c obtain s w' where
    "ReadShelter L blk (c, w) = Inr ((s, blk), w')" "error_code s = kObjectNotFound"
    "w_host w' = w_host w" "sqrt_server L k c w' arr (empty_shelter lim)"
    "made (shelter_calls (assemble_header c) 0 lim) w w'" by auto
  with core c(4) None show ?thesis
    by (auto simp: ReadBlock_def sqrt_core_def pending_in_def)
next
  case (Some q)
  obtain a' d where q: "q = (a', d)" by (cases q)
  with core Some obtain arr e b where c: "so_sqrt_m c = lim" "0 < lim" "lim < 2 ^ 32" "sodium_ok L"
    "keyed k (w_host w)" "sqrt_server L k c w arr (shelter_with lim (the (so_position c a')) e)"
    "memory_in (so_position c) arr m" "sealed_bytes L k e b" "cell a' d b"
    by (auto simp: sqrt_core_def pending_in_def)
  have hit: "BlockEqual (block_id (header blk)) b \<longleftrightarrow> a' = a"
    using c(9) a by (auto simp: cell_def BlockEqual_def)
  from ReadShelter_one [of L k w e b c arr "the (so_position c a')" blk] c obtain s b' w' where
    r: "ReadShelter L blk (c, w) = Inr ((s, if BlockEqual (block_id (header blk)) b then b' else blk), w')"
      "error_code s = (if BlockEqual (block_id (header blk)) b then kOK else kObjectNotFound)"
      "payload b' = payload b" "wf_block b'" "w_host w' = w_host w"
      "sqrt_server L k c w' arr (empty_shelter lim)" "made (shelter_calls (assemble_header c) 0 lim) w w'" by auto
  have core': "sqrt_core L k lim (c, w') m None"
    using core r(5,6) c(7) by (auto simp: sqrt_core_def pending_in_def)
  have "cell a' d b'" using cell_payload [OF r(3,4) c(9)] .
  with r(1,2,7) core' hit Some q show ?thesis by (cases "a' = a") (auto simp: ReadBlock_def)
qed

text \<open>
  The calls of an access: the whole shelter, then a dummy if the shelter had the block and the
  block's place otherwise, and the write.
\<close>

definition sqrt_observed :: "nat \<Rightarrow> nat \<Rightarrow> u32 \<Rightarrow> bool \<Rightarrow> sqrt_oram \<times> world \<Rightarrow> sqrt_oram \<times> world \<Rightarrow> bool" where
  "sqrt_observed lim n a hit cw cw' \<longleftrightarrow> (\<exists>position w. so_position (fst cw) a = Some position
     \<and> made (shelter_calls (assemble_header (fst cw)) 0 lim
          @ [if hit then Call_ReadSqrt (assemble_header (fst cw)) kDummy (of_nat (so_next_dummy (fst cw)))
             else Call_ReadSqrt (assemble_header (fst cw)) kMainMemory position]) (snd cw) w
     \<and> sqrt_follows lim n position (fst cw, w) cw')"

text \<open>
  What follows the scan of the shelter: a dummy is read when the block was there, its place
  otherwise; then the block is written to the shelter.
\<close>

lemma access_sheltered:
  assumes core: "sqrt_core L k lim (c, w1) m None" and n: "unat (so_counter c) = n" "n < lim" "so_next_dummy c \<le> n"
    and a: "m a \<noteq> None" and pos: "so_position c a = Some position" and b: "cell a v b"
    and x: "op = Operation_kRead \<or> BlockEqual a x \<and> wf_block x" and d: "d = (if op = Operation_kRead then v else data x)"
    and sh: "made (shelter_calls (assemble_header c) 0 lim) w w1" and p: "\<exists>d. p = Some (a, d)"
  shows "\<exists>w2 e cw'. ReadBlock L kDummy (of_nat (so_next_dummy c)) b (c, w1) = Inr ((OK, b), w2)
    \<and> write_back L op a position b x (c\<lparr>so_next_dummy := so_next_dummy c + 1\<rparr>, w2) = Inr ((OK, e), cw')
    \<and> sealed L k e (if op = Operation_kRead then b else x) \<and> cell a d (if op = Operation_kRead then b else x)
    \<and> sqrt_holds L k lim cw' (settle lim a d (m, p, n)) \<and> sqrt_observed lim n a True (c, w) cw'"
proof -
  from core obtain arr where srv: "sqrt_server L k c w1 arr (empty_shelter lim)"
    and mem: "memory_in (so_position c) arr m" and lim: "so_sqrt_m c = lim" "lim < 2 ^ 32"
    by (auto simp: sqrt_core_def pending_in_def)
  let ?c = "c\<lparr>so_next_dummy := so_next_dummy c + 1\<rparr>"
  from ReadBlock_dummy [OF srv, of "so_next_dummy c" b] n(2,3) lim obtain w2 where
    rd: "ReadBlock L kDummy (of_nat (so_next_dummy c)) b (c, w1) = Inr ((OK, b), w2)"
      "w_host w2 = w_host w1" "sqrt_server L k c w2 arr (empty_shelter lim)"
      "made [Call_ReadSqrt (assemble_header c) kDummy (of_nat (so_next_dummy c))] w1 w2" by auto
  have "sqrt_core L k lim (c, w2) m None"
    using core rd(2,3) mem by (auto simp: sqrt_core_def pending_in_def)
  with write_back_view [of L k lim ?c w2 m n a position v b op x d p] n a pos b x d
  obtain e cw' where wb: "write_back L op a position b x (?c, w2) = Inr ((OK, e), cw')"
    "sealed L k e (if op = Operation_kRead then b else x)"
    "sqrt_holds L k lim cw' (settle lim a d (m, p, n))" "sqrt_follows lim n position (?c, w2) cw'" by auto
  have "sqrt_observed lim n a True (c, w) cw'"
    using pos made_trans [OF sh rd(4)] wb(4)
    by (auto simp: sqrt_observed_def sqrt_follows_def intro!: exI [of _ w2])
  moreover have "cell a d (if op = Operation_kRead then b else x)" using b x d by (auto simp: cell_def)
  ultimately show ?thesis using rd(1) wb(1-3) by blast
qed

lemma access_in_place:
  assumes core: "sqrt_core L k lim (c, w1) m None" and n: "unat (so_counter c) = n" "n < lim" "so_next_dummy c \<le> n"
    and a: "m a = Some v" and pos: "so_position c a = Some position"
      "place (so_position c) a = unat position" "unat position < oc_block_num c + lim"
    and x: "op = Operation_kRead \<or> BlockEqual a x \<and> wf_block x" and d: "d = (if op = Operation_kRead then v else data x)"
    and sh: "made (shelter_calls (assemble_header c) 0 lim) w w1"
  shows "\<exists>b' w2 e cw'. ReadBlock L kMainMemory position b (c, w1) = Inr ((OK, b'), w2)
    \<and> write_back L op a position b' x (c, w2) = Inr ((OK, e), cw')
    \<and> sealed L k e (if op = Operation_kRead then b' else x) \<and> cell a d (if op = Operation_kRead then b' else x)
    \<and> sqrt_holds L k lim cw' (settle lim a d (m, p, n)) \<and> sqrt_observed lim n a False (c, w) cw'"
proof -
  from core obtain arr where srv: "sqrt_server L k c w1 arr (empty_shelter lim)"
    and mem: "memory_in (so_position c) arr m" and L: "sodium_ok L" and k: "keyed k (w_host w1)"
    and lim: "so_sqrt_m c = lim"
    by (auto simp: sqrt_core_def pending_in_def)
  have cl: "cell a v (arr ! unat position)" using mem a unfolding pos(2) [symmetric] by (auto simp: memory_in_def)
  have "unat position < length arr" using pos(3) sqrt_server_length [OF srv] lim by simp
  from ReadBlock_main [OF L k srv this, of b] obtain b2 w2 where
    r2: "ReadBlock L kMainMemory position b (c, w1) = Inr ((OK, b2), w2)"
      "payload b2 = payload (arr ! unat position)" "wf_block b2" "w_host w2 = w_host w1"
      "sqrt_server L k c w2 arr (empty_shelter lim)"
      "made [Call_ReadSqrt (assemble_header c) kMainMemory position] w1 w2" by blast
  have b2: "cell a v b2" using cell_payload [OF r2(2,3) cl] .
  have core2: "sqrt_core L k lim (c, w2) m None"
    using core r2(4,5) mem by (auto simp: sqrt_core_def pending_in_def)
  from write_back_view [OF core2 n(1,2) _ _ pos(1) b2 x d, of p] a n(3) obtain e cw' where
    wb: "write_back L op a position b2 x (c, w2) = Inr ((OK, e), cw')"
      "sealed L k e (if op = Operation_kRead then b2 else x)"
      "sqrt_holds L k lim cw' (settle lim a d (m, p, n))" "sqrt_follows lim n position (c, w2) cw'" by auto
  have "sqrt_observed lim n a False (c, w) cw'"
    using pos(1) made_trans [OF sh r2(6)] wb(4) by (auto simp: sqrt_observed_def intro!: exI [of _ w2])
  moreover have "cell a d (if op = Operation_kRead then b2 else x)" using b2 x d by (auto simp: cell_def)
  ultimately show ?thesis using r2(1) wb(1-3) by blast
qed

lemma Sqrt_InternalAccess_view:
  assumes holds: "sqrt_holds L k lim (c, w) (m, p, n)" and a: "m a \<noteq> None"
    and op: "op = Operation_kRead \<or> op = Operation_kWrite \<and> BlockEqual a x \<and> wf_block x"
    and v: "v = the (seen (m, p, n) a)" and d: "d = (if op = Operation_kRead then v else data x)"
  shows "\<exists>e b cw'. Sqrt_InternalAccess L memory op a x dum (c, w) = Inr ((OK, e), cw')
    \<and> sealed L k e b \<and> cell a d b \<and> sqrt_holds L k lim cw' (settle lim a d (m, p, n))
    \<and> sqrt_observed lim n a (\<exists>d. p = Some (a, d)) (c, w) cw'"
proof -
  from holds have core: "sqrt_core L k lim (c, w) m p" and n: "unat (so_counter c) = n" "n < lim" "so_next_dummy c \<le> n"
    by simp_all
  from core obtain arr0 where c: "oc_initialized c" "places_ok (oc_block_num c + lim) (so_position c)"
    "unat a < oc_block_num c + lim"
    using a by (auto simp: sqrt_core_def memory_in_def dest!: sqrt_server_length)
  from places_okD [OF c(2,3)] obtain position where
    pos: "so_position c a = Some position" "place (so_position c) a = unat position" by blast
  have lt: "unat position < oc_block_num c + lim" using c(2,3) pos(2) by (auto simp: places_ok_def)
  let ?blk = "memory\<lparr>header := (header memory)\<lparr>block_id := a, btype := BlockType_kNormal\<rparr>\<rparr>"
  from ReadBlock_shelter [OF core, of ?blk a position n] obtain s b w1 where
    r: "ReadBlock L kShelter position ?blk (c, w) = Inr ((s, b), w1)"
      "sqrt_core L k lim (c, w1) m None"
      "if \<exists>d. p = Some (a, d) then error_code s = kOK \<and> cell a v b else error_code s = kObjectNotFound"
      "made (shelter_calls (assemble_header c) 0 lim) w w1"
    unfolding v by auto
  have opI: "op \<noteq> Operation_kInvalid" and x: "op = Operation_kRead \<or> BlockEqual a x \<and> wf_block x" using op by auto
  show ?thesis
  proof (cases "\<exists>d. p = Some (a, d)")
    case True
    with r(3) have s: "error_code s = kOK" "cell a v b" by simp_all
    from access_sheltered [OF r(2) n a pos(1) s(2) x d r(4) True] s(1) r(1) c(1) pos(1) opI True show ?thesis
      by (force simp: Sqrt_InternalAccess_def panic_if_def Let_def ok_def)
  next
    case False
    with r(3) have s: "error_code s = kObjectNotFound" by simp
    have "m a = Some v" using a v False by (cases p) auto
    from access_in_place [OF r(2) n this pos lt x d r(4), of b p] s r(1) c(1) pos(1) opI False show ?thesis
      by (force simp: Sqrt_InternalAccess_def panic_if_def Let_def ok_def)
  qed
qed

section \<open>What the square root ORAM promises\<close>

text \<open>
  A caller who reads gets a ciphertext back and has to decrypt it: the access with this
  decryption.
\<close>

definition opened :: "libs
    \<Rightarrow> (operation \<Rightarrow> u32 \<Rightarrow> oram_block \<Rightarrow> 'c \<times> world \<Rightarrow> ((oram_status \<times> oram_block) \<times> 'c \<times> world) exec)
    \<Rightarrow> operation \<Rightarrow> u32 \<Rightarrow> oram_block \<Rightarrow> 'c \<times> world \<Rightarrow> ((oram_status \<times> oram_block) \<times> 'c \<times> world) exec" where
  "opened L access op a x cw =
     andThen (access op a x cw) (\<lambda>((s, b), cw').
       if op = Operation_kRead \<and> ok s
       then andThen (DecryptBlock L b (w_host (snd cw'))) (\<lambda>(_, b'). Inr ((s, b'), cw'))
       else Inr ((s, b), cw'))"

text \<open>The contract: the state stands for a forgetful memory of period \<open>lim\<close>.\<close>

locale forgetful_ram =
  fixes access :: "operation \<Rightarrow> u32 \<Rightarrow> oram_block \<Rightarrow> 's
      \<Rightarrow> ((oram_status \<times> oram_block) \<times> 's) exec"
    and holds :: "'s \<Rightarrow> forgetful \<Rightarrow> bool"
    and lim :: nat
  assumes read_seen: "holds s (m, p, n) \<Longrightarrow> m a \<noteq> None \<Longrightarrow>
      \<exists>b s'. access Operation_kRead a x s = Inr ((OK, b), s')
        \<and> data b = the (seen (m, p, n) a)
        \<and> holds s' (settle lim a (the (seen (m, p, n) a)) (m, p, n))"
    and write_settles: "holds s (m, p, n) \<Longrightarrow> m a \<noteq> None \<Longrightarrow> BlockEqual a x \<Longrightarrow> wf_block x \<Longrightarrow>
      \<exists>b s'. access Operation_kWrite a x s = Inr ((OK, b), s')
        \<and> holds s' (settle lim a (data x) (m, p, n))"
begin

lemma run_requests_forgetful:
  assumes "holds s st"
    and "\<forall>r \<in> set rs. own_request (fst st) r"
  shows "\<exists>s'. run_requests access buf rs s = Inr (fst (forgetful_run lim rs st), s')
    \<and> holds s' (snd (forgetful_run lim rs st))"
  using assms
proof (induction rs arbitrary: s st)
  case (Cons r rs)
  obtain m p n where st: "st = (m, p, n)" by (cases st)
  have keep: "\<forall>r \<in> set rs. own_request (fst (settle lim a d st)) r" for a d
    using Cons.prems(2) own_request_settle by simp
  show ?case
  proof (cases r)
    case (Read a)
    with Cons.prems st obtain b s' where s': "access Operation_kRead a buf s = Inr ((OK, b), s')"
      "data b = the (seen st a)" "holds s' (settle lim a (the (seen st a)) st)"
      using read_seen [of s m p n a buf] by auto
    from Cons.IH [OF s'(3) keep] obtain s'' where
      "run_requests access buf rs s' = Inr (fst (forgetful_run lim rs (settle lim a (the (seen st a)) st)), s'')"
      "holds s'' (snd (forgetful_run lim rs (settle lim a (the (seen st a)) st)))" by blast
    with Read s' show ?thesis by (auto split: prod.split)
  next
    case (Write a x)
    with Cons.prems st obtain b s' where s': "access Operation_kWrite a x s = Inr ((OK, b), s')"
      "holds s' (settle lim a (data x) st)"
      using write_settles [of s m p n a x] by auto
    from Cons.IH [OF s'(2) keep] obtain s'' where
      "run_requests access buf rs s' = Inr (fst (forgetful_run lim rs (settle lim a (data x) st)), s'')"
      "holds s'' (snd (forgetful_run lim rs (settle lim a (data x) st)))" by blast
    with Write s' show ?thesis by (auto split: prod.split)
  qed
qed simp

text \<open>A write is seen by the next access.\<close>

lemma read_your_write:
  assumes "holds s (m, p, n)" and "m a \<noteq> None" and "BlockEqual a x" "wf_block x"
  shows "\<exists>b s1 c s2. access Operation_kWrite a x s = Inr ((OK, b), s1)
    \<and> access Operation_kRead a y s1 = Inr ((OK, c), s2) \<and> data c = data x"
proof -
  from run_requests_forgetful [of s "(m, p, n)" "[Write a x, Read a]" y] assms obtain s' where
    "run_requests access y [Write a x, Read a] s = Inr ([(OK, []), (OK, data x)], s')"
    by (auto split: if_splits)
  then show ?thesis by (auto simp: andThen_eq_Inr)
qed

text \<open>But a write in the middle of a period is forgotten by the access after it.\<close>

lemma write_lost:
  assumes "holds s (m, p, n)" and "Suc n \<noteq> lim" and "m a = Some d" and "BlockEqual a x" "wf_block x"
    and "m b \<noteq> None" and "b \<noteq> a"
  shows "\<exists>o1 s1 o2 s2 o3 s3. access Operation_kWrite a x s = Inr ((OK, o1), s1)
    \<and> access Operation_kRead b y s1 = Inr ((OK, o2), s2)
    \<and> access Operation_kRead a y s2 = Inr ((OK, o3), s3) \<and> data o3 = d"
proof -
  from run_requests_forgetful [of s "(m, p, n)" "[Write a x, Read b, Read a]" y] assms obtain v s' where
    "run_requests access y [Write a x, Read b, Read a] s = Inr ([(OK, []), (OK, v), (OK, d)], s')"
    by (auto split: if_splits)
  then show ?thesis by (auto simp: andThen_eq_Inr)
qed

end

lemma opened_read:
  assumes holds: "sqrt_holds L k lim cw (m, p, n)" and a: "m a \<noteq> None"
  shows "\<exists>b cw'. opened L (Sqrt_Access L memory) Operation_kRead a x cw = Inr ((OK, b), cw')
    \<and> data b = the (seen (m, p, n) a)
    \<and> sqrt_holds L k lim cw' (settle lim a (the (seen (m, p, n) a)) (m, p, n))"
proof -
  obtain c w where cw: "cw = (c, w)" by (cases cw)
  from Sqrt_InternalAccess_view [OF holds [unfolded cw] a _ refl refl,
      where op = Operation_kRead and x = x and memory = memory and dum = False] obtain e b c' w' where
    r: "Sqrt_InternalAccess L memory Operation_kRead a x False (c, w) = Inr ((OK, e), c', w')"
      "sealed L k e b" "cell a (the (seen (m, p, n) a)) b"
      "sqrt_holds L k lim (c', w') (settle lim a (the (seen (m, p, n) a)) (m, p, n))"
    by (auto simp del: settle.simps)
  have hosts: "sqrt_core L k lim (c0, w0) m0 p0 \<Longrightarrow> sodium_ok L \<and> keyed k (w_host w0)" for c0 w0 m0 p0
    by (simp add: sqrt_core_def)
  have L: "sodium_ok L" "keyed k (w_host w')" using r(4) hosts by (auto split: if_splits)
  from DecryptBlock_sealed [OF L(1) r(2) L(2)] obtain b' where
    b': "DecryptBlock L e (w_host w') = Inr (OK, b')" "payload b' = payload b" "wf_block b'" by blast
  have "oc_initialized c" using holds by (simp add: cw sqrt_core_def)
  then have "opened L (Sqrt_Access L memory) Operation_kRead a x cw = Inr ((OK, b'), c', w')"
    using r(1) b'(1) by (simp add: opened_def Sqrt_Access_def Access_def cw)
  moreover have "data b' = the (seen (m, p, n) a)"
    using cell_payload [OF b'(2,3) r(3)] by (simp add: cell_def)
  ultimately show ?thesis using r(4) by blast
qed

lemma opened_write:
  assumes holds: "sqrt_holds L k lim cw (m, p, n)" and a: "m a \<noteq> None" and x: "BlockEqual a x" "wf_block x"
  shows "\<exists>b cw'. opened L (Sqrt_Access L memory) Operation_kWrite a x cw = Inr ((OK, b), cw')
    \<and> sqrt_holds L k lim cw' (settle lim a (data x) (m, p, n))"
proof -
  obtain c w where cw: "cw = (c, w)" by (cases cw)
  from Sqrt_InternalAccess_view [OF holds [unfolded cw] a _ refl refl,
      where op = Operation_kWrite and x = x and memory = memory and dum = False] x obtain e cw' where
    "Sqrt_InternalAccess L memory Operation_kWrite a x False (c, w) = Inr ((OK, e), cw')"
    "sqrt_holds L k lim cw' (settle lim a (data x) (m, p, n))" by (auto simp del: settle.simps)
  moreover have "oc_initialized c" using holds by (simp add: cw sqrt_core_def)
  ultimately show ?thesis by (simp add: opened_def Sqrt_Access_def Access_def cw)
qed

interpretation sqrt: forgetful_ram "opened L (Sqrt_Access L memory)" "sqrt_holds L k lim" lim
  for L memory k lim
  by unfold_locales (fact opened_read, fact opened_write)

end
