(* ===== verification/Sqrt_Fill.thy ===== *)
theory Sqrt_Fill
  imports Sqrt_Oram_Correct
begin

text \<open>
  Constructing, initialising and filling a square root ORAM: the blocks are sorted, permuted,
  sealed and loaded, and the memory they stand for is the one the accesses work on.
\<close>

section \<open>Filling\<close>

text \<open>A storage as \<open>InitOram\<close> makes it.\<close>

definition sqrt_fresh :: "sqrt_oram \<Rightarrow> world \<Rightarrow> bool" where
  "sqrt_fresh c w \<longleftrightarrow> (\<exists>s st. w_srv w = Some s \<and> storages s (oc_id c) = Some (Sqrt st)
     \<and> st_type st = kSqrtStorage \<and> st_instance_hash st = oc_hash c \<and> st_capacity st = oc_block_num c
     \<and> main_memory st = [] \<and> dummy st = [] \<and> shelter st = []) \<and> length (oc_hash c) = 32"

lemma Sqrt_InitOram_fresh:
  assumes "w_srv w = Some s" and "storages s (oc_id c) = None"
    and "oc_id c < kMaximumOramStorageNum" and "oc_block_num c < 2 ^ 32" and "length (oc_hash c) = 32"
  shows "\<exists>w'. Sqrt_InitOram (c, w) = (OK, c, w') \<and> sqrt_fresh c w' \<and> w_host w' = w_host w"
proof -
  have u: "unat (of_nat (oc_block_num c) :: u32) = oc_block_num c"
    using assms(4) by (intro unat_of_nat_u32) simp
  let ?c = "Call_InitSqrt (assemble_header c) (of_nat (oc_block_num c)) (of_nat (so_sqrt_m c)) (of_nat ORAM_BLOCK_SIZE)"
  let ?st = "SqrtOramServerStorage (oc_id c) (oc_block_num c) (unat (of_nat ORAM_BLOCK_SIZE :: u32))
      (unat (of_nat (so_sqrt_m c) :: u32)) (oc_hash c)"
  let ?s = "put_storage (assemble_header c) (Sqrt ?st) s"
  have "request_size ?c \<le> max_message" using assms(5) by (intro small_requests(3)) simp
  moreover have "InitSqrtOram (assemble_header c) (of_nat (oc_block_num c)) (of_nat (so_sqrt_m c)) (of_nat ORAM_BLOCK_SIZE) s
      = Inr ((grpc_ok, ()), ?s)"
    using assms(2,3) u by (simp add: not_le [symmetric] InitSqrtOram_def CheckInitRequest_def assemble_header_def Let_def)
  ultimately have "Sqrt_InitOram (c, w) = (OK, c, (logged ?c w)\<lparr>w_srv := Some ?s\<rparr>)"
    using assms(1) by (simp add: Sqrt_InitOram_def rpc_ok)
  then show ?thesis using assms(5)
    by (auto simp: sqrt_fresh_def put_storage_def assemble_header_def SqrtOramServerStorage_def)
qed

lemma sort_blocks_by_id:
  assumes ids: "mset (map (\<lambda>b. block_id (header b)) bs) = mset (CreateVec N)" and N: "N < 2 ^ 32"
  shows "\<exists>sorted. sort_blocks bs = Inr sorted \<and> mset sorted = mset bs \<and> length sorted = N
    \<and> (\<forall>b \<in> set bs. unat (block_id (header b)) < N \<and> sorted ! unat (block_id (header b)) = b)"
proof -
  let ?id = "\<lambda>b. block_id (header b)" and ?s = "sort_key (\<lambda>b. block_id (header b)) bs"
  have u: "unat (of_nat i :: u32) = i" if "i < N" for i
    using that N by (intro unat_of_nat_u32) simp
  have "distinct (CreateVec N)" "sorted (CreateVec N)"
    unfolding CreateVec_def distinct_map sorted_map
    by (auto simp: inj_on_def sorted_wrt_iff_nth_less word_le_nat_alt u dest: arg_cong [where f = unat])
  then have dist: "distinct (map ?id bs)" using ids by (metis mset_eq_imp_distinct_iff)
  have "map ?id ?s = CreateVec N"
  proof -
    have "mset (map ?id ?s) = mset (CreateVec N)" using ids by (simp add: mset_map)
    then have "sort (CreateVec N) = map ?id ?s" by (intro properties_for_sort) simp_all
    with \<open>sorted (CreateVec N)\<close> show ?thesis by (simp add: sorted_sort_id)
  qed
  then have len: "length ?s = N" and nth: "\<And>j. j < N \<Longrightarrow> ?id (?s ! j) = of_nat j"
    by (metis CreateVec_def length_map length_upt minus_nat.diff_0)
      (metis (no_types, lifting) CreateVec_def \<open>map ?id ?s = CreateVec N\<close> add_0 length_map length_upt
        minus_nat.diff_0 nth_map nth_upt)
  have "unat (?id b) < N \<and> ?s ! unat (?id b) = b" if "b \<in> set bs" for b
  proof -
    from that have "b \<in> set ?s" by simp
    then obtain j where "j < N" "?s ! j = b" using len by (metis in_set_conv_nth)
    with nth u show ?thesis by metis
  qed
  with dist len show ?thesis by (simp add: sort_blocks_def)
qed

lemma seal_all_view:
  assumes L: "sodium_ok L"
  shows "list_all wf_block bs \<Longrightarrow> keyed k h \<Longrightarrow>
    \<exists>ds h'. seal_all L bs h = Inr (ds, h') \<and> keyed k h' \<and> list_all2 (sealed_bytes L k) ds bs"
proof (induction bs arbitrary: h)
  case (Cons b bs)
  from EncryptBlock_seals [OF L, of b k h] Cons.prems obtain e where
    e: "EncryptBlock L b h = Inr ((OK, e), h\<lparr>draws := draws h + 1\<rparr>)" "sealed L k e b" by auto
  from Cons.IH [of "h\<lparr>draws := draws h + 1\<rparr>"] Cons.prems obtain ds h' where
    "seal_all L bs (h\<lparr>draws := draws h + 1\<rparr>) = Inr (ds, h')"
    "keyed k h'" "list_all2 (sealed_bytes L k) ds bs" by auto
  moreover have "sealed_bytes L k (block_bytes e) b" using e(2) by (auto simp: sealed_bytes_def)
  ultimately show ?case using e(1)
    by (intro exI [of _ "block_bytes e # ds"] exI [of _ h']) (simp add: ConvertToString_def)
qed simp

lemma fill_loop_view:
  "fill_loop ds i st = st\<lparr>main_memory := main_memory st @ take (st_capacity st - i) ds,
     dummy := dummy st @ drop (st_capacity st - i) ds,
     shelter := shelter st @ replicate (length ds - (st_capacity st - i)) (kInvalidMask, [])\<rparr>"
proof (induction ds i st rule: fill_loop.induct)
  case (2 d ds i st)
  show ?case
  proof (cases "i < st_capacity st")
    case True
    then obtain n where "st_capacity st - i = Suc n" "st_capacity st - Suc i = n"
      by (metis Suc_diff_Suc)
    with 2 True show ?thesis by simp
  next
    case False
    then have "st_capacity st - i = 0" "st_capacity st - Suc i = 0" by simp_all
    with 2 False show ?thesis by simp
  qed
qed simp

lemma LoadSqrtOram_view:
  assumes fresh: "sqrt_fresh c w" and ds: "list_all2 (sealed_bytes L k) ds arr"
    and len: "length arr = oc_block_num c + so_sqrt_m c" "length arr \<le> 7449"
  shows "\<exists>w'. stub_LoadSqrtOram (assemble_header c) ds w = ((grpc_ok, ()), w')
    \<and> w_host w' = w_host w \<and> sqrt_server L k c w' arr (empty_shelter (so_sqrt_m c))"
proof -
  from fresh obtain s st where s: "w_srv w = Some s" "storages s (oc_id c) = Some (Sqrt st)"
    "st_type st = kSqrtStorage" "st_instance_hash st = oc_hash c" "st_capacity st = oc_block_num c"
    "main_memory st = []" "dummy st = []" "shelter st = []" and h: "length (oc_hash c) = 32" by (auto simp: sqrt_fresh_def)
  let ?s = "put_storage (assemble_header c) (Sqrt (Fill st ds)) s"
  let ?w = "(logged (Call_LoadSqrt (assemble_header c) ds) w)\<lparr>w_srv := Some ?s\<rparr>"
  have "LoadSqrtOram (assemble_header c) ds s = Inr ((grpc_ok, ()), ?s)"
    using s unfolding LoadSqrtOram_def
    by (subst on_storage_ok [where st = "Sqrt st" and d = st]) (simp_all add: assemble_header_def)
  moreover have "request_size (Call_LoadSqrt (assemble_header c) ds) \<le> max_message"
    using sqrt_storage_fits [OF _ sealed_bytes_all [OF ds], of "assemble_header c"] h len(2) list_all2_lengthD [OF ds] by simp
  ultimately have "stub_LoadSqrtOram (assemble_header c) ds w = ((grpc_ok, ()), ?w)"
    using s(1) by (simp add: rpc_ok)
  moreover have "sqrt_server L k c ?w arr (empty_shelter (so_sqrt_m c))"
    using s ds len h list_all2_lengthD [OF ds]
    by (simp add: sqrt_server_def put_storage_def assemble_header_def Fill_def fill_loop_view
        empty_shelter_def)
  ultimately show ?thesis by (intro exI [of _ ?w]) simp
qed

lemma LoadSqrtOram_too_large:
  assumes h: "length (oc_hash c) = 32" and ds: "list_all2 (sealed_bytes L k) ds arr" and "\<not> length arr \<le> 7449"
  shows "\<exists>st u w'. stub_LoadSqrtOram (assemble_header c) ds w = ((st, u), w') \<and> \<not> is_ok st"
  using sqrt_storage_fits [OF _ sealed_bytes_all [OF ds], of "assemble_header c"] assms(1,3) list_all2_lengthD [OF ds]
  by (simp add: rpc_def not_le split: option.split)

lemma blocks_map_member: "blocks_map ds a = Some d \<Longrightarrow> \<exists>b \<in> set ds. BlockEqual a b \<and> data b = d"
  by (induction ds) (auto simp: blocks_map_Cons split: if_splits, simp add: blocks_map_def)

lemma Padded_view:
  assumes mem: "\<forall>i. wf_block (memory i)" and ds: "list_all wf_block ds" "length ds \<le> N"
    and ids: "mset (map (\<lambda>b. block_id (header b)) ds) = mset (CreateVec (length ds))"
  shows "\<exists>padded. Padded memory ds N = Inr padded \<and> set ds \<subseteq> set padded \<and> list_all wf_block padded
    \<and> length padded = N \<and> mset (map (\<lambda>b. block_id (header b)) padded) = mset (CreateVec N)"
proof -
  let ?pad = "map (\<lambda>i. (memory i)\<lparr>header := (header (memory i))
        \<lparr>btype := BlockType_kInvalid, block_id := of_nat i\<rparr>\<rparr>) [length ds..<N]"
  have "CreateVec N = CreateVec (length ds) @ map of_nat [length ds..<N]"
    using ds(2) by (metis CreateVec_def le_add_diff_inverse map_append upt_add_eq_append zero_order(1))
  moreover have "map (\<lambda>b. block_id (header b)) ?pad = map of_nat [length ds..<N]" by simp
  ultimately have "mset (map (\<lambda>b. block_id (header b)) (ds @ ?pad)) = mset (CreateVec N)"
    unfolding map_append mset_append ids by (simp only: mset_append)
  moreover have "list_all wf_block ?pad" using mem by (simp add: list_all_iff wf_block_def)
  ultimately show ?thesis using ds
    by (intro exI [of _ "ds @ ?pad"]) (simp add: Padded_def not_less del: mset_map mset_append map_append)
qed

text \<open>
  Padding, sorting and permuting arrange the blocks so that the position map finds each of them.
\<close>

lemma arrangement:
  assumes L: "ff3_ok L" and N: "0 < N" "N < 2 ^ 32" and mem: "\<forall>i. wf_block (memory i)"
    and ds: "list_all wf_block ds" "length ds \<le> N"
    and ids: "mset (map (\<lambda>b. block_id (header b)) ds) = mset (CreateVec (length ds))"
  shows "\<exists>padded perm pm sorted arr. Padded memory ds N = Inr padded \<and> length padded = N
    \<and> RandomPermutation L (CreateVec N) h = Inr ((OK, perm), h\<lparr>draws := draws h + 1\<rparr>)
    \<and> UpdatePosition perm Map.empty = Inr pm \<and> sort_blocks padded = Inr sorted \<and> PermuteBy perm sorted = Inr arr
    \<and> places_ok N pm \<and> list_all wf_block arr \<and> length arr = N \<and> memory_in pm arr (blocks_map ds)"
proof -
  from Padded_view [OF mem ds ids] obtain padded where
    p: "Padded memory ds N = Inr padded" "set ds \<subseteq> set padded" "list_all wf_block padded"
      "length padded = N" "mset (map (\<lambda>b. block_id (header b)) padded) = mset (CreateVec N)" by blast
  have v: "CreateVec N \<noteq> []" "length (CreateVec N) < 2 ^ 32" using N by (simp_all add: CreateVec_def)
  from RandomPermutation_returns [OF L v, of h] obtain perm where
    perm: "RandomPermutation L (CreateVec N) h = Inr ((OK, perm), h\<lparr>draws := draws h + 1\<rparr>)"
      "mset perm = mset (CreateVec N)" by blast
  have pp: "permutes N perm" using permutes_of_mset [OF perm(2) N(2)] .
  have "place Map.empty a = unat a" for a by (simp add: place_def)
  with UpdatePosition_view [OF pp N(2), of Map.empty] obtain pm where
    pm: "UpdatePosition perm Map.empty = Inr pm" "places_ok N pm"
      "\<forall>a. unat a < N \<longrightarrow> place pm a = unat (perm ! unat a)" by auto
  from sort_blocks_by_id [OF p(5) N(2)] obtain sorted where
    s: "sort_blocks padded = Inr sorted" "mset sorted = mset padded" "length sorted = N"
      "\<forall>b \<in> set padded. unat (block_id (header b)) < N \<and> sorted ! unat (block_id (header b)) = b"
    by blast
  from PermuteBy_permutes [of sorted perm] pp s(3) obtain arr where
    arr: "PermuteBy perm sorted = Inr arr" "length arr = N"
      "\<forall>j < N. arr ! unat (perm ! j) = sorted ! j" "mset arr = mset sorted"
    by (auto simp: permutes_def)
  have wf: "list_all wf_block arr"
    using p(3) arr(4) s(2) by (metis list_all_iff mset_eq_setD)
  have "memory_in pm arr (blocks_map ds)"
    unfolding memory_in_def
  proof (intro allI impI)
    fix a d assume "blocks_map ds a = Some d"
    from blocks_map_member [OF this] obtain b where b: "b \<in> set ds" "BlockEqual a b" "data b = d" by blast
    with p(2) s(4) have "unat a < N" "sorted ! unat a = b" by (auto simp: BlockEqual_def)
    with arr(2,3) pm(3) have "unat a < length arr" "arr ! place pm a = b" by simp_all
    with b ds(1) show "unat a < length arr \<and> cell a d (arr ! place pm a)"
      by (auto simp: cell_def list_all_iff)
  qed
  with p(1,4) perm(1) pm(1,2) s(1) arr(1,2) wf show ?thesis by blast
qed

lemma Sqrt_FillWithData_result:
  assumes L: "sodium_ok L" "ff3_ok L" and k: "keyed k (w_host w)" and fresh: "sqrt_fresh c w"
    and c: "so_position c = Map.empty" "so_counter c = 0" "so_next_dummy c = 0" "0 < so_sqrt_m c"
      "oc_block_num c + so_sqrt_m c < 2 ^ 32"
    and mem: "\<forall>i. wf_block (memory i)" and ds: "list_all wf_block ds" "length ds \<le> oc_block_num c"
    and ids: "mset (map (\<lambda>b. block_id (header b)) ds) = mset (CreateVec (length ds))"
  shows "\<exists>st cw'. Sqrt_FillWithData L memory ds (c, w) = Inr (st, cw')
    \<and> (if oc_block_num c + so_sqrt_m c \<le> 7449 then st = OK \<and> sqrt_holds L k (so_sqrt_m c) cw' (blocks_map ds, None, 0)
       else error_code st = kServerError)"
proof -
  let ?N = "oc_block_num c + so_sqrt_m c"
  have N: "0 < ?N" "length ds \<le> ?N" using c(4) ds(2) by simp_all
  let ?h = "(w_host w)\<lparr>draws := draws (w_host w) + 1\<rparr>"
  from arrangement [OF L(2) N(1) c(5) mem ds(1) N(2) ids, of "w_host w"] obtain padded perm pm sorted arr where
    p: "Padded memory ds ?N = Inr padded" "length padded = ?N"
      "RandomPermutation L (CreateVec ?N) (w_host w) = Inr ((OK, perm), ?h)"
      "UpdatePosition perm (so_position c) = Inr pm" "sort_blocks padded = Inr sorted" "PermuteBy perm sorted = Inr arr"
    and arr: "places_ok ?N pm" "list_all wf_block arr" "length arr = ?N" "memory_in pm arr (blocks_map ds)"
    unfolding c(1) by blast
  have "keyed k ?h" using k by (simp add: keyed_def)
  from seal_all_view [OF L(1) arr(2) this] obtain es h' where
    es: "seal_all L arr ?h = Inr (es, h')" "keyed k h'" "list_all2 (sealed_bytes L k) es arr" by blast
  let ?c = "c\<lparr>so_position := pm\<rparr>"
  show ?thesis
  proof (cases "?N \<le> 7449")
    case True
    have "sqrt_fresh ?c (w\<lparr>w_host := h'\<rparr>)" using fresh by (simp add: sqrt_fresh_def)
    from LoadSqrtOram_view [OF this es(3)] arr(3) True obtain w' where
      w': "stub_LoadSqrtOram (assemble_header ?c) es (w\<lparr>w_host := h'\<rparr>) = ((grpc_ok, ()), w')"
        "w_host w' = h'" "sqrt_server L k ?c w' arr (empty_shelter (so_sqrt_m c))" by auto
    have "Sqrt_FillWithData L memory ds (c, w) = Inr (OK, ?c\<lparr>oc_initialized := True\<rparr>, w')"
      using p es(1) w'(1) by (simp add: Sqrt_FillWithData_def Let_def)
    then show ?thesis
      using L c w' es(2) arr(1,4) True by (auto simp: sqrt_core_def pending_in_def sqrt_server_def)
  next
    case False
    from fresh have "length (oc_hash ?c) = 32" by (simp add: sqrt_fresh_def)
    from LoadSqrtOram_too_large [OF this es(3), of "w\<lparr>w_host := h'\<rparr>"] False arr(3) obtain st u w' where
      "stub_LoadSqrtOram (assemble_header ?c) es (w\<lparr>w_host := h'\<rparr>) = ((st, u), w')" "\<not> is_ok st" by auto
    with p es(1) False show ?thesis by (simp add: Sqrt_FillWithData_def Let_def mk_status_def)
  qed
qed

section \<open>A square root ORAM set up\<close>

lemma sqrt_up_from_spec: "n \<le> sqrt_up_from n s * sqrt_up_from n s \<and> s \<le> sqrt_up_from n s
    \<and> (\<forall>t. s \<le> t \<and> t < sqrt_up_from n s \<longrightarrow> t * t < n)"
proof (induction n s rule: sqrt_up_from.induct)
  case (1 n s)
  show ?case
  proof (cases "n \<le> s * s")
    case True
    then show ?thesis by (subst (1 2 3 4) sqrt_up_from.simps) simp
  next
    case False
    then have eq: "sqrt_up_from n s = sqrt_up_from n (Suc s)" by (subst sqrt_up_from.simps) simp
    from "1.IH" [OF False] False show ?thesis unfolding eq
      by (auto simp: not_le) (metis le_antisym not_less_eq_eq)
  qed
qed

text \<open>\<open>ceil_sqrt n\<close> is the least number whose square reaches \<open>n\<close>.\<close>

lemma ceil_sqrt_spec: "n \<le> ceil_sqrt n * ceil_sqrt n" "t < ceil_sqrt n \<Longrightarrow> t * t < n"
  using sqrt_up_from_spec [of n 0] by (simp_all add: ceil_sqrt_def)

lemma SquareRootOramController_shape:
  assumes L: "sodium_ok L" and h: "keyed k h"
    and p: "and (ceil_sqrt n + n) (ceil_sqrt n + n - 1) = 0"
  shows "\<exists>c h'. SquareRootOramController L memory i standalone n h = Inr (c, h') \<and> keyed k h'
    \<and> oc_id c = i \<and> oc_block_num c = n \<and> so_sqrt_m c = ceil_sqrt n \<and> so_position c = Map.empty
    \<and> so_counter c = 0 \<and> so_next_dummy c = 0 \<and> length (oc_hash c) = 32"
proof -
  obtain c0 where c0: "OramController L memory i standalone n kSquareOram h
      = Inr (c0, h\<lparr>draws := draws h + 1\<rparr>)" "oc_id c0 = i" "oc_block_num c0 = n" "length (oc_hash c0) = 32"
    using h L by (auto simp: sodium_ok_def OramController_def GetInstance_def keyed_def RandomBytes_def)
  then show ?thesis using p h
    by (simp add: SquareRootOramController_def Let_def panic_if_def oram_controller.defs
        sqrt_oram.defs keyed_def)
qed

lemma sqrt_oram_set_up:
  assumes L: "sodium_ok L" "ff3_ok L" and h: "keyed k h"
    and n: "0 < n" "n + ceil_sqrt n < 2 ^ 32" "and (ceil_sqrt n + n) (ceil_sqrt n + n - 1) = 0"
    and s: "storages s i = None" "i < kMaximumOramStorageNum" and mem: "\<forall>j. wf_block (memory' j)"
    and ds: "list_all wf_block ds" "length ds \<le> n"
      "mset (map (\<lambda>b. block_id (header b)) ds) = mset (CreateVec (length ds))"
  shows "\<exists>c h0 w1 st cw2. SquareRootOramController L memory i True n h = Inr (c, h0)
    \<and> Sqrt_InitOram (c, \<lparr>w_host = h0, w_srv = Some s, w_log = []\<rparr>) = (OK, c, w1)
    \<and> Sqrt_FillWithData L memory' ds (c, w1) = Inr (st, cw2)
    \<and> (if n + ceil_sqrt n \<le> 7449 then st = OK \<and> sqrt_holds L k (ceil_sqrt n) cw2 (blocks_map ds, None, 0)
       else error_code st = kServerError)"
proof -
  from SquareRootOramController_shape [OF L(1) h n(3), of memory i True] obtain c h0 where
    c: "SquareRootOramController L memory i True n h = Inr (c, h0)" "keyed k h0" "oc_id c = i"
      "oc_block_num c = n" "so_sqrt_m c = ceil_sqrt n" "so_position c = Map.empty"
      "so_counter c = 0" "so_next_dummy c = 0" "length (oc_hash c) = 32" by blast
  have m: "0 < ceil_sqrt n" using ceil_sqrt_spec(1) [of n] n(1) by (cases "ceil_sqrt n") auto
  from Sqrt_InitOram_fresh [of "\<lparr>w_host = h0, w_srv = Some s, w_log = []\<rparr>" s c] c(3,4,9) s n(2) obtain w1 where
    w1: "Sqrt_InitOram (c, \<lparr>w_host = h0, w_srv = Some s, w_log = []\<rparr>) = (OK, c, w1)" "sqrt_fresh c w1"
      "w_host w1 = h0" by auto
  have kw: "keyed k (w_host w1)" using w1(3) c(2) by simp
  have cp: "0 < so_sqrt_m c" "oc_block_num c + so_sqrt_m c < 2 ^ 32" "length ds \<le> oc_block_num c"
    using c(4,5) m n(2) ds(2) by simp_all
  from Sqrt_FillWithData_result [OF L kw w1(2) c(6-8) cp(1,2) mem ds(1) cp(3) ds(3)] c(1) w1(1)
  show ?thesis unfolding c(4,5) by blast
qed

end
