(* ===== verification/Sqrt_Properties.thy ===== *)
theory Sqrt_Properties
  imports Sqrt_Fill Oram_Instance
begin

text \<open>The properties of the square root ORAM.\<close>

text \<open>
  C11. A square root ORAM that is constructed, initialised on a server where its identifier is free
  and filled with blocks 0, 1, ... (in any order) answers, if it has at most 7449 places in all,
  every sequence of accesses, with status OK throughout, like a memory with one pending entry: an access is answered from the pending
  entry or from the memory and becomes the pending entry itself, and only every
  \<open>ceil_sqrt n\<close>-th access, which permutes the server's array, writes its entry to the memory. What a
  read returns has to be decrypted by the caller (\<open>opened\<close>). With more places the message that loads
  the storage is too large for gRPC, and filling it fails with \<open>kServerError\<close>.
\<close>

theorem sqrt_oram_is_forgetful:
  assumes "sodium_ok L" "ff3_ok L" and "keyed k h"
    and "0 < n" "n + ceil_sqrt n < 2 ^ 32" "and (ceil_sqrt n + n) (ceil_sqrt n + n - 1) = 0"
    and "storages s i = None" "i < kMaximumOramStorageNum" and "\<forall>j. wf_block (memory' j)"
    and "list_all wf_block ds" "length ds \<le> n"
      "mset (map (\<lambda>b. block_id (header b)) ds) = mset (CreateVec (length ds))"
    and "\<forall>r \<in> set rs. own_request (blocks_map ds) r"
  shows "\<exists>c h0 w1 st cw2. SquareRootOramController L memory i True n h = Inr (c, h0)
    \<and> Sqrt_InitOram (c, \<lparr>w_host = h0, w_srv = Some s, w_log = []\<rparr>) = (OK, c, w1)
    \<and> Sqrt_FillWithData L memory' ds (c, w1) = Inr (st, cw2)
    \<and> (if n + ceil_sqrt n \<le> 7449
       then st = OK \<and> (\<exists>cw3. run_requests (opened L (Sqrt_Access L m)) buf rs cw2
         = Inr (fst (forgetful_run (ceil_sqrt n) rs (blocks_map ds, None, 0)), cw3))
       else error_code st = kServerError)"
proof -
  from sqrt_oram_set_up [OF assms(1-12), of memory] obtain c h0 w1 st cw2 where
    c: "SquareRootOramController L memory i True n h = Inr (c, h0)"
      "Sqrt_InitOram (c, \<lparr>w_host = h0, w_srv = Some s, w_log = []\<rparr>) = (OK, c, w1)"
      "Sqrt_FillWithData L memory' ds (c, w1) = Inr (st, cw2)"
    and r: "if n + ceil_sqrt n \<le> 7449 then st = OK \<and> sqrt_holds L k (ceil_sqrt n) cw2 (blocks_map ds, None, 0)
       else error_code st = kServerError" by blast
  show ?thesis
  proof (cases "n + ceil_sqrt n \<le> 7449")
    case True
    with r have h: "sqrt_holds L k (ceil_sqrt n) cw2 (blocks_map ds, None, 0)" "st = OK"
      by (simp_all del: sqrt_holds.simps)
    from sqrt.run_requests_forgetful [OF h(1), of rs m buf] assms(13) obtain cw3 where
      "run_requests (opened L (Sqrt_Access L m)) buf rs cw2
        = Inr (fst (forgetful_run (ceil_sqrt n) rs (blocks_map ds, None, 0)), cw3)" by auto
    with c h(2) True show ?thesis
      by (intro exI [of _ c] exI [of _ h0] exI [of _ w1] exI [of _ st] exI [of _ cw2]) (simp add: exI [of _ cw3])
  next
    case False
    with r c show ?thesis by auto
  qed
qed

lemma toy_sqrt_two: "ceil_sqrt 2 = 2" "ceil_sqrt 12 = 4"
  by code_simp+

lemma toy_sqrt_contents:
  "blocks_map [toy_block 1 1 11, toy_block 0 1 10] = [0 \<mapsto> replicate 512 10, 1 \<mapsto> replicate 512 11]"
  by (auto simp: fun_eq_iff blocks_map_Cons BlockEqual_def BlockType_kNormal_def)
    (simp add: blocks_map_def)

lemma toy_BlockEqual [simp]: "BlockEqual a (toy_block i t d) \<longleftrightarrow> i = a \<and> t = 1"
  by (auto simp: BlockEqual_def BlockType_kNormal_def)

theorem sqrt_oram_is_forgetful_witness:
  "\<exists>c h0 w1 cw2 cw3. SquareRootOramController toy_libs toy_cryptor 1 True 2 toy_host = Inr (c, h0)
    \<and> Sqrt_InitOram (c, \<lparr>w_host = h0, w_srv = Some toy_server, w_log = []\<rparr>) = (OK, c, w1)
    \<and> Sqrt_FillWithData toy_libs (\<lambda>_. toy_block 0 0 0) [toy_block 1 1 11, toy_block 0 1 10] (c, w1)
        = Inr (OK, cw2)
    \<and> run_requests (opened toy_libs (Sqrt_Access toy_libs (toy_block 0 0 0))) (toy_block 0 0 0)
        [Write 0 (toy_block 0 1 20), Read 0, Write 1 (toy_block 1 1 21), Read 0, Read 1] cw2
      = Inr ([(OK, []), (OK, replicate 512 20), (OK, []), (OK, replicate 512 20),
              (OK, replicate 512 11)], cw3)"
proof -
  let ?ds = "[toy_block 1 1 11, toy_block 0 1 10]"
  let ?rs = "[Write 0 (toy_block 0 1 20), Read 0, Write 1 (toy_block 1 1 21), Read 0, Read 1]"
  have ok: "\<forall>r \<in> set ?rs. own_request (blocks_map ?ds) r" by (simp add: toy_sqrt_contents)
  have out: "fst (forgetful_run (ceil_sqrt 2) ?rs (blocks_map ?ds, None, 0))
      = [(OK, []), (OK, replicate 512 20), (OK, []), (OK, replicate 512 20), (OK, replicate 512 11)]"
    by (simp add: toy_sqrt_contents toy_sqrt_two)
  have vec: "mset (map (\<lambda>b. block_id (header b)) ?ds) = mset (CreateVec (length ?ds))"
    by (simp add: CreateVec_def)
  have four: "and (4 :: nat) 3 = 0" by code_simp
  show ?thesis
    using sqrt_oram_is_forgetful [of toy_libs "replicate 32 7" toy_host 2 toy_server 1
        "\<lambda>_. toy_block 0 0 0" ?ds ?rs toy_cryptor "toy_block 0 0 0" "toy_block 0 0 0"] ok vec four
    unfolding out by (simp add: toy_sqrt_two)
qed

text \<open>The set-up of a storage that fits.\<close>

lemma small_sqrt_set_up:
  assumes "sodium_ok L" "ff3_ok L" "keyed k h"
    and "0 < n" "n + ceil_sqrt n \<le> 7449" "and (ceil_sqrt n + n) (ceil_sqrt n + n - 1) = 0"
    and "storages s i = None" "i < kMaximumOramStorageNum" and "\<forall>j. wf_block (memory' j)"
    and "list_all wf_block ds" "length ds \<le> n"
      "mset (map (\<lambda>b. block_id (header b)) ds) = mset (CreateVec (length ds))"
  shows "\<exists>c h0 w1 cw2. SquareRootOramController L memory i True n h = Inr (c, h0)
    \<and> Sqrt_InitOram (c, \<lparr>w_host = h0, w_srv = Some s, w_log = []\<rparr>) = (OK, c, w1)
    \<and> Sqrt_FillWithData L memory' ds (c, w1) = Inr (OK, cw2)
    \<and> sqrt_holds L k (ceil_sqrt n) cw2 (blocks_map ds, None, 0)"
proof -
  have "n + ceil_sqrt n < 2 ^ 32" using assms(5) by simp
  from sqrt_oram_set_up [OF assms(1-4) this assms(6-12), of memory] assms(5) show ?thesis
    by (simp del: sqrt_holds.simps)
qed

text \<open>
  A write to a square root ORAM is seen by an access to the same address that follows at once,
  but forgotten when an access to another address comes first: \<open>ReadShelter\<close> reads, and so empties,
  every entry of the shelter, and writes back one block only. (Right after filling; \<open>n\<close> is at least
  2, so that the first access does not permute.)
\<close>

lemma sqrt_write_is_forgotten:
  assumes "sodium_ok L" "ff3_ok L" and "keyed k h"
    and "2 \<le> n" "n + ceil_sqrt n \<le> 7449" "and (ceil_sqrt n + n) (ceil_sqrt n + n - 1) = 0"
    and "storages s i = None" "i < kMaximumOramStorageNum" and "\<forall>j. wf_block (memory' j)"
    and "list_all wf_block ds" "length ds \<le> n"
      "mset (map (\<lambda>b. block_id (header b)) ds) = mset (CreateVec (length ds))"
    and "blocks_map ds a = Some d" "blocks_map ds b = Some e" "a \<noteq> b" "BlockEqual a x" "wf_block x"
  shows "\<exists>c h0 w1 cw2 o3 cw3 o4 cw4 o5 cw5 o6 cw6.
    SquareRootOramController L memory i True n h = Inr (c, h0)
    \<and> Sqrt_InitOram (c, \<lparr>w_host = h0, w_srv = Some s, w_log = []\<rparr>) = (OK, c, w1)
    \<and> Sqrt_FillWithData L memory' ds (c, w1) = Inr (OK, cw2)
    \<and> opened L (Sqrt_Access L m) Operation_kWrite a x cw2 = Inr ((OK, o3), cw3)
    \<and> opened L (Sqrt_Access L m) Operation_kRead a y cw3 = Inr ((OK, o4), cw4) \<and> data o4 = data x
    \<and> opened L (Sqrt_Access L m) Operation_kRead b y cw3 = Inr ((OK, o5), cw5) \<and> data o5 = e
    \<and> opened L (Sqrt_Access L m) Operation_kRead a y cw5 = Inr ((OK, o6), cw6) \<and> data o6 = d"
proof -
  have n: "0 < n" using assms(4) by simp
  have lim: "Suc 0 \<noteq> ceil_sqrt n"
  proof
    assume "Suc 0 = ceil_sqrt n"
    with ceil_sqrt_spec(1) [of n] have "n \<le> Suc 0 * Suc 0" by (simp only:)
    with assms(4) show False by simp
  qed
  from small_sqrt_set_up [OF assms(1-3) n assms(5-12), of memory] obtain c h0 w1 cw2 where
    c: "SquareRootOramController L memory i True n h = Inr (c, h0)"
      "Sqrt_InitOram (c, \<lparr>w_host = h0, w_srv = Some s, w_log = []\<rparr>) = (OK, c, w1)"
      "Sqrt_FillWithData L memory' ds (c, w1) = Inr (OK, cw2)"
      "sqrt_holds L k (ceil_sqrt n) cw2 (blocks_map ds, None, 0)" by blast
  note step = sqrt.read_seen [of L k "ceil_sqrt n"]
  from sqrt.write_settles [OF c(4), of a x m] assms(13,16,17) lim obtain o3 cw3 where
    r3: "opened L (Sqrt_Access L m) Operation_kWrite a x cw2 = Inr ((OK, o3), cw3)"
      "sqrt_holds L k (ceil_sqrt n) cw3 (blocks_map ds, Some (a, data x), Suc 0)" by auto
  from step [OF r3(2), of a m y] assms(13) obtain o4 cw4 where
    r4: "opened L (Sqrt_Access L m) Operation_kRead a y cw3 = Inr ((OK, o4), cw4)" "data o4 = data x"
    by auto
  from step [OF r3(2), of b m y] assms(14,15) obtain o5 cw5 where
    r5: "opened L (Sqrt_Access L m) Operation_kRead b y cw3 = Inr ((OK, o5), cw5)" "data o5 = e"
      "sqrt_holds L k (ceil_sqrt n) cw5 (settle (ceil_sqrt n) b e (blocks_map ds, Some (a, data x), Suc 0))"
    by (auto simp del: settle.simps)
  then obtain m' p' n' where h5: "sqrt_holds L k (ceil_sqrt n) cw5 (m', p', n')"
    "m' a = Some d" "seen (m', p', n') a = Some d"
    using assms(13,15) by (fastforce split: if_splits)
  from step [OF h5(1), of a m y] h5(2,3) obtain o6 cw6 where
    "opened L (Sqrt_Access L m) Operation_kRead a y cw5 = Inr ((OK, o6), cw6)" "data o6 = d" by auto
  with c(1-3) r3(1) r4 r5(1,2) show ?thesis by blast
qed

lemma sqrt_write_is_forgotten_witness:
  "\<exists>c h0 w1 cw2 o3 cw3 o4 cw4 o5 cw5 o6 cw6.
    SquareRootOramController toy_libs toy_cryptor 1 True 2 toy_host = Inr (c, h0)
    \<and> Sqrt_InitOram (c, \<lparr>w_host = h0, w_srv = Some toy_server, w_log = []\<rparr>) = (OK, c, w1)
    \<and> Sqrt_FillWithData toy_libs (\<lambda>_. toy_block 0 0 0) [toy_block 1 1 11, toy_block 0 1 10] (c, w1)
        = Inr (OK, cw2)
    \<and> opened toy_libs (Sqrt_Access toy_libs (toy_block 0 0 0)) Operation_kWrite 0 (toy_block 0 1 20) cw2
        = Inr ((OK, o3), cw3)
    \<and> opened toy_libs (Sqrt_Access toy_libs (toy_block 0 0 0)) Operation_kRead 0 (toy_block 0 0 0) cw3
        = Inr ((OK, o4), cw4) \<and> data o4 = data (toy_block 0 1 20)
    \<and> opened toy_libs (Sqrt_Access toy_libs (toy_block 0 0 0)) Operation_kRead 1 (toy_block 0 0 0) cw3
        = Inr ((OK, o5), cw5) \<and> data o5 = replicate 512 11
    \<and> opened toy_libs (Sqrt_Access toy_libs (toy_block 0 0 0)) Operation_kRead 0 (toy_block 0 0 0) cw5
        = Inr ((OK, o6), cw6) \<and> data o6 = replicate 512 10"
proof -
  have four: "and (4 :: nat) 3 = 0" by code_simp
  show ?thesis
    by (rule sqrt_write_is_forgotten [where k = "replicate 32 7"])
      (simp_all add: toy_sqrt_contents toy_sqrt_two four CreateVec_def)
qed

text \<open>
  C22. The position map follows the array: starting from the empty map or from one that gives
  every address below \<open>N\<close> a place of its own, \<open>UpdatePosition\<close> with a permutation never leaves the
  vector, moves the place \<open>p\<close> of every address to \<open>perm[p]\<close> (an address that is not in the map is
  at its own number), and the places are again distinct and below \<open>N\<close>.
\<close>

theorem update_position_composes:
  assumes "permutes N perm" and "N < 2 ^ 32" and "places_ok N pm \<or> pm = Map.empty"
  shows "\<exists>pm'. UpdatePosition perm pm = Inr pm' \<and> places_ok N pm'
    \<and> (\<forall>a. unat a < N \<longrightarrow> place pm' a = unat (perm ! place pm a))"
  using assms by (rule UpdatePosition_view)

theorem update_position_composes_witness:
  "\<exists>pm pm'. UpdatePosition [2, 0, 1] Map.empty = Inr pm \<and> UpdatePosition [1, 2, 0] pm = Inr pm'
    \<and> place pm' 0 = 0 \<and> place pm' 1 = 1 \<and> place pm' 2 = 2"
proof -
  have p: "permutes 3 [2, 0, 1]" "permutes 3 [1, 2, 0]"
    by (auto simp: permutes_def less_Suc_eq numeral_3_eq_3)
  from update_position_composes [OF p(1), of Map.empty] obtain pm where
    pm: "UpdatePosition [2, 0, 1] Map.empty = Inr pm" "places_ok 3 pm"
      "\<forall>a. unat a < 3 \<longrightarrow> place pm a = unat ([2, 0, 1 :: u32] ! place Map.empty a)" by auto
  from update_position_composes [OF p(2), of pm] pm(2) obtain pm' where
    pm': "UpdatePosition [1, 2, 0] pm = Inr pm'"
      "\<forall>a. unat a < 3 \<longrightarrow> place pm' a = unat ([1, 2, 0 :: u32] ! place pm a)" by auto
  have "place Map.empty a = unat a" for a by (simp add: place_def)
  with pm(3) have "place pm 0 = 2" "place pm 1 = 0" "place pm 2 = 1" by simp_all
  with pm'(2) have "place pm' 0 = 0" "place pm' 1 = 1" "place pm' 2 = 2" by simp_all
  with pm(1) pm'(1) show ?thesis by blast
qed

end
