(* ===== verification/Path_Frame.thy ===== *)
theory Path_Frame
  imports Path_Fill Server_Invariant
begin

text \<open>
  The operations of a Path ORAM change its own storage on the server only, so other controllers
  of the same server keep what they hold.
\<close>

section \<open>What a call leaves alone\<close>

text \<open>The server of \<open>w'\<close>, if it is still there, has the storages of \<open>w\<close> except for identifier \<open>i\<close>.\<close>

definition others :: "u32 \<Rightarrow> world \<Rightarrow> world \<Rightarrow> bool" where
  "others i w w' \<longleftrightarrow> (\<forall>s'. w_srv w' = Some s' \<longrightarrow>
     (\<exists>s. w_srv w = Some s \<and> (\<forall>j. j \<noteq> i \<longrightarrow> storages s' j = storages s j)))"

lemma others_refl [simp]: "others i w w" "others i w (w\<lparr>w_host := h\<rparr>)"
  by (simp_all add: others_def)

lemma others_host [simp]: "others i (w\<lparr>w_host := h\<rparr>) w' = others i w w'"
  by (simp add: others_def)

lemma others_trans: "others i w w' \<Longrightarrow> others i w' w'' \<Longrightarrow> others i w w''"
  unfolding others_def by metis

lemma rpc_others:
  assumes "rpc c response_size call resp w = (y, w')"
    and "\<And>s r s'. call s = Inr (r, s') \<Longrightarrow> \<forall>j. j \<noteq> i \<longrightarrow> storages s' j = storages s j"
  shows "others i w w'"
proof (cases "w_srv w")
  case None
  then show ?thesis using assms(1) by (auto simp: rpc_def others_def)
next
  case (Some s)
  show ?thesis
  proof (cases "call s")
    case (Inl e)
    then show ?thesis using assms(1) Some by (auto simp: rpc_def others_def split: if_splits)
  next
    case (Inr r)
    obtain q s' where r: "r = (q, s')" by (cases r)
    from assms(2) [OF Inr [unfolded r]] assms(1) Some Inr r show ?thesis
      by (cases q) (auto simp: rpc_def others_def split: if_splits)
  qed
qed

lemma ReadPath_others: "stub_ReadPath L hdr x l w = (y, w') \<Longrightarrow> others (hdr_id hdr) w w'"
proof (erule rpc_others)
  fix s r s' assume r: "ReadPath L hdr x l s = Inr (r, s')"
  have "storages s' j = storages s j" if j: "j \<noteq> hdr_id hdr" for j
    by (rule on_storage_frame [OF r [unfolded ReadPath_def] _ j]) (auto simp: andThen_eq_Inr split: if_splits)
  then show "\<forall>j. j \<noteq> hdr_id hdr \<longrightarrow> storages s' j = storages s j" by blast
qed

lemma WritePath_others: "stub_WritePath L hdr x l i ty ds w = (y, w') \<Longrightarrow> others (hdr_id hdr) w w'"
proof (erule rpc_others)
  fix s r s' assume r: "WritePath L hdr x l i ty ds s = Inr (r, s')"
  have "storages s' j = storages s j" if j: "j \<noteq> hdr_id hdr" for j
    by (rule on_storage_frame [OF r [unfolded WritePath_def] _ j]) (auto simp: andThen_eq_Inr split: if_splits)
  then show "\<forall>j. j \<noteq> hdr_id hdr \<longrightarrow> storages s' j = storages s j" by blast
qed

lemma InitTreeOram_others:
  "stub_InitTreeOram hdr b n k w = (y, w') \<Longrightarrow> others (hdr_id hdr) w w'"
proof (erule rpc_others)
  fix s r s' assume "InitTreeOram hdr b n k s = Inr (r, s')"
  then show "\<forall>j. j \<noteq> hdr_id hdr \<longrightarrow> storages s' j = storages s j"
    by (auto simp: InitTreeOram_def Let_def andThen_eq_Inr put_storage_def split: if_splits)
qed

lemma hdr_id_header [simp]: "hdr_id (assemble_header c) = oc_id c" by (simp add: assemble_header_def)

section \<open>The operations of a Path ORAM\<close>

text \<open>The controller keeps its identifier and its shape, and only its storage changes.\<close>

definition alone :: "path_oram \<times> world \<Rightarrow> path_oram \<times> world \<Rightarrow> bool" where
  "alone cw cw' \<longleftrightarrow> oc_id (fst cw') = oc_id (fst cw) \<and> po_tree_level (fst cw') = po_tree_level (fst cw)
     \<and> po_bucket_size (fst cw') = po_bucket_size (fst cw) \<and> others (oc_id (fst cw)) (snd cw) (snd cw')"

lemma alone_trans: "alone a b \<Longrightarrow> alone b c \<Longrightarrow> alone a c"
  by (auto simp: alone_def intro: others_trans)

lemma ReadBucket_alone: "ReadBucket L x l cw = Inr (r, cw') \<Longrightarrow> alone cw cw'"
proof -
  assume a: "ReadBucket L x l cw = Inr (r, cw')"
  obtain c w where cw: "cw = (c, w)" by (cases cw)
  obtain st bucket w' where r: "stub_ReadPath L (assemble_header c) x l w = ((st, bucket), w')"
    by (metis surj_pair)
  from a r ReadPath_others [OF r] show ?thesis
    by (auto simp: cw ReadBucket_def alone_def andThen_eq_Inr split: if_splits)
qed

lemma WriteBucket_alone: "WriteBucket L x l b cw = Inr (r, cw') \<Longrightarrow> alone cw cw'"
proof -
  assume a: "WriteBucket L x l b cw = Inr (r, cw')"
  obtain c w where cw: "cw = (c, w)" by (cases cw)
  from a obtain strs h where s: "seal_bucket L b (w_host w) = Inr (strs, h)"
    by (auto simp: cw WriteBucket_def andThen_eq_Inr)
  obtain st u w' where r: "stub_WritePath L (assemble_header c) x l 0 kNormal strs (w\<lparr>w_host := h\<rparr>) = ((st, u), w')"
    by (metis surj_pair)
  from a s r WritePath_others [OF r] show ?thesis
    by (auto simp: cw WriteBucket_def alone_def Let_def)
qed

lemma AccurateWriteBucket_others: "AccurateWriteBucket L c l i b w = Inr (r, w') \<Longrightarrow> others (oc_id c) w w'"
proof -
  assume a: "AccurateWriteBucket L c l i b w = Inr (r, w')"
  from a obtain strs h where s: "seal_bucket L b (w_host w) = Inr (strs, h)"
    by (auto simp: AccurateWriteBucket_def andThen_eq_Inr)
  obtain st u w1 where r: "stub_WritePath L (assemble_header c) 0 l i kInit strs (w\<lparr>w_host := h\<rparr>) = ((st, u), w1)"
    by (metis surj_pair)
  from a s r WritePath_others [OF r] show ?thesis by (auto simp: AccurateWriteBucket_def)
qed

lemma FindSubsetOf_alone: "FindSubsetOf L x cw = Inr (r, cw') \<Longrightarrow> alone cw cw'"
  by (cases cw) (auto simp: FindSubsetOf_def alone_def andThen_eq_Inr split: prod.splits)

lemma read_path_alone: "read_path L x i n cw = Inr (r, cw') \<Longrightarrow> alone cw cw'"
proof (induction n arbitrary: i cw r cw')
  case 0
  then show ?case by (simp add: alone_def)
next
  case (Suc n)
  from Suc.prems obtain s bs cw1 where b: "ReadBucket L x i cw = Inr ((s, bs), cw1)"
    "(if \<not> ok s then Inr ((Append s (mk_status kInvalidOperation
              (''Failed to write bucket '' @ to_string (unat x)) ''InternalAccessDirect''), []), cw1)
       else andThen (read_path L x (Suc i) n cw1) (\<lambda>((s', rest), cw''). Inr ((s', bs @ rest), cw'')))
      = Inr (r, cw')" by (auto simp: andThen_eq_Inr)
  from b(2) have "alone cw1 cw'"
    by (cases "ok s") (auto simp: andThen_eq_Inr alone_def [of cw' cw'] dest: Suc.IH)
  with ReadBucket_alone [OF b(1)] show ?case by (rule alone_trans)
qed

lemma write_path_alone: "write_path L x n cw = Inr (r, cw') \<Longrightarrow> alone cw cw'"
proof (induction n arbitrary: cw r)
  case 0
  then show ?case by (simp add: alone_def)
next
  case (Suc n)
  from Suc.prems obtain b cw1 s cw2 where b: "FindSubsetOf L x cw = Inr (b, cw1)"
    "WriteBucket L x n b cw1 = Inr (s, cw2)"
    "(if \<not> ok s then Inr (Append s (mk_status kInvalidOperation ''Failed to write bucket''
              ''InternalAccessDirect''), cw2) else write_path L x n cw2) = Inr (r, cw')"
    by (auto simp: write_path.simps(2) andThen_eq_Inr simp del: if_split)
  from b(3) have "alone cw2 cw'"
    by (auto simp: alone_def [of cw' cw'] split: if_splits dest: Suc.IH)
  with FindSubsetOf_alone [OF b(1)] WriteBucket_alone [OF b(2)] show ?case by (blast intro: alone_trans)
qed

lemma alone_same [simp]:
  "oc_id c' = oc_id c \<Longrightarrow> po_tree_level c' = po_tree_level c \<Longrightarrow> po_bucket_size c' = po_bucket_size c \<Longrightarrow>
    alone (c, w) (c', w') = others (oc_id c) w w'"
  by (simp add: alone_def)

lemma InternalAccessDirect_alone:
  "InternalAccessDirect L op a x blk dum cw = Inr (r, cw') \<Longrightarrow> alone cw cw'"
proof -
  assume a: "InternalAccessDirect L op a x blk dum cw = Inr (r, cw')"
  then obtain s bs c w where rd: "read_path L x 0 (po_tree_level (fst cw) + 1) cw = Inr ((s, bs), c, w)"
    by (auto simp: InternalAccessDirect_def andThen_eq_Inr)
  have "alone (c, w) cw'"
  proof (cases "ok s \<and> \<not> dum")
    case False
    then show ?thesis using a rd
      by (cases "ok s") (auto simp: InternalAccessDirect_def simp del: read_path.simps)
  next
    case True
    let ?st = "merge_stash (po_stash c) bs"
    show ?thesis
    proof (cases "find (BlockEqual a) ?st")
      case None
      with a rd True show ?thesis by (auto simp: InternalAccessDirect_def Let_def simp del: read_path.simps)
    next
      case (Some b)
      let ?c2 = "c\<lparr>po_stash := ?st, po_stash_size := max (po_stash_size c) (length ?st)\<rparr>"
      let ?c3 = "if op = Operation_kWrite then ?c2\<lparr>po_stash := update_first (BlockEqual a) (write_into blk) ?st\<rparr>
        else if \<not> oc_standalone c then ?c2\<lparr>po_stash := remove_first (BlockEqual a) ?st,
          po_position := (po_position c)(a := None)\<rparr> else ?c2"
      from a rd True Some have "\<exists>s. write_path L x (po_tree_level ?c3 + 1) (?c3, w) = Inr (s, cw')"
        by (auto simp: InternalAccessDirect_def Let_def andThen_eq_Inr simp del: read_path.simps write_path.simps
            split: if_splits)
      then obtain c3 n where c3: "oc_id c3 = oc_id c" "po_tree_level c3 = po_tree_level c"
        "po_bucket_size c3 = po_bucket_size c" and w: "\<exists>s. write_path L x n (c3, w) = Inr (s, cw')"
        by (rule that [rotated 3]) simp_all
      from w have "alone (c3, w) cw'" using write_path_alone by blast
      with c3 show ?thesis by (simp add: alone_def)
    qed
  qed
  with read_path_alone [OF rd] show ?thesis by (rule alone_trans)
qed

lemma Path_InternalAccess_alone:
  "Path_InternalAccess L op a blk dum cw = Inr (r, cw') \<Longrightarrow> alone cw cw'"
proof -
  assume a: "Path_InternalAccess L op a blk dum cw = Inr (r, cw')"
  obtain c w where cw: "cw = (c, w)" by (cases cw)
  show ?thesis
  proof (cases "oc_initialized c \<and> op \<noteq> Operation_kInvalid")
    case False
    with a show ?thesis by (auto simp: cw Path_InternalAccess_def split: if_splits)
  next
    case True
    with a obtain x h where rp: "RandomPosition L c (w_host w) = Inr (x, h)"
      by (auto simp: cw Path_InternalAccess_def andThen_eq_Inr)
    let ?c1 = "if dum then c else c\<lparr>po_position := (po_position c)(a \<mapsto> x)\<rparr>"
    let ?y = "if dum then x else fst (touch a (po_position c))"
    have "InternalAccessDirect L op a ?y blk dum (?c1, w\<lparr>w_host := h\<rparr>) = Inr (r, cw')"
      using a True rp by (cases dum) (simp_all add: cw Path_InternalAccess_def Let_def)
    from InternalAccessDirect_alone [OF this] show ?thesis by (cases dum) (simp_all add: cw alone_def)
  qed
qed

lemma fill_level_alone: "fill_level L i js ds cw = Inr (r, cw') \<Longrightarrow> alone cw cw'"
proof (induction js arbitrary: ds cw r)
  case Nil
  then show ?case by (cases cw) (auto simp: alone_def)
next
  case (Cons j js)
  obtain c w where cw: "cw = (c, w)" by (cases cw)
  from Cons.prems obtain pm h s w2 b ds' where
    s: "AccurateWriteBucket L (c\<lparr>po_position := pm\<rparr>) i j b (w\<lparr>w_host := h\<rparr>) = Inr (s, w2)"
    "fill_level L i js ds' (c\<lparr>po_position := pm\<rparr>, w2) = Inr (r, cw')"
    by (auto simp: cw Let_def andThen_eq_Inr CheckStatus_def split: if_splits)
  with AccurateWriteBucket_others [OF s(1)] Cons.IH [OF s(2)] show ?case
    by (auto simp: cw alone_def intro: others_trans)
qed

lemma fill_levels_alone: "fill_levels L n ds cw = Inr (r, cw') \<Longrightarrow> alone cw cw'"
proof (induction n arbitrary: ds cw r)
  case 0
  then show ?case by (auto simp: alone_def)
next
  case (Suc n)
  then obtain ds1 cw1 where "fill_level L n [0..<POW2 n] ds cw = Inr (ds1, cw1)"
    "fill_levels L n ds1 cw1 = Inr (r, cw')" by (auto simp: andThen_eq_Inr)
  from fill_level_alone [OF this(1)] Suc.IH [OF this(2)] show ?case by (rule alone_trans)
qed

lemma Path_FillWithData_alone: "Path_FillWithData L ds cw = Inr (r, cw') \<Longrightarrow> alone cw cw'"
proof -
  assume "Path_FillWithData L ds cw = Inr (r, cw')"
  then obtain ds' c w where f: "fill_levels L (po_tree_level (fst cw) + 1) ds cw = Inr (ds', c, w)"
    "cw' = (c\<lparr>oc_initialized := True\<rparr>, w)" by (auto simp: Path_FillWithData_def andThen_eq_Inr)
  from fill_levels_alone [OF f(1)] show ?thesis by (simp add: f(2) alone_def)
qed

lemma Path_InitOram_alone: "Path_InitOram cw = (r, cw') \<Longrightarrow> alone cw cw'"
proof -
  assume a: "Path_InitOram cw = (r, cw')"
  obtain c w where cw: "cw = (c, w)" by (cases cw)
  obtain st u w' where r: "stub_InitTreeOram (assemble_header c) (ucast (po_bucket_size c)) (of_nat (po_leafs c))
      (of_nat ORAM_BLOCK_SIZE) w = ((st, u), w')" by (metis surj_pair)
  from a r InitTreeOram_others [OF r] show ?thesis by (auto simp: cw Path_InitOram_def alone_def)
qed

section \<open>What stays true of other controllers\<close>

lemma path_server_frame:
  assumes "path_server L k c w T" "others i w w'" "oc_id c \<noteq> i" "w_srv w' \<noteq> None"
  shows "path_server L k c w' T"
proof -
  from assms(4) obtain s' where s': "w_srv w' = Some s'" by auto
  with assms(2,3) obtain s where "w_srv w = Some s" "storages s' (oc_id c) = storages s (oc_id c)"
    by (auto simp: others_def)
  with assms(1) s' show ?thesis by (simp add: path_server_def)
qed

lemma path_holds_frame:
  assumes "path_holds L k (c, w) m" "others i w w'" "oc_id c \<noteq> i" "w_srv w' \<noteq> None" "keyed k (w_host w')"
  shows "path_holds L k (c, w') m"
  using assms(1,5) path_server_frame [OF _ assms(2-4)] unfolding path_holds_def path_inv_def by (simp, blast)

lemma path_fresh_frame:
  assumes "path_fresh L k (c, w)" "others i w w'" "oc_id c \<noteq> i" "w_srv w' \<noteq> None" "keyed k (w_host w')"
  shows "path_fresh L k (c, w')"
  using assms(1,5) path_server_frame [OF _ assms(2-4)] by (simp add: path_fresh_def)

lemma path_holds_alive:
  "path_holds L k (c, w) m \<Longrightarrow> w_srv w \<noteq> None \<and> keyed k (w_host w)"
  by (auto simp: path_holds_def path_inv_def path_server_def)

lemma path_fresh_alive: "path_fresh L k (c, w) \<Longrightarrow> w_srv w \<noteq> None \<and> keyed k (w_host w)"
  by (auto simp: path_fresh_def path_server_def)

end
