(* ===== verification/Partition_Oram.thy ===== *)
theory Partition_Oram
  imports Path_Oram Sqrt_Oram
begin

text \<open>
  The partition ORAM (core/partition\_oram\_controller.h and .cc): a list of Path ORAMs, each with
  a slot of blocks on the client.
\<close>

section \<open>State and constructor\<close>

text \<open>\<open>pa_counter\<close> is the static \<open>counter_\<close>; there is one instance at most.\<close>

record partition_oram = oram_controller +
  pa_partition_size :: nat
  pa_bucket_size :: nat
  pa_nu :: nat
  pa_counter :: nat
  pa_position :: "u32 \<rightharpoonup> u32"
  pa_slots :: "oram_block list list"
  pa_controllers :: "path_oram list"

text \<open>
  The constructor leaves \<open>partition_size_\<close>, \<open>bucket_size_\<close> and \<open>nu_\<close> as the memory has them (\<open>ps\<close>,
  \<open>bs\<close>, \<open>nu\<close>). \<open>GetInstance\<close> moves the static pointer to its caller: later calls return null.
\<close>

definition PartitionOramController :: "libs \<Rightarrow> cryptor \<Rightarrow> nat \<Rightarrow> nat \<Rightarrow> nat \<Rightarrow> host
    \<Rightarrow> (partition_oram \<times> host) exec" where
  "PartitionOramController L memory ps bs nu h =
     andThen (OramController L memory 0 True 0 kPartitionOram h) (\<lambda>(c, h').
       Inr (oram_controller.extend c (partition_oram.fields ps bs nu 0 Map.empty [] []), h'))"

definition Partition_GetInstance :: "libs \<Rightarrow> cryptor \<Rightarrow> nat \<Rightarrow> nat \<Rightarrow> nat \<Rightarrow> bool \<Rightarrow> host
    \<Rightarrow> (partition_oram option \<times> host) exec" where
  "Partition_GetInstance L memory ps bs nu taken h =
     (if taken then Inr (None, h)
      else andThen (PartitionOramController L memory ps bs nu h) (\<lambda>(c, h'). Inr (Some c, h')))"

definition SetBucketSize :: "nat \<Rightarrow> partition_oram \<Rightarrow> partition_oram" where
  "SetBucketSize n p = p\<lparr>pa_bucket_size := n\<rparr>"

definition SetNu :: "nat \<Rightarrow> partition_oram \<Rightarrow> partition_oram" where
  "SetNu n p = p\<lparr>pa_nu := n\<rparr>"

definition Partition_Reset :: "nat \<Rightarrow> partition_oram \<Rightarrow> partition_oram" where
  "Partition_Reset block_num p =
     p\<lparr>oc_block_num := block_num, pa_position := Map.empty, pa_slots := [], pa_controllers := []\<rparr>"

section \<open>The sub-ORAMs\<close>

text \<open>An access of controller \<open>i\<close>; an index past the end is undefined.\<close>

definition sub_access :: "libs \<Rightarrow> nat \<Rightarrow> operation \<Rightarrow> u32 \<Rightarrow> oram_block \<Rightarrow> bool
    \<Rightarrow> partition_oram \<times> world \<Rightarrow> ((oram_status \<times> oram_block) \<times> partition_oram \<times> world) exec" where
  "sub_access L i op address blk dum pw =
     (case pw of (p, w) \<Rightarrow>
      if length (pa_controllers p) \<le> i then Inl Undefined_Behaviour
      else andThen (Path_InternalAccess L op address blk dum (pa_controllers p ! i, w))
        (\<lambda>(r, c, w'). Inr (r, p\<lparr>pa_controllers := (pa_controllers p)[i := c]\<rparr>, w')))"

text \<open>What stands for the null pointer a dummy access gets; it is never looked at.\<close>

definition no_block :: oram_block where
  "no_block = bytes_block (replicate 560 0)"

text \<open>A random slot; the size of the vector is converted to \<open>uint32_t\<close>.\<close>

definition random_slot :: "libs \<Rightarrow> partition_oram \<Rightarrow> host \<Rightarrow> (u32 \<times> host) exec" where
  "random_slot L p h =
     andThen (UniformRandom L 0 (of_nat (length (pa_controllers p)) - 1) h) (\<lambda>((s, x), h').
       CheckStatus s (case x of None \<Rightarrow> Inl Undefined_Behaviour | Some x \<Rightarrow> Inr (x, h')))"

section \<open>Eviction\<close>

text \<open>
  An empty slot leads to a dummy write, which gets a null pointer and does not look at it. The
  last block of a slot is removed and written to the sub-ORAM.
\<close>

definition Evict :: "libs \<Rightarrow> u32 \<Rightarrow> partition_oram \<times> world \<Rightarrow> (oram_status \<times> partition_oram \<times> world) exec" where
  "Evict L i pw =
     (case pw of (p, w) \<Rightarrow>
      if length (pa_slots p) \<le> unat i then Inl Undefined_Behaviour
      else let slot = pa_slots p ! unat i in
        andThen
          (if slot = [] then sub_access L (unat i) Operation_kWrite 0 no_block True (p, w)
           else sub_access L (unat i) Operation_kWrite (block_id (header (last slot))) (last slot) False
                  (p\<lparr>pa_slots := (pa_slots p)[unat i := butlast slot]\<rparr>, w))
          (\<lambda>((s, _), pw'). Inr (s, pw')))"

fun random_evict :: "libs \<Rightarrow> nat \<Rightarrow> partition_oram \<times> world \<Rightarrow> (oram_status \<times> partition_oram \<times> world) exec" where
  "random_evict L 0 pw = Inr (OK, pw)"
| "random_evict L (Suc n) (p, w) =
     andThen (random_slot L p (w_host w)) (\<lambda>(i, h).
     andThen (Evict L i (p, w\<lparr>w_host := h\<rparr>)) (\<lambda>(s, pw').
       if \<not> ok s then Inr (s, pw') else random_evict L n pw'))"

definition RandomEvict :: "libs \<Rightarrow> partition_oram \<times> world \<Rightarrow> (oram_status \<times> partition_oram \<times> world) exec" where
  "RandomEvict L pw = random_evict L (pa_nu (fst pw)) pw"

text \<open>
  \<open>SequentialEvict\<close> draws 32 bits into a \<open>size_t\<close>; the upper half keeps what the memory holds (\<open>hi\<close>).
\<close>

fun sequential_evict :: "libs \<Rightarrow> nat \<Rightarrow> partition_oram \<times> world \<Rightarrow> (oram_status \<times> partition_oram \<times> world) exec" where
  "sequential_evict L 0 pw = Inr (OK, pw)"
| "sequential_evict L (Suc n) (p, w) =
     (if pa_partition_size p = 0 then Inl Undefined_Behaviour
      else let counter = (pa_counter p + 1) mod pa_partition_size p in
        andThen (Evict L (of_nat counter) (p\<lparr>pa_counter := counter\<rparr>, w)) (\<lambda>(s, pw').
          if \<not> ok s then Inr (s, pw') else sequential_evict L n pw'))"

definition SequentialEvict :: "libs \<Rightarrow> u32 \<Rightarrow> partition_oram \<times> world
    \<Rightarrow> (oram_status \<times> partition_oram \<times> world) exec" where
  "SequentialEvict L hi pw =
     (case pw of (p, w) \<Rightarrow>
      andThen (random_slot L p (w_host w)) (\<lambda>(n, h).
        sequential_evict L (unat hi * 2 ^ 32 + unat n) (p, w\<lparr>w_host := h\<rparr>)))"

section \<open>Access\<close>

text \<open>
  \<open>memory\<close> is what the local block holds; the status of the sub-ORAM's access is not looked at when
  the block is not in the slot. A dummy read gets a null pointer.
\<close>

definition Partition_Access :: "libs \<Rightarrow> oram_block \<Rightarrow> operation \<Rightarrow> u32 \<Rightarrow> oram_block \<Rightarrow> partition_oram \<times> world
    \<Rightarrow> ((oram_status \<times> oram_block) \<times> partition_oram \<times> world) exec" where
  "Partition_Access L memory op address blk pw =
     (case pw of (p, w) \<Rightarrow>
      andThen (random_slot L p (w_host w)) (\<lambda>(new_slot, h).
        let i = unat (fst (touch address (pa_position p)));
            p1 = p\<lparr>pa_position := (pa_position p)(address \<mapsto> new_slot)\<rparr>;
            w1 = w\<lparr>w_host := h\<rparr> in
        if length (pa_controllers p) \<le> i \<or> length (pa_slots p) \<le> i then Inl Undefined_Behaviour
        else andThen
          (case find (BlockEqual address) (pa_slots p ! i) of
             None \<Rightarrow> andThen (sub_access L i op address memory False (p1, w1)) (\<lambda>((_, b), pw2). Inr (b, pw2))
           | Some b \<Rightarrow> andThen (sub_access L i Operation_kRead address no_block True (p1, w1)) (\<lambda>((s, _), p2, w2).
               CheckStatus s (Inr (b, p2\<lparr>pa_slots := (pa_slots p2)
                 [i := remove_first (BlockEqual address) (pa_slots p2 ! i)]\<rparr>, w2))))
          (\<lambda>(b, p3, w3).
             let b' = (if op = Operation_kWrite then blk else b);
                 out = (if op = Operation_kWrite then blk else b) in
             if length (pa_slots p3) \<le> unat new_slot then Inl Undefined_Behaviour
             else andThen (RandomEvict L (p3\<lparr>pa_slots := (pa_slots p3)
                    [unat new_slot := pa_slots p3 ! unat new_slot @ [b']]\<rparr>, w3)) (\<lambda>(s, pw4).
                  CheckStatus s (Inr ((OK, out), pw4))))))"

section \<open>Initialisation\<close>

text \<open>The controllers from index \<open>i\<close> on, each constructed with its index as identifier.\<close>

fun init_controllers :: "libs \<Rightarrow> cryptor \<Rightarrow> nat list \<Rightarrow> partition_oram \<times> world
    \<Rightarrow> (oram_status \<times> partition_oram \<times> world) exec" where
  "init_controllers L memory [] pw = Inr (OK, pw)"
| "init_controllers L memory (i # is) (p, w) =
     andThen (PathOramController L memory (of_nat i) (of_nat (pa_partition_size p))
                (of_nat (pa_bucket_size p)) False (w_host w)) (\<lambda>(c, h).
       case Path_InitOram (c, w\<lparr>w_host := h\<rparr>) of (s, c', w') \<Rightarrow>
         let p' = p\<lparr>pa_controllers := pa_controllers p @ [c']\<rparr> in
         if \<not> ok s then Inr (s, p', w') else init_controllers L memory is (p', w'))"

definition Partition_InitOram :: "libs \<Rightarrow> cryptor \<Rightarrow> partition_oram \<times> world
    \<Rightarrow> (oram_status \<times> partition_oram \<times> world) exec" where
  "Partition_InitOram L memory pw = init_controllers L memory [0..<length (pa_slots (fst pw))] pw"

text \<open>\<open>resize\<close> cuts the vector of slots or adds empty ones. The square root is exact.\<close>

definition resize :: "nat \<Rightarrow> 'a list list \<Rightarrow> 'a list list" where
  "resize n xs = take n xs @ replicate (n - length xs) []"

definition Partition_Run :: "libs \<Rightarrow> cryptor \<Rightarrow> u32 \<Rightarrow> u32 \<Rightarrow> partition_oram \<times> world
    \<Rightarrow> (oram_status \<times> partition_oram \<times> world) exec" where
  "Partition_Run L memory block_num bucket_size pw =
     (case pw of (p, w) \<Rightarrow>
      let squared = ceil_sqrt (unat block_num) in
      Partition_InitOram L memory
        (p\<lparr>pa_partition_size := squared, oc_block_num := unat block_num,
           pa_bucket_size := unat bucket_size, pa_slots := resize squared (pa_slots p)\<rparr>, w))"

definition ProcessSlot :: "oram_block list \<Rightarrow> u32 \<Rightarrow> partition_oram \<Rightarrow> oram_status \<times> partition_oram" where
  "ProcessSlot ds slot_id p =
     (OK, p\<lparr>pa_position := fold (\<lambda>b m. if btype (header b) = BlockType_kNormal then m(block_id (header b) \<mapsto> slot_id) else m)
              ds (pa_position p)\<rparr>)"

fun fill_slots :: "libs \<Rightarrow> nat \<Rightarrow> oram_block list \<Rightarrow> nat list \<Rightarrow> partition_oram \<times> world
    \<Rightarrow> (partition_oram \<times> world) exec" where
  "fill_slots L tree_size ds [] pw = Inr pw"
| "fill_slots L tree_size ds (i # is) (p, w) =
     (let cur = take tree_size (drop (i * tree_size) ds) in
      case ProcessSlot cur (of_nat i) p of (s, p1) \<Rightarrow>
        CheckStatus s
          (andThen (Path_FillWithData L cur (pa_controllers p1 ! i, w)) (\<lambda>(s', c, w').
            CheckStatus s'
              (fill_slots L tree_size ds is (p1\<lparr>pa_controllers := (pa_controllers p1)[i := c]\<rparr>, w')))))"

definition sub_tree_size :: "partition_oram \<Rightarrow> path_oram \<Rightarrow> nat" where
  "sub_tree_size p c = (POW2 (po_tree_level c + 1) - 1) * pa_bucket_size p"

definition Partition_FillWithData :: "libs \<Rightarrow> oram_block list \<Rightarrow> partition_oram \<times> world
    \<Rightarrow> (oram_status \<times> partition_oram \<times> world) exec" where
  "Partition_FillWithData L ds pw =
     (case pw of (p, w) \<Rightarrow>
      case pa_controllers p of
        [] \<Rightarrow> Inl Undefined_Behaviour
      | c # _ \<Rightarrow>
          let tree_size = sub_tree_size p c; n = length (pa_controllers p) in
          if length ds \<noteq> tree_size * n
          then Inr (mk_status kInvalidArgument ''Data size is wrong'' ''FillWithData'', p, w)
          else andThen (fill_slots L tree_size ds [0..<n] (p, w)) (\<lambda>(p', w').
            Inr (OK, p'\<lparr>oc_initialized := True\<rparr>, w')))"

section \<open>Reports and tests\<close>

definition Partition_ReportClientStorage :: "partition_oram \<Rightarrow> nat" where
  "Partition_ReportClientStorage p =
     sum_list (map ReportClientStorage (pa_controllers p)) + length (pa_slots p) * ORAM_BLOCK_SIZE"

definition Partition_ReportNetworkCommunication :: "partition_oram \<Rightarrow> nat" where
  "Partition_ReportNetworkCommunication p =
     sum_list (map ReportNetworkCommunication (pa_controllers p))"

text \<open>A sequence of accesses to one controller, each checked; \<open>blk i\<close> is the caller's block of the \<open>i\<close>-th.\<close>

fun checked_accesses :: "libs \<Rightarrow> nat \<Rightarrow> operation \<Rightarrow> (nat \<Rightarrow> oram_block) \<Rightarrow> nat list \<Rightarrow> partition_oram \<times> world
    \<Rightarrow> (partition_oram \<times> world) exec" where
  "checked_accesses L k op blk [] pw = Inr pw"
| "checked_accesses L k op blk (i # is) pw =
     andThen (sub_access L k op (of_nat i) (blk i) False pw) (\<lambda>((s, _), pw').
       CheckStatus s (checked_accesses L k op blk is pw'))"

text \<open>
  \<open>memory\<close> gives the local blocks. The block written at \<open>i\<close> has the first byte
  \<open>partition_size_ - i\<close>. The status of \<open>FillWithData\<close> is not looked at.
\<close>

definition test_block :: "(nat \<Rightarrow> oram_block) \<Rightarrow> nat \<Rightarrow> nat \<Rightarrow> oram_block" where
  "test_block memory n i =
     (memory i)\<lparr>header := (header (memory i))\<lparr>block_id := of_nat i, btype := BlockType_kNormal\<rparr>,
       data := (data (memory i))[0 := of_nat (n - i)]\<rparr>"

definition TestPathOram :: "libs \<Rightarrow> (nat \<Rightarrow> oram_block) \<Rightarrow> u32 \<Rightarrow> partition_oram \<times> world
    \<Rightarrow> (oram_status \<times> partition_oram \<times> world) exec" where
  "TestPathOram L memory controller_id pw =
     (case pw of (p, w) \<Rightarrow>
      let k = unat controller_id; n = pa_partition_size p in
      if length (pa_controllers p) \<le> k
      then Inr (mk_status kOutOfRange ''The controller id is out of range.'' ''TestPathOram'', p, w)
      else let c = pa_controllers p ! k in
        andThen (SampleRandomBucket L memory n (sub_tree_size p c) 0 (w_host w)) (\<lambda>(raw, h).
        andThen (Path_FillWithData L raw (c, w\<lparr>w_host := h\<rparr>)) (\<lambda>(_, c', w').
        andThen (checked_accesses L k Operation_kRead memory [0..<n]
                   (p\<lparr>pa_controllers := (pa_controllers p)[k := c']\<rparr>, w')) (\<lambda>pw1.
        andThen (checked_accesses L k Operation_kWrite (test_block memory n) [0..<n] pw1) (\<lambda>pw2.
        andThen (checked_accesses L k Operation_kRead memory [0..<n] pw2) (\<lambda>pw3. Inr (OK, pw3)))))))"

fun sample_slots :: "libs \<Rightarrow> (nat \<Rightarrow> oram_block) \<Rightarrow> nat \<Rightarrow> nat \<Rightarrow> nat list \<Rightarrow> host
    \<Rightarrow> (oram_block list \<times> host) exec" where
  "sample_slots L memory n tree_size [] h = Inr ([], h)"
| "sample_slots L memory n tree_size (i # is) h =
     andThen (SampleRandomBucket L memory n tree_size (i * n div 2) h) (\<lambda>(bs, h').
     andThen (sample_slots L memory n tree_size is h') (\<lambda>(rest, h''). Inr (bs @ rest, h'')))"

fun test_reads :: "libs \<Rightarrow> (nat \<Rightarrow> oram_block) \<Rightarrow> nat list \<Rightarrow> partition_oram \<times> world
    \<Rightarrow> (partition_oram \<times> world) exec" where
  "test_reads L memory [] pw = Inr pw"
| "test_reads L memory (i # is) pw =
     andThen (Partition_Access L (memory i) Operation_kRead (of_nat i) (memory i) pw) (\<lambda>((s, b), pw').
       CheckStatus s (panic_if (unat (hd (data b)) \<noteq> i) (test_reads L memory is pw')))"

text \<open>The call of \<open>ReportServerInformation\<close> makes the server log; its status is not looked at.\<close>

definition TestPartitionOram :: "libs \<Rightarrow> (nat \<Rightarrow> oram_block) \<Rightarrow> partition_oram \<times> world
    \<Rightarrow> (oram_status \<times> partition_oram \<times> world) exec" where
  "TestPartitionOram L memory pw =
     (case pw of (p, w) \<Rightarrow>
      case pa_controllers p of
        [] \<Rightarrow> Inl Undefined_Behaviour
      | c # _ \<Rightarrow>
          andThen (sample_slots L memory (pa_partition_size p) (sub_tree_size p c)
                     [0..<length (pa_controllers p)] (w_host w)) (\<lambda>(blocks, h).
          andThen (Partition_FillWithData L blocks (p, w\<lparr>w_host := h\<rparr>)) (\<lambda>(s, p1, w1).
            CheckStatus s
              (case stub_ReportServerInformation w1 of (_, w2) \<Rightarrow>
               andThen (test_reads L memory [0..<10] (p1, w2)) (\<lambda>pw2. Inr (OK, pw2))))))"

end
