(* ===== verification/Partition_Views.thy ===== *)
theory Partition_Views
  imports Path_Frame Partition_Oram
begin

text \<open>
  What the operations of a partition ORAM do to what its sub-ORAMs hold: dummy accesses lose a path
  (\<open>path_dummy\<close>), and an access of one sub-ORAM leaves the others alone (\<open>part_inv_update\<close>).
\<close>

section \<open>Dummy accesses of a Path ORAM\<close>

lemma payload_payload [simp]: "payload (payload b) = payload b"
  by (cases b; cases "header b") (simp add: payload_def)

lemma in_goods_fixed: "p \<in># goods bs \<Longrightarrow> is_normal p \<and> payload p = p"
  by (auto simp: in_goods)

text \<open>A part of the blocks, as a list.\<close>

lemma sub_goods:
  assumes "M \<subseteq># goods bs" and "distinct (normal_ids bs)"
  shows "\<exists>cs. goods cs = M \<and> distinct (normal_ids cs) \<and> blocks_map cs \<subseteq>\<^sub>m blocks_map bs"
proof -
  obtain cs where cs: "mset cs = M" using ex_mset by blast
  have "\<forall>p \<in> set cs. is_normal p \<and> payload p = p"
    using assms(1) cs in_goods_fixed mset_subset_eqD by fastforce
  then have "goods cs = mset cs" by (induction cs) auto
  then have g: "goods cs = M" using cs by simp
  have "mset (normal_ids cs) \<subseteq># mset (normal_ids bs)"
    unfolding normal_ids_goods g using assms(1) by (rule image_mset_subseteq_mono)
  then have d: "distinct (normal_ids cs)"
    using assms(2) by (metis mset_subset_eq_exists_conv distinct_append ex_mset mset_append mset_eq_imp_distinct_iff)
  have "blocks_map cs \<subseteq>\<^sub>m blocks_map bs"
    unfolding map_le_def
  proof
    fix a assume "a \<in> dom (blocks_map cs)"
    then obtain e where e: "blocks_map cs a = Some e" by auto
    with blocks_map_goods [OF d] g obtain p where "p \<in># M" "block_id (header p) = a" "data p = e" by blast
    with assms blocks_map_goods [OF assms(2), of a e] e show "blocks_map cs a = blocks_map bs a"
      by (metis mset_subset_eqD)
  qed
  with g d show ?thesis by blast
qed

text \<open>
  A dummy access reads a random path, which the server then no longer has, and does not write it
  back: every block of the tree on that path is gone.
\<close>

lemma path_dummy:
  assumes holds: "path_holds L k (c, w) m" and op: "op \<noteq> Operation_kInvalid"
  shows "\<exists>x n w' m'. Path_InternalAccess L op a blk True (c, w) = Inr ((OK, blk), c\<lparr>po_communication := n\<rparr>, w')
    \<and> path_holds L k (c\<lparr>po_communication := n\<rparr>, w') m' \<and> m' \<subseteq>\<^sub>m m
    \<and> (\<forall>b. po_position c b = Some x \<and> find (BlockEqual b) (po_stash c) = None \<longrightarrow> m' b = None)
    \<and> unat x < 2 ^ po_tree_level c"
proof -
  from holds obtain T bs where L: "sodium_ok L" "lz4_ok L" "random_live L" "pads_ok L k"
    and inv: "path_inv L k (c, w) T" and bs: "stock c T = goods bs" "distinct (normal_ids bs)"
    and m: "blocks_map bs = m" by (auto simp: path_holds_def)
  let ?N = "po_tree_level c" and ?pm = "po_position c"
  from inv have i: "oc_initialized c" "po_leafs c = 2 ^ ?N" "?N < 32" "positions_ok ?pm ?N"
    "placed ?pm ?N T" "stash_ok ?pm (po_stash c)" "keyed k (w_host w)" "path_server L k c w T"
    "\<forall>p. p \<in># stock c T \<longrightarrow> dense_data L k p" by (simp_all add: path_inv_def)
  from RandomPosition_view [OF L(3) i(2,3), of "w_host w"] obtain x h where
    x: "RandomPosition L c (w_host w) = Inr (x, h)" "unat x < 2 ^ ?N" "singleton h = singleton (w_host w)" by blast
  let ?w = "w\<lparr>w_host := h\<rparr>"
  have kh: "keyed k (w_host ?w)" using i(7) x(3) by (simp add: keyed_def)
  have "path_server L k c ?w T" using i(8) by simp
  from read_path_view [OF L(1,2) i(2) x(2) _ kh this, of 0 "?N + 1" "po_communication c"] obtain ds n w' T' where
    r: "read_path L x 0 (?N + 1) (c, ?w) = Inr ((OK, ds), c\<lparr>po_communication := n\<rparr>, w')"
      "w_host w' = h" "path_server L k c w' T'" "bag ?N T' + goods ds = bag ?N T"
      "\<forall>l < ?N + 1. T' (path_tag c x l) = []" "\<forall>t. T' t = [] \<or> T' t = T t" by auto
  let ?c = "c\<lparr>po_communication := n\<rparr>"
  have sub: "stock ?c T' \<subseteq># goods bs" unfolding bs(1) [symmetric] stock_def
    by (simp flip: r(4))
  from sub_goods [OF this bs(2)] obtain cs where
    cs: "goods cs = stock ?c T'" "distinct (normal_ids cs)" "blocks_map cs \<subseteq>\<^sub>m m" using m by auto
  note pl = placed_emptied [OF i(5) r(6)]
  have dense: "\<forall>p. p \<in># stock ?c T' \<longrightarrow> dense_data L k p" using i(9) sub bs(1) by (metis mset_subset_eqD)
  from pl have "path_inv L k (?c, w') T'"
    using i(1-4,6) r(2,3) kh dense by (simp add: path_inv_def)
  then have "path_holds L k (?c, w') (blocks_map cs)"
    using L cs unfolding path_holds_def by (intro conjI exI [of _ T'] exI [of _ cs]) simp_all
  moreover have "blocks_map cs b = None"
    if b: "?pm b = Some x" "find (BlockEqual b) (po_stash c) = None" for b
  proof (rule ccontr)
    assume "blocks_map cs b \<noteq> None"
    then obtain d where "blocks_map cs b = Some d" by auto
    with blocks_map_goods [OF cs(2)] cs(1) obtain p where p: "p \<in># stock ?c T'" "block_id (header p) = b" by metis
    have "p \<notin># goods (po_stash c)"
      using b(2) p(2) by (auto simp: in_goods find_None_iff BlockEqual_def is_normal_def)
    with p(1) have "p \<in># bag ?N T'" by (simp add: stock_def)
    from off_path [OF i(5) r(6,5) this] b(1) p(2) show False by simp
  qed
  moreover have "Path_InternalAccess L op a blk True (c, w) = Inr ((OK, blk), ?c, w')"
    using i(1) op x(1) r(1) by (simp add: Path_InternalAccess_def InternalAccessDirect_def del: read_path.simps)
  ultimately show ?thesis using cs(3) x(2) by blast
qed

section \<open>The invariant of the partition ORAM\<close>

text \<open>
  \<open>ms ! i\<close> is what sub-ORAM \<open>i\<close> holds; the controllers have their index as identifier, so none of
  them changes the storage of another.
\<close>

definition part_inv :: "libs \<Rightarrow> bytes \<Rightarrow> partition_oram \<times> world \<Rightarrow> (u32 \<rightharpoonup> bytes) list \<Rightarrow> bool" where
  "part_inv L k pw ms \<longleftrightarrow> (case pw of (p, w) \<Rightarrow>
     length ms = length (pa_controllers p) \<and> length (pa_slots p) = length (pa_controllers p)
     \<and> 0 < length ms \<and> length ms < 2 ^ 32
     \<and> (\<forall>i < length ms. path_holds L k (pa_controllers p ! i, w) (ms ! i)
          \<and> oc_id (pa_controllers p ! i) = of_nat i \<and> \<not> oc_standalone (pa_controllers p ! i)))"

lemma part_inv_update:
  assumes inv: "part_inv L k (p, w) ms" and i: "i < length ms"
    and op: "alone (pa_controllers p ! i, w) (c', w')" "oc_standalone c' = oc_standalone (pa_controllers p ! i)"
    and h: "path_holds L k (c', w') m'"
  shows "part_inv L k (p\<lparr>pa_controllers := (pa_controllers p)[i := c']\<rparr>, w') (ms[i := m'])"
proof -
  let ?cs = "pa_controllers p"
  from inv have p: "length ms = length ?cs" "length (pa_slots p) = length ?cs" "length ms < 2 ^ 32"
    and all: "\<And>j. j < length ms \<Longrightarrow> path_holds L k (?cs ! j, w) (ms ! j) \<and> oc_id (?cs ! j) = of_nat j
      \<and> \<not> oc_standalone (?cs ! j)" by (auto simp: part_inv_def)
  from path_holds_alive [OF h] have alive: "w_srv w' \<noteq> None" "keyed k (w_host w')" by simp_all
  have o: "others (of_nat i) w w'" "oc_id c' = of_nat i" using op(1) all [OF i] by (simp_all add: alone_def)
  have "path_holds L k (?cs ! j, w') (ms ! j)" if "j < length ms" "j \<noteq> i" for j
  proof (rule path_holds_frame [OF _ o(1) _ alive])
    have "(of_nat j :: u32) \<noteq> of_nat i"
    proof
      assume "(of_nat j :: u32) = of_nat i"
      then have "unat (of_nat j :: u32) = unat (of_nat i :: u32)" by simp
      with that i p(3) show False by (simp add: unat_of_nat_u32)
    qed
    then show "oc_id (?cs ! j) \<noteq> of_nat i" using all that by simp
  qed (use all that in simp)
  then show ?thesis
    using p i all o(2) h op(2) inv by (auto simp: part_inv_def nth_list_update)
qed

lemma part_inv_fields [simp]:
  "part_inv L k (p\<lparr>pa_position := pm\<rparr>, w) ms = part_inv L k (p, w) ms"
  "part_inv L k (p\<lparr>pa_counter := j\<rparr>, w) ms = part_inv L k (p, w) ms"
  by (simp_all add: part_inv_def)

lemma part_inv_slots:
  "part_inv L k (p, w) ms \<Longrightarrow> length ss = length (pa_slots p) \<Longrightarrow> part_inv L k (p\<lparr>pa_slots := ss\<rparr>, w) ms"
  unfolding part_inv_def by auto

lemma part_inv_host:
  assumes "part_inv L k (p, w) ms" "singleton h = singleton (w_host w)"
  shows "part_inv L k (p, w\<lparr>w_host := h\<rparr>) ms"
proof -
  have "path_holds L k (c, w\<lparr>w_host := h\<rparr>) m" if "path_holds L k (c, w) m" for c m
    using that assms(2) unfolding path_holds_def path_inv_def by (simp add: keyed_def)
  with assms(1) show ?thesis unfolding part_inv_def by auto
qed

lemma random_slot_view:
  assumes "random_live L" "0 < length (pa_controllers p)" "length (pa_controllers p) < 2 ^ 32"
  shows "\<exists>x h'. random_slot L p h = Inr (x, h') \<and> unat x < length (pa_controllers p) \<and> singleton h' = singleton h"
proof -
  let ?n = "length (pa_controllers p)" and ?hi = "of_nat (length (pa_controllers p)) - 1 :: u32"
  have p: "unat (of_nat ?n :: u32) = ?n" using assms(3) by (intro unat_of_nat_u32) simp
  then have ne: "(of_nat ?n :: u32) \<noteq> 0" using assms(2) by (metis unat_0 less_irrefl)
  then have u: "unat ?hi = ?n - 1" using p by (simp add: unat_minus_one)
  have "(0 :: u32) \<le> ?hi" "?hi - 0 + 1 \<noteq> 0" using ne by simp_all
  from UniformRandom_returns [OF assms(1) this, of h] obtain v h' where
    v: "UniformRandom L 0 ?hi h = Inr ((OK, Some v), h')" "v \<le> ?hi" "singleton h' = singleton h" by blast
  have "unat v < ?n" using v(2) u assms(2) unfolding word_le_nat_alt by linarith
  with v show ?thesis by (simp add: random_slot_def CheckStatus_def)
qed

end
