(* ===== verification/Partition_Access.thy ===== *)
theory Partition_Access
  imports Partition_Views
begin

text \<open>
  Accesses of a partition ORAM without eviction: of its sub-ORAMs, and the first access of an
  address (\<open>Partition_Access_first\<close>).
\<close>

section \<open>Accesses of a sub-ORAM\<close>

lemma part_inv_sub:
  assumes "part_inv L k (p, w) ms" "i < length ms"
  shows "path_holds L k (pa_controllers p ! i, w) (ms ! i)" "\<not> oc_standalone (pa_controllers p ! i)"
    "oc_initialized (pa_controllers p ! i)" "i < length (pa_controllers p)" "i < length (pa_slots p)"
  using assms by (auto simp: part_inv_def path_holds_def path_inv_def)

lemma Path_Access_internal: "oc_initialized c \<Longrightarrow> Path_InternalAccess L op a x False (c, w) = Path_Access L op a x (c, w)"
  by (simp add: Path_Access_def)

text \<open>The result of \<open>sub_access\<close>, given what the controller's access does.\<close>

lemma sub_accessI:
  assumes inv: "part_inv L k (p, w) ms" and i: "i < length ms"
    and r: "Path_InternalAccess L op a x dum (pa_controllers p ! i, w) = Inr (r, c', w')"
    and h: "path_holds L k (c', w') m'" "oc_standalone c' = oc_standalone (pa_controllers p ! i)"
  shows "sub_access L i op a x dum (p, w) = Inr (r, p\<lparr>pa_controllers := (pa_controllers p)[i := c']\<rparr>, w')"
    "part_inv L k (p\<lparr>pa_controllers := (pa_controllers p)[i := c']\<rparr>, w') (ms[i := m'])"
  using part_inv_update [OF inv i Path_InternalAccess_alone [OF r] h(2,1)] part_inv_sub [OF inv i] r
  by (simp_all add: sub_access_def not_le)

lemma sub_read:
  assumes inv: "part_inv L k (p, w) ms" and i: "i < length ms" and a: "(ms ! i) a = Some d"
  shows "\<exists>b c' w'. sub_access L i Operation_kRead a x False (p, w)
      = Inr ((OK, b), p\<lparr>pa_controllers := (pa_controllers p)[i := c']\<rparr>, w')
    \<and> BlockEqual a b \<and> data b = d
    \<and> part_inv L k (p\<lparr>pa_controllers := (pa_controllers p)[i := c']\<rparr>, w') (ms[i := (ms ! i)(a := None)])
    \<and> Path_Access L Operation_kRead a x (pa_controllers p ! i, w) = Inr ((OK, b), c', w')"
proof -
  note s = part_inv_sub [OF inv i]
  from path_read_remove [OF s(1) a s(2), of x] obtain b c' w' where
    r: "Path_Access L Operation_kRead a x (pa_controllers p ! i, w) = Inr ((OK, b), c', w')"
      "BlockEqual a b" "data b = d" "path_holds L k (c', w') ((ms ! i)(a := None))" "\<not> oc_standalone c'" by blast
  have "oc_standalone c' = oc_standalone (pa_controllers p ! i)" using r(5) s(2) by simp
  from sub_accessI [OF inv i _ r(4) this, of Operation_kRead a x False "(OK, b)"] r s(3) show ?thesis
    by (auto simp: Path_Access_internal)
qed

lemma sub_write:
  assumes inv: "part_inv L k (p, w) ms" and i: "i < length ms" and a: "(ms ! i) a = Some d"
    and x: "storable L k x"
  shows "\<exists>c' w'. sub_access L i Operation_kWrite a x False (p, w)
      = Inr ((OK, x), p\<lparr>pa_controllers := (pa_controllers p)[i := c']\<rparr>, w')
    \<and> part_inv L k (p\<lparr>pa_controllers := (pa_controllers p)[i := c']\<rparr>, w') (ms[i := (ms ! i)(a \<mapsto> data x)])"
proof -
  note s = part_inv_sub [OF inv i]
  from path_write [OF s(1) a x] obtain c' w' where
    r: "Path_Access L Operation_kWrite a x (pa_controllers p ! i, w) = Inr ((OK, x), c', w')"
      "path_holds L k (c', w') ((ms ! i)(a \<mapsto> data x))"
      "oc_standalone c' = oc_standalone (pa_controllers p ! i)" by blast
  from sub_accessI [OF inv i _ r(2,3), of Operation_kWrite a x False "(OK, x)"] r s(3) show ?thesis
    by (auto simp: Path_Access_internal)
qed

lemma sub_miss:
  assumes inv: "part_inv L k (p, w) ms" and i: "i < length ms" and a: "(ms ! i) a = None"
    and op: "op \<noteq> Operation_kInvalid"
  shows "\<exists>s c' w'. sub_access L i op a x False (p, w)
      = Inr ((s, x), p\<lparr>pa_controllers := (pa_controllers p)[i := c']\<rparr>, w') \<and> error_code s = kObjectNotFound
    \<and> part_inv L k (p\<lparr>pa_controllers := (pa_controllers p)[i := c']\<rparr>, w') ms"
proof -
  note s = part_inv_sub [OF inv i]
  from path_miss [OF s(1) a op, of x] obtain st c' w' where
    r: "Path_Access L op a x (pa_controllers p ! i, w) = Inr ((st, x), c', w')" "error_code st = kObjectNotFound"
      "path_holds L k (c', w') (ms ! i)" "oc_standalone c' = oc_standalone (pa_controllers p ! i)" by blast
  from sub_accessI [OF inv i _ r(3,4), of op a x False "(st, x)"] r s(3) show ?thesis
    by (auto simp: Path_Access_internal)
qed

lemma sub_dummy:
  assumes inv: "part_inv L k (p, w) ms" and i: "i < length ms" and op: "op \<noteq> Operation_kInvalid"
  shows "\<exists>y n c' w' m'. sub_access L i op a x True (p, w)
      = Inr ((OK, x), p\<lparr>pa_controllers := (pa_controllers p)[i := c']\<rparr>, w')
    \<and> part_inv L k (p\<lparr>pa_controllers := (pa_controllers p)[i := c']\<rparr>, w') (ms[i := m']) \<and> m' \<subseteq>\<^sub>m ms ! i
    \<and> c' = (pa_controllers p ! i)\<lparr>po_communication := n\<rparr> \<and> unat y < 2 ^ po_tree_level c'
    \<and> (\<forall>b. po_position c' b = Some y \<and> find (BlockEqual b) (po_stash c') = None \<longrightarrow> m' b = None)"
proof -
  note s = part_inv_sub [OF inv i]
  from path_dummy [OF s(1) op, of a x] obtain y n w' m' where
    r: "Path_InternalAccess L op a x True (pa_controllers p ! i, w)
        = Inr ((OK, x), (pa_controllers p ! i)\<lparr>po_communication := n\<rparr>, w')"
      "path_holds L k ((pa_controllers p ! i)\<lparr>po_communication := n\<rparr>, w') m'" "m' \<subseteq>\<^sub>m ms ! i"
      "\<forall>b. po_position (pa_controllers p ! i) b = Some y \<and> find (BlockEqual b) (po_stash (pa_controllers p ! i)) = None
        \<longrightarrow> m' b = None" "unat y < 2 ^ po_tree_level (pa_controllers p ! i)" by blast
  from sub_accessI [OF inv i r(1,2)] r(3-5) show ?thesis
    by (intro exI [of _ y] exI [of _ n] exI [of _ "(pa_controllers p ! i)\<lparr>po_communication := n\<rparr>"]
        exI [of _ w'] exI [of _ m']) simp
qed

section \<open>First accesses\<close>

text \<open>Without eviction: what is left of an access after the block has been found.\<close>

lemma RandomEvict_none [simp]: "pa_nu p = 0 \<Longrightarrow> RandomEvict L (p, w) = Inr (OK, p, w)"
  by (simp add: RandomEvict_def)

text \<open>An address whose block is still in the sub-ORAM it is assigned to.\<close>

definition untouched :: "partition_oram \<Rightarrow> (u32 \<rightharpoonup> bytes) list \<Rightarrow> u32 \<Rightarrow> bytes \<Rightarrow> bool" where
  "untouched p ms a d \<longleftrightarrow> (\<exists>i. pa_position p a = Some i \<and> unat i < length ms \<and> (ms ! unat i) a = Some d
     \<and> find (BlockEqual a) (pa_slots p ! unat i) = None)"

lemma untouched_kept:
  assumes u: "untouched p ms b e" and ba: "b \<noteq> a" and blk: "\<not> BlockEqual b x" and i: "i < length ms" "j < length (pa_slots p)"
    and m: "\<forall>c. c \<noteq> a \<longrightarrow> m' c = (ms ! i) c" and len: "length (pa_slots p) = length ms"
    and p': "pa_position p' = (pa_position p)(a \<mapsto> n)" "pa_slots p' = (pa_slots p)[j := pa_slots p ! j @ [x]]"
  shows "untouched p' (ms[i := m']) b e"
proof -
  from u obtain l where l: "pa_position p b = Some l" "unat l < length ms" "(ms ! unat l) b = Some e"
    "find (BlockEqual b) (pa_slots p ! unat l) = None" by (auto simp: untouched_def)
  have "find (BlockEqual b) (pa_slots p' ! unat l) = None"
    using l(2,4) blk len i(2) unfolding p'(2) by (cases "j = unat l") (auto simp: find_None_iff)
  moreover have "(ms[i := m'] ! unat l) b = Some e" using l(2,3) m ba by (cases "i = unat l") simp_all
  ultimately show ?thesis using l(1,2) ba p'(1) by (auto simp: untouched_def)
qed

text \<open>An access in terms of the access of the sub-ORAM, for a block that is not in its slot and for one that is.\<close>

lemma Partition_Access_miss:
  assumes y: "random_slot L p (w_host w) = Inr (y, h)" "unat y < length (pa_slots p)" and nu: "pa_nu p = 0"
    and i: "pa_position p a = Some i" "unat i < length (pa_controllers p)" "unat i < length (pa_slots p)"
    and no: "find (BlockEqual a) (pa_slots p ! unat i) = None"
    and sub: "sub_access L (unat i) op a memory False (p\<lparr>pa_position := (pa_position p)(a \<mapsto> y)\<rparr>, w\<lparr>w_host := h\<rparr>)
      = Inr ((st, b), p\<lparr>pa_position := (pa_position p)(a \<mapsto> y), pa_controllers := cs\<rparr>, w2)"
    and b': "b' = (if op = Operation_kWrite then x else b)"
  shows "Partition_Access L memory op a x (p, w) = Inr ((OK, b'), p\<lparr>pa_position := (pa_position p)(a \<mapsto> y),
    pa_controllers := cs, pa_slots := (pa_slots p)[unat y := pa_slots p ! unat y @ [b']]\<rparr>, w2)"
proof -
  have "unat (fst (touch a (pa_position p))) = unat i" using i(1) by (simp add: touch_def)
  then show ?thesis using y i no nu sub by (simp add: Partition_Access_def Let_def CheckStatus_def b')
qed

lemma Partition_Access_hit:
  assumes y: "random_slot L p (w_host w) = Inr (y, h)" "unat y < length (pa_slots p)" and nu: "pa_nu p = 0"
    and i: "pa_position p a = Some i" "unat i < length (pa_controllers p)" "unat i < length (pa_slots p)"
    and b: "find (BlockEqual a) (pa_slots p ! unat i) = Some b"
    and sub: "sub_access L (unat i) Operation_kRead a no_block True
        (p\<lparr>pa_position := (pa_position p)(a \<mapsto> y)\<rparr>, w\<lparr>w_host := h\<rparr>)
      = Inr ((OK, b0), p\<lparr>pa_position := (pa_position p)(a \<mapsto> y), pa_controllers := cs\<rparr>, w2)"
    and b': "b' = (if op = Operation_kWrite then x else b)"
    and ss: "ss = (pa_slots p)[unat i := remove_first (BlockEqual a) (pa_slots p ! unat i)]"
  shows "Partition_Access L memory op a x (p, w) = Inr ((OK, b'), p\<lparr>pa_position := (pa_position p)(a \<mapsto> y),
    pa_controllers := cs, pa_slots := ss[unat y := ss ! unat y @ [b']]\<rparr>, w2)"
proof -
  have "unat (fst (touch a (pa_position p))) = unat i" using i(1) by (simp add: touch_def)
  then show ?thesis using y i b nu sub by (simp add: Partition_Access_def Let_def CheckStatus_def b' ss)
qed

lemma Partition_Access_first:
  assumes L: "random_live L" and inv: "part_inv L k (p, w) ms" and u: "untouched p ms a d" and nu: "pa_nu p = 0"
    and mem: "storable L k memory" and x: "op = Operation_kWrite \<longrightarrow> block_id (header x) = a"
    and op: "op = Operation_kRead \<or> op = Operation_kWrite"
  shows "\<exists>b p' w' ms'. Partition_Access L memory op a x (p, w) = Inr ((OK, b), p', w')
    \<and> (op = Operation_kRead \<longrightarrow> data b = d) \<and> part_inv L k (p', w') ms' \<and> pa_nu p' = 0
    \<and> (\<forall>c e. c \<noteq> a \<and> untouched p ms c e \<longrightarrow> untouched p' ms' c e)"
proof -
  from u obtain i where i: "pa_position p a = Some i" "unat i < length ms" "(ms ! unat i) a = Some d"
    "find (BlockEqual a) (pa_slots p ! unat i) = None" by (auto simp: untouched_def)
  note s = part_inv_sub [OF inv i(2)]
  have n: "0 < length (pa_controllers p)" "length (pa_controllers p) < 2 ^ 32" "length (pa_slots p) = length ms"
    "length (pa_controllers p) = length ms" using inv by (auto simp: part_inv_def)
  from random_slot_view [OF L n(1,2), of "w_host w"] obtain y h where
    y: "random_slot L p (w_host w) = Inr (y, h)" "unat y < length (pa_controllers p)" "singleton h = singleton (w_host w)"
    by blast
  let ?p1 = "p\<lparr>pa_position := (pa_position p)(a \<mapsto> y)\<rparr>" and ?w1 = "w\<lparr>w_host := h\<rparr>"
  have inv1: "part_inv L k (?p1, ?w1) ms" using part_inv_host [OF inv y(3)] by simp
  let ?fin = "\<lambda>b cs. ?p1\<lparr>pa_controllers := cs, pa_slots := (pa_slots p)[unat y := pa_slots p ! unat y @ [b]]\<rparr>"
  note run = Partition_Access_miss [OF y(1) _ nu i(1) s(4,5) i(4)]
  show ?thesis
  proof (cases "op = Operation_kWrite")
    case True
    from sub_write [OF inv1 i(2,3) mem] obtain c' w2 where
      r: "sub_access L (unat i) Operation_kWrite a memory False (?p1, ?w1)
          = Inr ((OK, memory), ?p1\<lparr>pa_controllers := (pa_controllers ?p1)[unat i := c']\<rparr>, w2)"
        "part_inv L k (?p1\<lparr>pa_controllers := (pa_controllers ?p1)[unat i := c']\<rparr>, w2)
          (ms[unat i := (ms ! unat i)(a \<mapsto> data memory)])" by blast
    let ?p' = "?fin x ((pa_controllers ?p1)[unat i := c'])"
    have "part_inv L k (?p', w2) (ms[unat i := (ms ! unat i)(a \<mapsto> data memory)])"
      using part_inv_slots [OF r(2)] by simp
    moreover have "untouched ?p' (ms[unat i := (ms ! unat i)(a \<mapsto> data memory)]) c e"
      if "c \<noteq> a" "untouched p ms c e" for c e
      using that x True y(2) n by (intro untouched_kept [OF that(2,1) _ i(2), of x "unat y" _ _ y]) (auto simp: BlockEqual_def)
    ultimately show ?thesis using run [OF _ r(1) refl, of x] y(2) n True nu by auto
  next
    case False
    with op have rd: "op = Operation_kRead" by simp
    from sub_read [OF inv1 i(2,3), of memory] obtain b c' w2 where
      r: "sub_access L (unat i) Operation_kRead a memory False (?p1, ?w1)
          = Inr ((OK, b), ?p1\<lparr>pa_controllers := (pa_controllers ?p1)[unat i := c']\<rparr>, w2)"
        "BlockEqual a b" "data b = d" "part_inv L k (?p1\<lparr>pa_controllers := (pa_controllers ?p1)[unat i := c']\<rparr>, w2)
          (ms[unat i := (ms ! unat i)(a := None)])" by blast
    let ?p' = "?fin b ((pa_controllers ?p1)[unat i := c'])"
    have "part_inv L k (?p', w2) (ms[unat i := (ms ! unat i)(a := None)])"
      using part_inv_slots [OF r(4)] by simp
    moreover have "untouched ?p' (ms[unat i := (ms ! unat i)(a := None)]) c e"
      if "c \<noteq> a" "untouched p ms c e" for c e
      using that r(2) y(2) n by (intro untouched_kept [OF that(2,1) _ i(2), of b "unat y" _ _ y]) (auto simp: BlockEqual_def)
    ultimately show ?thesis using run [OF _ r(1) refl, of x] y(2) n rd r(3) nu by auto
  qed
qed

end
