(* ===== verification/Partition_Fill.thy ===== *)
theory Partition_Fill
  imports Partition_Access Sqrt_Fill
begin

text \<open>
  Constructing and filling a partition ORAM: afterwards every address is in the sub-ORAM that the
  position map assigns to it (\<open>partition_set_up\<close>).
\<close>

section \<open>Constructing the sub-ORAMs\<close>

definition sub_level :: "nat \<Rightarrow> nat \<Rightarrow> nat" where
  "sub_level n bs = ceil_LOG_BASE2 ((n + bs - 1) div bs + 1) - 1"

text \<open>A controller that has been initialised but not filled.\<close>

definition fresh_sub :: "libs \<Rightarrow> bytes \<Rightarrow> nat \<Rightarrow> nat \<Rightarrow> world \<Rightarrow> nat \<Rightarrow> path_oram \<Rightarrow> bool" where
  "fresh_sub L k ps bs w l c \<longleftrightarrow> path_fresh L k (c, w) \<and> oc_id c = of_nat l \<and> \<not> oc_standalone c
     \<and> po_tree_level c = sub_level ps bs \<and> po_bucket_size c = ucast (of_nat bs :: u32)"

lemma of_nat_u32_eq: "i < 2 ^ 32 \<Longrightarrow> j < 2 ^ 32 \<Longrightarrow> (of_nat i :: u32) = of_nat j \<longleftrightarrow> i = j"
proof
  assume "i < 2 ^ 32" "j < 2 ^ 32"
  then have "unat (of_nat i :: u32) = i" "unat (of_nat j :: u32) = j" by (simp_all add: unat_of_nat_u32)
  then show "(of_nat i :: u32) = of_nat j \<Longrightarrow> i = j" by metis
qed simp

lemma fresh_sub_frame:
  assumes "fresh_sub L k ps bs w l c" "others (of_nat j) w w'" "l \<noteq> j" "l < 2 ^ 32" "j < 2 ^ 32"
    "w_srv w' \<noteq> None" "keyed k (w_host w')"
  shows "fresh_sub L k ps bs w' l c"
  using assms path_fresh_frame [of L k c w "of_nat j" w'] of_nat_u32_eq [OF assms(4,5)]
  by (simp add: fresh_sub_def)

lemma init_controller_step:
  assumes L: "sodium_ok L" and N: "j < 100000" "0 < ps" "ps < 2 ^ 32" "0 < bs" "bs < 2 ^ 32"
    and w: "keyed k (w_host w)" "w_srv w = Some s" "storages s (of_nat j) = None"
  shows "\<exists>c h w1 s1. PathOramController L memory (of_nat j) (of_nat ps) (of_nat bs) False (w_host w) = Inr (c, h)
    \<and> Path_InitOram (c, w\<lparr>w_host := h\<rparr>) = (OK, c, w1) \<and> fresh_sub L k ps bs w1 j c
    \<and> others (of_nat j) w w1 \<and> w_srv w1 = Some s1 \<and> keyed k (w_host w1)"
proof -
  have u: "unat (of_nat ps :: u32) = ps" "unat (of_nat bs :: u32) = bs" using N by (simp_all add: unat_of_nat_u32)
  then have nz: "(of_nat ps :: u32) \<noteq> 0" "(of_nat bs :: u32) \<noteq> 0" using N(2,4) by (metis less_irrefl unat_0)+
  from PathOramController_shape [OF L w(1) nz, of memory "of_nat j" False] obtain c h where
    c: "PathOramController L memory (of_nat j) (of_nat ps) (of_nat bs) False (w_host w) = Inr (c, h)" "keyed k h"
      "oc_id c = of_nat j" "\<not> oc_standalone c" "po_tree_level c + 1 = ceil_LOG_BASE2 ((ps + bs - 1) div bs + 1)"
      "po_leafs c = 2 ^ po_tree_level c" "po_tree_level c < 32" "po_bucket_size c = ucast (of_nat bs :: u32)"
      "po_position c = Map.empty" "po_stash c = []" "length (oc_hash c) = 32" unfolding u by blast
  let ?w = "w\<lparr>w_host := h\<rparr>"
  have "(of_nat j :: u32) < 100000" using N(1) by (simp add: word_less_nat_alt unat_of_nat_u32)
  then have "oc_id c < kMaximumOramStorageNum" by (simp add: c(3) kMaximumOramStorageNum_def)
  from Path_InitOram_fresh [OF c(6,7,9-11) _ _ this, of ?w s k] c(2,3) w(2,3) obtain w1 where
    i: "Path_InitOram (c, ?w) = (OK, c, w1)" "path_fresh L k (c, w1)" by auto
  from Path_InitOram_alone [OF i(1)] have o: "others (of_nat j) w w1" by (simp add: c(3))
  from path_fresh_alive [OF i(2)] obtain s1 where s1: "w_srv w1 = Some s1" "keyed k (w_host w1)" by auto
  have "fresh_sub L k ps bs w1 j c" using i(2) c by (simp add: fresh_sub_def sub_level_def)
  with c(1) i(1) o s1 show ?thesis by blast
qed

lemma init_controllers_view:
  assumes L: "sodium_ok L" and N: "N \<le> 100000" "0 < ps" "ps < 2 ^ 32" "0 < bs" "bs < 2 ^ 32"
  shows "pa_partition_size p = ps \<Longrightarrow> pa_bucket_size p = bs \<Longrightarrow>
    length (pa_controllers p) = j \<Longrightarrow> j \<le> N \<Longrightarrow> \<forall>l < j. fresh_sub L k ps bs w l (pa_controllers p ! l) \<Longrightarrow>
    keyed k (w_host w) \<Longrightarrow> w_srv w = Some s \<Longrightarrow> \<forall>l. j \<le> l \<and> l < N \<longrightarrow> storages s (of_nat l) = None \<Longrightarrow>
    \<exists>cs w'. init_controllers L memory [j..<N] (p, w) = Inr (OK, p\<lparr>pa_controllers := cs\<rparr>, w')
      \<and> length cs = N \<and> (\<forall>l < N. fresh_sub L k ps bs w' l (cs ! l)) \<and> w_srv w' \<noteq> None \<and> keyed k (w_host w')"
proof (induction "N - j" arbitrary: j w s p)
  case 0
  then show ?case by (intro exI [of _ "pa_controllers p"] exI [of _ w]) simp
next
  case (Suc n)
  then have j: "j < N" "[j..<N] = j # [Suc j..<N]" by (simp_all add: upt_conv_Cons)
  have "j < 100000" "storages s (of_nat j) = None" using j(1) N(1) Suc.prems(8) by simp_all
  from init_controller_step [OF L this(1) N(2-) Suc.prems(6,7) this(2), of memory] obtain c h w1 s1 where
    c: "PathOramController L memory (of_nat j) (of_nat ps) (of_nat bs) False (w_host w) = Inr (c, h)"
      "fresh_sub L k ps bs w1 j c"
    and i: "Path_InitOram (c, w\<lparr>w_host := h\<rparr>) = (OK, c, w1)"
    and o: "others (of_nat j) w w1" and s1: "w_srv w1 = Some s1" and k1: "keyed k (w_host w1)" by blast
  let ?p = "p\<lparr>pa_controllers := pa_controllers p @ [c]\<rparr>"
  have fresh: "\<forall>l < Suc j. fresh_sub L k ps bs w1 l (pa_controllers ?p ! l)"
  proof (intro allI impI)
    fix l assume "l < Suc j"
    then consider "l = j" | "l < j" by linarith
    then show "fresh_sub L k ps bs w1 l (pa_controllers ?p ! l)"
    proof cases
      case 1
      with c(2) Suc.prems(3) show ?thesis by (simp add: nth_append)
    next
      case 2
      with fresh_sub_frame [OF _ o, of L k ps bs l] Suc.prems(3,5) j(1) N(1) s1 k1 show ?thesis
        by (simp add: nth_append)
    qed
  qed
  have free: "storages s1 (of_nat l) = None" if "Suc j \<le> l" "l < N" for l
  proof -
    from o s1 Suc.prems(7) have "\<forall>i. i \<noteq> of_nat j \<longrightarrow> storages s1 i = storages s i" by (auto simp: others_def)
    moreover have "(of_nat l :: u32) \<noteq> of_nat j" using that j(1) N(1) by (subst of_nat_u32_eq) simp_all
    ultimately show ?thesis using Suc.prems(8) that by simp
  qed
  then have free: "\<forall>l. Suc j \<le> l \<and> l < N \<longrightarrow> storages s1 (of_nat l) = None" by blast
  have "n = N - Suc j" "pa_partition_size ?p = ps" "pa_bucket_size ?p = bs" "length (pa_controllers ?p) = Suc j"
    "Suc j \<le> N" using Suc.hyps(2) Suc.prems(1-3) j(1) by simp_all
  from Suc.hyps(1) [OF this fresh k1 s1 free] obtain cs w' where
    "init_controllers L memory [Suc j..<N] (?p, w1) = Inr (OK, ?p\<lparr>pa_controllers := cs\<rparr>, w')"
    "length cs = N" "\<forall>l < N. fresh_sub L k ps bs w' l (cs ! l)" "w_srv w' \<noteq> None" "keyed k (w_host w')" by blast
  moreover have "init_controllers L memory [j..<N] (p, w) = init_controllers L memory [Suc j..<N] (?p, w1)"
    unfolding j(2) using c(1) i Suc.prems(1,2) by simp
  ultimately show ?case by auto
qed

section \<open>Filling\<close>

definition slice :: "nat \<Rightarrow> oram_block list \<Rightarrow> nat \<Rightarrow> oram_block list" where
  "slice n ds l = take n (drop (l * n) ds)"

lemma slice_parts:
  assumes "distinct (normal_ids ds)"
  shows "distinct (normal_ids (slice n ds l))" "set (slice n ds l) \<subseteq> set ds"
    "l < l' \<Longrightarrow> set (normal_ids (slice n ds l)) \<inter> set (normal_ids (slice n ds l')) = {}"
proof -
  let ?r = "drop (l * n) ds"
  have "ds = take (l * n) ds @ ?r" by simp
  moreover have r: "?r = slice n ds l @ drop n ?r" by (simp only: slice_def append_take_drop_id)
  ultimately have d: "distinct (normal_ids ?r)" using assms by (metis distinct_append normal_ids_simps(3))
  with r have d2: "distinct (normal_ids (slice n ds l) @ normal_ids (drop n ?r))" by (metis normal_ids_simps(3))
  then show "distinct (normal_ids (slice n ds l))" by simp
  show "set (slice n ds l) \<subseteq> set ds" by (auto simp: slice_def dest: in_set_takeD in_set_dropD)
  assume "l < l'"
  then obtain e where e: "l' = Suc l + e" by (metis less_iff_Suc_add add_Suc add.commute)
  have "slice n ds l' = take n (drop (e * n) (drop n ?r))" by (simp add: slice_def e algebra_simps)
  then have "set (slice n ds l') \<subseteq> set (drop n ?r)"
    using set_take_subset set_drop_subset by (metis order_trans)
  then have "set (normal_ids (slice n ds l')) \<subseteq> set (normal_ids (drop n ?r))"
    unfolding subset_iff in_normal_ids by blast
  with d2 show "set (normal_ids (slice n ds l)) \<inter> set (normal_ids (slice n ds l')) = {}" by auto
qed

lemma ProcessSlot_view:
  "ProcessSlot ds i p = (OK, p\<lparr>pa_position := (\<lambda>a. if a \<in> set (normal_ids ds) then Some i else pa_position p a)\<rparr>)"
proof -
  have "fold (\<lambda>b m. if btype (header b) = BlockType_kNormal then m(block_id (header b) \<mapsto> i) else m) ds m
      = (\<lambda>a. if a \<in> set (normal_ids ds) then Some i else m a)" for m
    by (induction ds arbitrary: m) (auto simp: fun_eq_iff is_normal_def)
  then show ?thesis by (simp add: ProcessSlot_def)
qed

text \<open>Controllers below \<open>j\<close> are filled with their slice, the others are fresh.\<close>

definition half_filled :: "libs \<Rightarrow> bytes \<Rightarrow> nat \<Rightarrow> nat \<Rightarrow> nat \<Rightarrow> oram_block list \<Rightarrow> nat \<Rightarrow> path_oram list \<Rightarrow> world \<Rightarrow> bool" where
  "half_filled L k ps bs n ds j cs w \<longleftrightarrow> keyed k (w_host w) \<and> w_srv w \<noteq> None \<and> (\<forall>l < length cs.
     if l < j then path_holds L k (cs ! l, w) (blocks_map (slice n ds l)) \<and> oc_id (cs ! l) = of_nat l
       \<and> \<not> oc_standalone (cs ! l) \<and> po_tree_level (cs ! l) = sub_level ps bs
       \<and> po_bucket_size (cs ! l) = ucast (of_nat bs :: u32)
     else fresh_sub L k ps bs w l (cs ! l))"

lemma fresh_sub_capacity: "fresh_sub L k ps bs w l c \<Longrightarrow> bs < 256 \<Longrightarrow> tree_capacity c = (2 ^ (sub_level ps bs + 1) - 1) * bs"
  by (simp add: fresh_sub_def tree_capacity_def unsigned_ucast_eq take_bit_eq_mod unat_of_nat_u32)

text \<open>One sub-ORAM is filled; those before it hold their blocks, those after it stay fresh.\<close>

lemma fill_slot_step:
  assumes L: "sodium_ok L" "lz4_ok L" "random_live L" "pads_ok L k"
    and bs: "bs < 256" and n: "n = (2 ^ (sub_level ps bs + 1) - 1) * bs"
    and ds: "list_all (storable L k) ds" "distinct (normal_ids ds)"
    and j: "j < length cs" "length cs < 2 ^ 32" and hf: "half_filled L k ps bs n ds j cs w"
  shows "\<exists>c' w1. Path_FillWithData L (slice n ds j) (cs ! j, w) = Inr (OK, c', w1)
    \<and> half_filled L k ps bs n ds (Suc j) (cs[j := c']) w1"
proof -
  let ?cur = "slice n ds j"
  from hf j(1) have f: "fresh_sub L k ps bs w j (cs ! j)" and kw: "keyed k (w_host w)"
    by (auto simp: half_filled_def)
  have wf: "list_all (storable L k) ?cur" using ds slice_parts(2) [OF ds(2)] by (auto simp: list_all_iff)
  have "path_fresh L k (cs ! j, w)" using f by (simp add: fresh_sub_def)
  from Path_FillWithData_holds [OF L this wf slice_parts(1) [OF ds(2)]] obtain c' w1 where
    r: "Path_FillWithData L ?cur (cs ! j, w) = Inr (OK, c', w1)"
      "path_holds L k (c', w1) (blocks_map (take (tree_capacity (cs ! j)) ?cur))" "oc_standalone c' = oc_standalone (cs ! j)"
    by blast
  have t: "take (tree_capacity (cs ! j)) ?cur = ?cur" using fresh_sub_capacity [OF f bs] n by (simp add: slice_def)
  from Path_FillWithData_alone [OF r(1)] have o: "others (of_nat j) w w1" "oc_id c' = of_nat j"
    "po_tree_level c' = sub_level ps bs" "po_bucket_size c' = ucast (of_nat bs :: u32)"
    using f by (simp_all add: alone_def fresh_sub_def)
  from path_holds_alive [OF r(2)] have alive: "w_srv w1 \<noteq> None" "keyed k (w_host w1)" by simp_all
  have "half_filled L k ps bs n ds (Suc j) (cs[j := c']) w1"
    unfolding half_filled_def
  proof (intro conjI allI impI alive)
    fix l assume "l < length (cs[j := c'])"
    then have l: "l < length cs" by simp
    let ?c = "cs[j := c'] ! l"
    consider "l = j" | "l < j" | "j < l" by linarith
    then show "if l < Suc j then path_holds L k (?c, w1) (blocks_map (slice n ds l))
        \<and> oc_id ?c = of_nat l \<and> \<not> oc_standalone ?c
        \<and> po_tree_level ?c = sub_level ps bs \<and> po_bucket_size ?c = ucast (of_nat bs :: u32)
      else fresh_sub L k ps bs w1 l ?c"
    proof cases
      case 1
      with r(2,3) t o(2-4) f j(1) show ?thesis by (simp add: fresh_sub_def)
    next
      case 2
      with hf l have "path_holds L k (cs ! l, w) (blocks_map (slice n ds l))"
        "oc_id (cs ! l) = of_nat l" "\<not> oc_standalone (cs ! l)" "po_tree_level (cs ! l) = sub_level ps bs"
        "po_bucket_size (cs ! l) = ucast (of_nat bs :: u32)" by (auto simp: half_filled_def)
      moreover from this path_holds_frame [OF this(1) o(1) _ alive] 2 j
      have "path_holds L k (cs ! l, w1) (blocks_map (slice n ds l))" by (simp add: of_nat_u32_eq)
      ultimately show ?thesis using 2 by simp
    next
      case 3
      with hf l have "fresh_sub L k ps bs w l (cs ! l)" by (auto simp: half_filled_def)
      from fresh_sub_frame [OF this o(1)] 3 l j alive show ?thesis by simp
    qed
  qed
  with r(1) show ?thesis by blast
qed

lemma fill_slots_view:
  assumes L: "sodium_ok L" "lz4_ok L" "random_live L" "pads_ok L k"
    and bs: "bs < 256" and n: "n = (2 ^ (sub_level ps bs + 1) - 1) * bs"
    and ds: "list_all (storable L k) ds" "distinct (normal_ids ds)"
  shows "j \<le> length (pa_controllers p) \<Longrightarrow> length (pa_controllers p) < 2 ^ 32 \<Longrightarrow>
    half_filled L k ps bs n ds j (pa_controllers p) w \<Longrightarrow>
    \<exists>cs w' pm. fill_slots L n ds [j..<length (pa_controllers p)] (p, w)
        = Inr (p\<lparr>pa_position := pm, pa_controllers := cs\<rparr>, w')
      \<and> length cs = length (pa_controllers p) \<and> half_filled L k ps bs n ds (length cs) cs w'
      \<and> (\<forall>a. a \<notin> (\<Union>l \<in> {j..<length cs}. set (normal_ids (slice n ds l))) \<longrightarrow> pm a = pa_position p a)
      \<and> (\<forall>l a. j \<le> l \<and> l < length cs \<and> a \<in> set (normal_ids (slice n ds l)) \<longrightarrow> pm a = Some (of_nat l))"
proof (induction "length (pa_controllers p) - j" arbitrary: j p w)
  case 0
  then show ?case
    by (intro exI [of _ "pa_controllers p"] exI [of _ w] exI [of _ "pa_position p"]) auto
next
  case (Suc m)
  let ?N = "length (pa_controllers p)" and ?cur = "slice n ds j"
  from Suc have j: "j < ?N" "[j..<?N] = j # [Suc j..<?N]" by (simp_all add: upt_conv_Cons)
  from fill_slot_step [OF L bs n ds j(1) Suc.prems(2,3)] obtain c' w1 where
    r: "Path_FillWithData L ?cur (pa_controllers p ! j, w) = Inr (OK, c', w1)"
      "half_filled L k ps bs n ds (Suc j) ((pa_controllers p)[j := c']) w1" by blast
  let ?pm = "\<lambda>a. if a \<in> set (normal_ids ?cur) then Some (of_nat j) else pa_position p a"
  let ?p = "p\<lparr>pa_position := ?pm, pa_controllers := (pa_controllers p)[j := c']\<rparr>"
  have hf: "half_filled L k ps bs n ds (Suc j) (pa_controllers ?p) w1" using r(2) by simp
  have len: "length (pa_controllers ?p) = ?N" by simp
  have "m = length (pa_controllers ?p) - Suc j" "Suc j \<le> length (pa_controllers ?p)"
    "length (pa_controllers ?p) < 2 ^ 32" using Suc.hyps(2) j(1) Suc.prems(2) by simp_all
  from Suc.hyps(1) [OF this hf, unfolded len] obtain cs w' pm where
    IH: "fill_slots L n ds [Suc j..<?N] (?p, w1) = Inr (?p\<lparr>pa_position := pm, pa_controllers := cs\<rparr>, w')"
      "length cs = ?N" "half_filled L k ps bs n ds (length cs) cs w'"
      "\<forall>a. a \<notin> (\<Union>l \<in> {Suc j..<length cs}. set (normal_ids (slice n ds l))) \<longrightarrow> pm a = ?pm a"
      "\<forall>l a. Suc j \<le> l \<and> l < length cs \<and> a \<in> set (normal_ids (slice n ds l)) \<longrightarrow> pm a = Some (of_nat l)" by auto
  have "fill_slots L n ds [j..<?N] (p, w) = fill_slots L n ds [Suc j..<?N] (?p, w1)"
    unfolding j(2) using r(1) by (simp add: ProcessSlot_view slice_def [symmetric] Let_def CheckStatus_def)
  moreover have "\<forall>a. a \<notin> (\<Union>l \<in> {j..<length cs}. set (normal_ids (slice n ds l))) \<longrightarrow> pm a = pa_position p a"
    using IH(2,4) j(1) by force
  moreover have "pm a = Some (of_nat l)" if l: "j \<le> l" "l < length cs" "a \<in> set (normal_ids (slice n ds l))" for l a
  proof (cases "l = j")
    case True
    have "a \<notin> set (normal_ids (slice n ds l'))" if "Suc j \<le> l'" for l'
      using slice_parts(3) [OF ds(2), of j l' n] that l(3) True by auto
    then show ?thesis using IH(4) l True by force
  next
    case False
    with l IH(5) show ?thesis by simp
  qed
  ultimately show ?case using IH(1-3) by (intro exI [of _ cs] exI [of _ w'] exI [of _ pm]) simp
qed

section \<open>From the constructor on\<close>

lemma ceil_sqrt_u32: "b < 2 ^ 32 \<Longrightarrow> ceil_sqrt b \<le> 65536"
proof (rule ccontr)
  assume b: "b < 2 ^ 32" "\<not> ceil_sqrt b \<le> 65536"
  then have "65536 * 65536 < b" using ceil_sqrt_spec(2) [of 65536 b] by simp
  with b(1) show False by simp
qed

lemma blocks_map_slice:
  assumes ds: "distinct (normal_ids ds)" and len: "length ds = m * n" and a: "blocks_map ds a = Some d"
  shows "\<exists>l < n. blocks_map (slice m ds l) a = Some d"
proof -
  from a blocks_map_goods [OF ds] obtain p where p: "p \<in># goods ds" "block_id (header p) = a" "data p = d" by blast
  then obtain b where b: "b \<in> set ds" "is_normal b" "p = payload b" by (auto simp: in_goods)
  then obtain q where q: "q < length ds" "ds ! q = b" by (auto simp: in_set_conv_nth)
  have m: "0 < m" using q(1) len by (cases m) auto
  let ?l = "q div m"
  have l: "?l < n" using q(1) len m by (simp add: less_mult_imp_div_less mult.commute)
  have r: "q = ?l * m + q mod m" "q mod m < m" using m by simp_all
  have "drop (?l * m) ds ! (q mod m) = b"
    using q r by (subst nth_drop) (simp_all add: order_trans [OF div_times_less_eq_dividend less_imp_le])
  moreover have "q mod m < length (drop (?l * m) ds)" using q(1) r(1) by (simp only: length_drop)
  ultimately have "b \<in> set (slice m ds ?l)"
    unfolding slice_def using r(2) by (metis in_set_conv_nth length_take min_less_iff_conj nth_take)
  with b have "p \<in># goods (slice m ds ?l)" by (auto simp: in_goods)
  with p(2,3) have "blocks_map (slice m ds ?l) a = Some d"
    using blocks_map_goods [OF slice_parts(1) [OF ds]] by blast
  with l show ?thesis by blast
qed

text \<open>The constructor and \<open>Run\<close> leave every sub-ORAM initialised, every slot empty.\<close>

lemma partition_run_view:
  assumes L: "sodium_ok L" and h: "keyed k h"
    and n: "n = ceil_sqrt (unat block_num)" "0 < n" "n \<le> 65536" and bs: "bucket_size \<noteq> 0"
    and s: "\<forall>i < kMaximumOramStorageNum. storages s i = None"
  shows "\<exists>p h0 p1 w1. PartitionOramController L memory ps0 bs0 nu0 h = Inr (p, h0)
    \<and> Partition_Run L memory block_num bucket_size (SetNu nu p, \<lparr>w_host = h0, w_srv = Some s, w_log = []\<rparr>) = Inr (OK, p1, w1)
    \<and> half_filled L k n (unat bucket_size) m ds 0 (pa_controllers p1) w1 \<and> length (pa_controllers p1) = n
    \<and> pa_nu p1 = nu \<and> pa_slots p1 = replicate n [] \<and> pa_bucket_size p1 = unat bucket_size"
proof -
  let ?bs = "unat bucket_size" and ?h = "h\<lparr>draws := draws h + 1\<rparr>"
  have bs: "0 < ?bs" "?bs < 2 ^ 32" using bs unat_u32_less [of bucket_size] by (simp_all add: unat_gt_0)
  have "\<exists>c. OramController L memory 0 True 0 kPartitionOram h = Inr (c, ?h)"
    using h L by (auto simp: OramController_def GetInstance_def keyed_def RandomBytes_def)
  then obtain p where p: "PartitionOramController L memory ps0 bs0 nu0 h = Inr (p, ?h)"
    and f: "pa_controllers p = []" "pa_slots p = []" "pa_position p = Map.empty"
    by (auto simp: PartitionOramController_def oram_controller.defs partition_oram.defs)
  let ?w = "\<lparr>w_host = ?h, w_srv = Some s, w_log = []\<rparr>"
  let ?p0 = "(SetNu nu p)\<lparr>pa_partition_size := n, oc_block_num := unat block_num, pa_bucket_size := ?bs,
    pa_slots := replicate n []\<rparr>"
  have "storages s (of_nat l) = None" if "l < n" for l
  proof -
    have "(of_nat l :: u32) < kMaximumOramStorageNum"
      using that n(3) by (simp add: kMaximumOramStorageNum_def word_less_nat_alt unat_of_nat_u32)
    with s show ?thesis by blast
  qed
  with init_controllers_view [OF L, of n n ?bs ?p0 0 k ?w s memory] n bs h f obtain cs w1 where
    i: "init_controllers L memory [0..<n] (?p0, ?w) = Inr (OK, ?p0\<lparr>pa_controllers := cs\<rparr>, w1)"
      "length cs = n" "\<forall>l < n. fresh_sub L k n ?bs w1 l (cs ! l)" "w_srv w1 \<noteq> None" "keyed k (w_host w1)"
    by (auto simp: SetNu_def keyed_def)
  let ?p1 = "?p0\<lparr>pa_controllers := cs\<rparr>"
  have run: "Partition_Run L memory block_num bucket_size (SetNu nu p, ?w) = Inr (OK, ?p1, w1)"
    using i(1) f by (simp add: Partition_Run_def Partition_InitOram_def resize_def SetNu_def n Let_def)
  show ?thesis
    by (intro exI [of _ p] exI [of _ ?h] exI [of _ ?p1] exI [of _ w1])
      (use p run i in \<open>simp add: half_filled_def SetNu_def\<close>)
qed

text \<open>Filling gives every sub-ORAM its slice, and the position map follows.\<close>

lemma partition_fill_view:
  assumes L: "sodium_ok L" "lz4_ok L" "random_live L" "pads_ok L k"
    and n: "0 < n" "n \<le> 65536" and bs: "bs < 256" and m: "m = (2 ^ (sub_level n bs + 1) - 1) * bs"
    and ds: "list_all (storable L k) ds" "distinct (normal_ids ds)" "length ds = m * n"
    and b: "pa_bucket_size p = bs" and p: "half_filled L k n bs m ds 0 (pa_controllers p) w" "length (pa_controllers p) = n"
      "pa_slots p = replicate n []"
  shows "\<exists>p2 w2. Partition_FillWithData L ds (p, w) = Inr (OK, p2, w2)
    \<and> part_inv L k (p2, w2) (map (\<lambda>l. blocks_map (slice m ds l)) [0..<n])
    \<and> pa_nu p2 = pa_nu p \<and> pa_slots p2 = replicate n []
    \<and> (\<forall>c \<in> set (pa_controllers p2). po_tree_level c = sub_level n bs \<and> po_bucket_size c = ucast (of_nat bs :: u32))
    \<and> (\<forall>a d. blocks_map ds a = Some d \<longrightarrow> untouched p2 (map (\<lambda>l. blocks_map (slice m ds l)) [0..<n]) a d)"
proof -
  from fill_slots_view [OF L bs m ds(1,2) _ _ p(1)] p(2) n obtain cs2 w2 pm where
    r: "fill_slots L m ds [0..<n] (p, w) = Inr (p\<lparr>pa_position := pm, pa_controllers := cs2\<rparr>, w2)"
      "length cs2 = n" "half_filled L k n bs m ds n cs2 w2"
      "\<forall>l a. l < n \<and> a \<in> set (normal_ids (slice m ds l)) \<longrightarrow> pm a = Some (of_nat l)" by auto
  let ?p2 = "p\<lparr>pa_position := pm, pa_controllers := cs2, oc_initialized := True\<rparr>"
  obtain c0 cs' where c0: "pa_controllers p = c0 # cs'" using p(2) n by (cases "pa_controllers p") auto
  then have "fresh_sub L k n bs w 0 c0" using p(1) by (auto simp: half_filled_def)
  then have "sub_tree_size p c0 = m" using b by (simp add: sub_tree_size_def fresh_sub_def m POW2_def)
  then have fill: "Partition_FillWithData L ds (p, w) = Inr (OK, ?p2, w2)"
    using r(1) p(2) ds(3) c0 by (simp add: Partition_FillWithData_def Let_def)
  let ?ms = "map (\<lambda>l. blocks_map (slice m ds l)) [0..<n]"
  have inv: "part_inv L k (?p2, w2) ?ms"
    using r(2,3) n p(3) by (auto simp: part_inv_def half_filled_def)
  have "untouched ?p2 ?ms a d" if "blocks_map ds a = Some d" for a d
  proof -
    from blocks_map_slice [OF ds(2,3) that] obtain l where l: "l < n" "blocks_map (slice m ds l) a = Some d" by blast
    then have "a \<in> set (normal_ids (slice m ds l))" using blocks_map_None [of "slice m ds l" a] by auto
    with r(4) l(1) have "pm a = Some (of_nat l)" by blast
    moreover have "unat (of_nat l :: u32) = l" using l(1) n by (simp add: unat_of_nat_u32)
    ultimately show ?thesis using l p(3) by (simp add: untouched_def)
  qed
  moreover have "\<forall>c \<in> set cs2. po_tree_level c = sub_level n bs \<and> po_bucket_size c = ucast (of_nat bs :: u32)"
    using r(2,3) by (auto simp: half_filled_def in_set_conv_nth)
  ultimately show ?thesis using fill inv p(3) by (intro exI [of _ ?p2] exI [of _ w2]) simp
qed

lemma partition_set_up:
  assumes L: "sodium_ok L" "lz4_ok L" "random_live L" "pads_ok L k"
    and h: "keyed k h" and num: "block_num \<noteq> 0" "bucket_size \<noteq> 0" "bucket_size < 256"
    and s: "\<forall>i < kMaximumOramStorageNum. storages s i = None"
    and n: "n = ceil_sqrt (unat block_num)" and m: "m = (2 ^ (sub_level n (unat bucket_size) + 1) - 1) * unat bucket_size"
    and ds: "list_all (storable L k) ds" "distinct (normal_ids ds)" "length ds = m * n"
  shows "\<exists>p h0 p1 w1 p2 w2. PartitionOramController L memory ps0 bs0 nu0 h = Inr (p, h0)
    \<and> Partition_Run L memory block_num bucket_size (SetNu nu p, \<lparr>w_host = h0, w_srv = Some s, w_log = []\<rparr>) = Inr (OK, p1, w1)
    \<and> Partition_FillWithData L ds (p1, w1) = Inr (OK, p2, w2)
    \<and> part_inv L k (p2, w2) (map (\<lambda>l. blocks_map (slice m ds l)) [0..<n])
    \<and> pa_nu p2 = nu \<and> pa_slots p2 = replicate n []
    \<and> (\<forall>c \<in> set (pa_controllers p2). po_tree_level c = sub_level n (unat bucket_size)
          \<and> po_bucket_size c = ucast bucket_size)
    \<and> (\<forall>a d. blocks_map ds a = Some d \<longrightarrow> untouched p2 (map (\<lambda>l. blocks_map (slice m ds l)) [0..<n]) a d)"
proof -
  let ?bs = "unat bucket_size"
  have n1: "0 < n" using ceil_sqrt_spec(1) [of "unat block_num"] num(1) by (cases n) (simp_all add: n [symmetric] unat_eq_zero)
  have n2: "n \<le> 65536" using ceil_sqrt_u32 [of "unat block_num"] unat_u32_less [of block_num] by (simp add: n)
  have bs: "?bs < 256" using num(3) by (simp add: word_less_nat_alt)
  from partition_run_view [OF L(1) h n n1 n2 num(2) s, of memory ps0 bs0 nu0 nu m ds] obtain p h0 p1 w1 where
    r: "PartitionOramController L memory ps0 bs0 nu0 h = Inr (p, h0)"
      "Partition_Run L memory block_num bucket_size (SetNu nu p, \<lparr>w_host = h0, w_srv = Some s, w_log = []\<rparr>) = Inr (OK, p1, w1)"
    and f: "half_filled L k n ?bs m ds 0 (pa_controllers p1) w1" "length (pa_controllers p1) = n"
      "pa_slots p1 = replicate n []" "pa_nu p1 = nu" "pa_bucket_size p1 = ?bs" by blast
  from partition_fill_view [OF L n1 n2 bs m ds f(5,1-3)] f(4) r show ?thesis by simp
qed

end
