(* ===== verification/Partition_Sequences.thy ===== *)
theory Partition_Sequences
  imports Partition_Fill
begin

text \<open>
  Sequences of accesses of a partition ORAM: each address once (\<open>first_accesses\<close>), an address twice
  (\<open>second_access\<close>), and a read with eviction (\<open>evict_read_block\<close>).
\<close>

section \<open>Trees of one bucket\<close>

lemma subset_flat:
  assumes "\<forall>a y. pm a = Some y \<longrightarrow> y = (0 :: u32)" "length st \<le> n"
  shows "\<exists>pm'. subset_loop n 0 st pm = (st, [], pm')"
  using assms
proof (induction st arbitrary: pm n)
  case (Cons b st)
  obtain q pm1 where t: "touch (block_id (header b)) pm = (q, pm1)" by (cases "touch (block_id (header b)) pm")
  have "q = 0" "\<forall>a y. pm1 a = Some y \<longrightarrow> y = 0"
    using t Cons.prems(1) by (auto simp: touch_def split: option.splits if_splits)
  with Cons.IH [of pm1 "n - 1"] Cons.prems(2) t show ?case by (cases n) auto
qed simp

lemma remove_first_length: "length (remove_first P xs) \<le> length xs"
  by (induction xs) auto

text \<open>After a read, the stash of a Path ORAM with one bucket is empty.\<close>

lemma blocks_map_dom: "dom (blocks_map bs) = set (normal_ids bs)"
  using blocks_map_None [of bs] by (auto simp: dom_def)

lemma stash_goods: "stash_ok pm st \<Longrightarrow> goods st = mset (map payload st)"
  by (induction st) (auto simp: stash_ok_def)

lemma WriteBucket_stash: "WriteBucket L x l b cw = Inr (s, cw') \<Longrightarrow> po_stash (fst cw') = po_stash (fst cw)"
proof -
  assume a: "WriteBucket L x l b cw = Inr (s, cw')"
  obtain c w where cw: "cw = (c, w)" by (cases cw)
  from a obtain strs h where s: "seal_bucket L b (w_host w) = Inr (strs, h)"
    by (auto simp: cw WriteBucket_def andThen_eq_Inr)
  obtain st u w' where r: "stub_WritePath L (assemble_header c) x l 0 kNormal strs (w\<lparr>w_host := h\<rparr>) = ((st, u), w')"
    by (metis surj_pair)
  from a s r show ?thesis by (auto simp: cw WriteBucket_def Let_def)
qed

lemma write_path_flat:
  assumes w: "write_path L x 1 (c, w) = Inr (s, c', w')" and x: "x = 0"
    and pm: "\<forall>a y. po_position c a = Some y \<longrightarrow> y = 0" and len: "length (po_stash c) \<le> unat (po_bucket_size c)"
  shows "po_stash c' = []"
proof -
  from subset_flat [OF pm len] obtain pm' where
    sub: "subset_loop (unat (po_bucket_size c)) 0 (po_stash c) (po_position c) = (po_stash c, [], pm')" by blast
  from w obtain bucket cw1 where f: "FindSubsetOf L 0 (c, w) = Inr (bucket, cw1)"
    and r: "andThen (WriteBucket L 0 0 bucket cw1) (\<lambda>(s, cw2). if \<not> ok s
       then Inr (Append s (mk_status kInvalidOperation ''Failed to write bucket'' ''InternalAccessDirect''), cw2)
       else write_path L 0 0 cw2) = Inr (s, c', w')"
    by (auto simp: x write_path.simps(2) andThen_eq_Inr simp del: if_split)
  from f sub have "po_stash (fst cw1) = []" by (auto simp: FindSubsetOf_def andThen_eq_Inr)
  moreover from r have "\<exists>s1. WriteBucket L 0 0 bucket cw1 = Inr (s1, c', w')"
    by (auto simp: andThen_eq_Inr split: if_splits)
  ultimately show ?thesis using WriteBucket_stash by fastforce
qed

lemma flat_stash:
  assumes h: "path_holds L k (c, w) m" and lev: "po_tree_level c = 0"
    and size: "finite (dom m)" "card (dom m) \<le> unat (po_bucket_size c)" and s: "\<not> oc_standalone c"
    and a: "m a = Some d"
    and r: "Path_Access L Operation_kRead a x (c, w) = Inr ((OK, b), c', w')"
  shows "po_stash c' = []"
proof -
  from path_access_fetches [OF h, of Operation_kRead a x] obtain T bs y c1 w1 where
    f: "fetched L k a y (c1, w1) T bs" "blocks_map bs = m" "\<not> oc_standalone c1"
      "Path_Access L Operation_kRead a x (c, w) = after_fetch L Operation_kRead a y x (po_stash c1) (c1, w1)" using s by auto
  from fetched_find [OF f(1)] a f(2) obtain e where e: "find (BlockEqual a) (po_stash c1) = Some e" by blast
  let ?r = "remove_first (BlockEqual a)"
  let ?c = "c1\<lparr>po_stash_size := max (po_stash_size c1) (length (po_stash c1)), po_stash := ?r (po_stash c1),
    po_position := (po_position c1)(a := None)\<rparr>"
  from r f(3,4) e obtain st where wp: "write_path L y (po_tree_level ?c + 1) (?c, w1) = Inr (st, c', w')"
    by (auto simp: after_fetch_def Let_def andThen_eq_Inr simp del: write_path.simps)
  have "alone (?c, w1) (c', w')" using write_path_alone [OF wp] .
  moreover have "alone (c, w) (c', w')"
    using Path_InternalAccess_alone [of L Operation_kRead a x False "(c, w)" _ "(c', w')"] r h
    by (auto simp: Path_Access_def path_holds_def path_inv_def)
  ultimately have lev1: "po_tree_level c1 = 0" "po_bucket_size c1 = po_bucket_size c"
    using lev by (auto simp: alone_def)
  from f(1) have g: "stash_ok (po_position c1) (po_stash c1)" "positions_ok (po_position c1) 0"
    "goods (po_stash c1) \<subseteq># goods bs" "distinct (normal_ids bs)" "unat y < 2 ^ 0"
    using lev1 by (auto simp: fetched_def path_inv_def stock_def) (metis mset_subset_eq_add_left)
  have "length (po_stash c1) = size (goods (po_stash c1))" using stash_goods [OF g(1)] by simp
  also have "\<dots> \<le> size (goods bs)" using g(3) by (rule size_mset_mono)
  also have "\<dots> = length (normal_ids bs)" by (metis normal_ids_goods size_image_mset size_mset)
  also have "\<dots> = card (dom m)"
    using g(4) f(2) by (auto simp: distinct_card blocks_map_dom)
  finally have len: "length (po_stash c1) \<le> unat (po_bucket_size c1)" using size(2) lev1 by simp
  have y: "y = 0" using g(5) by (simp add: unat_eq_zero)
  show ?thesis
    using write_path_flat [of L y ?c w1 st c' w'] wp lev1 len y g(2) remove_first_length [of "BlockEqual a" "po_stash c1"]
    by (auto simp: positions_ok_def unat_eq_zero split: if_splits simp del: write_path.simps)
qed

section \<open>Sequences of first accesses\<close>

fun address :: "request \<Rightarrow> u32" where
  "address (Read a) = a"
| "address (Write a x) = a"

text \<open>A request of an address the memory has; a written block carries its address.\<close>

fun addressed :: "(u32 \<rightharpoonup> bytes) \<Rightarrow> request \<Rightarrow> bool" where
  "addressed m (Read a) \<longleftrightarrow> m a \<noteq> None"
| "addressed m (Write a x) \<longleftrightarrow> m a \<noteq> None \<and> block_id (header x) = a"

lemma addressed_update: "addressed m r \<Longrightarrow> addressed (m(a \<mapsto> d)) r"
  by (cases r) auto

lemma addressed_known: "addressed m r \<Longrightarrow> \<exists>d. m (address r) = Some d"
  by (cases r) auto

lemma first_accesses:
  assumes L: "random_live L" and mem: "storable L k memory"
  shows "part_inv L k (p, w) ms \<Longrightarrow> pa_nu p = 0 \<Longrightarrow> distinct (map address rs) \<Longrightarrow>
    \<forall>r \<in> set rs. addressed m r \<and> untouched p ms (address r) (the (m (address r))) \<Longrightarrow>
    \<exists>pw'. run_requests (Partition_Access L memory) buf rs (p, w) = Inr (fst (memory_run rs m), pw')"
proof (induction rs arbitrary: p w ms m)
  case (Cons r rs)
  have u: "untouched p ms (address r) (the (m (address r)))" using Cons.prems(4) by simp
  define op x where "op = (case r of Read a \<Rightarrow> Operation_kRead | Write a x \<Rightarrow> Operation_kWrite)"
    and "x = (case r of Read a \<Rightarrow> buf | Write a x \<Rightarrow> x)"
  have ops: "op = Operation_kWrite \<longrightarrow> block_id (header x) = address r" "op = Operation_kRead \<or> op = Operation_kWrite"
    using Cons.prems(4) by (cases r; simp add: op_def x_def)+
  from Partition_Access_first [OF L Cons.prems(1) u Cons.prems(2) mem ops] obtain b p' w' ms' where
    r: "Partition_Access L memory op (address r) x (p, w) = Inr ((OK, b), p', w')"
      "op = Operation_kRead \<longrightarrow> data b = the (m (address r))" "part_inv L k (p', w') ms'" "pa_nu p' = 0"
      "\<forall>c e. c \<noteq> address r \<and> untouched p ms c e \<longrightarrow> untouched p' ms' c e" by blast
  let ?m = "case r of Read a \<Rightarrow> m | Write a x \<Rightarrow> m(a \<mapsto> data x)"
  have "addressed ?m q \<and> untouched p' ms' (address q) (the (?m (address q)))" if "q \<in> set rs" for q
  proof -
    have q: "addressed m q" "untouched p ms (address q) (the (m (address q)))" "address q \<noteq> address r"
      using Cons.prems(3,4) that by (simp, simp, auto simp: image_iff)
    have "addressed ?m q" using q(1) addressed_update by (cases r) auto
    moreover have "?m (address q) = m (address q)" using q(3) by (cases r) auto
    ultimately show ?thesis using q(2,3) r(5) by simp
  qed
  with Cons.IH [OF r(3,4), of ?m] Cons.prems(3) obtain pw'' where
    "run_requests (Partition_Access L memory) buf rs (p', w') = Inr (fst (memory_run rs ?m), pw'')" by auto
  with r(1,2) show ?case by (cases r) (auto simp: op_def x_def split: prod.split)
qed simp

section \<open>A second access\<close>

lemma path_holds_position:
  assumes "path_holds L k (c, w) m" "m a \<noteq> None"
  shows "\<exists>x. po_position c a = Some x \<and> unat x < 2 ^ po_tree_level c"
proof -
  from assms(1) obtain T bs where inv: "path_inv L k (c, w) T" and bs: "stock c T = goods bs" "distinct (normal_ids bs)"
    and m: "blocks_map bs = m" by (auto simp: path_holds_def)
  from assms(2) m blocks_map_goods [OF bs(2)] obtain p where "p \<in># goods bs" "block_id (header p) = a" by blast
  then have "p \<in># goods (po_stash c) \<or> p \<in># bag (po_tree_level c) T" "block_id (header p) = a"
    using bs(1) by (metis stock_def union_iff)+
  with inv have "po_position c a \<noteq> None"
    by (force simp: in_goods in_bag placed_def stash_ok_def path_inv_def)
  with inv show ?thesis by (auto simp: path_inv_def positions_ok_def)
qed

text \<open>A read of a block that is neither in its sub-ORAM nor in its slot returns the caller's memory.\<close>

lemma lost_access:
  assumes L: "random_live L" and inv: "part_inv L k (p, w) ms" and lost: "(ms ! unat i) a = None"
    and nu: "pa_nu p = 0" and pos: "pa_position p a = Some i" "unat i < length ms"
    and slot: "find (BlockEqual a) (pa_slots p ! unat i) = None"
  shows "\<exists>pw'. Partition_Access L memory Operation_kRead a x (p, w) = Inr ((OK, memory), pw')"
proof -
  note s = part_inv_sub [OF inv pos(2)]
  have n: "0 < length (pa_controllers p)" "length (pa_controllers p) < 2 ^ 32" "length (pa_slots p) = length (pa_controllers p)"
    using inv by (auto simp: part_inv_def)
  from random_slot_view [OF L n(1,2), of "w_host w"] obtain y h where
    y: "random_slot L p (w_host w) = Inr (y, h)" "unat y < length (pa_slots p)" "singleton h = singleton (w_host w)"
    using n(3) by auto
  have "part_inv L k (p\<lparr>pa_position := (pa_position p)(a \<mapsto> y)\<rparr>, w\<lparr>w_host := h\<rparr>) ms"
    using part_inv_host [OF inv y(3)] by (simp only: part_inv_fields)
  from sub_miss [OF this pos(2) lost, of Operation_kRead memory] obtain st c' w' where
    "sub_access L (unat i) Operation_kRead a memory False (p\<lparr>pa_position := (pa_position p)(a \<mapsto> y)\<rparr>, w\<lparr>w_host := h\<rparr>)
      = Inr ((st, memory), p\<lparr>pa_position := (pa_position p)(a \<mapsto> y), pa_controllers := (pa_controllers p)[unat i := c']\<rparr>, w')"
    by auto
  from Partition_Access_miss [OF y(1,2) nu pos(1) s(4,5) slot this refl, of x] show ?thesis by simp
qed

lemma only_slot:
  "random_live L \<Longrightarrow> length (pa_controllers q) = 1 \<Longrightarrow> \<exists>h'. random_slot L q h = Inr (0, h') \<and> singleton h' = singleton h"
  using random_slot_view [of L q h] by (auto simp: unat_eq_zero)

text \<open>One sub-ORAM of one bucket: the first access of an address moves its block to the slot.\<close>

lemma flat_miss:
  assumes L: "random_live L" and inv: "part_inv L k (p, w) [m]" and nu: "pa_nu p = 0"
    and flat: "\<forall>c \<in> set (pa_controllers p). po_tree_level c = 0 \<and> card (dom m) \<le> unat (po_bucket_size c)"
    and fin: "finite (dom m)" and slots: "pa_slots p = [[]]" and pos: "pa_position p a = Some 0" and a: "m a = Some d"
  shows "\<exists>o1 c1 p1 w1. Partition_Access L memory Operation_kRead a x (p, w) = Inr ((OK, o1), p1, w1)
    \<and> BlockEqual a o1 \<and> data o1 = d \<and> part_inv L k (p1, w1) [m(a := None)]
    \<and> pa_controllers p1 = [c1] \<and> po_tree_level c1 = 0 \<and> po_stash c1 = []
    \<and> pa_slots p1 = [[o1]] \<and> pa_position p1 = (pa_position p)(a \<mapsto> 0) \<and> pa_nu p1 = 0"
proof -
  from inv have "length (pa_controllers p) = Suc 0" by (simp add: part_inv_def)
  then obtain c where cs: "pa_controllers p = [c]" by (cases "pa_controllers p") auto
  from only_slot [OF L, of p "w_host w"] cs obtain h where
    y: "random_slot L p (w_host w) = Inr (0, h)" "singleton h = singleton (w_host w)" by auto
  let ?p1 = "p\<lparr>pa_position := (pa_position p)(a \<mapsto> 0)\<rparr>" and ?w = "w\<lparr>w_host := h\<rparr>"
  have inv1: "part_inv L k (?p1, ?w) [m]" using part_inv_host [OF inv y(2)] by simp
  from sub_read [OF this, of 0 a d memory] a cs obtain o1 c1 w1 where
    r: "sub_access L 0 Operation_kRead a memory False (?p1, ?w) = Inr ((OK, o1), ?p1\<lparr>pa_controllers := [c1]\<rparr>, w1)"
      "BlockEqual a o1" "data o1 = d" "part_inv L k (?p1\<lparr>pa_controllers := [c1]\<rparr>, w1) [m(a := None)]"
      "Path_Access L Operation_kRead a memory (c, ?w) = Inr ((OK, o1), c1, w1)" by auto
  from part_inv_sub [OF inv1, of 0] cs have c: "path_holds L k (c, ?w) m" "\<not> oc_standalone c" "oc_initialized c" by auto
  have "alone (c, ?w) (c1, w1)"
    using Path_InternalAccess_alone [of L Operation_kRead a memory False "(c, ?w)" _ "(c1, w1)"] r(5) c(3)
    by (simp add: Path_Access_def)
  then have lev: "po_tree_level c1 = 0" using flat cs by (simp add: alone_def)
  have st: "po_stash c1 = []" using flat_stash [OF c(1) _ fin _ c(2) a r(5)] flat cs by simp
  let ?p2 = "?p1\<lparr>pa_controllers := [c1], pa_slots := [[o1]]\<rparr>"
  have "sub_access L (unat 0) Operation_kRead a memory False (?p1, ?w) = Inr ((OK, o1), ?p1\<lparr>pa_controllers := [c1]\<rparr>, w1)"
    using r(1) by simp
  from Partition_Access_miss [OF y(1) _ nu pos _ _ _ this refl, of x] cs slots
  have "Partition_Access L memory Operation_kRead a x (p, w) = Inr ((OK, o1), ?p2, w1)" by simp
  moreover have "part_inv L k (?p2, w1) [m(a := None)]" using part_inv_slots [OF r(4), of "[[o1]]"] slots by simp
  ultimately show ?thesis using r(2,3) lev st nu
    by (intro exI [of _ o1] exI [of _ c1] exI [of _ ?p2] exI [of _ w1]) simp
qed

text \<open>The next access of it is served by the slot, and its dummy access empties the only bucket.\<close>

lemma flat_hit:
  assumes L: "random_live L" and inv: "part_inv L k (p, w) [m]" and nu: "pa_nu p = 0"
    and c: "pa_controllers p = [c]" "po_tree_level c = 0" "po_stash c = []"
    and slots: "pa_slots p = [[b]]" "BlockEqual a b" and pos: "pa_position p a = Some 0"
  shows "\<exists>p1 w1. Partition_Access L memory Operation_kRead a x (p, w) = Inr ((OK, b), p1, w1)
    \<and> part_inv L k (p1, w1) [Map.empty] \<and> pa_slots p1 = [[b]] \<and> pa_position p1 = pa_position p \<and> pa_nu p1 = 0"
proof -
  from only_slot [OF L, of p "w_host w"] c(1) obtain h where
    y: "random_slot L p (w_host w) = Inr (0, h)" "singleton h = singleton (w_host w)" by auto
  let ?p1 = "p\<lparr>pa_position := (pa_position p)(a \<mapsto> 0)\<rparr>" and ?w = "w\<lparr>w_host := h\<rparr>"
  have "part_inv L k (?p1, ?w) [m]" using part_inv_host [OF inv y(2)] by simp
  from sub_dummy [OF this, of 0 Operation_kRead a no_block] c(1) obtain z n c2 w2 m' where
    q: "sub_access L 0 Operation_kRead a no_block True (?p1, ?w) = Inr ((OK, no_block), ?p1\<lparr>pa_controllers := [c2]\<rparr>, w2)"
      "part_inv L k (?p1\<lparr>pa_controllers := [c2]\<rparr>, w2) [m']" "c2 = c\<lparr>po_communication := n\<rparr>" "unat z < 2 ^ po_tree_level c2"
      "\<forall>e. po_position c2 e = Some z \<and> find (BlockEqual e) (po_stash c2) = None \<longrightarrow> m' e = None" by auto
  have "m' e = None" for e
  proof (rule ccontr)
    assume "m' e \<noteq> None"
    with part_inv_sub [OF q(2), of 0] path_holds_position [of L k c2 w2 m' e] obtain v where
      "po_position c2 e = Some v" "unat v < 2 ^ po_tree_level c2" by auto
    with q(3-5) c(2,3) \<open>m' e \<noteq> None\<close> show False by (auto simp: unat_eq_zero)
  qed
  then have empty: "m' = Map.empty" by auto
  let ?p2 = "?p1\<lparr>pa_controllers := [c2]\<rparr>"
  have "sub_access L (unat 0) Operation_kRead a no_block True (?p1, ?w) = Inr ((OK, no_block), ?p2, w2)"
    using q(1) by simp
  from Partition_Access_hit [OF y(1) _ _ _ _ _ _ this refl refl, where b = b and x = x] slots nu pos c(1)
  have "Partition_Access L memory Operation_kRead a x (p, w) = Inr ((OK, b), ?p2\<lparr>pa_slots := [[b]]\<rparr>, w2)" by simp
  moreover have "part_inv L k (?p2\<lparr>pa_slots := [[b]]\<rparr>, w2) [Map.empty]"
    using part_inv_slots [OF q(2), of "[[b]]"] empty slots(1) by simp
  ultimately show ?thesis using nu pos by (intro exI [of _ "?p2\<lparr>pa_slots := [[b]]\<rparr>"] exI [of _ w2]) auto
qed

lemma second_access:
  assumes L: "random_live L" and inv: "part_inv L k (p, w) [m]" and nu: "pa_nu p = 0"
    and flat: "\<forall>c \<in> set (pa_controllers p). po_tree_level c = 0 \<and> card (dom m) \<le> unat (po_bucket_size c)"
    and fin: "finite (dom m)" and slots: "pa_slots p = [[]]" and pos: "pa_position p a = Some 0" "pa_position p b = Some 0"
    and ab: "m a = Some d" "a \<noteq> b"
  shows "\<exists>o1 pw1 o2 pw2 o3 pw3. Partition_Access L memory Operation_kRead a x (p, w) = Inr ((OK, o1), pw1) \<and> data o1 = d
    \<and> Partition_Access L memory Operation_kRead a x pw1 = Inr ((OK, o2), pw2) \<and> data o2 = d
    \<and> Partition_Access L memory Operation_kRead b x pw2 = Inr ((OK, o3), pw3) \<and> data o3 = data memory"
proof -
  from flat_miss [OF L inv nu flat fin slots pos(1) ab(1), of memory x] obtain o1 c1 p1 w1 where
    r: "Partition_Access L memory Operation_kRead a x (p, w) = Inr ((OK, o1), p1, w1)"
      "BlockEqual a o1" "data o1 = d" "part_inv L k (p1, w1) [m(a := None)]"
      "pa_controllers p1 = [c1]" "po_tree_level c1 = 0" "po_stash c1 = []"
      "pa_slots p1 = [[o1]]" "pa_position p1 = (pa_position p)(a \<mapsto> 0)" "pa_nu p1 = 0" by blast
  have "pa_position p1 a = Some 0" using r(9) by simp
  from flat_hit [OF L r(4,10,5-8,2) this, of memory x] obtain p2 w2 where
    q: "Partition_Access L memory Operation_kRead a x (p1, w1) = Inr ((OK, o1), p2, w2)"
      "part_inv L k (p2, w2) [Map.empty]" "pa_slots p2 = [[o1]]" "pa_position p2 = pa_position p1" "pa_nu p2 = 0" by blast
  from lost_access [OF L q(2), of 0 b memory x] q(3-5) r(2,9) pos(2) ab(2)
  have "\<exists>pw3. Partition_Access L memory Operation_kRead b x (p2, w2) = Inr ((OK, memory), pw3)"
    by (simp add: BlockEqual_def)
  with r(1,3) q(1) show ?thesis by fastforce
qed

section \<open>Eviction\<close>

text \<open>The block that is evicted is in no sub-ORAM any more.\<close>

lemma evict_read_block:
  assumes L: "random_live L" and inv: "part_inv L k (p, w) [m]"
    and nu: "pa_nu p \<noteq> 0" and slots: "pa_slots p = [[]]" and pos: "pa_position p a = Some 0" and a: "m a = Some d"
  shows "Partition_Access L memory Operation_kRead a x (p, w) = Inl Process_Abort"
proof -
  have n: "0 < length (pa_controllers p)" "length (pa_controllers p) < 2 ^ 32" "length (pa_controllers p) = Suc 0"
    using inv by (auto simp: part_inv_def)
  from random_slot_view [OF L n(1,2), of "w_host w"] n(3) obtain h where
    y: "random_slot L p (w_host w) = Inr (0, h)" "singleton h = singleton (w_host w)" by (auto simp: unat_eq_zero)
  let ?p1 = "p\<lparr>pa_position := (pa_position p)(a \<mapsto> 0)\<rparr>" and ?w = "w\<lparr>w_host := h\<rparr>"
  have "part_inv L k (?p1, ?w) [m]" using part_inv_host [OF inv y(2)] by simp
  from sub_read [OF this, of 0 a d memory] a obtain b c' w' where
    r: "sub_access L 0 Operation_kRead a memory False (?p1, ?w)
        = Inr ((OK, b), ?p1\<lparr>pa_controllers := (pa_controllers p)[0 := c']\<rparr>, w')" "BlockEqual a b"
      "part_inv L k (?p1\<lparr>pa_controllers := (pa_controllers p)[0 := c']\<rparr>, w') [m(a := None)]" by auto
  define p2 where "p2 = ?p1\<lparr>pa_controllers := (pa_controllers p)[0 := c'], pa_slots := [[b]]\<rparr>"
  have inv2: "part_inv L k (p2, w') [m(a := None)]"
    using part_inv_slots [OF r(3), of "[[b]]"] slots by (simp add: p2_def)
  have n2: "0 < length (pa_controllers p2)" "length (pa_controllers p2) < 2 ^ 32" "length (pa_controllers p2) = Suc 0"
    using inv2 by (auto simp: part_inv_def)
  from random_slot_view [OF L n2(1,2), of "w_host w'"] n2(3) obtain h2 where
    y2: "random_slot L p2 (w_host w') = Inr (0, h2)" "singleton h2 = singleton (w_host w')" by (auto simp: unat_eq_zero)
  have "part_inv L k (p2\<lparr>pa_slots := [[]]\<rparr>, w'\<lparr>w_host := h2\<rparr>) [m(a := None)]"
    using part_inv_slots [OF part_inv_host [OF inv2 y2(2)], of "[[]]"] by (simp add: p2_def)
  from sub_miss [OF this, of 0 a Operation_kWrite b] obtain st pw' where
    e: "sub_access L 0 Operation_kWrite a b False (p2\<lparr>pa_slots := [[]]\<rparr>, w'\<lparr>w_host := h2\<rparr>) = Inr ((st, b), pw')"
      "error_code st = kObjectNotFound" by auto
  have "Evict L 0 (p2, w'\<lparr>w_host := h2\<rparr>) = Inr (st, pw')"
    using e(1) r(2) by (simp add: Evict_def p2_def BlockEqual_def Let_def)
  moreover have "pa_nu p2 = Suc (pa_nu p - 1)" using nu by (simp add: p2_def)
  ultimately have "RandomEvict L (p2, w') = Inr (st, pw')"
    using y2(1) e(2) by (simp add: RandomEvict_def ok_def)
  then show ?thesis
    using y(1) r(1) n(3) slots pos e(2)
    by (simp add: Partition_Access_def touch_def Let_def CheckStatus_def ok_def p2_def)
qed

section \<open>One slot\<close>

lemma sub_level_one: "bs \<noteq> 0 \<Longrightarrow> sub_level 1 bs = 0"
proof -
  assume "bs \<noteq> 0"
  then have two: "(1 + bs - 1) div bs + 1 = 2" by simp
  have "ceil_LOG_BASE2 2 = 1" by code_simp
  then show ?thesis unfolding sub_level_def two by simp
qed

lemma ceil_sqrt_one: "ceil_sqrt 1 = 1"
  by code_simp

text \<open>Setting up a partition ORAM of one slot.\<close>

lemma partition_one_slot:
  assumes L: "sodium_ok L" "lz4_ok L" "random_live L" "pads_ok L k" and h: "keyed k h"
    and bs: "bucket_size \<noteq> 0" "bucket_size < 256" and s: "\<forall>i < kMaximumOramStorageNum. storages s i = None"
    and ds: "list_all (storable L k) ds" "distinct (normal_ids ds)" "length ds = unat bucket_size"
  shows "\<exists>p h0 p1 w1 p2 w2. PartitionOramController L crypt ps0 bs0 nu0 h = Inr (p, h0)
    \<and> Partition_Run L crypt 1 bucket_size (SetNu nu p, \<lparr>w_host = h0, w_srv = Some s, w_log = []\<rparr>) = Inr (OK, p1, w1)
    \<and> Partition_FillWithData L ds (p1, w1) = Inr (OK, p2, w2)
    \<and> part_inv L k (p2, w2) [blocks_map ds] \<and> pa_nu p2 = nu \<and> pa_slots p2 = [[]]
    \<and> (\<forall>c \<in> set (pa_controllers p2). po_tree_level c = 0 \<and> card (dom (blocks_map ds)) \<le> unat (po_bucket_size c))
    \<and> (\<forall>a d. blocks_map ds a = Some d \<longrightarrow> pa_position p2 a = Some 0)"
proof -
  have one: "(1 :: u32) \<noteq> 0" "(1 :: nat) = ceil_sqrt (unat (1 :: u32))"
    "unat bucket_size = (2 ^ (sub_level 1 (unat bucket_size) + 1) - 1) * unat bucket_size"
    using bs(1) sub_level_one [of "unat bucket_size"] ceil_sqrt_one by (simp_all add: unat_eq_zero)
  have len: "length ds = unat bucket_size * 1" using ds(3) by simp
  have sl: "slice (unat bucket_size) ds 0 = ds" using ds(3) by (simp add: slice_def)
  have u: "unat (ucast bucket_size :: u8) = unat bucket_size"
    using bs(2) by (simp add: unsigned_ucast_eq take_bit_eq_mod word_less_nat_alt)
  have "card (dom (blocks_map ds)) \<le> unat bucket_size"
  proof -
    have "card (dom (blocks_map ds)) = length (normal_ids ds)" using ds(2) by (simp add: blocks_map_dom distinct_card)
    also have "\<dots> \<le> length ds" by (simp add: normal_ids_def)
    finally show ?thesis using ds(3) by simp
  qed
  moreover have "pa_position p a = Some 0" if "untouched p [blocks_map ds] a d" for p a d
    using that by (auto simp: untouched_def unat_eq_zero)
  moreover from partition_set_up [OF L h one(1) bs s one(2,3) ds(1,2) len, of crypt ps0 bs0 nu0 nu]
  obtain p h0 p1 w1 p2 w2 where "PartitionOramController L crypt ps0 bs0 nu0 h = Inr (p, h0)"
    "Partition_Run L crypt 1 bucket_size (SetNu nu p, \<lparr>w_host = h0, w_srv = Some s, w_log = []\<rparr>) = Inr (OK, p1, w1)"
    "Partition_FillWithData L ds (p1, w1) = Inr (OK, p2, w2)" "part_inv L k (p2, w2) [blocks_map ds]" "pa_nu p2 = nu"
    "pa_slots p2 = [[]]" "\<forall>c \<in> set (pa_controllers p2). po_tree_level c = 0 \<and> po_bucket_size c = ucast bucket_size"
    "\<forall>a d. blocks_map ds a = Some d \<longrightarrow> untouched p2 [blocks_map ds] a d"
    using sub_level_one [of "unat bucket_size"] bs(1) by (auto simp: sl unat_eq_zero)
  ultimately show ?thesis using u by (intro exI conjI) (assumption | force)+
qed

end
