(* ===== verification/Partition_Properties.thy ===== *)
theory Partition_Properties
  imports Partition_Sequences Oram_Instance
begin

text \<open>The properties of the partition ORAM.\<close>

text \<open>
  C16. A partition ORAM without eviction (\<open>SetNu(0)\<close>) that is constructed, run and filled on an empty
  server answers like a plain memory as long as every address is accessed once: a read returns the
  block's data, a write is accepted, each with status OK. The data has to fill the trees of all
  slots exactly, and a written block has to carry the address it is written to.
\<close>

theorem partition_first_accesses:
  assumes "sodium_ok L" "lz4_ok L" "random_live L" "pads_ok L k" and "keyed k h"
    and "block_num \<noteq> 0" "bucket_size \<noteq> 0" "bucket_size < 256"
    and "\<forall>i < kMaximumOramStorageNum. storages s i = None" and "n = ceil_sqrt (unat block_num)"
    and "list_all (storable L k) ds" "distinct (normal_ids ds)"
      "length ds = (2 ^ (sub_level n (unat bucket_size) + 1) - 1) * unat bucket_size * n"
    and "storable L k memory" and "distinct (map address rs)" "\<forall>r \<in> set rs. addressed (blocks_map ds) r"
  shows "\<exists>p h0 p1 w1 pw2 pw3. PartitionOramController L crypt ps0 bs0 nu0 h = Inr (p, h0)
    \<and> Partition_Run L crypt block_num bucket_size (SetNu 0 p, \<lparr>w_host = h0, w_srv = Some s, w_log = []\<rparr>) = Inr (OK, p1, w1)
    \<and> Partition_FillWithData L ds (p1, w1) = Inr (OK, pw2)
    \<and> run_requests (Partition_Access L memory) buf rs pw2 = Inr (fst (memory_run rs (blocks_map ds)), pw3)"
proof -
  from partition_set_up [OF assms(1-10) refl assms(11-13), of crypt ps0 bs0 nu0 0] obtain p h0 p1 w1 p2 w2 ms where
    u: "PartitionOramController L crypt ps0 bs0 nu0 h = Inr (p, h0)"
      "Partition_Run L crypt block_num bucket_size (SetNu 0 p, \<lparr>w_host = h0, w_srv = Some s, w_log = []\<rparr>) = Inr (OK, p1, w1)"
      "Partition_FillWithData L ds (p1, w1) = Inr (OK, p2, w2)" "part_inv L k (p2, w2) ms" "pa_nu p2 = 0"
      "\<forall>a d. blocks_map ds a = Some d \<longrightarrow> untouched p2 ms a d" by blast
  have "\<forall>r \<in> set rs. addressed (blocks_map ds) r \<and> untouched p2 ms (address r) (the (blocks_map ds (address r)))"
    using assms(16) u(6) addressed_known by fastforce
  from first_accesses [OF assms(3,14) u(4,5) assms(15) this, of buf] u(1-3) show ?thesis by blast
qed

lemma toy_quarters:
  "2 = ceil_sqrt (unat (4 :: u32))" "4 = (2 ^ (sub_level 2 (unat (2 :: u32)) + 1) - 1) * unat (2 :: u32) * 2"
  by code_simp+

definition toy_four :: "oram_block list" where
  "toy_four = [toy_block 0 1 10, toy_block 1 1 11, toy_block 2 1 12, toy_block 3 1 13]"

lemma toy_four_parts:
  "list_all (storable toy_libs k) toy_four" "length toy_four = 4" "normal_ids toy_four = [0, 1, 2, 3]"
  "blocks_map toy_four = [0 \<mapsto> replicate 512 10, 1 \<mapsto> replicate 512 11, 2 \<mapsto> replicate 512 12, 3 \<mapsto> replicate 512 13]"
  by (auto simp: toy_four_def normal_ids_def BlockType_kNormal_def fun_eq_iff blocks_map_Cons BlockEqual_def)
    (simp add: blocks_map_def)

theorem partition_first_accesses_witness:
  "\<exists>p h0 p1 w1 pw2 pw3. PartitionOramController toy_libs toy_cryptor 0 0 7 toy_host = Inr (p, h0)
    \<and> Partition_Run toy_libs toy_cryptor 4 2 (SetNu 0 p, \<lparr>w_host = h0, w_srv = Some toy_server, w_log = []\<rparr>) = Inr (OK, p1, w1)
    \<and> Partition_FillWithData toy_libs toy_four (p1, w1) = Inr (OK, pw2)
    \<and> run_requests (Partition_Access toy_libs (toy_block 9 0 0)) (toy_block 9 0 0)
        [Read 2, Write 1 (toy_block 1 1 20), Read 0] pw2
      = Inr ([(OK, replicate 512 12), (OK, []), (OK, replicate 512 10)], pw3)"
proof -
  have "fst (memory_run [Read 2, Write 1 (toy_block 1 1 20), Read 0] (blocks_map toy_four))
      = [(OK, replicate 512 12), (OK, []), (OK, replicate 512 10)]"
    by (simp add: toy_four_parts)
  moreover have "\<forall>r \<in> set [Read 2, Write 1 (toy_block 1 1 20), Read 0]. addressed (blocks_map toy_four) r"
    by (simp add: toy_four_parts)
  moreover have "length toy_four = (2 ^ (sub_level 2 (unat (2 :: u32)) + 1) - 1) * unat (2 :: u32) * 2"
    unfolding toy_four_parts by (rule toy_quarters(2))
  ultimately show ?thesis
    using partition_first_accesses [OF toy_sodium_ok toy_lz4_ok toy_random_live toy_pads_ok toy_keyed _ _ _ _ toy_quarters(1)
        toy_four_parts(1), of 2 toy_server "toy_block 9 0 0" "[Read 2, Write 1 (toy_block 1 1 20), Read 0]" toy_cryptor 0 0 7
        "toy_block 9 0 0"]
    by (simp add: toy_four_parts(3))
qed

text \<open>
  C17. The second access of an address loses the other blocks of its path: in a partition ORAM of one
  slot whose tree is one bucket, after two reads of \<open>a\<close> (both return \<open>a\<close>'s data) a read of any other
  block \<open>b\<close> that was filled in returns what the local memory of \<open>Access\<close> held, with status OK. The second
  access finds \<open>a\<close> in the slot and makes a dummy access, which takes a path off the server and does
  not write it back; and \<open>Access\<close> does not look at the sub-ORAM's status.
\<close>

theorem partition_second_access_loses:
  assumes "sodium_ok L" "lz4_ok L" "random_live L" "pads_ok L k" and "keyed k h"
    and "bucket_size \<noteq> 0" "bucket_size < 256" and "\<forall>i < kMaximumOramStorageNum. storages s i = None"
    and "list_all (storable L k) ds" "distinct (normal_ids ds)" "length ds = unat bucket_size"
    and "blocks_map ds a = Some d" "blocks_map ds b = Some e" "a \<noteq> b"
  shows "\<exists>p h0 p1 w1 pw2 o1 pw3 o2 pw4 o3 pw5. PartitionOramController L crypt ps0 bs0 nu0 h = Inr (p, h0)
    \<and> Partition_Run L crypt 1 bucket_size (SetNu 0 p, \<lparr>w_host = h0, w_srv = Some s, w_log = []\<rparr>) = Inr (OK, p1, w1)
    \<and> Partition_FillWithData L ds (p1, w1) = Inr (OK, pw2)
    \<and> Partition_Access L memory Operation_kRead a x pw2 = Inr ((OK, o1), pw3) \<and> data o1 = d
    \<and> Partition_Access L memory Operation_kRead a x pw3 = Inr ((OK, o2), pw4) \<and> data o2 = d
    \<and> Partition_Access L memory Operation_kRead b x pw4 = Inr ((OK, o3), pw5) \<and> data o3 = data memory"
proof -
  from partition_one_slot [OF assms(1-11), of crypt ps0 bs0 nu0 0] obtain p h0 p1 w1 p2 w2 where
    u: "PartitionOramController L crypt ps0 bs0 nu0 h = Inr (p, h0)"
      "Partition_Run L crypt 1 bucket_size (SetNu 0 p, \<lparr>w_host = h0, w_srv = Some s, w_log = []\<rparr>) = Inr (OK, p1, w1)"
      "Partition_FillWithData L ds (p1, w1) = Inr (OK, p2, w2)" "part_inv L k (p2, w2) [blocks_map ds]" "pa_nu p2 = 0"
      "pa_slots p2 = [[]]" "\<forall>c \<in> set (pa_controllers p2). po_tree_level c = 0
        \<and> card (dom (blocks_map ds)) \<le> unat (po_bucket_size c)"
      "pa_position p2 a = Some 0" "pa_position p2 b = Some 0" using assms(12,13) by blast
  from second_access [OF assms(3) u(4,5,7) _ u(6,8,9) assms(12,14), of memory x] u(1-3)
  show ?thesis by (fastforce simp: blocks_map_dom)
qed

theorem partition_second_access_loses_witness:
  "\<exists>p h0 p1 w1 pw2 o1 pw3 o2 pw4 o3 pw5. PartitionOramController toy_libs toy_cryptor 0 0 7 toy_host = Inr (p, h0)
    \<and> Partition_Run toy_libs toy_cryptor 1 4 (SetNu 0 p, \<lparr>w_host = h0, w_srv = Some toy_server, w_log = []\<rparr>) = Inr (OK, p1, w1)
    \<and> Partition_FillWithData toy_libs toy_four (p1, w1) = Inr (OK, pw2)
    \<and> Partition_Access toy_libs (toy_block 9 0 99) Operation_kRead 2 (toy_block 9 0 0) pw2 = Inr ((OK, o1), pw3)
      \<and> data o1 = replicate 512 12
    \<and> Partition_Access toy_libs (toy_block 9 0 99) Operation_kRead 2 (toy_block 9 0 0) pw3 = Inr ((OK, o2), pw4)
      \<and> data o2 = replicate 512 12
    \<and> Partition_Access toy_libs (toy_block 9 0 99) Operation_kRead 3 (toy_block 9 0 0) pw4 = Inr ((OK, o3), pw5)
      \<and> data o3 = replicate 512 99"
  using partition_second_access_loses [of toy_libs "replicate 32 7" toy_host 4 toy_server toy_four 2 "replicate 512 12"
      3 "replicate 512 13" toy_cryptor 0 0 7 "toy_block 9 0 99" "toy_block 9 0 0"]
  by (simp add: toy_four_parts)

text \<open>
  C18. With eviction a partition ORAM of one slot aborts at the first read of any address: the read
  removes the block from the sub-ORAM, the eviction then writes it to that sub-ORAM, which only
  overwrites blocks it has and reports that it has none, and \<open>Access\<close> exits the process.
\<close>

theorem partition_eviction_aborts:
  assumes "sodium_ok L" "lz4_ok L" "random_live L" "pads_ok L k" and "keyed k h"
    and "bucket_size \<noteq> 0" "bucket_size < 256" and "\<forall>i < kMaximumOramStorageNum. storages s i = None"
    and "list_all (storable L k) ds" "distinct (normal_ids ds)" "length ds = unat bucket_size"
    and "blocks_map ds a = Some d" and "nu \<noteq> 0"
  shows "\<exists>p h0 p1 w1 pw2. PartitionOramController L crypt ps0 bs0 nu0 h = Inr (p, h0)
    \<and> Partition_Run L crypt 1 bucket_size (SetNu nu p, \<lparr>w_host = h0, w_srv = Some s, w_log = []\<rparr>) = Inr (OK, p1, w1)
    \<and> Partition_FillWithData L ds (p1, w1) = Inr (OK, pw2)
    \<and> Partition_Access L memory Operation_kRead a x pw2 = Inl Process_Abort"
proof -
  from partition_one_slot [OF assms(1-11), of crypt ps0 bs0 nu0 nu] obtain p h0 p1 w1 p2 w2 where
    u: "PartitionOramController L crypt ps0 bs0 nu0 h = Inr (p, h0)"
      "Partition_Run L crypt 1 bucket_size (SetNu nu p, \<lparr>w_host = h0, w_srv = Some s, w_log = []\<rparr>) = Inr (OK, p1, w1)"
      "Partition_FillWithData L ds (p1, w1) = Inr (OK, p2, w2)" "part_inv L k (p2, w2) [blocks_map ds]" "pa_nu p2 = nu"
      "pa_slots p2 = [[]]" "pa_position p2 a = Some 0" using assms(12) by blast
  from evict_read_block [OF assms(3) u(4) _ u(6,7) assms(12)] u(1-3,5) assms(13) show ?thesis by blast
qed

theorem partition_eviction_aborts_witness:
  "\<exists>p h0 p1 w1 pw2. PartitionOramController toy_libs toy_cryptor 0 0 7 toy_host = Inr (p, h0)
    \<and> Partition_Run toy_libs toy_cryptor 1 4 (SetNu 2 p, \<lparr>w_host = h0, w_srv = Some toy_server, w_log = []\<rparr>) = Inr (OK, p1, w1)
    \<and> Partition_FillWithData toy_libs toy_four (p1, w1) = Inr (OK, pw2)
    \<and> Partition_Access toy_libs (toy_block 9 0 0) Operation_kRead 2 (toy_block 9 0 0) pw2 = Inl Process_Abort"
  using partition_eviction_aborts [of toy_libs "replicate 32 7" toy_host 4 toy_server toy_four 2 "replicate 512 12"
      2 toy_cryptor 0 0 7 "toy_block 9 0 0" "toy_block 9 0 0"]
  by (simp add: toy_four_parts)

end
