(* ===== verification/Ods_Objects.thy ===== *)
theory Ods_Objects
  imports Oram_Utils
begin

text \<open>
  The nodes of the oblivious dictionary (base/ods\_objects.h and .cc, base/ods\_defs.h): their
  memory image, and their text form.
\<close>

section \<open>Nodes\<close>

text \<open>
  A \<open>TreeNode\<close>, laid out as on x86-64: 4 bytes of padding after \<open>id_\<close> and 4 after the key. The
  value is a type parameter: the 32 bytes of a \<open>std::string\<close> object where nodes are copied as
  memory, its characters where they are printed. What these 32 bytes mean (a pointer, a length and
  a short buffer) depends on the process's memory and is not modelled.
\<close>

record 'v tree_node =
  node_id :: u32
  pad1 :: bytes
  node_key :: u32
  pad2 :: bytes
  node_value :: 'v
  left_id :: u32
  right_id :: u32
  left_height :: u32
  right_height :: u32

definition invalid_mask :: u32 where "invalid_mask = 0"
definition deserialized_str_size :: nat where "deserialized_str_size = 7"
definition pad_val_err :: string where
  "pad_val_err = ''Pad value is smaller than the read count!''"

text \<open>The constructor; \<open>memory\<close> is what the object's memory holds, with an empty string in it.\<close>

definition TreeNode :: "'v tree_node \<Rightarrow> u32 \<Rightarrow> 'v tree_node" where
  "TreeNode memory i = memory\<lparr>node_id := i, node_key := 0, left_id := invalid_mask,
     right_id := invalid_mask, left_height := invalid_mask, right_height := invalid_mask\<rparr>"

text \<open>The macro \<open>HEIGHT\<close> of a node that is not null; the sum is a \<open>uint32_t\<close>.\<close>

definition HEIGHT :: "'v tree_node \<Rightarrow> u32" where
  "HEIGHT n = (if left_height n \<ge> right_height n then left_height n else right_height n) + 1"

section \<open>Memory image\<close>

definition node_size :: nat where "node_size = 64"

definition node_bytes :: "bytes tree_node \<Rightarrow> bytes" where
  "node_bytes n = le_bytes 4 (node_id n) @ pad1 n @ le_bytes 4 (node_key n) @ pad2 n @ node_value n
     @ le_bytes 4 (left_id n) @ le_bytes 4 (right_id n)
     @ le_bytes 4 (left_height n) @ le_bytes 4 (right_height n)"

definition bytes_node :: "bytes \<Rightarrow> bytes tree_node" where
  "bytes_node bs = \<lparr>node_id = le_word (take 4 bs), pad1 = take 4 (drop 4 bs),
     node_key = le_word (take 4 (drop 8 bs)), pad2 = take 4 (drop 12 bs),
     node_value = take 32 (drop 16 bs), left_id = le_word (take 4 (drop 48 bs)),
     right_id = le_word (take 4 (drop 52 bs)), left_height = le_word (take 4 (drop 56 bs)),
     right_height = le_word (take 4 (drop 60 bs))\<rparr>"

definition wf_node :: "bytes tree_node \<Rightarrow> bool" where
  "wf_node n \<longleftrightarrow> length (pad1 n) = 4 \<and> length (pad2 n) = 4 \<and> length (node_value n) = 32"

lemma length_node_bytes [simp]: "wf_node n \<Longrightarrow> length (node_bytes n) = 64"
  by (simp add: wf_node_def node_bytes_def)

lemma wf_bytes_node [simp]: "64 \<le> length bs \<Longrightarrow> wf_node (bytes_node bs)"
  by (simp add: wf_node_def bytes_node_def)

lemma bytes_node_node_bytes: "wf_node n \<Longrightarrow> bytes_node (node_bytes n @ rest) = n"
  by (cases n) (simp add: wf_node_def node_bytes_def bytes_node_def le_word_le_bytes)

section \<open>Text form\<close>

definition underscore :: char where "underscore = CHR ''_''"

definition ToString :: "string tree_node \<Rightarrow> string" where
  "ToString n = to_string (unat (node_id n)) @ [underscore]
     @ to_string (unat (node_key n)) @ [underscore]
     @ node_value n @ [underscore]
     @ to_string (unat (left_id n)) @ [underscore]
     @ to_string (unat (right_id n)) @ [underscore]
     @ to_string (unat (left_height n)) @ [underscore]
     @ to_string (unat (right_height n))"

text \<open>
  \<open>std::stoul\<close>: leading white space, an optional sign, and digits; what follows is ignored. No
  digits, or a value that does not fit in 64 bits, throw.
\<close>

definition is_space :: "char \<Rightarrow> bool" where
  "is_space c \<longleftrightarrow> c = CHR '' '' \<or> 9 \<le> (of_char c :: nat) \<and> (of_char c :: nat) \<le> 13"

definition stoul :: "string \<Rightarrow> u64 exec" where
  "stoul s =
     (let t = dropWhile is_space s;
          negative = (t \<noteq> [] \<and> hd t = CHR ''-'');
          u = (if t \<noteq> [] \<and> (hd t = CHR ''-'' \<or> hd t = CHR ''+'') then tl t else t);
          digits = takeWhile is_digit u; v = digits_val digits
      in if digits = [] \<or> v \<ge> 2 ^ 64 then Inl Uncaught_Exception
         else Inr (if negative then - of_nat v else of_nat v))"

text \<open>\<open>memory\<close> is what the local node holds in its padding.\<close>

definition FromString :: "string tree_node \<Rightarrow> string \<Rightarrow> string tree_node exec" where
  "FromString memory s =
     (let d = split_text s underscore in
      panic_if (length d \<noteq> deserialized_str_size)
       (andThen (stoul (d ! 0)) (\<lambda>i.
        andThen (stoul (d ! 1)) (\<lambda>key.
        andThen (stoul (d ! 3)) (\<lambda>l.
        andThen (stoul (d ! 4)) (\<lambda>r.
        andThen (stoul (d ! 5)) (\<lambda>lh.
        andThen (stoul (d ! 6)) (\<lambda>rh.
          Inr (memory\<lparr>node_id := ucast i, node_key := ucast key, node_value := d ! 2,
                      left_id := ucast l, right_id := ucast r, left_height := ucast lh,
                      right_height := ucast rh\<rparr>)))))))))"

lemma is_digit_not_space: "is_digit c \<Longrightarrow> \<not> is_space c"
  by (auto simp: is_digit_def is_space_def)

lemma stoul_to_string:
  assumes "n < 2 ^ 64" shows "stoul (to_string n) = Inr (of_nat n)"
proof -
  obtain c cs where c: "to_string n = c # cs" using to_string_nonempty by (cases "to_string n") auto
  have d: "is_digit c" "\<forall>x \<in> set (c # cs). is_digit x" using to_string_digits [of n] by (simp_all add: c)
  then have "c \<noteq> CHR ''-''" "c \<noteq> CHR ''+''" by (auto simp: is_digit_def)
  moreover have "dropWhile is_space (c # cs) = c # cs" using is_digit_not_space [OF d(1)] by simp
  moreover have "takeWhile is_digit (c # cs) = c # cs" using d(2) by (simp add: takeWhile_eq_all_conv)
  moreover have "digits_val (c # cs) = n" using digits_val_to_string [of n] by (simp add: c)
  ultimately show ?thesis using assms by (simp add: stoul_def c Let_def)
qed

lemma split_text_append:
  assumes "delim \<notin> set s" shows "split_text (s @ delim # t) delim = s # split_text t delim"
  using assms by (subst split_text.simps) (simp add: takeWhile_append dropWhile_append)

lemma split_text_single:
  assumes "delim \<notin> set s" and "s \<noteq> []" shows "split_text s delim = [s]"
proof -
  have "takeWhile (\<lambda>c. c \<noteq> delim) s = s" "dropWhile (\<lambda>c. c \<noteq> delim) s = []"
    using assms(1) by (auto simp: takeWhile_eq_all_conv dropWhile_eq_Nil_conv)
  moreover have "split_text [] delim = []" by (subst split_text.simps) simp
  ultimately show ?thesis using assms(2) split_text.simps [of s delim] by (simp only: if_False list.sel)
qed

lemma underscore_not_in_number: "underscore \<notin> set (to_string n)"
proof
  assume "underscore \<in> set (to_string n)"
  with to_string_digits have "is_digit underscore" by blast
  then show False by (simp add: is_digit_def underscore_def)
qed

lemma FromString_ToString:
  assumes "underscore \<notin> set (node_value n)"
  shows "FromString memory (ToString n) = Inr (n\<lparr>pad1 := pad1 memory, pad2 := pad2 memory\<rparr>)"
proof -
  let ?s = "\<lambda>w :: u32. to_string (unat w)"
  have d: "split_text (ToString n) underscore = [?s (node_id n), ?s (node_key n), node_value n,
      ?s (left_id n), ?s (right_id n), ?s (left_height n), ?s (right_height n)]"
    using assms
    by (simp add: ToString_def split_text_append split_text_single underscore_not_in_number to_string_nonempty)
  have w: "stoul (?s w) = Inr (of_nat (unat w))" for w :: u32
    by (intro stoul_to_string less_trans [OF unat_u32_less]) simp
  have u: "ucast (ucast w :: u64) = w" for w :: u32
    by (intro bit_word_eqI) (auto simp: bit_simps)
  show ?thesis
    unfolding FromString_def d Let_def
    by (cases memory; cases n) (simp add: deserialized_str_size_def w u)
qed

text \<open>A value with an underscore in it makes the text unreadable.\<close>

lemma FromString_ToString_fails:
  assumes "underscore \<in> set (node_value n)"
  shows "FromString memory (ToString n) = Inl Assert_Failed"
proof -
  let ?s = "\<lambda>w :: u32. to_string (unat w)"
  obtain u v where v: "node_value n = u @ underscore # v" "underscore \<notin> set u"
    using assms by (metis split_list_first)
  let ?rest = "v @ underscore # ?s (left_id n) @ underscore # ?s (right_id n) @ underscore
    # ?s (left_height n) @ underscore # ?s (right_height n)"
  obtain p q where pq: "split_text ?rest underscore = p # q @ [?s (left_id n), ?s (right_id n),
      ?s (left_height n), ?s (right_height n)]"
  proof -
    have tail: "split_text (?s (left_id n) @ underscore # ?s (right_id n) @ underscore
        # ?s (left_height n) @ underscore # ?s (right_height n)) underscore
        = [?s (left_id n), ?s (right_id n), ?s (left_height n), ?s (right_height n)]" (is "split_text ?t _ = ?l")
      by (simp add: split_text_append split_text_single underscore_not_in_number to_string_nonempty)
    have "\<exists>p q. split_text (w @ underscore # ?t) underscore = p # q @ ?l" for w
    proof (induction w underscore rule: split_text.induct)
      case (1 w)
      show ?case
      proof (cases "underscore \<in> set w")
        case False
        then show ?thesis using tail by (intro exI [of _ w] exI [of _ "[]"]) (simp add: split_text_append)
      next
        case True
        then obtain a b where w: "w = a @ underscore # b" "underscore \<notin> set a" by (metis split_list_first)
        then have "tl (dropWhile (\<lambda>c. c \<noteq> underscore) w) = b" by (simp add: dropWhile_append)
        with 1 w obtain p q where "split_text (b @ underscore # ?t) underscore = p # q @ ?l" by auto
        then show ?thesis using w by (intro exI [of _ a] exI [of _ "p # q"]) (simp add: split_text_append)
      qed
    qed
    then show thesis using that by blast
  qed
  have "split_text (ToString n) underscore = ?s (node_id n) # ?s (node_key n) # u # split_text ?rest underscore"
    using v by (simp add: ToString_def split_text_append underscore_not_in_number)
  then have "length (split_text (ToString n) underscore) > 7" by (simp add: pq)
  then show ?thesis by (simp add: FromString_def deserialized_str_size_def)
qed

end
