(* ===== verification/Ods_Cache.thy ===== *)
theory Ods_Cache
  imports Oram_Prelude "HOL-Library.AList"
begin

text \<open>
  The client cache of the oblivious dictionary (core/ods\_cache.h and .cc): a table of pointers
  to nodes and the list of their identifiers, the most recently used one first. Pointers are
  addresses of the heap of \<open>Odict\<close>.
\<close>

section \<open>Operations\<close>

type_synonym pointer = nat

record ods_cache =
  max_size :: nat
  cache_items :: "(u32 \<times> pointer) list"
  lru_table :: "u32 list"

definition OdsCache :: "nat \<Rightarrow> ods_cache" where
  "OdsCache n = \<lparr>max_size = n, cache_items = [], lru_table = []\<rparr>"

definition Clear :: "ods_cache \<Rightarrow> ods_cache" where
  "Clear c = c\<lparr>lru_table := [], cache_items := []\<rparr>"

definition IsEmpty :: "ods_cache \<Rightarrow> bool" where
  "IsEmpty c \<longleftrightarrow> cache_items c = []"

text \<open>
  \<open>Get(id)\<close>: a null pointer when there is no entry; otherwise the identifier moves to the front.
  When it is not in the list, the past-the-end iterator is dereferenced.
\<close>

definition Get :: "u32 \<Rightarrow> ods_cache \<Rightarrow> (pointer option \<times> ods_cache) exec" where
  "Get i c =
     (case map_of (cache_items c) i of
        None \<Rightarrow> Inr (None, c)
      | Some p \<Rightarrow>
          if i \<notin> set (lru_table c) then Inl Undefined_Behaviour
          else Inr (Some p, c\<lparr>lru_table := i # remove1 i (lru_table c)\<rparr>))"

text \<open>\<open>Get()\<close>: the pointer of the most recently used entry.\<close>

definition Get_front :: "ods_cache \<Rightarrow> pointer exec" where
  "Get_front c =
     (case lru_table c of
        [] \<Rightarrow> Inl Undefined_Behaviour
      | i # _ \<Rightarrow> (case map_of (cache_items c) i of
            None \<Rightarrow> Inl Undefined_Behaviour | Some p \<Rightarrow> Inr p))"

text \<open>
  \<open>Put\<close>: the entry moves to the front; when there are too many, the least recently used one is
  taken out and returned.
\<close>

definition Put :: "u32 \<Rightarrow> pointer \<Rightarrow> ods_cache \<Rightarrow> (pointer option \<times> ods_cache) exec" where
  "Put i p c =
     (let c1 = (if map_of (cache_items c) i \<noteq> None \<and> i \<in> set (lru_table c)
                then c\<lparr>cache_items := AList.delete i (cache_items c),
                       lru_table := remove1 i (lru_table c)\<rparr> else c);
          c2 = c1\<lparr>lru_table := i # lru_table c1,
                  cache_items := AList.update i p (cache_items c1)\<rparr>
      in if length (cache_items c2) > max_size c2
         then let back = last (lru_table c2) in
           (case map_of (cache_items c2) back of
              None \<Rightarrow> Inl Undefined_Behaviour
            | Some q \<Rightarrow> Inr (Some q, c2\<lparr>lru_table := butlast (lru_table c2),
                                      cache_items := AList.delete back (cache_items c2)\<rparr>))
         else Inr (None, c2))"

text \<open>\<open>Pop\<close> takes out the most recently used entry.\<close>

definition Pop :: "ods_cache \<Rightarrow> ods_cache exec" where
  "Pop c =
     (case lru_table c of
        [] \<Rightarrow> Inl Undefined_Behaviour
      | i # is \<Rightarrow> (case map_of (cache_items c) i of
            None \<Rightarrow> Inl Undefined_Behaviour
          | Some p \<Rightarrow> Inr (c\<lparr>lru_table := is, cache_items := AList.delete i (cache_items c)\<rparr>)))"

section \<open>The invariant\<close>

text \<open>The table and the list have the same identifiers, once each, and not too many.\<close>

definition cache_ok :: "ods_cache \<Rightarrow> bool" where
  "cache_ok c \<longleftrightarrow> distinct (map fst (cache_items c)) \<and> distinct (lru_table c)
     \<and> set (lru_table c) = fst ` set (cache_items c) \<and> length (cache_items c) \<le> max_size c"

definition lookup :: "ods_cache \<Rightarrow> u32 \<Rightarrow> pointer option" where
  "lookup c = map_of (cache_items c)"

lemma cache_ok_length: "cache_ok c \<Longrightarrow> length (lru_table c) = length (cache_items c)"
  unfolding cache_ok_def by (metis distinct_card length_map list.set_map)

lemma lookup_None: "cache_ok c \<Longrightarrow> lookup c i = None \<longleftrightarrow> i \<notin> set (lru_table c)"
  by (auto simp: lookup_def cache_ok_def map_of_eq_None_iff)

lemma cache_ok_new [simp]: "cache_ok (OdsCache n)" "cache_ok (Clear c)" "lookup (Clear c) = Map.empty"
  "max_size (Clear c) = max_size c"
  by (simp_all add: cache_ok_def OdsCache_def Clear_def lookup_def)

lemma Get_ok:
  assumes "cache_ok c"
  shows "\<exists>c'. Get i c = Inr (lookup c i, c') \<and> cache_ok c' \<and> lookup c' = lookup c
    \<and> cache_items c' = cache_items c \<and> max_size c' = max_size c"
proof (cases "lookup c i")
  case None
  then show ?thesis using assms by (simp add: Get_def lookup_def)
next
  case (Some p)
  then have "i \<in> set (lru_table c)" using lookup_None [OF assms, of i] by auto
  with Some assms show ?thesis
    by (auto simp: Get_def lookup_def cache_ok_def)
qed

lemma delete_entry:
  assumes "cache_ok c" and "i \<in> set (lru_table c)"
  shows "distinct (map fst (AList.delete i (cache_items c)))"
    "fst ` set (AList.delete i (cache_items c)) = set (remove1 i (lru_table c))"
    "Suc (length (AList.delete i (cache_items c))) = length (cache_items c)"
proof -
  let ?ks = "map fst (cache_items c)"
  have ks: "distinct ?ks" "i \<in> set ?ks" using assms by (auto simp: cache_ok_def)
  have keys: "map fst (AList.delete i (cache_items c)) = remove1 i ?ks"
    unfolding AList.delete_keys using ks(1) by (simp add: distinct_remove1_removeAll)
  then show "distinct (map fst (AList.delete i (cache_items c)))" using ks(1) by simp
  have "fst ` set (AList.delete i (cache_items c)) = set (remove1 i ?ks)"
    unfolding keys [symmetric] by simp
  with assms(1) ks(1) show "fst ` set (AList.delete i (cache_items c)) = set (remove1 i (lru_table c))"
    by (simp add: cache_ok_def)
  have "length (AList.delete i (cache_items c)) = length (remove1 i ?ks)"
    unfolding keys [symmetric] by simp
  also have "Suc \<dots> = length (cache_items c)"
    using ks(2) length_pos_if_in_set [OF ks(2)] by (simp only: length_remove1 if_True) simp
  finally show "Suc (length (AList.delete i (cache_items c))) = length (cache_items c)" .
qed

lemma Pop_ok:
  assumes ok: "cache_ok c" and l: "lru_table c = i # is"
  shows "\<exists>p c'. lookup c i = Some p \<and> Get_front c = Inr p \<and> Pop c = Inr c' \<and> cache_ok c'
    \<and> lru_table c' = is \<and> lookup c' = (lookup c)(i := None) \<and> max_size c' = max_size c"
proof -
  have i: "i \<in> set (lru_table c)" using l by simp
  then obtain p where p: "lookup c i = Some p" using lookup_None [OF ok, of i] by auto
  let ?c = "c\<lparr>lru_table := is, cache_items := AList.delete i (cache_items c)\<rparr>"
  from delete_entry [OF ok i] ok l have "cache_ok ?c" by (auto simp: cache_ok_def)
  then show ?thesis using p l
    by (auto simp: Get_front_def Pop_def lookup_def AList.delete_conv')
qed

lemma add_entry:
  assumes "distinct (map fst al)" "i \<notin> fst ` set al"
  shows "distinct (map fst (AList.update i p al))" "fst ` set (AList.update i p al) = insert i (fst ` set al)"
    "length (AList.update i p al) = Suc (length al)"
proof -
  have keys: "map fst (AList.update i p al) = map fst al @ [i]" using assms(2) by (simp add: AList.update_keys)
  have "length (map fst (AList.update i p al)) = Suc (length al)" unfolding keys by simp
  then show "length (AList.update i p al) = Suc (length al)" by simp
qed (use assms in \<open>simp_all add: AList.distinct_update AList.dom_update\<close>)

text \<open>
  There is room for an entry when it is there already or the table is not full; otherwise the
  least recently used entry goes.
\<close>

lemma Put_room:
  assumes ok: "cache_ok c" and room: "lookup c i \<noteq> None \<or> length (cache_items c) < max_size c"
  shows "\<exists>c'. Put i p c = Inr (None, c') \<and> cache_ok c' \<and> max_size c' = max_size c
    \<and> lookup c' = (lookup c)(i \<mapsto> p) \<and> lru_table c' = i # remove1 i (lru_table c)"
proof (cases "lookup c i")
  case (Some q)
  then have i: "i \<in> set (lru_table c)" using lookup_None [OF ok, of i] by auto
  let ?d = "AList.delete i (cache_items c)"
  let ?c = "c\<lparr>lru_table := i # remove1 i (lru_table c), cache_items := AList.update i p ?d\<rparr>"
  have notin: "i \<notin> fst ` set ?d" using delete_entry(2) [OF ok i] ok by (simp add: cache_ok_def)
  have "cache_ok ?c" "length (AList.update i p ?d) \<le> max_size c"
    using delete_entry [OF ok i] add_entry [OF delete_entry(1) [OF ok i] notin, of p] ok
    by (simp_all add: cache_ok_def)
  then show ?thesis using Some i
    by (auto simp: Put_def lookup_def Let_def AList.update_conv' AList.delete_conv')
next
  case None
  then have i: "i \<notin> set (lru_table c)" "i \<notin> fst ` set (cache_items c)"
    using lookup_None [OF ok, of i] ok by (auto simp: cache_ok_def)
  let ?c = "c\<lparr>lru_table := i # lru_table c, cache_items := AList.update i p (cache_items c)\<rparr>"
  have "cache_ok ?c" "length (AList.update i p (cache_items c)) \<le> max_size c"
    using add_entry [OF _ i(2), of p] i(1) ok room None by (simp_all add: cache_ok_def)
  then show ?thesis using None i(1)
    by (auto simp: Put_def lookup_def Let_def AList.update_conv' remove1_idem)
qed

lemma Put_full:
  assumes ok: "cache_ok c" and full: "lookup c i = None" "length (cache_items c) = max_size c"
    and m: "0 < max_size c"
  shows "\<exists>q c'. lookup c (last (lru_table c)) = Some q \<and> Put i p c = Inr (Some q, c') \<and> cache_ok c'
    \<and> max_size c' = max_size c \<and> lookup c' = ((lookup c)(last (lru_table c) := None))(i \<mapsto> p)
    \<and> lru_table c' = i # butlast (lru_table c)"
proof -
  let ?l = "lru_table c" and ?it = "cache_items c"
  have i: "i \<notin> set ?l" "i \<notin> fst ` set ?it"
    using full(1) lookup_None [OF ok, of i] ok by (auto simp: cache_ok_def)
  have ne: "?l \<noteq> []" using cache_ok_length [OF ok] full(2) m by auto
  let ?b = "last ?l"
  have b: "?b \<in> set ?l" "?b \<noteq> i" using ne i(1) by (auto dest: last_in_set)
  then obtain q where q: "lookup c ?b = Some q" using lookup_None [OF ok, of ?b] by auto
  let ?c2 = "c\<lparr>lru_table := i # ?l, cache_items := AList.update i p ?it\<rparr>"
  let ?c3 = "c\<lparr>lru_table := i # butlast ?l, cache_items := AList.delete ?b (AList.update i p ?it)\<rparr>"
  have len: "length (AList.update i p ?it) = Suc (max_size c)"
    using add_entry(3) [OF _ i(2), of p] ok full(2) by (simp add: cache_ok_def)
  let ?big = "?c2\<lparr>max_size := Suc (max_size c)\<rparr>"
  have big: "cache_ok ?big"
    using add_entry [OF _ i(2), of p] i(1) ok full(2) by (simp add: cache_ok_def)
  have "?b \<in> set (lru_table ?big)" using b(1) by simp
  note d = delete_entry [OF big this]
  have rm: "remove1 ?b (i # ?l) = i # butlast ?l"
  proof -
    have l: "?l = butlast ?l @ [?b]" using ne by simp
    moreover have "?b \<notin> set (butlast ?l)"
      using l ok by (metis cache_ok_def disjoint_iff distinct_append list.set_intros(1))
    ultimately have "remove1 ?b ?l = butlast ?l" by (metis remove1_append remove1.simps(2) append_Nil2 remove1.simps(1))
    with b(2) show ?thesis by simp
  qed
  have "cache_ok ?c3"
    using d rm len b(2) i(1) ok
    by (auto simp: cache_ok_def distinct_butlast dest: in_set_butlastD)
  moreover have "Put i p c = Inr (Some q, ?c3)"
    using full(1) i(1) len q b(2) ne
    by (simp add: Put_def lookup_def Let_def AList.update_conv')
  moreover have "lookup ?c3 = ((lookup c)(?b := None))(i \<mapsto> p)"
    using b(2) by (auto simp: lookup_def AList.update_conv' AList.delete_conv' fun_eq_iff)
  ultimately show ?thesis using q by (intro exI [of _ q] exI [of _ ?c3]) simp
qed

section \<open>The entries in order of use\<close>

definition recency :: "ods_cache \<Rightarrow> (u32 \<times> pointer) list" where
  "recency c = map (\<lambda>i. (i, the (lookup c i))) (lru_table c)"

lemma map_of_recency:
  assumes "cache_ok c" shows "map_of (recency c) = lookup c"
proof
  fix x
  show "map_of (recency c) x = lookup c x"
    unfolding recency_def map_of_map_restrict using lookup_None [OF assms, of x]
    by (cases "lookup c x") (auto simp: restrict_map_def)
qed

lemma length_recency: "cache_ok c \<Longrightarrow> length (recency c) \<le> max_size c"
  using cache_ok_length [of c] by (simp add: recency_def cache_ok_def)

lemma recency_without:
  assumes "cache_ok c"
  shows "map (\<lambda>j. (j, the (lookup c j))) (remove1 i (lru_table c)) = filter (\<lambda>e. fst e \<noteq> i) (recency c)"
  using assms by (simp add: recency_def filter_map o_def distinct_remove1_removeAll removeAll_filter_not_eq
      cache_ok_def) (metis (mono_tags, lifting) filter_cong)

lemma Get_recency:
  assumes ok: "cache_ok c"
  shows "\<exists>c'. Get i c = Inr (map_of (recency c) i, c') \<and> cache_ok c' \<and> max_size c' = max_size c
    \<and> recency c' = (case map_of (recency c) i of None \<Rightarrow> recency c
        | Some p \<Rightarrow> (i, p) # filter (\<lambda>e. fst e \<noteq> i) (recency c))"
proof (cases "lookup c i")
  case None
  then have "Get i c = Inr (None, c)" by (simp add: Get_def lookup_def)
  with None ok show ?thesis by (simp add: map_of_recency)
next
  case (Some p)
  let ?c = "c\<lparr>lru_table := i # remove1 i (lru_table c)\<rparr>"
  have i: "i \<in> set (lru_table c)" using Some lookup_None [OF ok, of i] by auto
  then have "Get i c = Inr (Some p, ?c)" using Some by (simp add: Get_def lookup_def)
  moreover from this have "cache_ok ?c" using Get_ok [OF ok, of i] by simp
  moreover have "recency ?c = (i, p) # filter (\<lambda>e. fst e \<noteq> i) (recency c)"
    unfolding recency_without [OF ok, symmetric] using Some by (simp add: recency_def lookup_def)
  ultimately show ?thesis using Some ok by (simp add: map_of_recency)
qed

lemma map_upd_notin: "i \<notin> set xs \<Longrightarrow>
    map (\<lambda>j. (j, the ((f(i \<mapsto> p)) j))) xs = map (\<lambda>j. (j, the (f j))) xs"
  by auto

lemma Put_recency_pos:
  assumes ok: "cache_ok c" and m: "0 < max_size c"
    and es_def: "es = (i, p) # filter (\<lambda>e. fst e \<noteq> i) (recency c)"
  shows "\<exists>c'. Put i p c = Inr (if length es > max_size c then Some (snd (last es)) else None, c')
    \<and> cache_ok c' \<and> max_size c' = max_size c \<and> recency c' = take (max_size c) es"
proof -
  let ?l = "lru_table c"
  have len: "length (recency c) = length (cache_items c)" using cache_ok_length [OF ok] by (simp add: recency_def)
  have d: "distinct ?l" using ok by (simp add: cache_ok_def)
  then have ni: "i \<notin> set (remove1 i ?l)" by simp
  show ?thesis
  proof (cases "lookup c i \<noteq> None \<or> length (cache_items c) < max_size c")
    case True
    from Put_room [OF ok True, of p] obtain c' where
      c: "Put i p c = Inr (None, c')" "cache_ok c'" "max_size c' = max_size c"
        "lookup c' = (lookup c)(i \<mapsto> p)" "lru_table c' = i # remove1 i ?l" by blast
    have es: "recency c' = es"
      unfolding recency_def [of c'] c(4,5) es_def recency_without [OF ok, symmetric]
      using map_upd_notin [OF ni, of "lookup c" p] by simp
    then have "length es \<le> max_size c" using length_recency [OF c(2)] c(3) by simp
    with es c show ?thesis by simp
  next
    case False
    then have f: "lookup c i = None" "length (cache_items c) = max_size c" using ok by (auto simp: cache_ok_def)
    from Put_full [OF ok f m, of p] obtain q c' where
      c: "lookup c (last ?l) = Some q" "Put i p c = Inr (Some q, c')" "cache_ok c'" "max_size c' = max_size c"
        "lookup c' = ((lookup c)(last ?l := None))(i \<mapsto> p)" "lru_table c' = i # butlast ?l" by blast
    have i: "i \<notin> set ?l" using f(1) lookup_None [OF ok] by blast
    have ne: "?l \<noteq> []" using cache_ok_length [OF ok] f(2) m by auto
    then have l: "?l = butlast ?l @ [last ?l]" by simp
    have e: "es = (i, p) # recency c"
      unfolding es_def recency_without [OF ok, symmetric] using i by (simp add: remove1_idem recency_def)
    have "recency c' = (i, p) # map (\<lambda>j. (j, the (lookup c j))) (butlast ?l)"
    proof -
      have "last ?l \<notin> set (butlast ?l)" using l d by (metis distinct_append disjoint_iff list.set_intros(1))
      then have "\<forall>j \<in> set (butlast ?l). j \<noteq> last ?l \<and> j \<noteq> i" using i by (auto dest: in_set_butlastD)
      then show ?thesis unfolding recency_def c(5,6) by simp
    qed
    also have "\<dots> = (i, p) # butlast (recency c)" by (simp add: recency_def map_butlast)
    also have "\<dots> = take (max_size c) es" using e len f(2) m by (cases "max_size c") (simp_all add: butlast_conv_take)
    finally have r: "recency c' = take (max_size c) es" .
    have "snd (last es) = q" using ne c(1) by (simp add: e recency_def last_map)
    moreover have "length es > max_size c" using e len f(2) by simp
    ultimately show ?thesis using c(2-4) r by simp
  qed
qed

lemma Put_recency:
  assumes ok: "cache_ok c" and es_def: "es = (i, p) # filter (\<lambda>e. fst e \<noteq> i) (recency c)"
  shows "\<exists>c'. Put i p c = Inr (if length es > max_size c then Some (snd (last es)) else None, c')
    \<and> cache_ok c' \<and> max_size c' = max_size c \<and> recency c' = take (max_size c) es"
proof (cases "max_size c = 0")
  case True
  then have "cache_items c = []" "lru_table c = []" using ok by (auto simp: cache_ok_def)
  then show ?thesis using True by (simp add: Put_def es_def recency_def cache_ok_def Let_def)
qed (use Put_recency_pos [OF ok _ es_def] in simp)

lemma Pop_recency:
  assumes ok: "cache_ok c" and ne: "recency c \<noteq> []"
  shows "\<exists>c'. Get_front c = Inr (snd (hd (recency c))) \<and> Pop c = Inr c' \<and> cache_ok c'
    \<and> max_size c' = max_size c \<and> recency c' = tl (recency c)"
proof -
  from ne obtain i xs where l: "lru_table c = i # xs" by (cases "lru_table c") (auto simp: recency_def)
  from Pop_ok [OF ok l] obtain p c' where
    c: "lookup c i = Some p" "Get_front c = Inr p" "Pop c = Inr c'" "cache_ok c'"
      "lru_table c' = xs" "lookup c' = (lookup c)(i := None)" "max_size c' = max_size c" by blast
  have "i \<notin> set xs" using ok l by (simp add: cache_ok_def)
  then have "recency c' = tl (recency c)" unfolding recency_def c(5,6) l by auto
  with c l show ?thesis by (simp add: recency_def)
qed

section \<open>Sequences of operations\<close>

datatype cache_op = Get_Op u32 | Put_Op u32 pointer | Pop_Op

text \<open>What the operations return: pointers, or null. \<open>Pop_Op\<close> is \<open>Get()\<close> followed by \<open>Pop()\<close>.\<close>

fun run_cache :: "cache_op list \<Rightarrow> ods_cache \<Rightarrow> (pointer option list \<times> ods_cache) exec" where
  "run_cache [] c = Inr ([], c)"
| "run_cache (Get_Op i # ops) c = andThen (Get i c) (\<lambda>(r, c1).
     andThen (run_cache ops c1) (\<lambda>(rs, c2). Inr (r # rs, c2)))"
| "run_cache (Put_Op i p # ops) c = andThen (Put i p c) (\<lambda>(r, c1).
     andThen (run_cache ops c1) (\<lambda>(rs, c2). Inr (r # rs, c2)))"
| "run_cache (Pop_Op # ops) c = andThen (Get_front c) (\<lambda>p. andThen (Pop c) (\<lambda>c1.
     andThen (run_cache ops c1) (\<lambda>(rs, c2). Inr (Some p # rs, c2))))"

text \<open>The reference: one list of at most \<open>n\<close> entries, the most recently used one first.\<close>

fun run_lru :: "nat \<Rightarrow> cache_op list \<Rightarrow> (u32 \<times> pointer) list \<Rightarrow> (pointer option list \<times> (u32 \<times> pointer) list) exec" where
  "run_lru n [] es = Inr ([], es)"
| "run_lru n (Get_Op i # ops) es =
     (case map_of es i of
        None \<Rightarrow> andThen (run_lru n ops es) (\<lambda>(rs, es'). Inr (None # rs, es'))
      | Some p \<Rightarrow> andThen (run_lru n ops ((i, p) # filter (\<lambda>e. fst e \<noteq> i) es)) (\<lambda>(rs, es'). Inr (Some p # rs, es')))"
| "run_lru n (Put_Op i p # ops) es =
     (let new = (i, p) # filter (\<lambda>e. fst e \<noteq> i) es in
      andThen (run_lru n ops (take n new)) (\<lambda>(rs, es').
        Inr ((if length new > n then Some (snd (last new)) else None) # rs, es')))"
| "run_lru n (Pop_Op # ops) es =
     (case es of [] \<Rightarrow> Inl Undefined_Behaviour
      | e # es1 \<Rightarrow> andThen (run_lru n ops es1) (\<lambda>(rs, es'). Inr (Some (snd e) # rs, es')))"

lemma run_cache_recency:
  "cache_ok c \<Longrightarrow> max_size c = n \<Longrightarrow>
    andThen (run_cache ops c) (\<lambda>(rs, c'). Inr (rs, recency c')) = run_lru n ops (recency c)"
proof (induction ops arbitrary: c)
  case (Cons op ops)
  have next_ops: "andThen (andThen (run_cache ops c1) (\<lambda>(rs, c2). Inr (r # rs, c2))) (\<lambda>(rs, c'). Inr (rs, recency c'))
      = andThen (run_lru n ops (recency c1)) (\<lambda>(rs, es'). Inr (r # rs, es'))"
    if "cache_ok c1" "max_size c1 = n" for c1 r
    using Cons.IH [OF that] by (cases "run_cache ops c1"; cases "run_lru n ops (recency c1)") auto
  show ?case
  proof (cases op)
    case (Get_Op i)
    from Get_recency [OF Cons.prems(1), of i] obtain c' where
      c: "Get i c = Inr (map_of (recency c) i, c')" "cache_ok c'" "max_size c' = max_size c"
        "recency c' = (case map_of (recency c) i of None \<Rightarrow> recency c
          | Some p \<Rightarrow> (i, p) # filter (\<lambda>e. fst e \<noteq> i) (recency c))" by blast
    with next_ops [OF c(2)] Cons.prems(2) show ?thesis
      by (simp add: Get_Op split: option.split)
  next
    case (Put_Op i p)
    from Put_recency [OF Cons.prems(1) refl, of i p] next_ops Cons.prems(2) show ?thesis
      by (auto simp: Put_Op Let_def)
  next
    case Pop_Op
    show ?thesis
    proof (cases "recency c")
      case Nil
      then show ?thesis by (simp add: Pop_Op Get_front_def recency_def)
    next
      case (Cons e es)
      with Pop_recency [of c] Cons.prems next_ops show ?thesis by (auto simp: Pop_Op)
    qed
  qed
qed simp

end
