(* ===== verification/Odict.thy ===== *)
theory Odict
  imports Complex_Main Ods_Objects Ods_Cache Oram_Controller
begin

text \<open>
  The oblivious dictionary (core/odict\_controller.h and .cc): an AVL tree whose nodes are blocks
  of an ORAM. The ORAM is a parameter (\<open>env_access\<close>, the \<open>Access\<close> of the controller the
  dictionary is given, and its state \<open>od_backend\<close>); nodes are objects on the heap, and the cache
  and the functions hold pointers to them. Nothing is ever deleted (the source has the
  \<open>delete\<close>s commented out).
\<close>

section \<open>State\<close>

text \<open>\<open>env_node p\<close> is what the memory of a new object at \<open>p\<close> holds, \<open>env_block\<close> what
  uninitialised local blocks hold.\<close>

record 's odict_env =
  env_access :: "operation \<Rightarrow> u32 \<Rightarrow> oram_block \<Rightarrow> 's \<Rightarrow> ((oram_status \<times> oram_block) \<times> 's) exec"
  env_node :: "pointer \<Rightarrow> bytes tree_node"
  env_block :: "nat \<Rightarrow> oram_block"

record 's odict =
  od_backend :: 's
  od_heap :: "pointer \<Rightarrow> bytes tree_node"
  od_next :: pointer
  od_cache :: ods_cache
  od_root_id :: u32
  od_node_count :: nat
  od_size :: nat
  od_read_count :: u32
  od_write_count :: u32

definition OdictController :: "nat \<Rightarrow> nat \<Rightarrow> bool \<Rightarrow> 's \<Rightarrow> (pointer \<Rightarrow> bytes tree_node) \<Rightarrow> pointer
    \<Rightarrow> 's odict exec" where
  "OdictController odict_size client_cache_max_size initialized backend heap free =
     (if \<not> initialized then Inl Process_Exit
      else Inr \<lparr>od_backend = backend, od_heap = heap, od_next = free,
        od_cache = OdsCache client_cache_max_size, od_root_id = invalid_mask, od_node_count = 1,
        od_size = odict_size, od_read_count = 0, od_write_count = 0\<rparr>)"

text \<open>\<open>new TreeNode(i)\<close>, and an assignment through a pointer.\<close>

definition new_node :: "'s odict_env \<Rightarrow> u32 \<Rightarrow> 's odict \<Rightarrow> pointer \<times> 's odict" where
  "new_node E i od =
     (let p = od_next od in
      (p, od\<lparr>od_heap := (od_heap od)(p := TreeNode (env_node E p) i), od_next := Suc p\<rparr>))"

definition set_node :: "pointer \<Rightarrow> (bytes tree_node \<Rightarrow> bytes tree_node) \<Rightarrow> 's odict \<Rightarrow> 's odict" where
  "set_node p f od = od\<lparr>od_heap := (od_heap od)(p := f (od_heap od p))\<rparr>"

section \<open>Access to nodes\<close>

definition CacheHelper :: "'s odict_env \<Rightarrow> u32 \<Rightarrow> pointer \<Rightarrow> 's odict \<Rightarrow> (oram_status \<times> 's odict) exec" where
  "CacheHelper E i p od =
     (let m = env_block E (od_next od); block = m\<lparr>header := (header m)\<lparr>block_id := i\<rparr>\<rparr> in
      andThen (env_access E Operation_kRead i block (od_backend od)) (\<lambda>((status, b), s).
        let od1 = od\<lparr>od_backend := s\<rparr> in
        Inr (status, if ok status \<and> i \<noteq> invalid_mask
                     then set_node p (\<lambda>_. bytes_node (data b)) od1 else od1)))"

definition OdsAccessRead :: "'s odict_env \<Rightarrow> pointer \<Rightarrow> 's odict \<Rightarrow> (oram_status \<times> 's odict) exec" where
  "OdsAccessRead E p od =
     (let i = node_id (od_heap od p) in
      andThen (Get i (od_cache od)) (\<lambda>(r, c).
        let od1 = od\<lparr>od_read_count := od_read_count od + 1, od_cache := c\<rparr> in
        case r of
          None \<Rightarrow> andThen (CacheHelper E i p od1) (\<lambda>(status, od2).
            CheckStatus status
             (andThen (Put i p (od_cache od2)) (\<lambda>(_, c'). Inr (OK, od2\<lparr>od_cache := c'\<rparr>))))
        | Some q \<Rightarrow> Inr (OK, set_node p (\<lambda>_. od_heap od1 q) od1)))"

definition OdsAccessWrite :: "'s odict_env \<Rightarrow> pointer \<Rightarrow> 's odict \<Rightarrow> (oram_status \<times> 's odict) exec" where
  "OdsAccessWrite E p od =
     (let i = node_id (od_heap od p) in
      andThen (Get i (od_cache od)) (\<lambda>(_, c).
      andThen (Put i p c) (\<lambda>(_, c').
        Inr (OK, od\<lparr>od_write_count := od_write_count od + 1, od_cache := c'\<rparr>))))"

text \<open>When the node is not in the cache, it is read into a local object.\<close>

definition OdsAccessRemove :: "'s odict_env \<Rightarrow> pointer \<Rightarrow> 's odict \<Rightarrow> (oram_status \<times> 's odict) exec" where
  "OdsAccessRemove E p od =
     (let i = node_id (od_heap od p) in
      andThen (Get i (od_cache od)) (\<lambda>(r, c).
        let od1 = od\<lparr>od_cache := c\<rparr> in
        case r of
          None \<Rightarrow> andThen (CacheHelper E i (od_next od1) (od1\<lparr>od_next := Suc (od_next od1)\<rparr>))
            (\<lambda>(status, od2). CheckStatus status (Inr (OK, od2)))
        | Some _ \<Rightarrow> andThen (Pop (od_cache od1)) (\<lambda>c'. Inr (OK, od1\<lparr>od_cache := c'\<rparr>))))"

definition OdsAccessInsert :: "'s odict_env \<Rightarrow> pointer \<Rightarrow> 's odict \<Rightarrow> (oram_status \<times> 's odict) exec" where
  "OdsAccessInsert E p od =
     andThen (Put (node_id (od_heap od p)) p (od_cache od)) (\<lambda>(_, c).
       Inr (OK, od\<lparr>od_cache := c\<rparr>))"

fun OdsAccess :: "'s odict_env \<Rightarrow> ods_operation \<Rightarrow> pointer \<Rightarrow> 's odict
    \<Rightarrow> (oram_status \<times> 's odict) exec" where
  "OdsAccess E Ods_kRead p od = OdsAccessRead E p od"
| "OdsAccess E Ods_kWrite p od = OdsAccessWrite E p od"
| "OdsAccess E Ods_kRemove p od = OdsAccessRemove E p od"
| "OdsAccess E Ods_kInsert p od = OdsAccessInsert E p od"
| "OdsAccess E Ods_kInvalid p od =
     Inr (mk_status kInvalidOperation ''Invalid Operation to oblivious dictionary!'' ''OdsAccess'', od)"

text \<open>The recurring steps: a new object read from the dictionary, and an object written to it.\<close>

definition read_node :: "'s odict_env \<Rightarrow> u32 \<Rightarrow> 's odict \<Rightarrow> (pointer \<times> 's odict) exec" where
  "read_node E i od =
     (case new_node E i od of (p, od1) \<Rightarrow>
        andThen (OdsAccess E Ods_kRead p od1) (\<lambda>(status, od2). CheckStatus status (Inr (p, od2))))"

definition write_node :: "'s odict_env \<Rightarrow> pointer \<Rightarrow> 's odict \<Rightarrow> 's odict exec" where
  "write_node E p od =
     andThen (OdsAccess E Ods_kWrite p od) (\<lambda>(status, od1). CheckStatus status (Inr od1))"

section \<open>Rotations\<close>

definition LeftRotate :: "'s odict_env \<Rightarrow> u32 \<Rightarrow> 's odict \<Rightarrow> (pointer \<times> 's odict) exec" where
  "LeftRotate E root_id od =
     andThen (read_node E root_id od) (\<lambda>(root, od1).
     andThen (read_node E (right_id (od_heap od1 root)) od1) (\<lambda>(right, od2).
       let r = od_heap od2 right;
           od3 = set_node root (\<lambda>n. n\<lparr>right_id := left_id r, right_height := left_height r\<rparr>) od2 in
     andThen (write_node E root od3) (\<lambda>od4.
       let od5 = set_node right (\<lambda>n. n\<lparr>left_height := HEIGHT (od_heap od4 root),
                                     left_id := root_id\<rparr>) od4 in
     andThen (write_node E right od5) (\<lambda>od6. Inr (right, od6)))))"

definition RightRotate :: "'s odict_env \<Rightarrow> u32 \<Rightarrow> 's odict \<Rightarrow> (pointer \<times> 's odict) exec" where
  "RightRotate E root_id od =
     andThen (read_node E root_id od) (\<lambda>(root, od1).
     andThen (read_node E (left_id (od_heap od1 root)) od1) (\<lambda>(left, od2).
       let l = od_heap od2 left;
           od3 = set_node root (\<lambda>n. n\<lparr>left_id := right_id l, left_height := right_height l\<rparr>) od2 in
     andThen (write_node E root od3) (\<lambda>od4.
       let od5 = set_node left (\<lambda>n. n\<lparr>right_height := HEIGHT (od_heap od4 root),
                                    right_id := root_id\<rparr>) od4 in
     andThen (write_node E left od5) (\<lambda>od6. Inr (left, od6)))))"

definition LeftRightRotate :: "'s odict_env \<Rightarrow> u32 \<Rightarrow> 's odict \<Rightarrow> (pointer \<times> 's odict) exec" where
  "LeftRightRotate E root_id od =
     andThen (read_node E root_id od) (\<lambda>(root, od1).
     andThen (LeftRotate E (left_id (od_heap od1 root)) od1) (\<lambda>(left, od2).
       let l = od_heap od2 left;
           od3 = set_node root (\<lambda>n. n\<lparr>left_id := node_id l, left_height := HEIGHT l\<rparr>) od2 in
     andThen (write_node E root od3) (\<lambda>od4. RightRotate E root_id od4)))"

definition RightLeftRotate :: "'s odict_env \<Rightarrow> u32 \<Rightarrow> 's odict \<Rightarrow> (pointer \<times> 's odict) exec" where
  "RightLeftRotate E root_id od =
     andThen (read_node E root_id od) (\<lambda>(root, od1).
     andThen (RightRotate E (right_id (od_heap od1 root)) od1) (\<lambda>(right, od2).
       let r = od_heap od2 right;
           od3 = set_node root (\<lambda>n. n\<lparr>right_id := node_id r, right_height := HEIGHT r\<rparr>) od2 in
     andThen (write_node E root od3) (\<lambda>od4. LeftRotate E root_id od4)))"

definition Balance :: "'s odict_env \<Rightarrow> pointer \<Rightarrow> 's odict \<Rightarrow> (pointer \<times> 's odict) exec" where
  "Balance E p od =
     (let n = od_heap od p; lh = left_height n; rh = right_height n in
      if lh > rh \<and> lh - rh > 1
      then andThen (read_node E (left_id n) od) (\<lambda>(left, od1).
             if left_height (od_heap od1 left) \<ge> right_height (od_heap od1 left)
             then RightRotate E (node_id n) od1 else LeftRightRotate E (node_id n) od1)
      else if rh > lh \<and> rh - lh > 1
      then andThen (read_node E (right_id n) od) (\<lambda>(right, od1).
             if right_height (od_heap od1 right) \<ge> left_height (od_heap od1 right)
             then LeftRotate E (node_id n) od1 else RightLeftRotate E (node_id n) od1)
      else Inr (p, od))"

section \<open>Finding and inserting\<close>

text \<open>
  The recursions follow the identifiers stored in the ORAM, so they end only on a tree: they
  have fuel, and running out of it is \<open>Never_Returns\<close>.
\<close>

fun InternalFind :: "'s odict_env \<Rightarrow> nat \<Rightarrow> u32 \<Rightarrow> u32 \<Rightarrow> 's odict
    \<Rightarrow> (pointer option \<times> 's odict) exec" where
  "InternalFind E fuel key root_id od =
     (if root_id = invalid_mask then Inr (None, od)
      else case fuel of 0 \<Rightarrow> Inl Never_Returns
      | Suc n \<Rightarrow> andThen (read_node E root_id od) (\<lambda>(root, od1).
          let r = od_heap od1 root in
          if node_key r = key then Inr (Some root, od1)
          else if node_key r < key then InternalFind E n key (right_id r) od1
          else InternalFind E n key (left_id r) od1))"

fun InternalInsert :: "'s odict_env \<Rightarrow> nat \<Rightarrow> pointer \<Rightarrow> u32 \<Rightarrow> 's odict
    \<Rightarrow> (pointer \<times> 's odict) exec" where
  "InternalInsert E fuel node root_id od =
     (if root_id = invalid_mask
      then andThen (OdsAccess E Ods_kInsert node od) (\<lambda>(status, od1).
             CheckStatus status (Inr (node, od1)))
      else case fuel of 0 \<Rightarrow> Inl Never_Returns
      | Suc n \<Rightarrow> andThen (read_node E root_id od) (\<lambda>(root, od1).
          let r = od_heap od1 root; k = node_key (od_heap od1 node) in
          andThen
            (if node_key r < k
             then andThen (InternalInsert E n node (right_id r) od1) (\<lambda>(cur, od2).
                    let c = od_heap od2 cur in
                    Inr (set_node root (\<lambda>x. x\<lparr>right_id := node_id c, right_height := HEIGHT c\<rparr>) od2))
             else if node_key r > k
             then andThen (InternalInsert E n node (left_id r) od1) (\<lambda>(cur, od2).
                    let c = od_heap od2 cur in
                    Inr (set_node root (\<lambda>x. x\<lparr>left_id := node_id c, left_height := HEIGHT c\<rparr>) od2))
             else Inr od1)
            (\<lambda>od3. andThen (write_node E root od3) (\<lambda>od4. Balance E root od4))))"

declare InternalFind.simps [simp del] InternalInsert.simps [simp del]

section \<open>Padding and writing back\<close>

text \<open>The accesses of \<open>DoPad\<close> share one local block.\<close>

fun pad_accesses :: "'s odict_env \<Rightarrow> operation \<Rightarrow> nat \<Rightarrow> oram_block \<Rightarrow> 's odict
    \<Rightarrow> (oram_status \<times> 's odict) exec" where
  "pad_accesses E op 0 block od = Inr (OK, od)"
| "pad_accesses E op (Suc n) block od =
     andThen (env_access E op 0 block (od_backend od)) (\<lambda>((status, b), s).
       if \<not> ok status then Inr (status, od\<lparr>od_backend := s\<rparr>)
       else pad_accesses E op n b (od\<lparr>od_backend := s\<rparr>))"

definition DoPad :: "'s odict_env \<Rightarrow> operation \<Rightarrow> nat \<Rightarrow> 's odict \<Rightarrow> (oram_status \<times> 's odict) exec" where
  "DoPad E op num od =
     (let m = env_block E (od_next od) in
      pad_accesses E op num
        (m\<lparr>header := (header m)\<lparr>block_id := 0, btype := BlockType_kNormal\<rparr>\<rparr>) od)"

text \<open>The block a node is written in: its memory image over what the local block holds.\<close>

definition node_block :: "oram_block \<Rightarrow> bytes tree_node \<Rightarrow> oram_block" where
  "node_block m n = m\<lparr>header := (header m)\<lparr>block_id := node_id n, btype := BlockType_kNormal\<rparr>,
     data := overwrite 0 (node_bytes n) (data m)\<rparr>"

text \<open>The loop that empties the cache; the statuses of its writes are not looked at.\<close>

lemma Pop_shorter: "Pop c = Inr c' \<Longrightarrow> length (cache_items c') < length (cache_items c)"
proof -
  assume "Pop c = Inr c'"
  then obtain i p where "map_of (cache_items c) i = Some p" "cache_items c' = AList.delete i (cache_items c)"
    by (auto simp: Pop_def split: list.splits option.splits)
  moreover have "length (AList.delete i xs) < length xs" if "map_of xs i = Some p" for xs
    using that by (induction xs) (auto simp: le_imp_less_Suc AList.length_delete_le split: if_splits)
  ultimately show ?thesis by simp
qed

function write_back_cache :: "'s odict_env \<Rightarrow> 's odict \<Rightarrow> 's odict exec" where
  "write_back_cache E od =
     (if IsEmpty (od_cache od) then Inr od
      else andThen (Get_front (od_cache od)) (\<lambda>p.
           let n = od_heap od p in
           andThen (env_access E Operation_kWrite (node_id n)
                      (node_block (env_block E (length (lru_table (od_cache od)))) n) (od_backend od))
             (\<lambda>(_, s).
           andThen (Pop (od_cache od)) (\<lambda>c.
             write_back_cache E (od\<lparr>od_backend := s, od_cache := c\<rparr>)))))"
  by pat_completeness auto
termination
  by (relation "measure (\<lambda>(E, od). length (cache_items (od_cache od)))") (auto dest: Pop_shorter)

declare write_back_cache.simps [simp del]

definition OdsFinalize :: "'s odict_env \<Rightarrow> nat \<Rightarrow> 's odict \<Rightarrow> (oram_status \<times> 's odict) exec" where
  "OdsFinalize E pad_val od =
     panic_if (pad_val < unat (od_read_count od))
      (andThen (DoPad E Operation_kRead (pad_val - unat (od_read_count od)) od) (\<lambda>(status, od1).
        if \<not> ok status then Inr (status, od1)
        else andThen (write_back_cache E od1) (\<lambda>od2.
             panic_if (pad_val < unat (od_write_count od2))
              (andThen (DoPad E Operation_kWrite (pad_val - unat (od_write_count od2)) od2)
                (\<lambda>(status, od3).
                  if \<not> ok status then Inr (status, od3)
                  else Inr (OK, od3\<lparr>od_write_count := 0, od_read_count := 0\<rparr>))))))"

text \<open>\<open>std::ceil(3 * 1.44 * std::log(x))\<close>, with real numbers in place of doubles.\<close>

definition ComputePadVal :: "u32 \<Rightarrow> u32" where
  "ComputePadVal x = of_int \<lceil>3 * (144 / 100) * ln (real (unat x))\<rceil>"

section \<open>The public operations\<close>

definition OdsStart :: "'s odict \<Rightarrow> 's odict" where
  "OdsStart od = od\<lparr>od_cache := Clear (od_cache od)\<rparr>"

definition Find :: "'s odict_env \<Rightarrow> nat \<Rightarrow> u32 \<Rightarrow> 's odict \<Rightarrow> (pointer option \<times> 's odict) exec" where
  "Find E fuel key od =
     (let od0 = OdsStart od in
      andThen (InternalFind E fuel key (od_root_id od0) od0) (\<lambda>(node, od1).
      andThen (OdsFinalize E (unat (ComputePadVal (of_nat (od_node_count od1)))) od1)
        (\<lambda>(status, od2). CheckStatus status (Inr (node, od2)))))"

text \<open>The value is the string object that the assignment to \<open>kv_pair_\<close> leaves in the node.\<close>

definition Insert :: "'s odict_env \<Rightarrow> nat \<Rightarrow> u32 \<Rightarrow> bytes \<Rightarrow> 's odict \<Rightarrow> (pointer \<times> 's odict) exec" where
  "Insert E fuel key v od =
     (case new_node E (of_nat (od_node_count od)) (OdsStart od) of (node, od1) \<Rightarrow>
      let od2 = set_node node (\<lambda>n. n\<lparr>node_key := key, node_value := v\<rparr>)
                  (od1\<lparr>od_node_count := od_node_count od1 + 1\<rparr>) in
      andThen (InternalInsert E fuel node (od_root_id od2) od2) (\<lambda>(ans, od3).
        let od4 = od3\<lparr>od_root_id := node_id (od_heap od3 ans)\<rparr> in
      andThen (OdsFinalize E (unat (ComputePadVal (of_nat (od_node_count od4)))) od4)
        (\<lambda>(status, od5). CheckStatus status (Inr (ans, od5)))))"

definition Remove :: "u32 \<Rightarrow> 's odict \<Rightarrow> oram_status \<times> 's odict" where
  "Remove key od = (OK, od)"

end
