(* ===== verification/Odict_Trees.thy ===== *)
theory Odict_Trees
  imports "HOL-Library.Tree" Ods_Objects
begin

text \<open>
  The trees the oblivious dictionary keeps: binary trees of identifier, key and value, with the
  insertion the code performs on them, its cost in reads and writes of nodes, and how a tree is
  represented by nodes that refer to each other by identifiers.
\<close>

section \<open>Insertion\<close>

type_synonym entry = "u32 \<times> u32 \<times> bytes"

abbreviation ent_key :: "entry \<Rightarrow> u32" where "ent_key e \<equiv> fst (snd e)"

definition rot_left :: "'a tree \<Rightarrow> 'a tree" where
  "rot_left t = (case t of Node l a (Node p b q) \<Rightarrow> Node (Node l a p) b q | _ \<Rightarrow> t)"

definition rot_right :: "'a tree \<Rightarrow> 'a tree" where
  "rot_right t = (case t of Node (Node p b q) a r \<Rightarrow> Node p b (Node q a r) | _ \<Rightarrow> t)"

definition rot_left_right :: "'a tree \<Rightarrow> 'a tree" where
  "rot_left_right t = (case t of Node l a r \<Rightarrow> rot_right (Node (rot_left l) a r) | _ \<Rightarrow> t)"

definition rot_right_left :: "'a tree \<Rightarrow> 'a tree" where
  "rot_right_left t = (case t of Node l a r \<Rightarrow> rot_left (Node l a (rot_right r)) | _ \<Rightarrow> t)"

fun bal :: "'a tree \<Rightarrow> 'a tree" where
  "bal Leaf = Leaf"
| "bal (Node l a r) =
     (if height l > height r + 1
      then if height (left l) \<ge> height (right l) then rot_right (Node l a r)
           else rot_left_right (Node l a r)
      else if height r > height l + 1
      then if height (right r) \<ge> height (left r) then rot_left (Node l a r)
           else rot_right_left (Node l a r)
      else Node l a r)"

text \<open>The reads and writes of a \<open>Balance\<close>.\<close>

fun bal_cost :: "'a tree \<Rightarrow> nat \<times> nat" where
  "bal_cost Leaf = (0, 0)"
| "bal_cost (Node l a r) =
     (if height l > height r + 1
      then if height (left l) \<ge> height (right l) then (3, 2) else (6, 5)
      else if height r > height l + 1
      then if height (right r) \<ge> height (left r) then (3, 2) else (6, 5)
      else (0, 0))"

fun ins :: "entry \<Rightarrow> entry tree \<Rightarrow> entry tree" where
  "ins e Leaf = Node Leaf e Leaf"
| "ins e (Node l a r) =
     (if ent_key a < ent_key e then bal (Node l a (ins e r))
      else if ent_key e < ent_key a then bal (Node (ins e l) a r)
      else bal (Node l a r))"

definition plus2 :: "nat \<times> nat \<Rightarrow> nat \<times> nat \<Rightarrow> nat \<times> nat" where
  "plus2 x y = (fst x + fst y, snd x + snd y)"

fun ins_cost :: "entry \<Rightarrow> entry tree \<Rightarrow> nat \<times> nat" where
  "ins_cost e Leaf = (0, 0)"
| "ins_cost e (Node l a r) =
     plus2 (1, 1)
       (if ent_key a < ent_key e then plus2 (ins_cost e r) (bal_cost (Node l a (ins e r)))
        else if ent_key e < ent_key a then plus2 (ins_cost e l) (bal_cost (Node (ins e l) a r))
        else bal_cost (Node l a r))"

fun find_entry :: "u32 \<Rightarrow> entry tree \<Rightarrow> entry option" where
  "find_entry k Leaf = None"
| "find_entry k (Node l a r) =
     (if ent_key a = k then Some a else if ent_key a < k then find_entry k r else find_entry k l)"

fun find_cost :: "u32 \<Rightarrow> entry tree \<Rightarrow> nat" where
  "find_cost k Leaf = 0"
| "find_cost k (Node l a r) =
     Suc (if ent_key a = k then 0 else if ent_key a < k then find_cost k r else find_cost k l)"

lemma find_cost_height: "find_cost k t \<le> height t"
  by (induction t) auto

section \<open>What insertion does\<close>

lemmas rot_defs = rot_left_def rot_right_def rot_left_right_def rot_right_left_def

lemma inorder_rot [simp]:
  "inorder (rot_left t) = inorder t" "inorder (rot_right t) = inorder t"
  by (auto simp: rot_defs split: tree.split)

lemma inorder_bal [simp]: "inorder (bal t) = inorder t"
proof -
  have "inorder (rot_left_right t) = inorder t" "inorder (rot_right_left t) = inorder t"
    by (cases t; simp add: rot_left_right_def rot_right_left_def)+
  moreover have "inorder (rot_left_right (Node l a r)) = inorder l @ a # inorder r"
    "inorder (rot_right_left (Node l a r)) = inorder l @ a # inorder r" for l and a :: 'a and r
    by (simp_all add: rot_left_right_def rot_right_left_def)
  ultimately show ?thesis by (cases t) simp_all
qed

text \<open>Keys in order.\<close>

definition ordered :: "entry tree \<Rightarrow> bool" where
  "ordered t \<longleftrightarrow> sorted_wrt (<) (map ent_key (inorder t))"

lemma ordered_Node:
  "ordered (Node l a r) \<longleftrightarrow> ordered l \<and> ordered r
     \<and> (\<forall>b \<in> set_tree l. ent_key b < ent_key a) \<and> (\<forall>b \<in> set_tree r. ent_key a < ent_key b)"
  by (force simp: ordered_def sorted_wrt_append)

lemma ordered_bal [simp]: "ordered (bal t) = ordered t" by (simp add: ordered_def)

lemma set_bal [simp]: "set_tree (bal t) = set_tree t"
  by (metis inorder_bal set_inorder)

lemma set_ins:
  "ordered t \<Longrightarrow> set_tree (ins e t)
    = (if \<exists>b \<in> set_tree t. ent_key b = ent_key e then set_tree t else insert e (set_tree t))"
proof (induction t)
  case (Node l a r)
  then have o: "ordered l" "ordered r" by (simp_all add: ordered_Node)
  have lr: "b \<in> set_tree l \<Longrightarrow> ent_key b < ent_key a" "b \<in> set_tree r \<Longrightarrow> ent_key a < ent_key b" for b
    using Node.prems by (simp_all add: ordered_Node)
  consider "ent_key a < ent_key e" | "ent_key e < ent_key a" | "ent_key a = ent_key e"
    by (meson linorder_less_linear)
  then show ?case
  proof cases
    case 1
    have "ent_key b \<noteq> ent_key e" if "b \<in> set_tree l" for b
      using less_trans [OF lr(1) [OF that] 1] by simp
    then have "\<not> (\<exists>b \<in> set_tree l. ent_key b = ent_key e)" "ent_key a \<noteq> ent_key e" by (blast, use 1 in simp)
    then have iff: "(\<exists>b \<in> set_tree (Node l a r). ent_key b = ent_key e) \<longleftrightarrow> (\<exists>b \<in> set_tree r. ent_key b = ent_key e)"
      unfolding tree.set by blast
    have "ins e (Node l a r) = bal (Node l a (ins e r))" using 1 by (simp del: bal.simps)
    then have "set_tree (ins e (Node l a r)) = insert a (set_tree l \<union> set_tree (ins e r))"
      by (simp del: bal.simps ins.simps)
    then show ?thesis unfolding iff Node.IH(2) [OF o(2)] by auto
  next
    case 2
    have "ent_key b \<noteq> ent_key e" if "b \<in> set_tree r" for b
      using less_trans [OF 2 lr(2) [OF that]] by simp
    then have "\<not> (\<exists>b \<in> set_tree r. ent_key b = ent_key e)" "ent_key a \<noteq> ent_key e" by (blast, use 2 in simp)
    then have iff: "(\<exists>b \<in> set_tree (Node l a r). ent_key b = ent_key e) \<longleftrightarrow> (\<exists>b \<in> set_tree l. ent_key b = ent_key e)"
      unfolding tree.set by blast
    have "\<not> ent_key a < ent_key e" using 2 by (simp add: not_less order.strict_implies_order)
    with 2 have "ins e (Node l a r) = bal (Node (ins e l) a r)" by (simp del: bal.simps)
    then have "set_tree (ins e (Node l a r)) = insert a (set_tree (ins e l) \<union> set_tree r)"
      by (simp del: bal.simps ins.simps)
    then show ?thesis unfolding iff Node.IH(1) [OF o(1)] by auto
  qed (auto simp del: bal.simps)
qed simp

lemma ordered_ins: "ordered t \<Longrightarrow> ordered (ins e t)"
proof (induction t)
  case (Node l a r)
  then have o: "ordered l" "ordered r" by (simp_all add: ordered_Node)
  have "ordered (Node l a (ins e r))" if "ent_key a < ent_key e"
    using that Node.prems Node.IH(2) [OF o(2)] set_ins [OF o(2), of e]
    by (auto simp: ordered_Node split: if_splits)
  moreover have "ordered (Node (ins e l) a r)" if "ent_key e < ent_key a"
    using that Node.prems Node.IH(1) [OF o(1)] set_ins [OF o(1), of e]
    by (auto simp: ordered_Node split: if_splits)
  ultimately show ?case using Node.prems by (simp del: bal.simps)
qed (simp add: ordered_def)

lemma find_entry_iff:
  "ordered t \<Longrightarrow> find_entry k t = Some e \<longleftrightarrow> e \<in> set_tree t \<and> ent_key e = k"
proof (induction t)
  case (Node l a r)
  then have IH: "find_entry k l = Some e \<longleftrightarrow> e \<in> set_tree l \<and> ent_key e = k"
    "find_entry k r = Some e \<longleftrightarrow> e \<in> set_tree r \<and> ent_key e = k"
    and o: "b \<in> set_tree l \<Longrightarrow> ent_key b < ent_key a" "b \<in> set_tree r \<Longrightarrow> ent_key a < ent_key b" for b
    by (simp_all add: ordered_Node)
  consider "ent_key a = k" | "ent_key a < k" | "k < ent_key a" by (meson linorder_less_linear)
  then show ?case
  proof cases
    case 1
    then have "ent_key e = k \<longrightarrow> e \<notin> set_tree l \<and> e \<notin> set_tree r"
      using o [of e] by auto
    with 1 show ?thesis by auto
  next
    case 2
    then have "e \<in> set_tree l \<longrightarrow> ent_key e \<noteq> k" using less_trans [OF o(1) 2, of e] by auto
    with 2 IH show ?thesis by auto
  next
    case 3
    then have "e \<in> set_tree r \<longrightarrow> ent_key e \<noteq> k" using less_trans [OF 3 o(2), of e] by auto
    with 3 IH show ?thesis by auto
  qed
qed simp

section \<open>Balance\<close>

fun balanced :: "'a tree \<Rightarrow> bool" where
  "balanced Leaf = True"
| "balanced (Node l a r) \<longleftrightarrow> balanced l \<and> balanced r \<and> height l \<le> height r + 1 \<and> height r \<le> height l + 1"

lemma bal_balanced: "balanced (Node l a r) \<Longrightarrow> bal (Node l a r) = Node l a r"
  by auto

lemma balanced_bal:
  assumes "balanced l" "balanced r" "height l \<le> height r + 2" "height r \<le> height l + 2"
  shows "balanced (bal (Node l a r))"
    "height (bal (Node l a r)) \<le> height (Node l a r)" "height (Node l a r) \<le> height (bal (Node l a r)) + 1"
proof -
  have "balanced (bal (Node l a r)) \<and> height (bal (Node l a r)) \<le> height (Node l a r)
      \<and> height (Node l a r) \<le> height (bal (Node l a r)) + 1"
  proof (cases "height l > height r + 1")
    case True
    then obtain p b q where l: "l = Node p b q" by (cases l) auto
    show ?thesis
    proof (cases "height p \<ge> height q")
      case True
      with \<open>height l > height r + 1\<close> assms l show ?thesis by (auto simp: rot_defs)
    next
      case False
      then obtain u c v where "q = Node u c v" by (cases q) auto
      with False \<open>height l > height r + 1\<close> assms l show ?thesis by (auto simp: rot_defs)
    qed
  next
    case nl: False
    show ?thesis
    proof (cases "height r > height l + 1")
      case True
      then obtain p b q where r: "r = Node p b q" by (cases r) auto
      show ?thesis
      proof (cases "height q \<ge> height p")
        case True
        with \<open>height r > height l + 1\<close> assms r show ?thesis by (auto simp: rot_defs)
      next
        case False
        then obtain u c v where "p = Node u c v" by (cases p) auto
        with False \<open>height r > height l + 1\<close> assms r show ?thesis by (auto simp: rot_defs)
      qed
    next
      case False
      with nl assms show ?thesis by auto
    qed
  qed
  then show "balanced (bal (Node l a r))"
    "height (bal (Node l a r)) \<le> height (Node l a r)" "height (Node l a r) \<le> height (bal (Node l a r)) + 1"
    by simp_all
qed

lemma balanced_ins:
  "balanced t \<Longrightarrow> balanced (ins e t) \<and> height t \<le> height (ins e t) \<and> height (ins e t) \<le> height t + 1"
proof (induction t)
  case (Node l a r)
  then have IH: "balanced (ins e l)" "height l \<le> height (ins e l)" "height (ins e l) \<le> height l + 1"
    "balanced (ins e r)" "height r \<le> height (ins e r)" "height (ins e r) \<le> height r + 1"
    and b: "balanced l" "balanced r" "height l \<le> height r + 1" "height r \<le> height l + 1" by auto
  have right: "balanced (bal (Node l a r')) \<and> height (Node l a r) \<le> height (bal (Node l a r'))
      \<and> height (bal (Node l a r')) \<le> height (Node l a r) + 1"
    if r': "balanced r'" "height r \<le> height r'" "height r' \<le> height r + 1" for r'
  proof (cases "height r' > height l + 1")
    case True
    with balanced_bal [OF b(1) r'(1), of a] b r' show ?thesis by (simp del: bal.simps)
  next
    case False
    with b r' have "balanced (Node l a r')" by simp
    from bal_balanced [OF this] this b r' show ?thesis
      by (simp del: bal.simps add: max_def)
  qed
  have left: "balanced (bal (Node l' a r)) \<and> height (Node l a r) \<le> height (bal (Node l' a r))
      \<and> height (bal (Node l' a r)) \<le> height (Node l a r) + 1"
    if l': "balanced l'" "height l \<le> height l'" "height l' \<le> height l + 1" for l'
  proof (cases "height l' > height r + 1")
    case True
    with balanced_bal [OF l'(1) b(2), of a] b l' show ?thesis by (simp del: bal.simps)
  next
    case False
    with b l' have "balanced (Node l' a r)" by simp
    from bal_balanced [OF this] this b l' show ?thesis
      by (simp del: bal.simps add: max_def)
  qed
  show ?case
    using right [OF IH(4-6)] left [OF IH(1-3)] right [OF b(2)] by (simp del: bal.simps)
qed simp

text \<open>The height of a balanced tree: at most twice the logarithm of its size.\<close>

lemma balanced_height: "balanced t \<Longrightarrow> 2 ^ height t \<le> size1 t * size1 t"
proof (induction t)
  case (Node l a r)
  let ?m = "min (height l) (height r)" and ?s = "min (size1 l) (size1 r)"
  have "2 ^ ?m \<le> ?s * ?s"
  proof -
    have "2 ^ ?m \<le> (2 :: nat) ^ height l" "2 ^ ?m \<le> (2 :: nat) ^ height r"
      by (intro power_increasing; simp)+
    moreover have "2 ^ height l \<le> size1 l * size1 l" "2 ^ height r \<le> size1 r * size1 r" using Node by auto
    ultimately have "2 ^ ?m \<le> size1 l * size1 l" "2 ^ ?m \<le> size1 r * size1 r" by (blast intro: order_trans)+
    then show ?thesis by (simp add: min_def)
  qed
  moreover have "(2 * ?s) * (2 * ?s) \<le> size1 (Node l a r) * size1 (Node l a r)"
    by (intro mult_le_mono) simp_all
  moreover have "2 ^ height (Node l a r) \<le> (2 :: nat) ^ (?m + 2)"
    using Node.prems by (intro power_increasing) auto
  ultimately show ?case by (simp add: power_add)
qed simp

section \<open>Trees of nodes\<close>

text \<open>\<open>V i\<close> is the node of identifier \<open>i\<close>; the tree below identifier \<open>i\<close>.\<close>

fun repr :: "(u32 \<Rightarrow> bytes tree_node) \<Rightarrow> entry tree \<Rightarrow> u32 \<Rightarrow> bool" where
  "repr V Leaf i \<longleftrightarrow> i = 0"
| "repr V (Node l (j, k, v) r) i \<longleftrightarrow> i = j \<and> j \<noteq> 0 \<and> node_id (V j) = j \<and> node_key (V j) = k
     \<and> node_value (V j) = v \<and> repr V l (left_id (V j)) \<and> repr V r (right_id (V j))
     \<and> left_height (V j) = of_nat (height l) \<and> right_height (V j) = of_nat (height r)"

definition ids :: "entry tree \<Rightarrow> u32 list" where
  "ids t = map fst (inorder t)"

lemma ids_simps [simp]: "ids Leaf = []" "ids (Node l a r) = ids l @ fst a # ids r"
  by (simp_all add: ids_def)

lemma ids_bal [simp]: "ids (bal t) = ids t" "ids (rot_left t) = ids t" "ids (rot_right t) = ids t"
  by (simp_all add: ids_def)

lemma repr_frame: "repr V t i \<Longrightarrow> \<forall>j \<in> set (ids t). V' j = V j \<Longrightarrow> repr V' t i"
  by (induction V t i rule: repr.induct) auto

lemma repr_nonzero: "repr V t i \<Longrightarrow> 0 \<notin> set (ids t)"
  by (induction V t i rule: repr.induct) auto

lemma repr_leaf: "repr V t i \<Longrightarrow> i = 0 \<longleftrightarrow> t = Leaf"
  by (cases "(V, t, i)" rule: repr.cases) auto

lemma ids_bound:
  assumes "distinct (ids t)" and "0 \<notin> set (ids t)" shows "size t < 2 ^ 32"
proof -
  have "size t = length (ids t)" by (simp add: ids_def)
  also have "\<dots> = card (set (ids t))" using assms(1) by (simp only: distinct_card)
  also have "\<dots> < card (UNIV :: u32 set)"
    using assms(2) by (intro psubset_card_mono) auto
  finally show ?thesis by (simp add: card_word)
qed

section \<open>Heights and rotations of represented trees\<close>

lemma height_bound: "size (t :: 'a tree) < 2 ^ 32 \<Longrightarrow> height t < 2 ^ 32"
  using height_le_size_tree [of t] by (rule le_less_trans)

lemma of_nat_less_u32:
  assumes "x < 2 ^ 32" "y < 2 ^ 32" shows "(of_nat x :: u32) < of_nat y \<longleftrightarrow> x < y"
  using assms by (simp add: word_less_nat_alt unat_of_nat_u32)

lemma HEIGHT_repr:
  assumes "repr V t i" and "t \<noteq> Leaf" and "size t < 2 ^ 32"
  shows "HEIGHT (V i) = of_nat (height t)"
proof -
  obtain l j k v r where t: "t = Node l (j, k, v) r" using assms(2) by (metis neq_Leaf_iff prod_cases3)
  have b: "height l < 2 ^ 32" "height r < 2 ^ 32"
    using assms(3) height_bound [of l] height_bound [of r] by (simp_all add: t)
  have h: "left_height (V i) = of_nat (height l)" "right_height (V i) = of_nat (height r)"
    using assms(1) by (simp_all add: t)
  have "(of_nat (height r) :: u32) \<le> of_nat (height l) \<longleftrightarrow> height r \<le> height l"
    using of_nat_less_u32 [OF b] by (simp flip: not_less)
  then show ?thesis unfolding HEIGHT_def h by (auto simp: t max_def)
qed

text \<open>The test of \<open>Balance\<close> on 32-bit heights is the one on heights.\<close>

lemma heights_apart:
  assumes "x < 2 ^ 32" "y < 2 ^ 32"
  shows "(of_nat x :: u32) > of_nat y \<and> (of_nat x :: u32) - of_nat y > 1 \<longleftrightarrow> x > y + 1"
proof (cases "y < x")
  case True
  then have "(of_nat x :: u32) - of_nat y = of_nat (x - y)" by simp
  moreover have "(1 :: u32) < of_nat (x - y) \<longleftrightarrow> 1 < x - y"
    using of_nat_less_u32 [of 1 "x - y"] assms by simp
  ultimately show ?thesis using True of_nat_less_u32 [OF assms(2,1)] by auto
next
  case False
  then show ?thesis using of_nat_less_u32 [OF assms(2,1)] by auto
qed

lemma repr_rot_left:
  assumes t: "repr V (Node l a (Node p b q)) i" and d: "distinct (ids (Node l a (Node p b q)))"
    and V1: "V1 = V(i := (V i)\<lparr>right_id := left_id (V j), right_height := left_height (V j)\<rparr>)"
    and V2: "V2 = V1(j := (V1 j)\<lparr>left_height := HEIGHT (V1 i), left_id := i\<rparr>)"
    and j: "j = right_id (V i)"
  shows "repr V2 (Node (Node l a p) b q) j"
proof -
  obtain ka va kb vb where ab: "a = (i, ka, va)" "b = (j, kb, vb)"
    using t j by (cases a; cases b) auto
  have ne: "i \<noteq> j" "i \<notin> set (ids l)" "i \<notin> set (ids p)" "i \<notin> set (ids q)" "j \<notin> set (ids l)"
    "j \<notin> set (ids p)" "j \<notin> set (ids q)" using d by (auto simp: ab)
  have same: "\<forall>e \<in> set (ids l) \<union> set (ids p) \<union> set (ids q). V1 e = V e \<and> V2 e = V e"
    using ne V1 V2 by auto
  have r: "repr V l (left_id (V i))" "repr V p (left_id (V j))" "repr V q (right_id (V j))"
    using t by (simp_all add: ab)
  note fr = repr_frame [OF r(1)] repr_frame [OF r(2)] repr_frame [OF r(3)]
  have "repr V1 l (left_id (V i))" "repr V1 p (left_id (V j))" using same by (auto intro: fr(1,2))
  then have la: "repr V1 (Node l a p) i" using t ne(1) by (simp add: V1 ab)
  have "distinct (ids (Node l a p))" using d by auto
  from ids_bound [OF this repr_nonzero [OF la]] have "HEIGHT (V1 i) = of_nat (height (Node l a p))"
    by (intro HEIGHT_repr [OF la]) simp_all
  moreover have "repr V2 l (left_id (V i))" "repr V2 p (left_id (V j))" "repr V2 q (right_id (V j))"
    using same by (auto intro: fr)
  ultimately show ?thesis using t ne(1) by (simp add: V1 V2 ab)
qed

lemma repr_rot_right:
  assumes t: "repr V (Node (Node p b q) a r) i" and d: "distinct (ids (Node (Node p b q) a r))"
    and V1: "V1 = V(i := (V i)\<lparr>left_id := right_id (V j), left_height := right_height (V j)\<rparr>)"
    and V2: "V2 = V1(j := (V1 j)\<lparr>right_height := HEIGHT (V1 i), right_id := i\<rparr>)"
    and j: "j = left_id (V i)"
  shows "repr V2 (Node p b (Node q a r)) j"
proof -
  obtain ka va kb vb where ab: "a = (i, ka, va)" "b = (j, kb, vb)"
    using t j by (cases a; cases b) auto
  have ne: "i \<noteq> j" "i \<notin> set (ids p)" "i \<notin> set (ids q)" "i \<notin> set (ids r)" "j \<notin> set (ids p)"
    "j \<notin> set (ids q)" "j \<notin> set (ids r)" using d by (auto simp: ab)
  have same: "\<forall>e \<in> set (ids p) \<union> set (ids q) \<union> set (ids r). V1 e = V e \<and> V2 e = V e"
    using ne V1 V2 by auto
  have r: "repr V p (left_id (V j))" "repr V q (right_id (V j))" "repr V r (right_id (V i))"
    using t by (simp_all add: ab)
  note fr = repr_frame [OF r(1)] repr_frame [OF r(2)] repr_frame [OF r(3)]
  have "repr V1 q (right_id (V j))" "repr V1 r (right_id (V i))" using same by (auto intro: fr(2,3))
  then have qa: "repr V1 (Node q a r) i" using t ne(1) by (simp add: V1 ab)
  have "distinct (ids (Node q a r))" using d by auto
  from ids_bound [OF this repr_nonzero [OF qa]] have "HEIGHT (V1 i) = of_nat (height (Node q a r))"
    by (intro HEIGHT_repr [OF qa]) simp_all
  moreover have "repr V2 p (left_id (V j))" "repr V2 q (right_id (V j))" "repr V2 r (right_id (V i))"
    using same by (auto intro: fr)
  ultimately show ?thesis using t ne(1) by (simp add: V1 V2 ab)
qed

text \<open>A subtree replaced by another one.\<close>

lemma repr_new_left:
  assumes t: "repr V (Node l a r) i" and d: "distinct (ids (Node l' a r))"
    and l': "repr V1 l' j" "l' \<noteq> Leaf" "size l' < 2 ^ 32"
    and fr: "\<forall>e. e \<notin> set (ids l') \<longrightarrow> V1 e = V e"
    and V2: "V2 = V1(i := (V i)\<lparr>left_id := j, left_height := HEIGHT (V1 j)\<rparr>)"
  shows "repr V2 (Node l' a r) i"
proof -
  obtain ka va where a: "a = (i, ka, va)" using t by (cases a) auto
  have "i \<notin> set (ids l')" using d by (simp add: a)
  then have new: "repr V2 l' j" by (intro repr_frame [OF l'(1)]) (auto simp: V2)
  have "V2 e = V e" if "e \<in> set (ids r)" for e
  proof -
    have "e \<noteq> i" "e \<notin> set (ids l')" using that d by (auto simp: a)
    with fr show ?thesis by (simp add: V2)
  qed
  moreover have "repr V r (right_id (V i))" using t by (simp add: a)
  ultimately have "repr V2 r (right_id (V i))" using repr_frame by blast
  with new show ?thesis using t HEIGHT_repr [OF l'] by (simp add: V2 a)
qed

lemma repr_new_right:
  assumes t: "repr V (Node l a r) i" and d: "distinct (ids (Node l a r'))"
    and r': "repr V1 r' j" "r' \<noteq> Leaf" "size r' < 2 ^ 32"
    and fr: "\<forall>e. e \<notin> set (ids r') \<longrightarrow> V1 e = V e"
    and V2: "V2 = V1(i := (V i)\<lparr>right_id := j, right_height := HEIGHT (V1 j)\<rparr>)"
  shows "repr V2 (Node l a r') i"
proof -
  obtain ka va where a: "a = (i, ka, va)" using t by (cases a) auto
  have "i \<notin> set (ids r')" using d by (simp add: a)
  then have new: "repr V2 r' j" by (intro repr_frame [OF r'(1)]) (auto simp: V2)
  have "V2 e = V e" if "e \<in> set (ids l)" for e
  proof -
    have "e \<noteq> i" "e \<notin> set (ids r')" using that d by (auto simp: a)
    with fr show ?thesis by (simp add: V2)
  qed
  moreover have "repr V l (left_id (V i))" using t by (simp add: a)
  ultimately have "repr V2 l (left_id (V i))" using repr_frame by blast
  with new show ?thesis using t HEIGHT_repr [OF r'] by (simp add: V2 a)
qed

end
