(* ===== verification/Odict_Views.thy ===== *)
theory Odict_Views
  imports Odict Odict_Trees
begin

text \<open>
  How the state of the oblivious dictionary stands for a map from identifiers to nodes, and what
  reading and writing a node do to it. The backend is a \<open>block_ram\<close> that keeps the caller's block.
\<close>

section \<open>ORAMs whose writes leave the caller's block alone\<close>

locale keeping_ram = block_ram +
  assumes write_keeps: "holds s m \<Longrightarrow> m a \<noteq> None \<Longrightarrow> writable x \<Longrightarrow>
    access Operation_kWrite a x s = Inr ((OK, b), s') \<Longrightarrow> b = x"

section \<open>The nodes the dictionary sees\<close>

text \<open>The node of an identifier: the cached object, or what the ORAM holds.\<close>

definition view :: "(u32 \<rightharpoonup> bytes) \<Rightarrow> 's odict \<Rightarrow> u32 \<Rightarrow> bytes tree_node" where
  "view m od i = (case lookup (od_cache od) i of
     Some p \<Rightarrow> od_heap od p | None \<Rightarrow> bytes_node (the (m i)))"

text \<open>The identifiers are 1 to \<open>N\<close>.\<close>

definition in_range :: "nat \<Rightarrow> u32 \<Rightarrow> bool" where
  "in_range N i \<longleftrightarrow> i \<noteq> 0 \<and> unat i \<le> N"

text \<open>
  The invariant: the ORAM holds \<open>m\<close>, with room for a node at every identifier from 0 to \<open>N\<close>; the
  cache is in order, has room for all \<open>N\<close> nodes, and maps identifiers to objects that have them.
\<close>

definition od_inv :: "('s \<Rightarrow> (u32 \<rightharpoonup> bytes) \<Rightarrow> bool) \<Rightarrow> nat \<Rightarrow> (u32 \<rightharpoonup> bytes) \<Rightarrow> 's odict \<Rightarrow> bool" where
  "od_inv holds N m od \<longleftrightarrow> holds (od_backend od) m \<and> cache_ok (od_cache od)
     \<and> N \<le> max_size (od_cache od) \<and> 0 < max_size (od_cache od)
     \<and> (\<forall>i. unat i \<le> N \<longrightarrow> (\<exists>d. m i = Some d \<and> 64 \<le> length d))
     \<and> (\<forall>i p. lookup (od_cache od) i = Some p \<longrightarrow> in_range N i \<and> p < od_next od
          \<and> node_id (od_heap od p) = i \<and> wf_node (od_heap od p))"

text \<open>What a run keeps: objects below \<open>n\<close>, and the fields it does not count in.\<close>

definition step :: "pointer \<Rightarrow> 's odict \<Rightarrow> 's odict \<Rightarrow> nat \<Rightarrow> nat \<Rightarrow> bool" where
  "step n od od' r w \<longleftrightarrow> (\<forall>q < n. od_heap od' q = od_heap od q) \<and> od_next od \<le> od_next od'
     \<and> od_read_count od' = od_read_count od + of_nat r \<and> od_write_count od' = od_write_count od + of_nat w
     \<and> od_root_id od' = od_root_id od \<and> od_node_count od' = od_node_count od \<and> od_size od' = od_size od
     \<and> max_size (od_cache od') = max_size (od_cache od)"

lemma step_refl [simp]: "step n od od 0 0" by (simp add: step_def)

lemma step_trans: "step n a b r w \<Longrightarrow> step n b c r' w' \<Longrightarrow> step n a c (r + r') (w + w')"
  by (simp add: step_def)

lemma step_less: "step n a b r w \<Longrightarrow> n' \<le> n \<Longrightarrow> step n' a b r w"
  by (simp add: step_def)

lemma wf_view: "od_inv holds N m od \<Longrightarrow> unat i \<le> N \<Longrightarrow> wf_node (view m od i)"
  unfolding od_inv_def view_def by (cases "lookup (od_cache od) i") fastforce+

lemma in_range_card: "card {i. in_range N i} \<le> N"
proof -
  have "unat ` {i. in_range N i} \<subseteq> {1..N}" by (auto simp: in_range_def Suc_le_eq unat_gt_0)
  then have "card (unat ` {i. in_range N i}) \<le> N" using card_mono [of "{1..N}"] by fastforce
  moreover have "inj_on unat {i. in_range N i}" by (simp add: inj_on_def word_unat_eq_iff)
  ultimately show ?thesis by (simp add: card_image)
qed

lemma cache_room:
  assumes inv: "od_inv holds N m od" and i: "in_range N i"
  shows "lookup (od_cache od) i \<noteq> None \<or> length (cache_items (od_cache od)) < max_size (od_cache od)"
proof (cases "lookup (od_cache od) i")
  case None
  let ?l = "lru_table (od_cache od)"
  from inv have ok: "cache_ok (od_cache od)" by (simp add: od_inv_def)
  have "set (i # ?l) \<subseteq> {j. in_range N j}"
  proof
    fix j assume "j \<in> set (i # ?l)"
    then have "j = i \<or> lookup (od_cache od) j \<noteq> None" using lookup_None [OF ok, of j] by auto
    then show "j \<in> {j. in_range N j}" using i inv by (auto simp: od_inv_def)
  qed
  moreover have "distinct (i # ?l)" using None lookup_None [OF ok, of i] ok by (simp add: cache_ok_def)
  ultimately have "length (i # ?l) \<le> card {j. in_range N j}"
    by (metis card_mono distinct_card finite)
  with in_range_card [of N] have "Suc (length ?l) \<le> N" by simp
  then show ?thesis using inv cache_ok_length [OF ok] by (simp add: od_inv_def)
qed simp

text \<open>What the environment has to offer: the ORAM's access, objects of the right sizes, and local
  blocks that can be written with a node or as padding.\<close>

definition env_ok :: "(operation \<Rightarrow> u32 \<Rightarrow> oram_block \<Rightarrow> 's \<Rightarrow> ((oram_status \<times> oram_block) \<times> 's) exec)
    \<Rightarrow> (oram_block \<Rightarrow> bool) \<Rightarrow> 's odict_env \<Rightarrow> bool" where
  "env_ok access writable E \<longleftrightarrow> env_access E = access \<and> (\<forall>p. wf_node (env_node E p))
     \<and> (\<forall>n node. wf_node node \<longrightarrow> writable (node_block (env_block E n) node))
     \<and> (\<forall>n. length (data (env_block E n)) = 512)
     \<and> (\<forall>n. writable ((env_block E n)\<lparr>header := (header (env_block E n))
          \<lparr>block_id := 0, btype := BlockType_kNormal\<rparr>\<rparr>))"

lemma wf_TreeNode [simp]: "wf_node (TreeNode n i) = wf_node n" "node_id (TreeNode n i) = i"
  by (simp_all add: wf_node_def TreeNode_def)

section \<open>Reading and writing a node\<close>

text \<open>The cache answers a look-up, and what it points to are nodes of its identifiers.\<close>

lemma od_inv_get:
  assumes "od_inv holds N m od"
  obtains c where "Get i (od_cache od) = Inr (lookup (od_cache od) i, c)"
    "cache_ok c" "lookup c = lookup (od_cache od)" "cache_items c = cache_items (od_cache od)"
    "max_size c = max_size (od_cache od)"
  using assms Get_ok [of "od_cache od" i] unfolding od_inv_def by blast

lemma od_inv_entry:
  "od_inv holds N m od \<Longrightarrow> lookup (od_cache od) j = Some q \<Longrightarrow>
    in_range N j \<and> q < od_next od \<and> node_id (od_heap od q) = j \<and> wf_node (od_heap od q)"
  by (auto simp: od_inv_def)

context keeping_ram
begin

lemma read_node_cached:
  assumes inv: "od_inv holds N m od" and q: "lookup (od_cache od) i = Some q"
  shows "\<exists>od'. read_node E i od = Inr (od_next od, od') \<and> od_inv holds N m od' \<and> view m od' = view m od
    \<and> od_heap od' (od_next od) = view m od i \<and> od_next od' = Suc (od_next od)
    \<and> step (od_next od) od od' 1 0"
proof -
  let ?p = "od_next od" and ?v = "view m od i"
  from od_inv_get [OF inv, of i] obtain c where c: "Get i (od_cache od) = Inr (lookup (od_cache od) i, c)"
    "cache_ok c" "lookup c = lookup (od_cache od)" "max_size c = max_size (od_cache od)" by metis
  let ?o1 = "od\<lparr>od_heap := (od_heap od)(?p := ?v), od_next := Suc ?p,
    od_read_count := od_read_count od + 1, od_cache := c\<rparr>"
  note ids = od_inv_entry [OF inv]
  have v: "q < ?p" "?v = od_heap od q" using ids [OF q] q by (simp_all add: view_def)
  have "read_node E i od = Inr (?p, ?o1)"
    using c(1) q v by (simp add: read_node_def new_node_def OdsAccessRead_def Let_def set_node_def CheckStatus_def)
  moreover have same: "od_heap ?o1 r = od_heap od r" if "lookup c j = Some r" for j r
    using ids [of j r] that c(3) by auto
  have "od_inv holds N m ?o1"
    using inv c same ids unfolding od_inv_def by (auto simp: less_Suc_eq)
  moreover have "view m ?o1 = view m od"
    using c(3) same by (auto simp: view_def fun_eq_iff split: option.split)
  ultimately show ?thesis
    using c(4) by (intro exI [of _ ?o1]) (simp add: step_def)
qed

lemma read_node_fetched:
  assumes E: "env_ok access writable E" and inv: "od_inv holds N m od" and i: "in_range N i"
    and own: "node_id (view m od i) = i" and none: "lookup (od_cache od) i = None"
  shows "\<exists>od'. read_node E i od = Inr (od_next od, od') \<and> od_inv holds N m od' \<and> view m od' = view m od
    \<and> od_heap od' (od_next od) = view m od i \<and> od_next od' = Suc (od_next od)
    \<and> step (od_next od) od od' 1 0"
proof -
  let ?p = "od_next od" and ?v = "view m od i"
  from od_inv_get [OF inv, of i] obtain c where c: "Get i (od_cache od) = Inr (lookup (od_cache od) i, c)"
    "cache_ok c" "lookup c = lookup (od_cache od)" "cache_items c = cache_items (od_cache od)"
    "max_size c = max_size (od_cache od)" by blast
  note ids = od_inv_entry [OF inv]
  have wf: "wf_node ?v" using wf_view [OF inv] i by (simp add: in_range_def)
  let ?b = "(env_block E (Suc ?p))\<lparr>header := (header (env_block E (Suc ?p)))\<lparr>block_id := i\<rparr>\<rparr>"
  from inv i obtain d where h: "holds (od_backend od) m" "m i = Some d" "64 \<le> length d"
    unfolding od_inv_def in_range_def by blast
  from read_hit [OF h(1,2), of ?b] obtain b s where
    r: "access Operation_kRead i ?b (od_backend od) = Inr ((OK, b), s)" "data b = d" "holds s m" by blast
  have v: "?v = bytes_node d" using none h(2) by (simp add: view_def)
  from Put_room [of c i ?p] c(2-5) cache_room [OF inv i] obtain c' where
    c': "Put i ?p c = Inr (None, c')" "cache_ok c'" "max_size c' = max_size c"
      "lookup c' = (lookup c)(i \<mapsto> ?p)" by auto
  let ?o1 = "od\<lparr>od_heap := (od_heap od)(?p := ?v), od_next := Suc ?p,
    od_read_count := od_read_count od + 1, od_backend := s, od_cache := c'\<rparr>"
  have "read_node E i od = Inr (?p, ?o1)"
    using c(1) none r(1,2) c'(1) i E v
    by (simp add: read_node_def new_node_def OdsAccessRead_def Let_def set_node_def CheckStatus_def
        CacheHelper_def env_ok_def in_range_def invalid_mask_def)
  moreover have same: "od_heap ?o1 q = od_heap od q" if "lookup c j = Some q" for j q
    using ids [of j q] that c(3) by auto
  have "od_inv holds N m ?o1"
    using inv c c' same ids own wf i r(3) unfolding od_inv_def by (auto simp: less_Suc_eq)
  moreover have "view m ?o1 = view m od"
    using c(3) c'(4) same none by (auto simp: view_def fun_eq_iff split: option.split)
  ultimately show ?thesis
    using c(5) c'(3) by (intro exI [of _ ?o1]) (simp add: step_def)
qed

lemma read_node_view:
  assumes E: "env_ok access writable E" and inv: "od_inv holds N m od" and i: "in_range N i"
    and own: "node_id (view m od i) = i"
  shows "\<exists>od'. read_node E i od = Inr (od_next od, od') \<and> od_inv holds N m od' \<and> view m od' = view m od
    \<and> od_heap od' (od_next od) = view m od i \<and> od_next od' = Suc (od_next od)
    \<and> step (od_next od) od od' 1 0"
  using read_node_cached [OF inv] read_node_fetched [OF assms]
  by (cases "lookup (od_cache od) i") blast+

lemma write_node_view:
  assumes inv: "od_inv holds N m od" and p: "n \<le> p" "p < od_next od" and i: "node_id (od_heap od p) = i"
    and rng: "in_range N i" and f: "node_id (f (od_heap od p)) = i" "wf_node (f (od_heap od p))"
  shows "\<exists>od'. write_node E p (set_node p f od) = Inr od' \<and> od_inv holds N m od'
    \<and> view m od' = (view m od)(i := f (od_heap od p))
    \<and> od_heap od' = (od_heap od)(p := f (od_heap od p)) \<and> od_next od' = od_next od
    \<and> step n od od' 0 1"
proof -
  note ids = od_inv_entry [OF inv]
  from od_inv_get [OF inv, of i] obtain c where c: "Get i (od_cache od) = Inr (lookup (od_cache od) i, c)"
    "cache_ok c" "lookup c = lookup (od_cache od)" "cache_items c = cache_items (od_cache od)"
    "max_size c = max_size (od_cache od)" by blast
  from Put_room [of c i p] c(2-5) cache_room [OF inv rng] obtain c' where
    c': "Put i p c = Inr (None, c')" "cache_ok c'" "max_size c' = max_size c"
      "lookup c' = (lookup c)(i \<mapsto> p)" by auto
  let ?o = "od\<lparr>od_heap := (od_heap od)(p := f (od_heap od p)),
    od_write_count := od_write_count od + 1, od_cache := c'\<rparr>"
  have "write_node E p (set_node p f od) = Inr ?o"
    using c(1) c'(1) f(1) i
    by (simp add: write_node_def OdsAccessWrite_def Let_def set_node_def CheckStatus_def)
  moreover have same: "od_heap ?o q = od_heap od q" if "lookup c j = Some q" "j \<noteq> i" for j q
    using ids [of j q] that c(3) i by auto
  have "od_inv holds N m ?o"
    unfolding od_inv_def
  proof (intro conjI)
    show "\<forall>j q. lookup (od_cache ?o) j = Some q \<longrightarrow> in_range N j \<and> q < od_next ?o
        \<and> node_id (od_heap ?o q) = j \<and> wf_node (od_heap ?o q)"
    proof (intro allI impI)
      fix j q assume "lookup (od_cache ?o) j = Some q"
      then consider "j = i" "q = p" | "j \<noteq> i" "lookup c j = Some q" using c'(4) by (auto split: if_splits)
      then show "in_range N j \<and> q < od_next ?o \<and> node_id (od_heap ?o q) = j \<and> wf_node (od_heap ?o q)"
      proof cases
        case 1
        with f p rng show ?thesis by simp
      next
        case 2
        with ids [of j q] same [of j q] c(3) show ?thesis by simp
      qed
    qed
  qed (use inv c c' in \<open>simp_all add: od_inv_def\<close>)
  moreover have "view m ?o = (view m od)(i := f (od_heap od p))"
    using c(3) c'(4) same by (auto simp: view_def fun_eq_iff split: option.split)
  ultimately show ?thesis
    using c(5) c'(3) p(1) by (intro exI [of _ ?o]) (simp add: step_def)
qed

end

end
