(* ===== verification/Odict_Correct.thy ===== *)
theory Odict_Correct
  imports Odict_Views "HOL-Library.Multiset"
begin

text \<open>
  The recursive operations of the oblivious dictionary: each rotation, \<open>Balance\<close>, \<open>InternalFind\<close>
  and \<open>InternalInsert\<close> do to the represented tree what the functions of \<open>Odict_Trees\<close> say, with
  the reads and writes those count.
\<close>

section \<open>The outcome of an operation on a tree\<close>

text \<open>
  From \<open>od\<close> on, the operations led to \<open>od'\<close> and the pointer \<open>p\<close> to the root of a tree \<open>t\<close>; nodes
  that are not of \<open>t\<close> are as before; \<open>cost\<close> counts the reads and writes.
\<close>

definition outcome :: "('s \<Rightarrow> (u32 \<rightharpoonup> bytes) \<Rightarrow> bool) \<Rightarrow> nat \<Rightarrow> (u32 \<rightharpoonup> bytes) \<Rightarrow> 's odict
    \<Rightarrow> pointer \<Rightarrow> 's odict \<Rightarrow> entry tree \<Rightarrow> nat \<times> nat \<Rightarrow> bool" where
  "outcome holds N m od p od' t cost \<longleftrightarrow> od_inv holds N m od' \<and> step (od_next od) od od' (fst cost) (snd cost)
     \<and> p < od_next od' \<and> od_heap od' p = view m od' (node_id (od_heap od' p))
     \<and> repr (view m od') t (node_id (od_heap od' p))
     \<and> (\<forall>j. j \<notin> set (ids t) \<longrightarrow> view m od' j = view m od j)"

definition in_ranges :: "nat \<Rightarrow> entry tree \<Rightarrow> bool" where
  "in_ranges N t \<longleftrightarrow> distinct (ids t) \<and> (\<forall>i \<in> set (ids t). in_range N i)"

lemma in_ranges_Node: "in_ranges N (Node l a r) \<Longrightarrow> in_ranges N l \<and> in_ranges N r \<and> in_range N (fst a)"
  by (auto simp: in_ranges_def)

lemma in_ranges_size: "in_ranges N t \<Longrightarrow> size t < 2 ^ 32"
  by (intro ids_bound) (auto simp: in_ranges_def in_range_def)

lemma repr_root: "repr V (Node l a r) i \<Longrightarrow> fst a = i \<and> node_id (V i) = i"
  by (cases a) auto

lemma repr_fields:
  assumes "repr V (Node l a r) i"
  shows "left_height (V i) = of_nat (height l)" "right_height (V i) = of_nat (height r)"
    "repr V l (left_id (V i))" "repr V r (right_id (V i))" "node_id (V i) = i" "fst a = i"
    "node_key (V i) = ent_key a" "node_value (V i) = snd (snd a)"
  using assms by (cases a; simp)+

lemma in_ranges_height:
  assumes "in_ranges N (Node l a r)"
  shows "height l < 2 ^ 32" "height r < 2 ^ 32"
  using in_ranges_Node [OF assms] in_ranges_size height_bound by blast+

lemma mset_ids_ins:
  "mset (ids (ins e t)) = mset (ids t) \<or> mset (ids (ins e t)) = add_mset (fst e) (mset (ids t))"
  by (induction t) (auto simp del: bal.simps)

lemma plus2_assoc: "plus2 (plus2 x y) z = plus2 x (plus2 y z)"
  by (simp add: plus2_def)

lemma bal_not_Leaf [simp]: "bal (Node l a r) \<noteq> Leaf"
  using inorder_bal [of "Node l a r"] by (metis append_is_Nil_conv inorder.simps list.distinct(1))

lemma ins_not_Leaf [simp]: "ins e t \<noteq> Leaf"
  by (cases t) (simp_all del: bal.simps)

lemma in_ranges_bal [simp]: "in_ranges N (bal t) = in_ranges N t"
  by (simp add: in_ranges_def)

lemma in_ranges_ins:
  assumes "in_ranges N t" and "in_range N (fst e)" and "fst e \<notin> set (ids t)"
  shows "in_ranges N (ins e t)"
proof -
  from mset_ids_ins [of e t] have "mset (ids (ins e t)) = mset (ids t)
      \<or> mset (ids (ins e t)) = mset (fst e # ids t)" by simp
  then show ?thesis
  proof
    assume "mset (ids (ins e t)) = mset (ids t)"
    then have "distinct (ids (ins e t)) = distinct (ids t)" "set (ids (ins e t)) = set (ids t)"
      by (auto dest: mset_eq_imp_distinct_iff mset_eq_setD)
    with assms(1) show ?thesis by (simp add: in_ranges_def)
  next
    assume "mset (ids (ins e t)) = mset (fst e # ids t)"
    then have "distinct (ids (ins e t)) = distinct (fst e # ids t)"
      "set (ids (ins e t)) = set (fst e # ids t)"
      by (blast dest: mset_eq_imp_distinct_iff mset_eq_setD)+
    with assms show ?thesis by (simp add: in_ranges_def)
  qed
qed

text \<open>The tests on 32-bit heights of a represented node.\<close>

lemma repr_tests:
  assumes "repr V (Node l a r) i" and "in_ranges N (Node l a r)"
  shows "left_height (V i) > right_height (V i) \<and> left_height (V i) - right_height (V i) > 1
      \<longleftrightarrow> height l > height r + 1"
    "right_height (V i) > left_height (V i) \<and> right_height (V i) - left_height (V i) > 1
      \<longleftrightarrow> height r > height l + 1"
    "left_height (V i) \<ge> right_height (V i) \<longleftrightarrow> height l \<ge> height r"
    "right_height (V i) \<ge> left_height (V i) \<longleftrightarrow> height r \<ge> height l"
  unfolding repr_fields(1,2) [OF assms(1)]
  using heights_apart in_ranges_height [OF assms(2)] of_nat_less_u32
  by (blast, blast, simp_all flip: not_less)

text \<open>Changes of a node that leave its identifier and its sizes.\<close>

definition keeps_node :: "(bytes tree_node \<Rightarrow> bytes tree_node) \<Rightarrow> bool" where
  "keeps_node f \<longleftrightarrow> (\<forall>n. node_id (f n) = node_id n \<and> (wf_node n \<longrightarrow> wf_node (f n)))"

context keeping_ram
begin

section \<open>Rotations\<close>

text \<open>
  A rotation reads a node and its child, changes both and writes both back. Neither change touches
  the identifier of a node.
\<close>

lemma rotation_calls:
  assumes E: "env_ok access writable E" and inv: "od_inv holds N m od"
    and ij: "in_range N i" "in_range N j" "i \<noteq> j" and own: "node_id (view m od i) = i" "node_id (view m od j) = j"
    and f: "keeps_node f" and g: "keeps_node g"
  shows "\<exists>od1 od2 od4 od6. read_node E i od = Inr (od_next od, od1) \<and> od_heap od1 (od_next od) = view m od i
    \<and> read_node E j od1 = Inr (Suc (od_next od), od2) \<and> od_heap od2 (Suc (od_next od)) = view m od j
    \<and> write_node E (od_next od) (set_node (od_next od) f od2) = Inr od4 \<and> od_heap od4 (od_next od) = f (view m od i)
    \<and> write_node E (Suc (od_next od)) (set_node (Suc (od_next od)) g od4) = Inr od6
    \<and> od_inv holds N m od6 \<and> view m od6 = (view m od)(i := f (view m od i), j := g (view m od j))
    \<and> od_heap od6 (Suc (od_next od)) = g (view m od j) \<and> Suc (od_next od) < od_next od6
    \<and> step (od_next od) od od6 2 2"
proof -
  let ?V = "view m od" and ?x = "od_next od"
  from read_node_view [OF E inv ij(1) own(1)] obtain od1 where
    r1: "read_node E i od = Inr (?x, od1)" "od_inv holds N m od1" "view m od1 = ?V"
      "od_heap od1 ?x = ?V i" "od_next od1 = Suc ?x" "step ?x od od1 1 0" by blast
  from read_node_view [OF E r1(2) ij(2)] own(2) r1(3,5) obtain od2 where
    r2: "read_node E j od1 = Inr (Suc ?x, od2)" "od_inv holds N m od2" "view m od2 = ?V"
      "od_heap od2 (Suc ?x) = ?V j" "od_next od2 = Suc (Suc ?x)" "step (Suc ?x) od1 od2 1 0" by auto
  have h2: "od_heap od2 ?x = ?V i" using r2(6) r1(4) by (simp add: step_def)
  have wf: "wf_node (?V i)" "wf_node (?V j)" using wf_view [OF inv] ij by (simp_all add: in_range_def)
  from write_node_view [OF r2(2), of ?x ?x i f] h2 r2(5) own(1) ij(1) wf(1) f obtain od4 where
    w4: "write_node E ?x (set_node ?x f od2) = Inr od4" "od_inv holds N m od4"
      "view m od4 = ?V(i := f (?V i))" "od_heap od4 = (od_heap od2)(?x := f (?V i))"
      "od_next od4 = Suc (Suc ?x)" "step ?x od2 od4 0 1" by (auto simp: r2(3) keeps_node_def)
  from write_node_view [OF w4(2), of ?x "Suc ?x" j g] w4(4,5) r2(4) own(2) ij(2) wf(2) g obtain od6 where
    w6: "write_node E (Suc ?x) (set_node (Suc ?x) g od4) = Inr od6" "od_inv holds N m od6"
      "view m od6 = (view m od4)(j := g (?V j))"
      "od_heap od6 = (od_heap od4)(Suc ?x := g (?V j))"
      "od_next od6 = Suc (Suc ?x)" "step ?x od4 od6 0 1" by (auto simp: keeps_node_def)
  have "step ?x od od6 2 2"
    using step_trans [OF step_trans [OF step_trans [OF r1(6) step_less [OF r2(6)]] w4(6)] w6(6)]
    by (simp add: numeral_2_eq_2)
  moreover have "view m od6 = ?V(i := f (?V i), j := g (?V j))" "od_heap od4 ?x = f (?V i)"
    "od_heap od6 (Suc ?x) = g (?V j)" "Suc ?x < od_next od6" using w4(3,4) w6(3-5) by simp_all
  ultimately show ?thesis using r1(1,4) r2(1,4) w4(1) w6(1,2) by blast
qed

lemma LeftRotate_view:
  assumes E: "env_ok access writable E" and inv: "od_inv holds N m od" and rng: "in_ranges N (Node l a (Node p b q))"
    and t: "repr (view m od) (Node l a (Node p b q)) i"
  shows "\<exists>x od'. LeftRotate E i od = Inr (x, od')
    \<and> outcome holds N m od x od' (rot_left (Node l a (Node p b q))) (2, 2)"
proof -
  let ?V = "view m od" and ?x = "od_next od"
  let ?j = "right_id (?V i)"
  have ab: "fst a = i" "node_id (?V i) = i" "fst b = ?j" "node_id (?V ?j) = ?j"
    using t by (cases a; cases b; auto)+
  have ij: "in_range N i" "in_range N ?j" "i \<noteq> ?j" using rng ab by (auto simp: in_ranges_def)
  let ?f = "\<lambda>n. n\<lparr>right_id := left_id (?V ?j), right_height := left_height (?V ?j)\<rparr>"
  let ?g = "\<lambda>n. n\<lparr>left_height := HEIGHT (?f (?V i)), left_id := i\<rparr>"
  have "keeps_node ?f" "keeps_node ?g" by (simp_all add: keeps_node_def wf_node_def)
  from rotation_calls [OF E inv ij ab(2,4) this] obtain od1 od2 od4 od6 where
    r: "read_node E i od = Inr (?x, od1)" "od_heap od1 ?x = ?V i"
      "read_node E ?j od1 = Inr (Suc ?x, od2)" "od_heap od2 (Suc ?x) = ?V ?j"
      "write_node E ?x (set_node ?x ?f od2) = Inr od4" "od_heap od4 ?x = ?f (?V i)"
      "write_node E (Suc ?x) (set_node (Suc ?x) ?g od4) = Inr od6" "od_inv holds N m od6"
    and V: "view m od6 = ?V(i := ?f (?V i), ?j := ?g (?V ?j))" "od_heap od6 (Suc ?x) = ?g (?V ?j)"
    and s: "Suc ?x < od_next od6" "step ?x od od6 2 2" by blast
  have "LeftRotate E i od = Inr (Suc ?x, od6)" using r by (simp add: LeftRotate_def Let_def)
  moreover have "repr (view m od6) (rot_left (Node l a (Node p b q))) ?j"
  proof -
    have "repr (view m od6) (Node (Node l a p) b q) ?j"
      by (rule repr_rot_left [OF t _ refl _ refl]) (use rng V(1) ij(3) in \<open>simp_all add: in_ranges_def\<close>)
    then show ?thesis by (simp add: rot_left_def)
  qed
  moreover have "od_heap od6 (Suc ?x) = view m od6 ?j" "node_id (od_heap od6 (Suc ?x)) = ?j"
    using V ab(4) by simp_all
  moreover have "\<forall>e. e \<notin> set (ids (Node l a (Node p b q))) \<longrightarrow> view m od6 e = ?V e" using V(1) ab(1,3) by auto
  ultimately show ?thesis
    using r(8) s by (intro exI [of _ "Suc ?x"] exI [of _ od6]) (auto simp: outcome_def)
qed

lemma RightRotate_view:
  assumes E: "env_ok access writable E" and inv: "od_inv holds N m od" and rng: "in_ranges N (Node (Node p b q) a r)"
    and t: "repr (view m od) (Node (Node p b q) a r) i"
  shows "\<exists>x od'. RightRotate E i od = Inr (x, od')
    \<and> outcome holds N m od x od' (rot_right (Node (Node p b q) a r)) (2, 2)"
proof -
  let ?V = "view m od" and ?x = "od_next od"
  let ?j = "left_id (?V i)"
  have ab: "fst a = i" "node_id (?V i) = i" "fst b = ?j" "node_id (?V ?j) = ?j"
    using t by (cases a; cases b; auto)+
  have ij: "in_range N i" "in_range N ?j" "i \<noteq> ?j" using rng ab by (auto simp: in_ranges_def)
  let ?f = "\<lambda>n. n\<lparr>left_id := right_id (?V ?j), left_height := right_height (?V ?j)\<rparr>"
  let ?g = "\<lambda>n. n\<lparr>right_height := HEIGHT (?f (?V i)), right_id := i\<rparr>"
  have "keeps_node ?f" "keeps_node ?g" by (simp_all add: keeps_node_def wf_node_def)
  from rotation_calls [OF E inv ij ab(2,4) this] obtain od1 od2 od4 od6 where
    r: "read_node E i od = Inr (?x, od1)" "od_heap od1 ?x = ?V i"
      "read_node E ?j od1 = Inr (Suc ?x, od2)" "od_heap od2 (Suc ?x) = ?V ?j"
      "write_node E ?x (set_node ?x ?f od2) = Inr od4" "od_heap od4 ?x = ?f (?V i)"
      "write_node E (Suc ?x) (set_node (Suc ?x) ?g od4) = Inr od6" "od_inv holds N m od6"
    and V: "view m od6 = ?V(i := ?f (?V i), ?j := ?g (?V ?j))" "od_heap od6 (Suc ?x) = ?g (?V ?j)"
    and s: "Suc ?x < od_next od6" "step ?x od od6 2 2" by blast
  have "RightRotate E i od = Inr (Suc ?x, od6)" using r by (simp add: RightRotate_def Let_def)
  moreover have "repr (view m od6) (rot_right (Node (Node p b q) a r)) ?j"
  proof -
    have "repr (view m od6) (Node p b (Node q a r)) ?j"
      by (rule repr_rot_right [OF t _ refl _ refl]) (use rng V(1) ij(3) in \<open>simp_all add: in_ranges_def\<close>)
    then show ?thesis by (simp add: rot_right_def)
  qed
  moreover have "od_heap od6 (Suc ?x) = view m od6 ?j" "node_id (od_heap od6 (Suc ?x)) = ?j"
    using V ab(4) by simp_all
  moreover have "\<forall>e. e \<notin> set (ids (Node (Node p b q) a r)) \<longrightarrow> view m od6 e = ?V e" using V(1) ab(1,3) by auto
  ultimately show ?thesis
    using r(8) s by (intro exI [of _ "Suc ?x"] exI [of _ od6]) (auto simp: outcome_def)
qed

lemma outcome_after:
  assumes "step (od_next od) od od1 r w" and "\<forall>j. j \<notin> set (ids t) \<longrightarrow> view m od1 j = view m od j"
    and "outcome holds N m od1 y od2 t c"
  shows "outcome holds N m od y od2 t (plus2 (r, w) c)"
proof -
  have "step (od_next od) od1 od2 (fst c) (snd c)"
    using assms(1,3) by (auto simp: outcome_def step_def)
  from step_trans [OF assms(1) this] assms(2,3) show ?thesis by (simp add: outcome_def plus2_def)
qed

text \<open>
  A node was read, the outcome of an operation replaces its left or its right subtree, and the
  node is written back.
\<close>

lemma node_rewritten:
  assumes x: "od_heap od1 x = view m od1 i" "x < od_next od1" "od_next od \<le> x" and inv: "od_inv holds N m od1"
    and s: "step (od_next od) od od1 r w" "view m od1 = view m od"
    and i: "in_range N i" "node_id (view m od i) = i"
    and od2: "od_inv holds N m od2" "step (od_next od1) od1 od2 r' w'" and f: "keeps_node f"
  shows "\<exists>od3. write_node E x (set_node x f od2) = Inr od3 \<and> od_inv holds N m od3
    \<and> view m od3 = (view m od2)(i := f (view m od i)) \<and> od_heap od3 x = f (view m od i) \<and> x < od_next od3
    \<and> step (od_next od) od od3 (r + r') (w + 1 + w')"
proof -
  have hx: "od_heap od2 x = view m od i" "x < od_next od2" using od2(2) x s(2) by (auto simp: step_def)
  have wf: "wf_node (view m od i)" using wf_view [OF inv] i(1) by (simp add: in_range_def s(2))
  from write_node_view [OF od2(1) x(3) hx(2), of i f] hx(1) i wf f obtain od3 where
    w: "write_node E x (set_node x f od2) = Inr od3" "od_inv holds N m od3"
      "view m od3 = (view m od2)(i := f (view m od i))" "od_heap od3 = (od_heap od2)(x := f (view m od i))"
      "od_next od3 = od_next od2" "step (od_next od) od2 od3 0 1" by (auto simp: keeps_node_def)
  have "step (od_next od) od1 od2 r' w'" using s(1) od2(2) by (auto simp: step_def)
  from step_trans [OF step_trans [OF s(1) this] w(6)]
  have "step (od_next od) od od3 (r + r') (w + 1 + w')" by (simp add: algebra_simps)
  with w(1-5) hx(2) show ?thesis by simp
qed

lemma replace_left:
  assumes x: "od_heap od1 x = view m od1 i" "x < od_next od1" "od_next od \<le> x" and inv: "od_inv holds N m od1"
    and s: "step (od_next od) od od1 r w" "view m od1 = view m od"
    and t: "repr (view m od) (Node l a q) i" and rng: "in_ranges N (Node l' a q)"
    and out: "outcome holds N m od1 y od2 l' c" "l' \<noteq> Leaf"
  shows "\<exists>od3. write_node E x (set_node x (\<lambda>n. n\<lparr>left_id := node_id (od_heap od2 y),
        left_height := HEIGHT (od_heap od2 y)\<rparr>) od2) = Inr od3
    \<and> outcome holds N m od x od3 (Node l' a q) (plus2 (r, w + 1) c) \<and> node_id (od_heap od3 x) = i"
proof -
  let ?j = "node_id (od_heap od2 y)" and ?V = "view m od"
  from out(1) have o: "od_inv holds N m od2" "step (od_next od1) od1 od2 (fst c) (snd c)"
    "od_heap od2 y = view m od2 ?j" "repr (view m od2) l' ?j"
    "\<forall>j. j \<notin> set (ids l') \<longrightarrow> view m od2 j = ?V j" by (simp_all add: outcome_def s(2))
  let ?f = "\<lambda>n. n\<lparr>left_id := ?j, left_height := HEIGHT (od_heap od2 y)\<rparr>"
  have i: "fst a = i" "node_id (?V i) = i" using repr_root [OF t] by simp_all
  have ir: "in_range N i" using in_ranges_Node [OF rng] i by simp
  have "keeps_node ?f" by (simp add: keeps_node_def wf_node_def)
  from node_rewritten [OF x inv s ir i(2) o(1,2) this, of E] obtain od3 where
    w: "write_node E x (set_node x ?f od2) = Inr od3" "od_inv holds N m od3"
      "view m od3 = (view m od2)(i := ?f (?V i))" "od_heap od3 x = ?f (?V i)" "x < od_next od3"
      "step (od_next od) od od3 (r + fst c) (w + 1 + snd c)" by blast
  have "repr (view m od3) (Node l' a q) i"
    by (rule repr_new_left [OF t _ o(4) out(2) _ o(5)])
      (use rng in_ranges_size [of N l'] in_ranges_Node [OF rng] w(3) o(3) in \<open>simp_all add: in_ranges_def\<close>)
  moreover have "\<forall>j. j \<notin> set (ids (Node l' a q)) \<longrightarrow> view m od3 j = ?V j"
    using o(5) w(3) i(1) by auto
  moreover have "view m od3 i = ?f (?V i)" using w(3) by simp
  ultimately show ?thesis
    using w(1,2,4-6) i(2) by (intro exI [of _ od3]) (auto simp: outcome_def plus2_def)
qed

lemma replace_right:
  assumes x: "od_heap od1 x = view m od1 i" "x < od_next od1" "od_next od \<le> x" and inv: "od_inv holds N m od1"
    and s: "step (od_next od) od od1 r w" "view m od1 = view m od"
    and t: "repr (view m od) (Node l a q) i" and rng: "in_ranges N (Node l a q')"
    and out: "outcome holds N m od1 y od2 q' c" "q' \<noteq> Leaf"
  shows "\<exists>od3. write_node E x (set_node x (\<lambda>n. n\<lparr>right_id := node_id (od_heap od2 y),
        right_height := HEIGHT (od_heap od2 y)\<rparr>) od2) = Inr od3
    \<and> outcome holds N m od x od3 (Node l a q') (plus2 (r, w + 1) c) \<and> node_id (od_heap od3 x) = i"
proof -
  let ?j = "node_id (od_heap od2 y)" and ?V = "view m od"
  from out(1) have o: "od_inv holds N m od2" "step (od_next od1) od1 od2 (fst c) (snd c)"
    "od_heap od2 y = view m od2 ?j" "repr (view m od2) q' ?j"
    "\<forall>j. j \<notin> set (ids q') \<longrightarrow> view m od2 j = ?V j" by (simp_all add: outcome_def s(2))
  let ?f = "\<lambda>n. n\<lparr>right_id := ?j, right_height := HEIGHT (od_heap od2 y)\<rparr>"
  have i: "fst a = i" "node_id (?V i) = i" using repr_root [OF t] by simp_all
  have ir: "in_range N i" using in_ranges_Node [OF rng] i by simp
  have "keeps_node ?f" by (simp add: keeps_node_def wf_node_def)
  from node_rewritten [OF x inv s ir i(2) o(1,2) this, of E] obtain od3 where
    w: "write_node E x (set_node x ?f od2) = Inr od3" "od_inv holds N m od3"
      "view m od3 = (view m od2)(i := ?f (?V i))" "od_heap od3 x = ?f (?V i)" "x < od_next od3"
      "step (od_next od) od od3 (r + fst c) (w + 1 + snd c)" by blast
  have "repr (view m od3) (Node l a q') i"
    by (rule repr_new_right [OF t _ o(4) out(2) _ o(5)])
      (use rng in_ranges_size [of N q'] in_ranges_Node [OF rng] w(3) o(3) in \<open>simp_all add: in_ranges_def\<close>)
  moreover have "\<forall>j. j \<notin> set (ids (Node l a q')) \<longrightarrow> view m od3 j = ?V j"
    using o(5) w(3) i(1) by auto
  moreover have "view m od3 i = ?f (?V i)" using w(3) by simp
  ultimately show ?thesis
    using w(1,2,4-6) i(2) by (intro exI [of _ od3]) (auto simp: outcome_def plus2_def)
qed

lemma LeftRightRotate_view:
  assumes E: "env_ok access writable E" and inv: "od_inv holds N m od"
    and rng: "in_ranges N (Node (Node p b (Node u c v)) a r)"
    and t: "repr (view m od) (Node (Node p b (Node u c v)) a r) i"
  shows "\<exists>x od'. LeftRightRotate E i od = Inr (x, od')
    \<and> outcome holds N m od x od' (rot_left_right (Node (Node p b (Node u c v)) a r)) (5, 5)"
proof -
  let ?V = "view m od" and ?x = "od_next od" and ?l = "Node p b (Node u c v)"
  let ?l' = "Node (Node p b u) c v"
  have i: "fst a = i" "node_id (?V i) = i" using repr_root [OF t] by simp_all
  have ir: "in_range N i" using in_ranges_Node [OF rng] i by simp
  from read_node_view [OF E inv ir i(2)] obtain od1 where
    r1: "read_node E i od = Inr (?x, od1)" "od_inv holds N m od1" "view m od1 = ?V"
      "od_heap od1 ?x = ?V i" "od_next od1 = Suc ?x" "step ?x od od1 1 0" by blast
  have "repr (view m od1) ?l (left_id (?V i))" using t unfolding r1(3) by (cases a) simp
  from LeftRotate_view [OF E r1(2) _ this] in_ranges_Node [OF rng] obtain y od2 where
    r2: "LeftRotate E (left_id (?V i)) od1 = Inr (y, od2)" "outcome holds N m od1 y od2 ?l' (2, 2)"
    by (auto simp: rot_left_def)
  have rng': "in_ranges N (Node ?l' a r)" using rng by (simp add: in_ranges_def)
  from replace_left [OF _ _ _ r1(2,6,3) t rng' r2(2)] r1(3-5) obtain od3 where
    w: "write_node E ?x (set_node ?x (\<lambda>n. n\<lparr>left_id := node_id (od_heap od2 y),
        left_height := HEIGHT (od_heap od2 y)\<rparr>) od2) = Inr od3"
      "outcome holds N m od ?x od3 (Node ?l' a r) (plus2 (1, 1) (2, 2))" "node_id (od_heap od3 ?x) = i"
    by auto
  have o: "od_inv holds N m od3" "step ?x od od3 3 3" "repr (view m od3) (Node ?l' a r) i"
    "\<forall>j. j \<notin> set (ids (Node ?l' a r)) \<longrightarrow> view m od3 j = ?V j"
    using w(2,3) by (simp_all add: outcome_def plus2_def numeral_3_eq_3)
  from RightRotate_view [OF E o(1) rng' o(3)] obtain z od4 where
    r4: "RightRotate E i od3 = Inr (z, od4)" "outcome holds N m od3 z od4 (rot_right (Node ?l' a r)) (2, 2)"
    by blast
  have "LeftRightRotate E i od = Inr (z, od4)"
    using r1(1,4) r2(1) w(1) r4(1) by (simp add: LeftRightRotate_def Let_def)
  moreover have "outcome holds N m od z od4 (rot_right (Node ?l' a r)) (plus2 (3, 3) (2, 2))"
    using o(4) by (intro outcome_after [OF o(2) _ r4(2)]) simp
  ultimately show ?thesis by (auto simp: rot_left_right_def rot_left_def plus2_def)
qed

lemma RightLeftRotate_view:
  assumes E: "env_ok access writable E" and inv: "od_inv holds N m od"
    and rng: "in_ranges N (Node l a (Node (Node u c v) b q))"
    and t: "repr (view m od) (Node l a (Node (Node u c v) b q)) i"
  shows "\<exists>x od'. RightLeftRotate E i od = Inr (x, od')
    \<and> outcome holds N m od x od' (rot_right_left (Node l a (Node (Node u c v) b q))) (5, 5)"
proof -
  let ?V = "view m od" and ?x = "od_next od" and ?r = "Node (Node u c v) b q"
  let ?r' = "Node u c (Node v b q)"
  have i: "fst a = i" "node_id (?V i) = i" using repr_root [OF t] by simp_all
  have ir: "in_range N i" using in_ranges_Node [OF rng] i by simp
  from read_node_view [OF E inv ir i(2)] obtain od1 where
    r1: "read_node E i od = Inr (?x, od1)" "od_inv holds N m od1" "view m od1 = ?V"
      "od_heap od1 ?x = ?V i" "od_next od1 = Suc ?x" "step ?x od od1 1 0" by blast
  have "repr (view m od1) ?r (right_id (?V i))" using t unfolding r1(3) by (cases a) simp
  from RightRotate_view [OF E r1(2) _ this] in_ranges_Node [OF rng] obtain y od2 where
    r2: "RightRotate E (right_id (?V i)) od1 = Inr (y, od2)" "outcome holds N m od1 y od2 ?r' (2, 2)"
    by (auto simp: rot_right_def)
  have rng': "in_ranges N (Node l a ?r')" using rng by (simp add: in_ranges_def)
  from replace_right [OF _ _ _ r1(2,6,3) t rng' r2(2)] r1(3-5) obtain od3 where
    w: "write_node E ?x (set_node ?x (\<lambda>n. n\<lparr>right_id := node_id (od_heap od2 y),
        right_height := HEIGHT (od_heap od2 y)\<rparr>) od2) = Inr od3"
      "outcome holds N m od ?x od3 (Node l a ?r') (plus2 (1, 1) (2, 2))" "node_id (od_heap od3 ?x) = i"
    by auto
  have o: "od_inv holds N m od3" "step ?x od od3 3 3" "repr (view m od3) (Node l a ?r') i"
    "\<forall>j. j \<notin> set (ids (Node l a ?r')) \<longrightarrow> view m od3 j = ?V j"
    using w(2,3) by (simp_all add: outcome_def plus2_def numeral_3_eq_3)
  from LeftRotate_view [OF E o(1) rng' o(3)] obtain z od4 where
    r4: "LeftRotate E i od3 = Inr (z, od4)" "outcome holds N m od3 z od4 (rot_left (Node l a ?r')) (2, 2)"
    by blast
  have "RightLeftRotate E i od = Inr (z, od4)"
    using r1(1,4) r2(1) w(1) r4(1) by (simp add: RightLeftRotate_def Let_def)
  moreover have "outcome holds N m od z od4 (rot_left (Node l a ?r')) (plus2 (3, 3) (2, 2))"
    using o(4) by (intro outcome_after [OF o(2) _ r4(2)]) simp
  ultimately show ?thesis by (auto simp: rot_right_left_def rot_right_def plus2_def)
qed

text \<open>A node is read after an outcome, and an operation that starts from there follows.\<close>

lemma read_then:
  assumes E: "env_ok access writable E" and out: "outcome holds N m od x od1 t c"
    and sub: "repr (view m od1) (Node u b v) j" "in_ranges N (Node u b v)"
    and F: "\<And>od2. od_inv holds N m od2 \<Longrightarrow> view m od2 = view m od1 \<Longrightarrow>
        od_heap od2 (od_next od1) = view m od1 j \<Longrightarrow>
        \<exists>y od3. F (od_next od1) od2 = Inr (y, od3) \<and> outcome holds N m od2 y od3 t' d"
    and ids: "ids t' = ids t" and cc: "cc = plus2 (1, 0) d"
  shows "\<exists>y od2. andThen (read_node E j od1) (\<lambda>(z, od2). F z od2) = Inr (y, od2)
      \<and> outcome holds N m od y od2 t' (plus2 c cc)"
proof -
  from out have o: "od_inv holds N m od1" "step (od_next od) od od1 (fst c) (snd c)"
    "\<forall>j. j \<notin> set (ids t) \<longrightarrow> view m od1 j = view m od j" by (simp_all add: outcome_def)
  have jj: "fst b = j" "node_id (view m od1 j) = j" using repr_root [OF sub(1)] by simp_all
  have "in_range N j" using in_ranges_Node [OF sub(2)] jj(1) by simp
  from read_node_view [OF E o(1) this jj(2)] obtain od2 where
    r: "read_node E j od1 = Inr (od_next od1, od2)" "od_inv holds N m od2" "view m od2 = view m od1"
      "od_heap od2 (od_next od1) = view m od1 j" "step (od_next od1) od1 od2 1 0" by blast
  from F [OF r(2-4)] obtain y od3 where
    f: "F (od_next od1) od2 = Inr (y, od3)" "outcome holds N m od2 y od3 t' d" by blast
  have "step (od_next od) od1 od2 1 0" using r(5) o(2) by (auto simp: step_def)
  from step_trans [OF o(2) this] have "step (od_next od) od od2 (fst c + 1) (snd c)" by simp
  from outcome_after [OF this _ f(2)] o(3) r(3) ids
  have "outcome holds N m od y od3 t' (plus2 (fst c + 1, snd c) d)" by simp
  moreover have "plus2 (fst c + 1, snd c) d = plus2 c cc" by (simp add: plus2_def cc)
  ultimately show ?thesis using r(1) f(1) by auto
qed

text \<open>\<open>Balance\<close> with too high a subtree on the left, on the right, and on neither side.\<close>

lemma balance_left:
  assumes E: "env_ok access writable E" and out: "outcome holds N m od x od1 (Node l a q) c"
    and rng: "in_ranges N (Node l a q)" and L: "height l > height q + 1"
  shows "\<exists>y od2. Balance E x od1 = Inr (y, od2)
    \<and> outcome holds N m od y od2 (bal (Node l a q)) (plus2 c (bal_cost (Node l a q)))"
proof -
  define i where "i = node_id (od_heap od1 x)"
  let ?t = "Node l a q" and ?V = "view m od1"
  from out have o: "od_heap od1 x = ?V i" "repr ?V ?t i" by (simp_all add: outcome_def i_def)
  note n = repr_fields [OF o(2)] and tests = repr_tests [OF o(2) rng]
  from L obtain u b v where l: "l = Node u b v" by (cases l) auto
  let ?j = "left_id (?V i)"
  have s: "repr ?V (Node u b v) ?j" "in_ranges N (Node u b v)" using n(3) in_ranges_Node [OF rng] l by auto
  have B: "Balance E x od1 = andThen (read_node E ?j od1) (\<lambda>(z, od2).
      if left_height (od_heap od2 z) \<ge> right_height (od_heap od2 z)
      then RightRotate E i od2 else LeftRightRotate E i od2)"
    unfolding Balance_def Let_def o(1) n(5) using L tests(1) by simp
  show ?thesis unfolding B
  proof (rule read_then [OF E out s])
    fix od2 assume r: "od_inv holds N m od2" "view m od2 = ?V" "od_heap od2 (od_next od1) = ?V ?j"
    have t2: "repr (view m od2) ?t i" using o(2) by (simp only: r(2))
    show "\<exists>y od3. (if left_height (od_heap od2 (od_next od1)) \<ge> right_height (od_heap od2 (od_next od1))
        then RightRotate E i od2 else LeftRightRotate E i od2) = Inr (y, od3)
      \<and> outcome holds N m od2 y od3 (bal ?t) (if height u \<ge> height v then (2, 2) else (5, 5))"
    proof (cases "height u \<ge> height v")
      case True
      with RightRotate_view [OF E r(1)] rng t2 L repr_tests(3) [OF s] r(3) show ?thesis by (simp add: l)
    next
      case False
      then obtain v1 e v2 where v: "v = Node v1 e v2" by (cases v) auto
      with LeftRightRotate_view [OF E r(1)] rng t2 L repr_tests(3) [OF s] r(3) False
      show ?thesis by (simp add: l)
    qed
  qed (use L in \<open>auto simp: l plus2_def simp del: bal.simps\<close>)
qed

lemma balance_right:
  assumes E: "env_ok access writable E" and out: "outcome holds N m od x od1 (Node l a q) c"
    and rng: "in_ranges N (Node l a q)" and R: "height q > height l + 1"
  shows "\<exists>y od2. Balance E x od1 = Inr (y, od2)
    \<and> outcome holds N m od y od2 (bal (Node l a q)) (plus2 c (bal_cost (Node l a q)))"
proof -
  define i where "i = node_id (od_heap od1 x)"
  let ?t = "Node l a q" and ?V = "view m od1"
  from out have o: "od_heap od1 x = ?V i" "repr ?V ?t i" by (simp_all add: outcome_def i_def)
  note n = repr_fields [OF o(2)] and tests = repr_tests [OF o(2) rng]
  from R obtain u b v where q: "q = Node u b v" by (cases q) auto
  let ?j = "right_id (?V i)"
  have s: "repr ?V (Node u b v) ?j" "in_ranges N (Node u b v)" using n(4) in_ranges_Node [OF rng] q by auto
  have B: "Balance E x od1 = andThen (read_node E ?j od1) (\<lambda>(z, od2).
      if right_height (od_heap od2 z) \<ge> left_height (od_heap od2 z)
      then LeftRotate E i od2 else RightLeftRotate E i od2)"
    unfolding Balance_def Let_def o(1) n(5) using R tests(1,2) by auto
  show ?thesis unfolding B
  proof (rule read_then [OF E out s])
    fix od2 assume r: "od_inv holds N m od2" "view m od2 = ?V" "od_heap od2 (od_next od1) = ?V ?j"
    have t2: "repr (view m od2) ?t i" using o(2) by (simp only: r(2))
    show "\<exists>y od3. (if right_height (od_heap od2 (od_next od1)) \<ge> left_height (od_heap od2 (od_next od1))
        then LeftRotate E i od2 else RightLeftRotate E i od2) = Inr (y, od3)
      \<and> outcome holds N m od2 y od3 (bal ?t) (if height v \<ge> height u then (2, 2) else (5, 5))"
    proof (cases "height v \<ge> height u")
      case True
      with LeftRotate_view [OF E r(1)] rng t2 R repr_tests(4) [OF s] r(3) show ?thesis by (simp add: q)
    next
      case False
      then obtain v1 e v2 where v: "u = Node v1 e v2" by (cases u) auto
      with RightLeftRotate_view [OF E r(1)] rng t2 R repr_tests(4) [OF s] r(3) False
      show ?thesis by (simp add: q)
    qed
  qed (use R in \<open>auto simp: q plus2_def simp del: bal.simps\<close>)
qed

lemma Balance_view:
  assumes E: "env_ok access writable E" and out: "outcome holds N m od x od1 (Node l a q) c"
    and rng: "in_ranges N (Node l a q)"
  shows "\<exists>y od2. Balance E x od1 = Inr (y, od2)
    \<and> outcome holds N m od y od2 (bal (Node l a q)) (plus2 c (bal_cost (Node l a q)))"
proof -
  consider (L) "height l > height q + 1" | (R) "height q > height l + 1" | (N) "\<not> height l > height q + 1"
    "\<not> height q > height l + 1" by blast
  then show ?thesis
  proof cases
    case N
    let ?i = "node_id (od_heap od1 x)"
    from out have o: "od_heap od1 x = view m od1 ?i" "repr (view m od1) (Node l a q) ?i" by (simp_all add: outcome_def)
    from repr_tests(1,2) [OF o(2) rng] N have "Balance E x od1 = Inr (x, od1)"
      unfolding o(1) [symmetric] by (auto simp: Balance_def Let_def)
    with N out show ?thesis by (simp add: plus2_def)
  qed (use balance_left [OF E out rng] balance_right [OF E out rng] in blast)+
qed

section \<open>Finding\<close>

lemma InternalFind_view:
  assumes E: "env_ok access writable E"
  shows "od_inv holds N m od \<Longrightarrow> in_ranges N t \<Longrightarrow> repr (view m od) t i \<Longrightarrow> height t \<le> fuel \<Longrightarrow>
    \<exists>r od'. InternalFind E fuel key i od = Inr (r, od') \<and> od_inv holds N m od' \<and> view m od' = view m od
      \<and> step (od_next od) od od' (find_cost key t) 0
      \<and> (case find_entry key t of None \<Rightarrow> r = None
         | Some e \<Rightarrow> \<exists>p. r = Some p \<and> od_heap od' p = view m od (fst e))"
proof (induction t arbitrary: i fuel od)
  case Leaf
  then show ?case by (subst InternalFind.simps) (simp add: invalid_mask_def)
next
  case (Node l a q)
  let ?V = "view m od" and ?x = "od_next od"
  note n = repr_fields [OF Node.prems(3)]
  obtain n' where f: "fuel = Suc n'" using Node.prems(4) by (cases fuel) auto
  have ir: "in_range N i" using in_ranges_Node [OF Node.prems(2)] n(6) by simp
  from read_node_view [OF E Node.prems(1) ir n(5)] obtain od1 where
    r1: "read_node E i od = Inr (?x, od1)" "od_inv holds N m od1" "view m od1 = ?V"
      "od_heap od1 ?x = ?V i" "step ?x od od1 1 0" by blast
  have rec: "InternalFind E fuel key i od =
      (if ent_key a = key then Inr (Some ?x, od1)
       else if ent_key a < key then InternalFind E n' key (right_id (?V i)) od1
       else InternalFind E n' key (left_id (?V i)) od1)"
    using r1(1,4) ir by (subst InternalFind.simps) (simp add: f in_range_def invalid_mask_def n(7) Let_def)
  have down: "\<exists>r od'. InternalFind E n' key j od1 = Inr (r, od') \<and> od_inv holds N m od'
      \<and> view m od' = ?V \<and> step ?x od od' (Suc (find_cost key s)) 0
      \<and> (case find_entry key s of None \<Rightarrow> r = None
         | Some e \<Rightarrow> \<exists>p. r = Some p \<and> od_heap od' p = ?V (fst e))"
    if IH: "\<exists>r od'. InternalFind E n' key j od1 = Inr (r, od') \<and> od_inv holds N m od' \<and> view m od' = view m od1
      \<and> step (od_next od1) od1 od' (find_cost key s) 0
      \<and> (case find_entry key s of None \<Rightarrow> r = None
         | Some e \<Rightarrow> \<exists>p. r = Some p \<and> od_heap od' p = view m od1 (fst e))" for j s
  proof -
    from IH obtain r od' where h: "InternalFind E n' key j od1 = Inr (r, od')" "od_inv holds N m od'"
      "view m od' = ?V" "step (od_next od1) od1 od' (find_cost key s) 0"
      "case find_entry key s of None \<Rightarrow> r = None
         | Some e \<Rightarrow> \<exists>p. r = Some p \<and> od_heap od' p = ?V (fst e)" unfolding r1(3) by blast
    have "step ?x od1 od' (find_cost key s) 0" using h(4) r1(5) by (auto simp: step_def)
    from step_trans [OF r1(5) this] h show ?thesis by auto
  qed
  consider "ent_key a = key" | "ent_key a \<noteq> key" "ent_key a < key" | "ent_key a \<noteq> key" "\<not> ent_key a < key" by blast
  then show ?case
  proof cases
    case 1
    then show ?thesis using rec r1 n(6) by simp
  next
    case 2
    have "repr (view m od1) q (right_id (?V i))" using n(4) r1(3) by simp
    from down [OF Node.IH(2) [OF r1(2) _ this, of n']] 2 rec Node.prems(4) f in_ranges_Node [OF Node.prems(2)]
    show ?thesis by simp
  next
    case 3
    have "repr (view m od1) l (left_id (?V i))" using n(3) r1(3) by simp
    from down [OF Node.IH(1) [OF r1(2) _ this, of n']] 3 rec Node.prems(4) f in_ranges_Node [OF Node.prems(2)]
    show ?thesis by simp
  qed
qed

section \<open>Inserting\<close>

lemma insert_node_view:
  assumes inv: "od_inv holds N m od" and p: "p < od_next od" "node_id (od_heap od p) = i"
    and rng: "in_range N i" and wf: "wf_node (od_heap od p)"
  shows "\<exists>od'. OdsAccess E Ods_kInsert p od = Inr (OK, od') \<and> od_inv holds N m od'
    \<and> view m od' = (view m od)(i := od_heap od p) \<and> od_heap od' = od_heap od
    \<and> od_next od' = od_next od \<and> step n od od' 0 0"
proof -
  from inv have ok: "cache_ok (od_cache od)" by (simp add: od_inv_def)
  from Put_room [OF ok cache_room [OF inv rng], of p] obtain c where
    c: "Put i p (od_cache od) = Inr (None, c)" "cache_ok c" "max_size c = max_size (od_cache od)"
      "lookup c = (lookup (od_cache od))(i \<mapsto> p)" by auto
  let ?o = "od\<lparr>od_cache := c\<rparr>"
  have "od_inv holds N m ?o" using inv c p rng wf by (simp add: od_inv_def)
  moreover have "view m ?o = (view m od)(i := od_heap od p)"
    using c(4) by (auto simp: view_def fun_eq_iff split: option.split)
  ultimately show ?thesis
    using c(1,3) p(2) by (intro exI [of _ ?o]) (simp add: OdsAccessInsert_def step_def)
qed

text \<open>A new node: no children.\<close>

definition fresh_node :: "bytes tree_node \<Rightarrow> entry \<Rightarrow> bool" where
  "fresh_node nd e \<longleftrightarrow> wf_node nd \<and> node_id nd = fst e \<and> node_key nd = ent_key e
     \<and> node_value nd = snd (snd e) \<and> left_id nd = 0 \<and> right_id nd = 0
     \<and> left_height nd = 0 \<and> right_height nd = 0"

text \<open>A new node becomes the tree where there was none.\<close>

lemma insert_leaf:
  assumes inv: "od_inv holds N m od" and r: "repr (view m od) Leaf i" and p: "np < od_next od"
    and nd: "fresh_node (od_heap od np) e" and j: "in_range N (fst e)"
  shows "\<exists>x od'. InternalInsert E fuel np i od = Inr (x, od') \<and> outcome holds N m od x od' (Node Leaf e Leaf) (0, 0)"
proof -
  let ?nd = "od_heap od np"
  from nd have n: "node_id ?nd = fst e" "wf_node ?nd" by (simp_all add: fresh_node_def)
  from insert_node_view [OF inv p n(1) j n(2), of E] obtain od' where
    o: "OdsAccess E Ods_kInsert np od = Inr (OK, od')" "od_inv holds N m od'"
      "view m od' = (view m od)(fst e := ?nd)" "od_heap od' = od_heap od" "od_next od' = od_next od"
      "step (od_next od) od od' 0 0" by blast
  have "InternalInsert E fuel np i od = Inr (np, od')"
    using o(1) r by (subst InternalInsert.simps) (simp add: invalid_mask_def CheckStatus_def)
  moreover have "repr (view m od') (Node Leaf e Leaf) (fst e)"
    using nd j o(3) by (cases e) (simp add: fresh_node_def in_range_def)
  ultimately show ?thesis
    using o p n(1) by (intro exI [of _ np] exI [of _ od']) (simp add: outcome_def)
qed

text \<open>
  The end of the three branches: the node read at first is written, with a new left subtree, a new
  right subtree or as it is, and balanced.
\<close>

lemma finish_insert:
  assumes E: "env_ok access writable E"
    and w: "write_node E x od2 = Inr od3" "outcome holds N m od x od3 (Node l a q) c" and rng: "in_ranges N (Node l a q)"
  shows "\<exists>z od4. andThen (write_node E x od2) (\<lambda>od. Balance E x od) = Inr (z, od4)
    \<and> outcome holds N m od z od4 (bal (Node l a q)) (plus2 c (bal_cost (Node l a q)))"
  using Balance_view [OF E w(2) rng] w(1) by auto

lemma finish_unchanged:
  assumes E: "env_ok access writable E" and inv: "od_inv holds N m od"
    and r1: "od_inv holds N m od1" "view m od1 = view m od" "od_heap od1 x = view m od i" "x = od_next od"
      "od_next od1 = Suc x" "step x od od1 1 0"
    and t: "repr (view m od) (Node l a q) i" and rng: "in_ranges N (Node l a q)"
  shows "\<exists>z od4. andThen (write_node E x od1) (\<lambda>od. Balance E x od) = Inr (z, od4)
    \<and> outcome holds N m od z od4 (bal (Node l a q)) (plus2 (1, 1) (bal_cost (Node l a q)))"
proof -
  note n = repr_fields [OF t]
  have ir: "in_range N i" using in_ranges_Node [OF rng] n(6) by simp
  have wf: "wf_node (view m od i)" using wf_view [OF inv] ir by (simp add: in_range_def)
  from write_node_view [OF r1(1), of x x i "\<lambda>n. n"] r1(2-5) n(5) ir wf obtain od3 where
    w: "write_node E x (set_node x (\<lambda>n. n) od1) = Inr od3" "od_inv holds N m od3"
      "view m od3 = view m od" "od_heap od3 = od_heap od1"
      "od_next od3 = od_next od1" "step x od1 od3 0 1" by auto
  have "set_node x (\<lambda>n. n) od1 = od1" by (simp add: set_node_def)
  with w(1) have w1: "write_node E x od1 = Inr od3" by (simp only:)
  have "step x od od3 1 1" using step_trans [OF r1(6) w(6)] by simp
  then have "outcome holds N m od x od3 (Node l a q) (1, 1)"
    using w(2-5) r1(3-5) t n(5) by (simp add: outcome_def)
  from finish_insert [OF E w1 this rng] show ?thesis .
qed

lemma ins_branches:
  "ent_key a < ent_key e \<Longrightarrow> ins e (Node l a q) = bal (Node l a (ins e q))
    \<and> ins_cost e (Node l a q) = plus2 (plus2 (1, 0 + 1) (ins_cost e q)) (bal_cost (Node l a (ins e q)))"
  "\<not> ent_key a < ent_key e \<Longrightarrow> ent_key e < ent_key a \<Longrightarrow> ins e (Node l a q) = bal (Node (ins e l) a q)
    \<and> ins_cost e (Node l a q) = plus2 (plus2 (1, 0 + 1) (ins_cost e l)) (bal_cost (Node (ins e l) a q))"
  "\<not> ent_key a < ent_key e \<Longrightarrow> \<not> ent_key e < ent_key a \<Longrightarrow> ins e (Node l a q) = bal (Node l a q)
    \<and> ins_cost e (Node l a q) = plus2 (1, 1) (bal_cost (Node l a q))"
  by (simp_all del: bal.simps bal_cost.simps add: plus2_assoc)

lemma InternalInsert_view:
  assumes E: "env_ok access writable E" and j: "in_range N (fst e)"
  shows "od_inv holds N m od \<Longrightarrow> in_ranges N t \<Longrightarrow> repr (view m od) t i \<Longrightarrow> height t \<le> fuel \<Longrightarrow>
    fst e \<notin> set (ids t) \<Longrightarrow> np < od_next od \<Longrightarrow> fresh_node (od_heap od np) e \<Longrightarrow>
    \<exists>x od'. InternalInsert E fuel np i od = Inr (x, od')
      \<and> outcome holds N m od x od' (ins e t) (ins_cost e t)"
proof (induction t arbitrary: i fuel od)
  case Leaf
  from insert_leaf [OF Leaf.prems(1,3,6,7) j] show ?case by simp
next
  case (Node l a q)
  let ?V = "view m od" and ?x = "od_next od"
  note n = repr_fields [OF Node.prems(3)] and sub = in_ranges_Node [OF Node.prems(2)]
  obtain n' where f: "fuel = Suc n'" using Node.prems(4) by (cases fuel) auto
  have ir: "in_range N i" using sub n(6) by simp
  from read_node_view [OF E Node.prems(1) ir n(5)] obtain od1 where
    r1: "read_node E i od = Inr (?x, od1)" "od_inv holds N m od1" "view m od1 = ?V"
      "od_heap od1 ?x = ?V i" "od_next od1 = Suc ?x" "step ?x od od1 1 0" by blast
  have np: "od_heap od1 np = od_heap od np" "np < od_next od1"
    using r1(5,6) Node.prems(6) by (simp_all add: step_def)
  have key: "node_key (od_heap od np) = ent_key e" using Node.prems(7) by (simp add: fresh_node_def)
  have rec: "InternalInsert E fuel np i od =
      andThen (if ent_key a < ent_key e
               then andThen (InternalInsert E n' np (right_id (?V i)) od1) (\<lambda>(cur, od2).
                 Inr (set_node ?x (\<lambda>x. x\<lparr>right_id := node_id (od_heap od2 cur),
                   right_height := HEIGHT (od_heap od2 cur)\<rparr>) od2))
               else if ent_key a > ent_key e
               then andThen (InternalInsert E n' np (left_id (?V i)) od1) (\<lambda>(cur, od2).
                 Inr (set_node ?x (\<lambda>x. x\<lparr>left_id := node_id (od_heap od2 cur),
                   left_height := HEIGHT (od_heap od2 cur)\<rparr>) od2))
               else Inr od1) (\<lambda>od3. andThen (write_node E ?x od3) (\<lambda>od4. Balance E ?x od4))"
    using r1(1,4) ir np(1)
    by (subst InternalInsert.simps) (simp add: f in_range_def invalid_mask_def n(7) key Let_def)
  have rng: "in_ranges N (ins e (Node l a q))" using in_ranges_ins [OF Node.prems(2) j Node.prems(5)] .
  consider (R) "ent_key a < ent_key e" | (L) "\<not> ent_key a < ent_key e" "ent_key e < ent_key a"
    | (N) "\<not> ent_key a < ent_key e" "\<not> ent_key e < ent_key a" by blast
  then show ?case
  proof cases
    case R
    note ins = ins_branches(1) [OF R, of l q]
    from Node.IH(2) [OF r1(2) _ n(4) [folded r1(3)], of n'] Node.prems(4,5,7) f np sub
    obtain y od2 where r2: "InternalInsert E n' np (right_id (?V i)) od1 = Inr (y, od2)"
      "outcome holds N m od1 y od2 (ins e q) (ins_cost e q)" by (auto simp: r1(3))
    have rt: "in_ranges N (Node l a (ins e q))" using rng ins by (simp only: in_ranges_bal)
    from replace_right [where x = ?x and E = E, OF _ _ _ r1(2,6,3) Node.prems(3) rt r2(2)] r1(3-5) obtain od3 where
      w: "write_node E ?x (set_node ?x (\<lambda>n. n\<lparr>right_id := node_id (od_heap od2 y),
          right_height := HEIGHT (od_heap od2 y)\<rparr>) od2) = Inr od3"
        "outcome holds N m od ?x od3 (Node l a (ins e q)) (plus2 (1, 0 + 1) (ins_cost e q))" by auto
    from finish_insert [OF E w rt] show ?thesis
      unfolding rec ins [THEN conjunct1] ins [THEN conjunct2] using R r2(1) by (simp del: bal.simps bal_cost.simps)
  next
    case L
    note ins = ins_branches(2) [OF L, of l q]
    from Node.IH(1) [OF r1(2) _ n(3) [folded r1(3)], of n'] Node.prems(4,5,7) f np sub
    obtain y od2 where r2: "InternalInsert E n' np (left_id (?V i)) od1 = Inr (y, od2)"
      "outcome holds N m od1 y od2 (ins e l) (ins_cost e l)" by (auto simp: r1(3))
    have rt: "in_ranges N (Node (ins e l) a q)" using rng ins by (simp only: in_ranges_bal)
    from replace_left [where x = ?x and E = E, OF _ _ _ r1(2,6,3) Node.prems(3) rt r2(2)] r1(3-5) obtain od3 where
      w: "write_node E ?x (set_node ?x (\<lambda>n. n\<lparr>left_id := node_id (od_heap od2 y),
          left_height := HEIGHT (od_heap od2 y)\<rparr>) od2) = Inr od3"
        "outcome holds N m od ?x od3 (Node (ins e l) a q) (plus2 (1, 0 + 1) (ins_cost e l))" by auto
    from finish_insert [OF E w rt] show ?thesis
      unfolding rec ins [THEN conjunct1] ins [THEN conjunct2] using L r2(1) by (simp del: bal.simps bal_cost.simps)
  next
    case N
    note ins = ins_branches(3) [OF N, of l q]
    from finish_unchanged [OF E Node.prems(1) r1(2-4) refl r1(5,6) Node.prems(3,2)]
    show ?thesis
      unfolding rec ins [THEN conjunct1] ins [THEN conjunct2] using N by (simp del: bal.simps bal_cost.simps)
  qed
qed

end

end
