(* ===== verification/Odict_Finalize.thy ===== *)
theory Odict_Finalize
  imports Odict_Correct
begin

text \<open>
  The end of every operation of the oblivious dictionary: padding reads, writing the cache back,
  padding writes.
\<close>

section \<open>Writing the cache back\<close>

context keeping_ram
begin

text \<open>One round of the loop.\<close>

lemma write_back_step:
  assumes E: "env_ok access writable E" and inv: "od_inv holds N m od"
    and l: "lru_table (od_cache od) = i # is"
  shows "\<exists>m' x b s c od1. access Operation_kWrite i x (od_backend od) = Inr ((OK, b), s) \<and> writable x \<and> m i \<noteq> None
    \<and> od1 = od\<lparr>od_backend := s, od_cache := c\<rparr> \<and> lru_table c = is \<and> max_size c = max_size (od_cache od)
    \<and> write_back_cache E od = write_back_cache E od1 \<and> od_inv holds N m' od1 \<and> view m' od1 = view m od"
proof -
  let ?c = "od_cache od"
  from inv have ok: "cache_ok ?c" and hold: "holds (od_backend od) m"
    and room: "\<And>i. unat i \<le> N \<Longrightarrow> \<exists>d. m i = Some d \<and> 64 \<le> length d"
    and ids: "\<And>i p. lookup ?c i = Some p \<Longrightarrow> in_range N i \<and> p < od_next od
          \<and> node_id (od_heap od p) = i \<and> wf_node (od_heap od p)"
    by (auto simp: od_inv_def)
  from Pop_ok [OF ok l] obtain p c where
    p: "lookup ?c i = Some p" "Get_front ?c = Inr p" "Pop ?c = Inr c" "cache_ok c"
      "lru_table c = is" "lookup c = (lookup ?c)(i := None)" "max_size c = max_size ?c" by blast
  have n: "in_range N i" "node_id (od_heap od p) = i" "wf_node (od_heap od p)" using ids [OF p(1)] by simp_all
  let ?junk = "env_block E (length (lru_table ?c))"
  let ?b = "node_block ?junk (od_heap od p)"
  have w: "writable ?b" "length (data ?junk) = 512" using E n(3) by (simp_all add: env_ok_def)
  from room [of i] n(1) obtain d where d: "m i = Some d" by (auto simp: in_range_def)
  from write_hit [OF hold d w(1)] obtain b s where
    wr: "access Operation_kWrite i ?b (od_backend od) = Inr ((OK, b), s)" "holds s (m(i \<mapsto> data ?b))" by blast
  let ?m = "m(i \<mapsto> data ?b)" and ?od = "od\<lparr>od_backend := s, od_cache := c\<rparr>"
  have db: "data ?b = node_bytes (od_heap od p) @ drop 64 (data ?junk)"
    using n(3) by (simp add: node_block_def overwrite_def)
  then have db': "bytes_node (data ?b) = od_heap od p" "64 \<le> length (data ?b)"
    using n(3) w(2) by (simp_all add: bytes_node_node_bytes)
  have inv: "od_inv holds N ?m ?od"
    unfolding od_inv_def
  proof (intro conjI allI impI)
    fix j q assume "lookup (od_cache ?od) j = Some q"
    then have "lookup ?c j = Some q" using p(6) by (simp split: if_splits)
    from ids [OF this] show "in_range N j" "q < od_next ?od" "node_id (od_heap ?od q) = j"
      "wf_node (od_heap ?od q)" by simp_all
  next
    fix j :: u32 assume "unat j \<le> N"
    from room [OF this] db'(2) show "\<exists>d. ?m j = Some d \<and> 64 \<le> length d" by auto
  qed (use inv wr(2) p(4,7) in \<open>simp_all add: od_inv_def\<close>)
  have view: "view ?m ?od = view m od"
    using p(1,6) db'(1) by (auto simp: view_def fun_eq_iff split: option.split)
  have "\<not> IsEmpty ?c" using p(1) by (auto simp: IsEmpty_def lookup_def)
  then have rec: "write_back_cache E od = write_back_cache E ?od"
    using p(2,3) wr(1) n(2) E by (subst write_back_cache.simps) (simp add: env_ok_def Let_def)
  show ?thesis
    using wr(1) w(1) d p(5,7) rec inv view
    by (intro exI [of _ ?m] exI [of _ ?b] exI [of _ b] exI [of _ s] exI [of _ c] exI [of _ ?od]) simp
qed

lemma write_back_end:
  "od_inv holds N m od \<Longrightarrow> lru_table (od_cache od) = [] \<Longrightarrow> IsEmpty (od_cache od) \<and> write_back_cache E od = Inr od"
  using cache_ok_length [of "od_cache od"]
  by (subst write_back_cache.simps) (simp add: od_inv_def IsEmpty_def)

lemma write_back_cache_view:
  assumes E: "env_ok access writable E"
  shows "od_inv holds N m od \<Longrightarrow>
    \<exists>m' od'. write_back_cache E od = Inr od' \<and> od_inv holds N m' od' \<and> IsEmpty (od_cache od')
      \<and> (\<forall>i. in_range N i \<longrightarrow> view m' od' i = view m od i)
      \<and> (\<forall>n. step n od od' 0 0) \<and> od_next od' = od_next od \<and> od_heap od' = od_heap od"
proof (induction "lru_table (od_cache od)" arbitrary: m od)
  case Nil
  then show ?case using write_back_end [OF Nil(2)] by (intro exI [of _ m] exI [of _ od]) simp
next
  case (Cons i "is")
  from write_back_step [OF E Cons.prems Cons(2) [symmetric]] obtain m1 s c od1 where
    w: "od1 = od\<lparr>od_backend := s, od_cache := c\<rparr>" "lru_table c = is" "max_size c = max_size (od_cache od)"
      "write_back_cache E od = write_back_cache E od1" "od_inv holds N m1 od1" "view m1 od1 = view m od" by blast
  from Cons(1) [OF _ w(5)] w(1,2) obtain m' od' where
    r: "write_back_cache E od1 = Inr od'" "od_inv holds N m' od'" "IsEmpty (od_cache od')"
      "\<forall>i. in_range N i \<longrightarrow> view m' od' i = view m1 od1 i"
      "\<forall>n. step n od1 od' 0 0" "od_next od' = od_next od1" "od_heap od' = od_heap od1" by auto
  have "step n od od' 0 0" for n using r(5,7) w(1,3) by (simp add: step_def)
  with r w show ?case by (intro exI [of _ m'] exI [of _ od']) simp
qed

section \<open>Padding\<close>

lemma pad_reads_view:
  assumes E: "env_ok access writable E"
  shows "od_inv holds N m od \<Longrightarrow> \<exists>s. pad_accesses E Operation_kRead n b od = Inr (OK, od\<lparr>od_backend := s\<rparr>)
    \<and> od_inv holds N m (od\<lparr>od_backend := s\<rparr>)"
proof (induction n arbitrary: b od)
  case 0
  then show ?case by (intro exI [of _ "od_backend od"]) simp
next
  case (Suc n)
  from Suc.prems obtain d where d: "holds (od_backend od) m" "m 0 = Some d"
    by (auto simp: od_inv_def) (metis unsigned_0 zero_le)
  from read_hit [OF d, of b] obtain b' s where
    r: "access Operation_kRead 0 b (od_backend od) = Inr ((OK, b'), s)" "holds s m" by blast
  have "od_inv holds N m (od\<lparr>od_backend := s\<rparr>)" using Suc.prems r(2) by (simp add: od_inv_def)
  from Suc.IH [OF this, of b'] r(1) E show ?case by (auto simp: env_ok_def)
qed

lemma pad_writes_view:
  assumes E: "env_ok access writable E" and b: "writable b" "length (data b) = 512"
  shows "od_inv holds N m od \<Longrightarrow> IsEmpty (od_cache od) \<Longrightarrow>
    \<exists>s m'. pad_accesses E Operation_kWrite n b od = Inr (OK, od\<lparr>od_backend := s\<rparr>)
    \<and> od_inv holds N m' (od\<lparr>od_backend := s\<rparr>) \<and> (\<forall>i. i \<noteq> 0 \<longrightarrow> m' i = m i)"
proof (induction n arbitrary: m od)
  case 0
  then show ?case by (intro exI [of _ "od_backend od"] exI [of _ m]) simp
next
  case (Suc n)
  from Suc.prems obtain d where d: "holds (od_backend od) m" "m 0 = Some d"
    by (auto simp: od_inv_def) (metis unsigned_0 zero_le)
  from write_hit [OF d b(1)] obtain b' s where
    r: "access Operation_kWrite 0 b (od_backend od) = Inr ((OK, b'), s)" "holds s (m(0 \<mapsto> data b))" by blast
  have b': "b' = b" using write_keeps [OF d(1) _ b(1) r(1)] d(2) by simp
  have "od_inv holds N (m(0 \<mapsto> data b)) (od\<lparr>od_backend := s\<rparr>)"
    using Suc.prems r(2) b(2) by (auto simp: od_inv_def)
  from Suc.IH [OF this] Suc.prems(2) obtain s' m' where
    "pad_accesses E Operation_kWrite n b (od\<lparr>od_backend := s\<rparr>) = Inr (OK, od\<lparr>od_backend := s'\<rparr>)"
    "od_inv holds N m' (od\<lparr>od_backend := s'\<rparr>)" "\<forall>i. i \<noteq> 0 \<longrightarrow> m' i = m i" by auto
  with r(1) E b' show ?case by (auto simp: env_ok_def)
qed

text \<open>
  The end of an operation: a failed assertion when the padding value is below one of the counters,
  otherwise everything is in the ORAM and the cache is empty.
\<close>

lemma OdsFinalize_view:
  assumes E: "env_ok access writable E" and inv: "od_inv holds N m od"
  shows "if pv < unat (od_read_count od) \<or> pv < unat (od_write_count od)
    then OdsFinalize E pv od = Inl Assert_Failed
    else \<exists>od' m'. OdsFinalize E pv od = Inr (OK, od') \<and> od_inv holds N m' od'
      \<and> IsEmpty (od_cache od') \<and> (\<forall>i. in_range N i \<longrightarrow> view m' od' i = view m od i)
      \<and> od_read_count od' = 0 \<and> od_write_count od' = 0 \<and> od_heap od' = od_heap od
      \<and> od_root_id od' = od_root_id od \<and> od_node_count od' = od_node_count od
      \<and> od_size od' = od_size od"
proof (cases "pv < unat (od_read_count od)")
  case True
  then show ?thesis by (simp add: OdsFinalize_def)
next
  case r: False
  let ?b = "\<lambda>od :: 'a odict. (env_block E (od_next od))\<lparr>header := (header (env_block E (od_next od)))
      \<lparr>block_id := 0, btype := BlockType_kNormal\<rparr>\<rparr>"
  from pad_reads_view [OF E inv, of "pv - unat (od_read_count od)" "?b od"] obtain s where
    s: "DoPad E Operation_kRead (pv - unat (od_read_count od)) od = Inr (OK, od\<lparr>od_backend := s\<rparr>)"
      "od_inv holds N m (od\<lparr>od_backend := s\<rparr>)" by (auto simp: DoPad_def Let_def)
  from write_back_cache_view [OF E s(2)] obtain m2 od2 where
    w: "write_back_cache E (od\<lparr>od_backend := s\<rparr>) = Inr od2" "od_inv holds N m2 od2"
      "IsEmpty (od_cache od2)" "\<forall>i. in_range N i \<longrightarrow> view m2 od2 i = view m (od\<lparr>od_backend := s\<rparr>) i"
      "step 0 (od\<lparr>od_backend := s\<rparr>) od2 0 0" "od_heap od2 = od_heap od" by auto
  have c2: "od_write_count od2 = od_write_count od" using w(5) by (simp add: step_def)
  show ?thesis
  proof (cases "pv < unat (od_write_count od)")
    case True
    then show ?thesis using r s(1) w(1) c2 by (simp add: OdsFinalize_def)
  next
    case False
    have b: "writable (?b od2)" "length (data (?b od2)) = 512" using E by (simp_all add: env_ok_def)
    from pad_writes_view [OF E b w(2,3), of "pv - unat (od_write_count od2)"] obtain s3 m3 where
      s3: "DoPad E Operation_kWrite (pv - unat (od_write_count od2)) od2 = Inr (OK, od2\<lparr>od_backend := s3\<rparr>)"
        "od_inv holds N m3 (od2\<lparr>od_backend := s3\<rparr>)" "\<forall>i. i \<noteq> 0 \<longrightarrow> m3 i = m2 i"
      by (auto simp: DoPad_def Let_def)
    let ?o = "od2\<lparr>od_backend := s3, od_write_count := 0, od_read_count := 0\<rparr>"
    have "OdsFinalize E pv od = Inr (OK, ?o)"
      using r False s(1) w(1) c2 s3(1) by (simp add: OdsFinalize_def)
    moreover have "od_inv holds N m3 ?o" using s3(2) by (simp add: od_inv_def)
    moreover have "view m3 ?o i = view m od i" if "in_range N i" for i
      using that w(4) s3(3) by (auto simp: view_def in_range_def split: option.split)
    ultimately show ?thesis using r False w(3,5,6)
      by (auto simp: step_def)
  qed
qed

end

end
