(* ===== verification/Odict_Padding.thy ===== *)
theory Odict_Padding
  imports Odict Odict_Trees
begin

text \<open>
  The padding of the oblivious dictionary: how its value relates to the height of the trees, and to
  the cost of an insertion.
\<close>

section \<open>Logarithms\<close>

lemma exp_1_le: "exp (1 :: real) \<le> 28 / 10"
proof -
  have "exp (1 / 32 :: real) \<le> 1057 / 1024" using exp_bound [of "1 / 32"] by (simp add: power2_eq_square)
  then have "exp (1 / 32 :: real) ^ 32 \<le> (1057 / 1024) ^ 32" by (intro power_mono) simp_all
  also have "\<dots> \<le> 28 / 10" by (simp add: power_divide)
  also have "exp (1 / 32 :: real) ^ 32 = exp 1" by (simp flip: exp_of_nat_mult)
  finally show ?thesis .
qed

lemma ln_2_ge: "2 / 3 \<le> ln (2 :: real)"
proof -
  have "exp (2 / 3 :: real) ^ 3 = exp 1 ^ 2" by (simp flip: exp_of_nat_mult)
  also have "\<dots> \<le> (28 / 10) ^ 2" using exp_1_le by (intro power_mono) simp_all
  also have "\<dots> \<le> 2 ^ 3" by (simp add: power_divide)
  finally have "exp (2 / 3 :: real) \<le> 2" by (rule power_le_imp_le_base [where n = 2, simplified]) simp
  then have "2 / 3 \<le> ln (2 :: real)" by (subst ln_ge_iff) simp_all
  then show ?thesis .
qed

lemma ln_4_less: "ln (4 :: real) < 25 / 18"
proof -
  have "1 + 25 / 288 + (25 / 288)\<^sup>2 / 2 \<le> exp (25 / 288 :: real)"
    by (rule exp_lower_Taylor_quadratic) simp
  then have "(1 + 25 / 288 + (25 / 288)\<^sup>2 / 2) ^ 16 \<le> exp (25 / 288 :: real) ^ 16"
    by (rule power_mono) simp
  moreover have "(4 :: real) < (1 + 25 / 288 + (25 / 288)\<^sup>2 / 2) ^ 16" by (simp add: power_divide)
  moreover have "exp (25 / 288 :: real) ^ 16 = exp (25 / 18)" by (simp flip: exp_of_nat_mult)
  ultimately have "4 < exp (25 / 18 :: real)" by simp
  then show ?thesis by (metis exp_gt_zero exp_less_cancel_iff exp_ln zero_less_numeral)
qed

section \<open>The padding value\<close>

lemma unat_of_int_u32: "k \<le> 139 \<Longrightarrow> 0 \<le> k \<Longrightarrow> unat (of_int k :: u32) = nat k"
  using unat_of_nat_u32 [of "nat k"] by simp

lemma ComputePadVal_nat:
  assumes "n < 2 ^ 32"
  shows "unat (ComputePadVal (of_nat n)) = nat \<lceil>432 / 100 * ln (real n)\<rceil>"
    "unat (ComputePadVal (of_nat n)) \<le> 139"
proof -
  have n: "unat (of_nat n :: u32) = n" using assms by (intro unat_of_nat_u32) simp
  have "ln (real n) \<le> 32"
  proof (cases "n = 0")
    case False
    then have "ln (real n) \<le> ln (2 ^ 32)" using assms by (subst ln_le_cancel_iff) simp_all
    also have "\<dots> = 32 * ln 2" using ln_realpow [of 2 32] by simp
    finally show ?thesis using ln_2_less_1 by simp
  qed simp
  then have le: "\<lceil>432 / 100 * ln (real n)\<rceil> \<le> 139" by (simp add: ceiling_le_iff)
  have "0 \<le> \<lceil>432 / 100 * ln (real n)\<rceil>"
  proof (cases "n = 0")
    case False
    then have "0 \<le> ln (real n)" by simp
    then have "- 1 < 432 / 100 * ln (real n)" by linarith
    then show ?thesis by (simp only: zero_le_ceiling)
  qed simp
  with le have u: "unat (of_int \<lceil>432 / 100 * ln (real n)\<rceil> :: u32) = nat \<lceil>432 / 100 * ln (real n)\<rceil>"
    by (intro unat_of_int_u32)
  have "3 * (144 / 100) = (432 / 100 :: real)" by simp
  with u show "unat (ComputePadVal (of_nat n)) = nat \<lceil>432 / 100 * ln (real n)\<rceil>"
    unfolding ComputePadVal_def n by (simp only:)
  with le show "unat (ComputePadVal (of_nat n)) \<le> 139" by (simp only: nat_le_iff)
qed

lemma le_ComputePadVal:
  assumes "n < 2 ^ 32" "real k \<le> 432 / 100 * ln (real n)"
  shows "k \<le> unat (ComputePadVal (of_nat n))"
proof -
  have "real k \<le> of_int \<lceil>432 / 100 * ln (real n)\<rceil>" using assms(2) le_of_int_ceiling order_trans by blast
  then have "int k \<le> \<lceil>432 / 100 * ln (real n)\<rceil>" by linarith
  then show ?thesis unfolding ComputePadVal_nat(1) [OF assms(1)] by (simp add: le_nat_iff)
qed

lemma height_ln:
  assumes "balanced t" "size1 t \<le> n"
  shows "real (height t) \<le> 3 * ln (real n)"
proof -
  have n: "0 < n" using assms(2) size1_size [of t] by linarith
  have "2 ^ height t \<le> n * n" using balanced_height [OF assms(1)] mult_le_mono [OF assms(2,2)] by linarith
  then have "real (2 ^ height t) \<le> real (n * n)" by (rule of_nat_mono)
  then have "ln (2 ^ height t) \<le> ln (real n * real n)" using n by (subst ln_le_cancel_iff) simp_all
  then have "real (height t) * ln 2 \<le> 2 * ln (real n)" using n by (simp add: ln_realpow ln_mult)
  moreover have "real (height t) * (2 / 3) \<le> real (height t) * ln 2" using ln_2_ge by (intro mult_left_mono) simp_all
  ultimately show ?thesis by simp
qed

lemma height_pad:
  assumes "balanced t" "size1 t \<le> n" "n < 2 ^ 32"
  shows "height t \<le> unat (ComputePadVal (of_nat n))"
proof (rule le_ComputePadVal [OF assms(3)])
  have "0 < n" using assms(2) size1_size [of t] by linarith
  then have "0 \<le> ln (real n)" by simp
  with height_ln [OF assms(1,2)] show "real (height t) \<le> 432 / 100 * ln (real n)" by simp
qed

section \<open>The cost of an insertion\<close>

text \<open>At most one node of the path is rotated, and then the tree does not grow.\<close>

lemma bal_cost_le: "fst (bal_cost t) \<le> 6 \<and> snd (bal_cost t) \<le> 5" by (cases t) auto

lemma bal_cost_0: "balanced t \<Longrightarrow> bal_cost t = (0, 0)" by (cases t) auto

text \<open>A tree that has grown leans to one side, unless it was empty.\<close>

definition leaning :: "'a tree \<Rightarrow> bool" where
  "leaning t \<longleftrightarrow> height (left t) \<noteq> height (right t)"

lemma rotation_shrinks:
  assumes "balanced l" "balanced r"
  shows "height l = height r + 2 \<Longrightarrow> leaning l \<Longrightarrow> height (bal (Node l a r)) = height l"
    "height r = height l + 2 \<Longrightarrow> leaning r \<Longrightarrow> height (bal (Node l a r)) = height r"
proof -
  assume h: "height l = height r + 2" "leaning l"
  then obtain p b q where l: "l = Node p b q" by (cases l) auto
  show "height (bal (Node l a r)) = height l"
  proof (cases "height p \<ge> height q")
    case True
    with assms h l show ?thesis by (auto simp: rot_defs leaning_def)
  next
    case False
    then obtain u c v where "q = Node u c v" by (cases q) auto
    with False assms h l show ?thesis by (auto simp: rot_defs leaning_def)
  qed
next
  assume h: "height r = height l + 2" "leaning r"
  then obtain p b q where r: "r = Node p b q" by (cases r) auto
  show "height (bal (Node l a r)) = height r"
  proof (cases "height q \<ge> height p")
    case True
    with assms h r show ?thesis by (auto simp: rot_defs leaning_def)
  next
    case False
    then obtain u c v where "p = Node u c v" by (cases p) auto
    with False assms h r show ?thesis by (auto simp: rot_defs leaning_def)
  qed
qed

text \<open>What an insertion that costs \<open>c\<close> turns the tree \<open>t\<close> into.\<close>

definition grown :: "'a tree \<Rightarrow> 'a tree \<Rightarrow> nat \<times> nat \<Rightarrow> bool" where
  "grown t t' c \<longleftrightarrow> balanced t' \<and> fst c \<le> height t + 6 \<and> snd c \<le> height t + 5
     \<and> (height t' = height t
        \<or> height t' = height t + 1 \<and> (t = Leaf \<or> leaning t') \<and> fst c \<le> height t \<and> snd c \<le> height t)"

lemma grown_right:
  assumes b: "balanced (Node l a r)" and g: "grown r r' c"
  shows "grown (Node l a r) (bal (Node l a r')) (plus2 (1, 1) (plus2 c (bal_cost (Node l a r'))))"
proof (cases "balanced (Node l a r')")
  case True
  from b g True consider "height r' = height r" | "height r' = height r + 1" "height l = height r"
    | "height r' = height r + 1" "height l = height r + 1" by (fastforce simp: grown_def)
  then have "grown (Node l a r) (Node l a r') (plus2 (1, 1) (plus2 c (0, 0)))"
    by cases (use True b g in \<open>auto simp: grown_def plus2_def leaning_def max_def\<close>)
  then show ?thesis unfolding bal_balanced [OF True] bal_cost_0 [OF True] .
next
  case False
  from b g have bal: "balanced l" "balanced r'" "height r = height l + 1" "height r' = height l + 2"
    using False by (auto simp: grown_def)
  then have "leaning r'" "fst c \<le> height r" "snd c \<le> height r" using g by (auto simp: grown_def)
  moreover note rotation_shrinks(2) [OF bal(1,2,4), of a] balanced_bal(1) [OF bal(1,2), of a]
    bal_cost_le [of "Node l a r'"]
  ultimately show ?thesis using bal by (auto simp: grown_def plus2_def simp del: bal.simps bal_cost.simps)
qed

lemma grown_left:
  assumes b: "balanced (Node l a r)" and g: "grown l l' c"
  shows "grown (Node l a r) (bal (Node l' a r)) (plus2 (1, 1) (plus2 c (bal_cost (Node l' a r))))"
proof (cases "balanced (Node l' a r)")
  case True
  from b g True consider "height l' = height l" | "height l' = height l + 1" "height r = height l"
    | "height l' = height l + 1" "height r = height l + 1" by (fastforce simp: grown_def)
  then have "grown (Node l a r) (Node l' a r) (plus2 (1, 1) (plus2 c (0, 0)))"
    by cases (use True b g in \<open>auto simp: grown_def plus2_def leaning_def max_def\<close>)
  then show ?thesis unfolding bal_balanced [OF True] bal_cost_0 [OF True] .
next
  case False
  from b g have bal: "balanced l'" "balanced r" "height l = height r + 1" "height l' = height r + 2"
    using False by (auto simp: grown_def)
  then have "leaning l'" "fst c \<le> height l" "snd c \<le> height l" using g by (auto simp: grown_def)
  moreover note rotation_shrinks(1) [OF bal(1,2,4), of a] balanced_bal(1) [OF bal(1,2), of a]
    bal_cost_le [of "Node l' a r"]
  ultimately show ?thesis using bal by (auto simp: grown_def plus2_def simp del: bal.simps bal_cost.simps)
qed

lemma grown_ins: "balanced t \<Longrightarrow> grown t (ins e t) (ins_cost e t)"
proof (induction t)
  case Leaf
  then show ?case by (simp add: grown_def)
next
  case (Node l a r)
  then have IH: "grown l (ins e l) (ins_cost e l)" "grown r (ins e r) (ins_cost e r)" by simp_all
  have "grown r r (0, 0)" using Node.prems by (simp add: grown_def)
  from grown_right [OF Node.prems this] have same: "grown (Node l a r) (bal (Node l a r))
      (plus2 (1, 1) (bal_cost (Node l a r)))" by (simp add: plus2_def)
  show ?case
    using grown_right [OF Node.prems IH(2)] grown_left [OF Node.prems IH(1)] same
    by (simp del: bal.simps bal_cost.simps)
qed

lemma ins_cost_le:
  "balanced t \<Longrightarrow> fst (ins_cost e t) \<le> height t + 6 \<and> snd (ins_cost e t) \<le> height t + 6"
  using grown_ins [of t e] by (simp add: grown_def)

text \<open>From 128 nodes on, an insertion stays below the padding value.\<close>

lemma insertion_pad:
  assumes "balanced t" "size1 t \<le> n" "128 \<le> n" "n < 2 ^ 32"
  shows "height t + 6 \<le> unat (ComputePadVal (of_nat n))"
proof (rule le_ComputePadVal [OF assms(4)])
  have "ln (2 ^ 7) \<le> ln (real n)" using assms(3) by (subst ln_le_cancel_iff) simp_all
  then have "7 * ln 2 \<le> ln (real n)" using ln_realpow [of 2 7] by simp
  with ln_2_ge have "14 / 3 \<le> ln (real n)" by simp
  with height_ln [OF assms(1,2)] show "real (height t + 6) \<le> 432 / 100 * ln (real n)" by simp
qed

lemma ComputePadVal_4: "ComputePadVal 4 = 6"
proof -
  have "ln (4 :: real) = 2 * ln 2" using ln_realpow [of 2 2] by simp
  then have "4 / 3 \<le> ln (4 :: real)" using ln_2_ge by simp
  then have "\<lceil>432 / 100 * ln (4 :: real)\<rceil> = 6" using ln_4_less by (simp add: ceiling_eq_iff)
  then have "unat (ComputePadVal (of_nat 4)) = 6" by (subst ComputePadVal_nat(1)) simp_all
  then show ?thesis by (simp add: word_unat_eq_iff)
qed

end
