(* ===== verification/Odict_Dictionary.thy ===== *)
theory Odict_Dictionary
  imports Odict_Finalize Odict_Padding
begin

text \<open>
  The public operations of the oblivious dictionary on the tree it holds: \<open>Find_view\<close> and
  \<open>Insert_view\<close>, for any ORAM that is a \<open>keeping_ram\<close>.
\<close>

section \<open>The dictionary\<close>

text \<open>The state between operations: the ORAM holds an ordered, balanced tree.\<close>

definition odict_holds :: "('s \<Rightarrow> (u32 \<rightharpoonup> bytes) \<Rightarrow> bool) \<Rightarrow> nat \<Rightarrow> 's odict \<Rightarrow> entry tree \<Rightarrow> bool" where
  "odict_holds holds N od t \<longleftrightarrow> (\<exists>m. od_inv holds N m od \<and> repr (view m od) t (od_root_id od))
     \<and> in_ranges (od_node_count od - 1) t \<and> 1 \<le> od_node_count od \<and> od_node_count od \<le> N + 1
     \<and> N + 1 < 2 ^ 32 \<and> od_read_count od = 0 \<and> od_write_count od = 0
     \<and> IsEmpty (od_cache od) \<and> ordered t \<and> balanced t"

lemma in_ranges_mono: "in_ranges n t \<Longrightarrow> n \<le> N \<Longrightarrow> in_ranges N t"
  by (auto simp: in_ranges_def in_range_def)

lemma in_ranges_size_le: "in_ranges n t \<Longrightarrow> size t \<le> n"
proof -
  assume r: "in_ranges n t"
  then have "card (set (ids t)) \<le> card {i. in_range n i}"
    by (intro card_mono) (auto simp: in_ranges_def)
  also have "\<dots> \<le> n" by (rule in_range_card)
  also have "card (set (ids t)) = size t"
    using r distinct_card [of "ids t"] by (simp add: in_ranges_def) (simp add: ids_def)
  finally show ?thesis .
qed

lemma odict_holds_size: "odict_holds holds N od t \<Longrightarrow> size1 t \<le> od_node_count od"
  using in_ranges_size_le [of "od_node_count od - 1" t] by (auto simp: odict_holds_def size1_size)

lemma Clear_inv:
  "od_inv holds N m od \<Longrightarrow> IsEmpty (od_cache od) \<Longrightarrow>
    od_inv holds N m (OdsStart od) \<and> view m (OdsStart od) = view m od"
  by (auto simp: od_inv_def OdsStart_def Clear_def cache_ok_def lookup_def view_def IsEmpty_def)

lemma repr_view_cong:
  assumes "repr V t i" "in_ranges n t" "n \<le> N" "\<forall>i. in_range N i \<longrightarrow> V' i = V i"
  shows "repr V' t i"
  using assms by (intro repr_frame [OF assms(1)]) (auto simp: in_ranges_def in_range_def)

lemma repr_entry:
  "repr V t i \<Longrightarrow> e \<in> set_tree t \<Longrightarrow>
    node_id (V (fst e)) = fst e \<and> node_key (V (fst e)) = ent_key e \<and> node_value (V (fst e)) = snd (snd e)"
  by (induction V t i rule: repr.induct) auto

context keeping_ram
begin

lemma Find_view:
  assumes E: "env_ok access writable E" and H: "odict_holds holds N od t" and f: "height t \<le> fuel"
  shows "\<exists>r od'. Find E fuel key od = Inr (r, od') \<and> odict_holds holds N od' t
    \<and> od_node_count od' = od_node_count od
    \<and> (case find_entry key t of None \<Rightarrow> r = None
       | Some e \<Rightarrow> \<exists>p. r = Some p \<and> node_id (od_heap od' p) = fst e
           \<and> node_key (od_heap od' p) = key \<and> node_value (od_heap od' p) = snd (snd e))"
proof -
  let ?od0 = "OdsStart od" and ?n = "od_node_count od"
  from H obtain m where m: "od_inv holds N m od" "repr (view m od) t (od_root_id od)"
    and h: "in_ranges (?n - 1) t" "1 \<le> ?n" "?n \<le> N + 1" "N + 1 < 2 ^ 32" "od_read_count od = 0"
      "od_write_count od = 0" "IsEmpty (od_cache od)" "ordered t" "balanced t" by (auto simp: odict_holds_def)
  note c = Clear_inv [OF m(1) h(7)]
  have r: "in_ranges N t" using in_ranges_mono [OF h(1)] h(3) by simp
  have "repr (view m ?od0) t (od_root_id ?od0)" using m(2) c by (simp add: OdsStart_def)
  note v = conjunct2 [OF c]
  from InternalFind_view [OF E conjunct1 [OF c] r \<open>repr (view m ?od0) t (od_root_id ?od0)\<close> f, of key,
      unfolded v] obtain p od1 where
    i: "InternalFind E fuel key (od_root_id ?od0) ?od0 = Inr (p, od1)" "od_inv holds N m od1"
      "view m od1 = view m od" "step (od_next ?od0) ?od0 od1 (find_cost key t) 0"
      "case find_entry key t of None \<Rightarrow> p = None
       | Some e \<Rightarrow> \<exists>q. p = Some q \<and> od_heap od1 q = view m od (fst e)" by blast
  let ?pv = "unat (ComputePadVal (of_nat ?n))"
  have pv: "find_cost key t \<le> ?pv"
    using find_cost_height [of key t] height_pad [OF h(9) odict_holds_size [OF H]] h(3,4) by fastforce
  have cnt: "od_read_count od1 = of_nat (find_cost key t)" "od_write_count od1 = 0"
    "od_node_count od1 = ?n" "od_root_id od1 = od_root_id od" "max_size (od_cache od1) = max_size (od_cache od)"
    using i(4) h(5,6) by (simp_all add: step_def OdsStart_def Clear_def)
  have "find_cost key t < 2 ^ 32" using pv unat_u32_less [of "ComputePadVal (of_nat ?n)"] by simp
  then have "unat (od_read_count od1) \<le> ?pv" using pv cnt(1) by (simp add: unat_of_nat_u32)
  with OdsFinalize_view [OF E i(2), of ?pv] cnt(2) obtain od2 m2 where
    o: "OdsFinalize E ?pv od1 = Inr (OK, od2)" "od_inv holds N m2 od2" "IsEmpty (od_cache od2)"
      "\<forall>i. in_range N i \<longrightarrow> view m2 od2 i = view m od1 i" "od_read_count od2 = 0" "od_write_count od2 = 0"
      "od_heap od2 = od_heap od1" "od_root_id od2 = od_root_id od1" "od_node_count od2 = od_node_count od1"
    by (auto simp: not_less)
  have "repr (view m2 od2) t (od_root_id od2)"
    using repr_view_cong [OF m(2) r, of N "view m2 od2"] o(4,8) i(3) cnt(4) by simp
  then have H2: "odict_holds holds N od2 t" using o h cnt by (auto simp: odict_holds_def)
  have "Find E fuel key od = Inr (p, od2)"
    using i(1) o(1) cnt(3) by (simp add: Find_def Let_def CheckStatus_def)
  moreover have "case find_entry key t of None \<Rightarrow> p = None
       | Some e \<Rightarrow> \<exists>q. p = Some q \<and> node_id (od_heap od2 q) = fst e
           \<and> node_key (od_heap od2 q) = key \<and> node_value (od_heap od2 q) = snd (snd e)"
  proof (cases "find_entry key t")
    case None
    with i(5) show ?thesis by simp
  next
    case (Some e)
    then have "e \<in> set_tree t" "ent_key e = key" using find_entry_iff [OF h(8)] by simp_all
    with i(5) Some o(7) repr_entry [OF m(2), of e] show ?thesis by auto
  qed
  ultimately show ?thesis using H2 o(9) cnt(3) by auto
qed

text \<open>An insertion up to its padding: the pair is in the tree, under the next free identifier.\<close>

lemma Insert_prefix:
  assumes E: "env_ok access writable E" and H: "odict_holds holds N od t" and f: "height t \<le> fuel"
    and n: "od_node_count od \<le> N" and v: "length v = 32" and e: "e = (of_nat (od_node_count od), key, v)"
  shows "\<exists>x od4 m. Insert E fuel key v od = andThen (OdsFinalize E (unat (ComputePadVal (of_nat (od_node_count od4)))) od4)
      (\<lambda>(status, od5). CheckStatus status (Inr (x, od5)))
    \<and> od_inv holds N m od4 \<and> repr (view m od4) (ins e t) (od_root_id od4) \<and> od_node_count od4 = od_node_count od + 1
    \<and> unat (od_read_count od4) = fst (ins_cost e t) \<and> unat (od_write_count od4) = snd (ins_cost e t)
    \<and> in_range N (fst e) \<and> fst e \<notin> set (ids t) \<and> unat (fst e) = od_node_count od"
proof -
  let ?n = "od_node_count od" and ?p = "od_next od"
  from H obtain m where m: "od_inv holds N m od" "repr (view m od) t (od_root_id od)"
    and h: "in_ranges (?n - 1) t" "1 \<le> ?n" "?n \<le> N + 1" "N + 1 < 2 ^ 32" "od_read_count od = 0"
      "od_write_count od = 0" "IsEmpty (od_cache od)" "balanced t" by (auto simp: odict_holds_def)
  note c = Clear_inv [OF m(1) h(7)]
  let ?nd = "(TreeNode (env_node E ?p) (of_nat ?n))\<lparr>node_key := key, node_value := v\<rparr>"
  let ?od2 = "(OdsStart od)\<lparr>od_next := Suc ?p, od_node_count := ?n + 1, od_heap := (od_heap od)(?p := ?nd)\<rparr>"
  have id: "unat (of_nat ?n :: u32) = ?n" using h(4) n by (simp add: unat_of_nat_u32)
  then have en: "in_range N (fst e)" "fst e \<notin> set (ids t)"
    using n h(1,2) by (auto simp: e in_range_def in_ranges_def unat_0_iff)
  have cache: "cache_items (od_cache (OdsStart od)) = []" by (simp add: OdsStart_def Clear_def)
  have inv2: "od_inv holds N m ?od2" using c cache by (simp add: od_inv_def lookup_def OdsStart_def)
  have "view m ?od2 = view m od" using c cache by (auto simp: view_def lookup_def OdsStart_def fun_eq_iff)
  then have rep2: "repr (view m ?od2) t (od_root_id ?od2)" using m(2) by (simp add: OdsStart_def)
  have r: "in_ranges N t" using in_ranges_mono [OF h(1)] h(3) by simp
  have fresh: "fresh_node (od_heap ?od2 ?p) e"
    using E v by (simp add: fresh_node_def e TreeNode_def invalid_mask_def env_ok_def wf_node_def)
  from InternalInsert_view [OF E en(1) inv2 r rep2 f en(2) _ fresh] obtain x od3 where
    i: "InternalInsert E fuel ?p (od_root_id ?od2) ?od2 = Inr (x, od3)"
      "outcome holds N m ?od2 x od3 (ins e t) (ins_cost e t)" by auto
  let ?od4 = "od3\<lparr>od_root_id := node_id (od_heap od3 x)\<rparr>"
  have "view m ?od4 = view m od3" by (auto simp: view_def fun_eq_iff split: option.split)
  with i(2) have o: "od_inv holds N m ?od4" "repr (view m ?od4) (ins e t) (od_root_id ?od4)"
    "od_read_count ?od4 = of_nat (fst (ins_cost e t))" "od_write_count ?od4 = of_nat (snd (ins_cost e t))"
    "od_node_count ?od4 = ?n + 1"
    using h(5,6) by (simp_all add: outcome_def od_inv_def step_def OdsStart_def)
  have "height t \<le> 139"
    using height_pad [OF h(8) odict_holds_size [OF H]] h(3,4) ComputePadVal_nat(2) [of ?n] by simp
  with ins_cost_le [OF h(8), of e] have "unat (od_read_count ?od4) = fst (ins_cost e t)"
    "unat (od_write_count ?od4) = snd (ins_cost e t)" by (simp_all add: o(3,4) unat_of_nat_u32)
  moreover have "Insert E fuel key v od = andThen (OdsFinalize E (unat (ComputePadVal (of_nat (od_node_count ?od4)))) ?od4)
      (\<lambda>(status, od5). CheckStatus status (Inr (x, od5)))"
    using i(1) by (simp add: Insert_def new_node_def set_node_def Let_def OdsStart_def)
  moreover have "unat (fst e) = ?n" using id by (simp add: e)
  ultimately show ?thesis using o(1,2,5) en by blast
qed

text \<open>
  An insertion is the insertion into the tree when the padding value covers its reads and writes;
  otherwise it ends in the failed assertion.
\<close>

lemma Insert_view:
  assumes E: "env_ok access writable E" and H: "odict_holds holds N od t" and f: "height t \<le> fuel"
    and n: "od_node_count od \<le> N" and v: "length v = 32"
    and e_def: "e = (of_nat (od_node_count od), key, v)"
    and pv_def: "pv = unat (ComputePadVal (of_nat (od_node_count od + 1)))"
  shows "if fst (ins_cost e t) \<le> pv \<and> snd (ins_cost e t) \<le> pv
    then \<exists>p od'. Insert E fuel key v od = Inr (p, od') \<and> odict_holds holds N od' (ins e t)
      \<and> od_node_count od' = od_node_count od + 1
    else Insert E fuel key v od = Inl Assert_Failed"
proof -
  let ?n = "od_node_count od"
  from H have h: "in_ranges (?n - 1) t" "1 \<le> ?n" "N + 1 < 2 ^ 32" "ordered t" "balanced t" by (auto simp: odict_holds_def)
  from Insert_prefix [OF E H f n v e_def] obtain x od4 m where
    run: "Insert E fuel key v od = andThen (OdsFinalize E pv od4) (\<lambda>(status, od5). CheckStatus status (Inr (x, od5)))"
    and o: "od_inv holds N m od4" "repr (view m od4) (ins e t) (od_root_id od4)" "od_node_count od4 = ?n + 1"
    and cost: "unat (od_read_count od4) = fst (ins_cost e t)" "unat (od_write_count od4) = snd (ins_cost e t)"
    and en: "in_range N (fst e)" "fst e \<notin> set (ids t)" "unat (fst e) = ?n" unfolding pv_def by fastforce
  show ?thesis
  proof (cases "fst (ins_cost e t) \<le> pv \<and> snd (ins_cost e t) \<le> pv")
    case False
    with OdsFinalize_view [OF E o(1), of pv] cost show ?thesis unfolding run by (auto simp: not_le)
  next
    case True
    with OdsFinalize_view [OF E o(1), of pv] cost obtain od5 m5 where
      w: "OdsFinalize E pv od4 = Inr (OK, od5)" "od_inv holds N m5 od5" "IsEmpty (od_cache od5)"
        "\<forall>i. in_range N i \<longrightarrow> view m5 od5 i = view m od4 i" "od_read_count od5 = 0" "od_write_count od5 = 0"
        "od_root_id od5 = od_root_id od4" "od_node_count od5 = od_node_count od4"
      by (auto simp: not_less [symmetric])
    have rn: "in_ranges ?n (ins e t)"
      using in_ranges_ins [of ?n t e] in_ranges_mono [OF h(1), of ?n] en h(2) by (auto simp: in_range_def)
    have "repr (view m5 od5) (ins e t) (od_root_id od5)"
      using repr_view_cong [OF o(2) rn, of N "view m5 od5"] n w(4,7) by simp
    then have "odict_holds holds N od5 (ins e t)"
      using rn w o(3) n h(3-5) ordered_ins balanced_ins by (auto simp: odict_holds_def)
    then show ?thesis using True w(1,8) o(3) unfolding run by (auto simp: CheckStatus_def)
  qed
qed

end

end
