(* ===== verification/Odict_Map.thy ===== *)
theory Odict_Map
  imports Odict_Dictionary Path_Fill Linear_Oram
begin

text \<open>
  Sequences of operations on the oblivious dictionary, against a map in which the first insertion
  of a key stays; and the dictionary on the ORAMs of the library.
\<close>

section \<open>Sequences of operations\<close>

datatype od_request = Find_Req u32 | Insert_Req u32 bytes

text \<open>The answers: the value in the node that \<open>Find\<close> points to.\<close>

fun run_odict :: "'s odict_env \<Rightarrow> nat \<Rightarrow> od_request list \<Rightarrow> 's odict \<Rightarrow> (bytes option list \<times> 's odict) exec" where
  "run_odict E fuel [] od = Inr ([], od)"
| "run_odict E fuel (Find_Req k # rs) od =
     andThen (Find E fuel k od) (\<lambda>(p, od1).
     andThen (run_odict E fuel rs od1) (\<lambda>(answers, od2).
       Inr (map_option (\<lambda>q. node_value (od_heap od1 q)) p # answers, od2)))"
| "run_odict E fuel (Insert_Req k v # rs) od =
     andThen (Insert E fuel k v od) (\<lambda>(p, od1). run_odict E fuel rs od1)"

text \<open>What a map answers in which the first insertion of a key stays.\<close>

fun map_answers :: "(u32 \<rightharpoonup> bytes) \<Rightarrow> od_request list \<Rightarrow> bytes option list" where
  "map_answers M [] = []"
| "map_answers M (Find_Req k # rs) = M k # map_answers M rs"
| "map_answers M (Insert_Req k v # rs) =
     map_answers (if M k = None then M(k \<mapsto> v) else M) rs"

text \<open>Whether the padding values cover all insertions into a tree of \<open>n\<close> identifiers.\<close>

fun affordable :: "nat \<Rightarrow> entry tree \<Rightarrow> od_request list \<Rightarrow> bool" where
  "affordable n t [] \<longleftrightarrow> True"
| "affordable n t (Find_Req k # rs) \<longleftrightarrow> affordable n t rs"
| "affordable n t (Insert_Req k v # rs) \<longleftrightarrow>
     (let e = (of_nat n, k, v); c = ins_cost e t; pv = unat (ComputePadVal (of_nat (n + 1))) in
      fst c \<le> pv \<and> snd c \<le> pv \<and> affordable (n + 1) (ins e t) rs)"

definition insertions :: "od_request list \<Rightarrow> nat" where
  "insertions rs = length (filter (\<lambda>r. case r of Insert_Req _ _ \<Rightarrow> True | _ \<Rightarrow> False) rs)"

definition tree_map_of :: "entry tree \<Rightarrow> u32 \<rightharpoonup> bytes" where
  "tree_map_of t k = map_option (\<lambda>e. snd (snd e)) (find_entry k t)"

lemma tree_map_of_Leaf [simp]: "tree_map_of Leaf = Map.empty"
  by (simp add: tree_map_of_def fun_eq_iff)

lemma option_eqI: "(\<And>b. x = Some b \<longleftrightarrow> y = Some b) \<Longrightarrow> x = y"
  by (cases x; cases y) auto

lemma find_entry_ins:
  assumes "ordered t"
  shows "find_entry k (ins e t)
    = (if find_entry (ent_key e) t = None \<and> k = ent_key e then Some e else find_entry k t)"
proof (rule option_eqI)
  fix b
  note iff = find_entry_iff [OF assms] find_entry_iff [OF ordered_ins [OF assms, of e]]
  show "find_entry k (ins e t) = Some b \<longleftrightarrow>
      (if find_entry (ent_key e) t = None \<and> k = ent_key e then Some e else find_entry k t) = Some b"
  proof (cases "find_entry (ent_key e) t")
    case None
    then have no: "\<forall>c \<in> set_tree t. ent_key c \<noteq> ent_key e" using iff(1) [of "ent_key e"] by auto
    then have "set_tree (ins e t) = insert e (set_tree t)" using set_ins [OF assms, of e] by auto
    then show ?thesis using None no iff(1) [of k b] iff(2) [of k b] by auto
  next
    case (Some c)
    then have "set_tree (ins e t) = set_tree t" using iff(1) set_ins [OF assms, of e] by auto
    then show ?thesis using Some iff(1) [of k b] iff(2) [of k b] by simp
  qed
qed

lemma tree_map_of_ins:
  "ordered t \<Longrightarrow> tree_map_of (ins e t)
    = (if tree_map_of t (ent_key e) = None then (tree_map_of t)(ent_key e \<mapsto> snd (snd e)) else tree_map_of t)"
  by (auto simp: tree_map_of_def fun_eq_iff find_entry_ins)

text \<open>From 127 identifiers on, every sequence of insertions is covered.\<close>

lemma affordable_large:
  "balanced t \<Longrightarrow> size1 t \<le> n \<Longrightarrow> 127 \<le> n \<Longrightarrow> n + insertions rs < 2 ^ 32 \<Longrightarrow> affordable n t rs"
proof (induction n t rs rule: affordable.induct)
  case (3 n t k v rs)
  let ?e = "(of_nat n :: u32, k, v)"
  have n: "n + 1 + insertions rs < 2 ^ 32" using 3(5) by (simp add: insertions_def)
  have pv: "height t + 6 \<le> unat (ComputePadVal (of_nat (n + 1)))"
    using 3(2-4) n by (intro insertion_pad) simp_all
  have c: "fst (ins_cost ?e t) \<le> height t + 6 \<and> snd (ins_cost ?e t) \<le> height t + 6"
    using ins_cost_le [OF 3(2)] .
  have "size (ins ?e t) \<le> size t + 1"
    using mset_ids_ins [of ?e t] by (metis size_mset size_add_mset length_map length_inorder ids_def
        Suc_eq_plus1 le_Suc_eq order_refl)
  then have "affordable (n + 1) (ins ?e t) rs"
    using 3(1) [OF refl refl refl] 3(3,4) n balanced_ins [OF 3(2), of ?e] by (simp add: size1_size)
  with pv c show ?case by (simp add: Let_def)
qed (simp_all add: insertions_def)

lemma height_le_size: "height t \<le> size (t :: 'a tree)" by (rule height_le_size_tree)

context keeping_ram
begin

lemma run_odict_view:
  assumes E: "env_ok access writable E"
  shows "odict_holds holds N od t \<Longrightarrow> od_node_count od + insertions rs \<le> N + 1 \<Longrightarrow> N \<le> fuel \<Longrightarrow>
    (\<forall>r \<in> set rs. \<forall>k v. r = Insert_Req k v \<longrightarrow> length v = 32) \<Longrightarrow>
    if affordable (od_node_count od) t rs
    then \<exists>od' t'. run_odict E fuel rs od = Inr (map_answers (tree_map_of t) rs, od') \<and> odict_holds holds N od' t'
      \<and> od_node_count od' = od_node_count od + insertions rs
    else run_odict E fuel rs od = Inl Assert_Failed"
proof (induction rs arbitrary: od t)
  case Nil
  then show ?case by (auto simp: insertions_def)
next
  case (Cons r rs)
  have "size t \<le> N" using odict_holds_size [OF Cons.prems(1)] Cons.prems(1)
    by (simp add: odict_holds_def size1_size)
  then have f: "height t \<le> fuel" using height_le_size [of t] Cons.prems(3) by linarith
  show ?case
  proof (cases r)
    case (Find_Req k)
    from Find_view [OF E Cons.prems(1) f, of k] obtain p od1 where
      p: "Find E fuel k od = Inr (p, od1)" "odict_holds holds N od1 t" "od_node_count od1 = od_node_count od"
        "case find_entry k t of None \<Rightarrow> p = None
         | Some e \<Rightarrow> \<exists>q. p = Some q \<and> node_id (od_heap od1 q) = fst e
             \<and> node_key (od_heap od1 q) = k \<and> node_value (od_heap od1 q) = snd (snd e)" by blast
    have "map_option (\<lambda>q. node_value (od_heap od1 q)) p = tree_map_of t k"
      using p(4) by (auto simp: tree_map_of_def split: option.splits)
    with Cons.IH [OF p(2)] Cons.prems(2-4) p(1,3) show ?thesis
      by (auto simp: Find_Req insertions_def split: if_splits)
  next
    case (Insert_Req k v)
    have n: "od_node_count od \<le> N" "length v = 32" using Cons.prems(2,4) by (auto simp: Insert_Req insertions_def)
    let ?e = "(of_nat (od_node_count od), k, v)"
    note step = Insert_view [OF E Cons.prems(1) f n refl refl, of k]
    have o: "ordered t" using Cons.prems(1) by (simp add: odict_holds_def)
    show ?thesis
    proof (cases "fst (ins_cost ?e t) \<le> unat (ComputePadVal (of_nat (od_node_count od + 1)))
        \<and> snd (ins_cost ?e t) \<le> unat (ComputePadVal (of_nat (od_node_count od + 1)))")
      case False
      with step show ?thesis by (auto simp: Insert_Req Let_def)
    next
      case True
      with step obtain p od1 where p: "Insert E fuel k v od = Inr (p, od1)"
        "odict_holds holds N od1 (ins ?e t)" "od_node_count od1 = od_node_count od + 1" by auto
      have M: "map_answers (tree_map_of t) (r # rs) = map_answers (tree_map_of (ins ?e t)) rs"
        unfolding tree_map_of_ins [OF o] by (simp add: Insert_Req)
      have "affordable (od_node_count od) t (r # rs) = affordable (od_node_count od1) (ins ?e t) rs"
        "run_odict E fuel (r # rs) od = run_odict E fuel rs od1"
        using True p(1,3) by (simp_all add: Insert_Req Let_def)
      note step = M this
      have "od_node_count od1 + insertions rs \<le> N + 1" "\<forall>r \<in> set rs. \<forall>k v. r = Insert_Req k v \<longrightarrow> length v = 32"
        using Cons.prems(2,4) p(3) by (simp_all add: Insert_Req insertions_def)
      note IH = Cons.IH [OF p(2) this(1) Cons.prems(3) this(2)]
      have "od_node_count od1 + insertions rs = od_node_count od + insertions (r # rs)"
        using p(3) by (simp add: Insert_Req insertions_def)
      from IH [unfolded this] show ?thesis unfolding step .
    qed
  qed
qed

lemma OdictController_holds:
  assumes h: "holds s m" and room: "\<And>i. unat i \<le> N \<Longrightarrow> \<exists>d. m i = Some d \<and> 64 \<le> length d"
    and N: "N \<le> cs" "0 < cs" "N + 1 < 2 ^ 32"
  shows "\<exists>od. OdictController n cs True s hp free = Inr od \<and> odict_holds holds N od Leaf
    \<and> od_node_count od = 1"
proof -
  let ?od = "\<lparr>od_backend = s, od_heap = hp, od_next = free, od_cache = OdsCache cs,
    od_root_id = invalid_mask, od_node_count = 1, od_size = n, od_read_count = 0, od_write_count = 0\<rparr>"
  have "od_inv holds N m ?od"
    using h room N(1,2) by (simp add: od_inv_def OdsCache_def cache_ok_def lookup_def)
  then have "odict_holds holds N ?od Leaf"
    using N(3) by (auto simp: odict_holds_def in_ranges_def ordered_def IsEmpty_def OdsCache_def invalid_mask_def)
  then show ?thesis by (auto simp: OdictController_def)
qed

end

section \<open>On the ORAMs of the library\<close>

interpretation path_odict: keeping_ram "Path_Access L" "path_serves L k" "storable L k" for L k
proof unfold_locales
  fix s m a x b s'
  assume h: "path_serves L k s m" "m a \<noteq> None" "storable L k x"
    and r: "Path_Access L Operation_kWrite a x s = Inr ((OK, b), s')"
  obtain c w where s: "s = (c, w)" by (cases s)
  from h(2) obtain d where "m a = Some d" by auto
  from path_write [of L k c w m a d x] this h s r show "b = x" by (auto simp: path_serves_def)
qed

interpretation linear_odict: keeping_ram "Linear_Access L" "linear_holds L" wf_block for L
proof unfold_locales
  fix s m a x b s'
  assume h: "linear_holds L s m" "m a \<noteq> None" "wf_block x"
    and r: "Linear_Access L Operation_kWrite a x s = Inr ((OK, b), s')"
  from h(1) obtain k bs where "sodium_ok L" "linear_view L k s bs" by (auto simp: linear_holds_def)
  from Linear_Access_write [OF this h(3), of a] r show "b = x" by auto
qed

lemma blocks_map_room:
  assumes "list_all (storable L k) ds" and "blocks_map ds i \<noteq> None"
  shows "\<exists>d. blocks_map ds i = Some d \<and> 64 \<le> length d"
proof -
  from assms(2) obtain d where d: "blocks_map ds i = Some d" by auto
  then have "\<exists>b \<in> set ds. data b = d"
    by (induction ds) (auto simp: blocks_map_Cons split: if_splits, simp add: blocks_map_def)
  with assms(1) d show ?thesis by (auto simp: list_all_iff storable_def wf_block_def)
qed

text \<open>A dictionary on a Path ORAM that has just been filled with blocks for the identifiers 0 to \<open>N\<close>.\<close>

lemma path_odict_set_up:
  assumes L: "sodium_ok L" "lz4_ok L" "random_live L" "pads_ok L k"
    and h: "keyed k h" and n: "block_num \<noteq> 0" "bucket_size \<noteq> 0" "bucket_size < 256"
    and s: "storages s i = None" "i < kMaximumOramStorageNum"
    and ds: "list_all (storable L k) ds" "distinct (normal_ids ds)" "length ds \<le> unat block_num"
    and ids: "\<forall>j. unat j \<le> N \<longrightarrow> j \<in> set (normal_ids ds)"
    and N: "N \<le> cs" "0 < cs" "N + 1 < 2 ^ 32"
  shows "\<exists>c h0 w1 cw2 od. PathOramController L memory i block_num bucket_size True h = Inr (c, h0)
    \<and> Path_InitOram (c, \<lparr>w_host = h0, w_srv = Some s, w_log = []\<rparr>) = (OK, c, w1)
    \<and> Path_FillWithData L ds (c, w1) = Inr (OK, cw2)
    \<and> OdictController osize cs (oc_initialized (fst cw2)) cw2 hp free = Inr od
    \<and> odict_holds (path_serves L k) N od Leaf \<and> od_node_count od = 1"
proof -
  from path_memory_set_up [OF L h n s ds, of memory] obtain c h0 w1 c2 w2 where
    c: "PathOramController L memory i block_num bucket_size True h = Inr (c, h0)"
      "Path_InitOram (c, \<lparr>w_host = h0, w_srv = Some s, w_log = []\<rparr>) = (OK, c, w1)"
      "Path_FillWithData L ds (c, w1) = Inr (OK, c2, w2)" and serves: "path_serves L k (c2, w2) (blocks_map ds)" by blast
  then have init: "oc_initialized c2" by (auto simp: path_serves_def path_holds_def path_inv_def)
  have "\<exists>d. blocks_map ds j = Some d \<and> 64 \<le> length d" if "unat j \<le> N" for j
    using blocks_map_room [OF ds(1), of j] ids that blocks_map_None [of ds j] by auto
  from path_odict.OdictController_holds [OF serves this N, of osize hp free] obtain od where
    "OdictController osize cs True (c2, w2) hp free = Inr od"
    "odict_holds (path_serves L k) N od Leaf" "od_node_count od = 1" by blast
  with c(1-3) init show ?thesis by (intro exI [of _ c] exI [of _ h0] exI [of _ w1] exI [of _ "(c2, w2)"]) simp
qed

end
