(* ===== verification/Path_Trace.thy ===== *)
theory Path_Trace
  imports Path_Frame
begin

text \<open>
  The calls an access to a Path ORAM makes to its server. They are those of the path down to the
  leaf its address had and, when the block is there, of the same path up; which leaf that is, a
  sequence of accesses decides by the leaves drawn on the way alone.
\<close>

section \<open>The calls of a Path ORAM\<close>

lemma assemble_header_fields [simp]:
  "assemble_header (c\<lparr>po_communication := n\<rparr>) = assemble_header c"
  "assemble_header (c\<lparr>po_stash := st\<rparr>) = assemble_header c"
  "assemble_header (c\<lparr>po_position := pm\<rparr>) = assemble_header c"
  "assemble_header (c\<lparr>po_stash_size := n\<rparr>) = assemble_header c"
  by (simp_all add: assemble_header_def)

lemma ReadBucket_made:
  assumes "ReadBucket L x l (c, w) = Inr ((s, bs), cw')" "ok s"
  shows "\<exists>n w'. cw' = (c\<lparr>po_communication := n\<rparr>, w') \<and> made [Call_ReadPath (assemble_header c) x l] w w'
    \<and> w_host w' = w_host w"
proof -
  obtain st b w1 where r: "stub_ReadPath L (assemble_header c) x l w = ((st, b), w1)" by (metis surj_pair)
  with assms have "is_ok st" "\<exists>n. cw' = (c\<lparr>po_communication := n\<rparr>, w1)"
    by (auto simp: ReadBucket_def andThen_eq_Inr split: if_splits)
  with made_rpc [OF r] rpc_world [OF r] show ?thesis by auto
qed

lemma read_path_made:
  "read_path L x i n (c, w) = Inr ((s, bs), c', w') \<Longrightarrow> ok s \<Longrightarrow>
    made (map (Call_ReadPath (assemble_header c) x) [i..<i + n]) w w' \<and> w_host w' = w_host w"
proof (induction n arbitrary: i c w bs)
  case 0
  then show ?case by (auto simp: made_def)
next
  case (Suc n)
  from Suc.prems(1,2) obtain s1 b cw1 bs' where
    b: "ReadBucket L x i (c, w) = Inr ((s1, b), cw1)" "ok s1"
      "read_path L x (Suc i) n cw1 = Inr ((s, bs'), c', w')"
    by (auto simp: andThen_eq_Inr split: if_splits)
  from ReadBucket_made [OF b(1,2)] obtain m w1 where
    w1: "cw1 = (c\<lparr>po_communication := m\<rparr>, w1)" "made [Call_ReadPath (assemble_header c) x i] w w1"
    "w_host w1 = w_host w" by blast
  note IH = Suc.IH [OF b(3) [unfolded w1(1)] Suc.prems(2)]
  from IH w1(2)
  have "made ([Call_ReadPath (assemble_header c) x i] @ map (Call_ReadPath (assemble_header c) x) [Suc i..<Suc i + n]) w w'"
    by (intro made_trans) auto
  moreover have "[i..<i + Suc n] = i # [Suc i..<Suc i + n]" by (simp add: upt_conv_Cons del: upt_Suc)
  ultimately show ?case using IH w1(3) by simp
qed

text \<open>The bucket that is written has the full size, whatever is in the stash.\<close>

lemma pad_loop_draws: "pad_loop L n st h = Inr (st', h') \<Longrightarrow> draws h \<le> draws h'"
proof (induction n arbitrary: st h)
  case (Suc n)
  then show ?case by (fastforce simp: CheckStatus_def RandomBytes_def split: prod.splits if_splits)
qed simp

lemma FindSubsetOf_views:
  assumes L: "sodium_ok L" "pads_ok L k" and k: "keyed k (w_host w)"
    and st: "\<forall>b \<in> set (po_stash c). wf_block b" and f: "FindSubsetOf L x (c, w) = Inr (bucket, cw')"
  shows "\<exists>kept pm h. cw' = (c\<lparr>po_stash := kept, po_position := pm\<rparr>, w\<lparr>w_host := h\<rparr>) \<and> keyed k h
    \<and> draws (w_host w) \<le> draws h \<and> length bucket = unat (po_bucket_size c) \<and> (\<forall>b \<in> set bucket. wf_block b) \<and> set kept \<subseteq> set (po_stash c)"
proof -
  obtain sub kept pm where s: "subset_loop (unat (po_bucket_size c)) x (po_stash c) (po_position c) = (sub, kept, pm)"
    by (metis surj_pair)
  note v = subset_loop_views [OF s]
  from PadStash_view [OF L k, of sub "unat (po_bucket_size c)"] obtain ps h where
    p: "PadStash L sub (unat (po_bucket_size c)) (w_host w) = Inr (sub @ ps, h)" "keyed k h" "list_all wf_block ps" by blast
  have "length (sub @ ps) = unat (po_bucket_size c)"
    using p(1) v pad_loop_length [of L _ sub "w_host w" "sub @ ps" h] by (auto simp: PadStash_def split: if_splits)
  moreover have "\<forall>b \<in> set (sub @ ps). wf_block b" using v st p(3) by (auto simp: list_all_iff)
  moreover have "bucket = sub @ ps" "cw' = (c\<lparr>po_stash := kept, po_position := pm\<rparr>, w\<lparr>w_host := h\<rparr>)"
    using f s p(1) by (auto simp: FindSubsetOf_def)
  moreover have "draws (w_host w) \<le> draws h"
    using p(1) pad_loop_draws by (auto simp: PadStash_def split: if_splits)
  ultimately show ?thesis using p(2) v by blast
qed

lemma seal_bucket_shape:
  assumes L: "sodium_ok L"
  shows "keyed k h \<Longrightarrow> \<forall>b \<in> set bs. wf_block b \<Longrightarrow>
    \<exists>ds h'. seal_bucket L bs h = Inr (ds, h') \<and> keyed k h' \<and> draws h \<le> draws h'
      \<and> map length ds = replicate (length bs) 560"
proof (induction bs arbitrary: h)
  case (Cons b bs)
  from EncryptBlock_seals [OF L _ Cons.prems(1), of b] Cons.prems(2) obtain b' where
    e: "EncryptBlock L b h = Inr ((OK, b'), h\<lparr>draws := draws h + 1\<rparr>)" "sealed L k b' b" by auto
  have "keyed k (h\<lparr>draws := draws h + 1\<rparr>)" using Cons.prems(1) by (simp add: keyed_def)
  from Cons.IH [OF this] Cons.prems(2) obtain ds h' where
    "seal_bucket L bs (h\<lparr>draws := draws h + 1\<rparr>) = Inr (ds, h')" "keyed k h'" "draws h < draws h'"
    "map length ds = replicate (length bs) 560" by auto
  with e sealed_length [OF e(2)] show ?case by (simp add: ConvertToString_def)
qed simp

definition write_shape :: "request_header \<Rightarrow> nat \<Rightarrow> u32 \<Rightarrow> nat \<Rightarrow> server_call" where
  "write_shape hdr Z x l = Call_WritePath hdr x l 0 kNormal (replicate Z (replicate 560 0))"

text \<open>What no access changes in the controller, and the order of the host's draws.\<close>

definition same_oram :: "path_oram \<Rightarrow> path_oram \<Rightarrow> bool" where
  "same_oram c c' \<longleftrightarrow> assemble_header c' = assemble_header c \<and> po_tree_level c' = po_tree_level c
     \<and> po_bucket_size c' = po_bucket_size c \<and> po_leafs c' = po_leafs c \<and> oc_standalone c' = oc_standalone c"

definition later :: "world \<Rightarrow> world \<Rightarrow> bool" where
  "later w w' \<longleftrightarrow> draws (w_host w) \<le> draws (w_host w')"

lemma write_path_made:
  assumes L: "sodium_ok L" "pads_ok L k"
  shows "write_path L x n (c, w) = Inr (s, c', w') \<Longrightarrow> ok s \<Longrightarrow> keyed k (w_host w) \<Longrightarrow>
    \<forall>b \<in> set (po_stash c). wf_block b \<Longrightarrow>
    \<exists>cs. made cs w w' \<and> map shape cs = map (write_shape (assemble_header c) (unat (po_bucket_size c)) x) (rev [0..<n])
      \<and> same_oram c c' \<and> later w w'"
proof (induction n arbitrary: c w)
  case 0
  then show ?case by (auto simp: made_def same_oram_def later_def)
next
  case (Suc n)
  from Suc.prems(1,2) obtain bucket cw1 s1 cw2 where
    f: "FindSubsetOf L x (c, w) = Inr (bucket, cw1)" "WriteBucket L x n bucket cw1 = Inr (s1, cw2)" "ok s1"
      "write_path L x n cw2 = Inr (s, c', w')"
    by (auto simp: write_path.simps(2) andThen_eq_Inr split: if_splits)
  from FindSubsetOf_views [OF L Suc.prems(3,4) f(1)] obtain kept pm h where
    v: "cw1 = (c\<lparr>po_stash := kept, po_position := pm\<rparr>, w\<lparr>w_host := h\<rparr>)" "keyed k h"
      "draws (w_host w) \<le> draws h" "length bucket = unat (po_bucket_size c)" "\<forall>b \<in> set bucket. wf_block b" "set kept \<subseteq> set (po_stash c)" by blast
  from seal_bucket_shape [OF L(1) v(2,5)] obtain ds h' where
    d: "seal_bucket L bucket h = Inr (ds, h')" "keyed k h'" "draws h \<le> draws h'"
      "map length ds = replicate (length bucket) 560" by blast
  obtain st u w2 where r: "stub_WritePath L (assemble_header c) x n 0 kNormal ds (w\<lparr>w_host := h'\<rparr>) = ((st, u), w2)"
    by (metis surj_pair)
  have ok: "is_ok st" and cw2: "\<exists>m. cw2 = (c\<lparr>po_stash := kept, po_position := pm, po_communication := m\<rparr>, w2)"
    using f(2,3) d(1) r by (auto simp: v(1) WriteBucket_def Let_def split: if_splits)
  then obtain m where cw2: "cw2 = (c\<lparr>po_stash := kept, po_position := pm, po_communication := m\<rparr>, w2)" by blast
  let ?call = "Call_WritePath (assemble_header c) x n 0 kNormal ds"
  from made_rpc [OF r] have s1: "made [?call] w w2" by simp
  have h': "w_host w2 = h'" using rpc_world [OF r] by simp
  with d(2) have "keyed k (w_host w2)" by simp
  then obtain cs where cs: "made cs w2 w'"
    "map shape cs = map (write_shape (assemble_header c) (unat (po_bucket_size c)) x) (rev [0..<n])"
    "same_oram c c'" "later w2 w'"
    using Suc.IH [OF f(4) [unfolded cw2] Suc.prems(2)] Suc.prems(4) v(6) by (auto simp: same_oram_def)
  have "later w w'" using cs(4) v(3) d(3) h' by (simp add: later_def)
  have "map (\<lambda>d. replicate (length d) (0 :: u8)) ds = map (\<lambda>n. replicate n 0) (map length ds)" by simp
  then have "shape ?call = write_shape (assemble_header c) (unat (po_bucket_size c)) x n"
    by (simp add: write_shape_def d(4) v(4) del: map_map)
  with made_trans [OF s1 cs(1)] cs(2,3) \<open>later w w'\<close> show ?case by (intro exI [of _ "[?call] @ cs"]) simp
qed

section \<open>One access\<close>

text \<open>The calls of an access that ends with a status that is not an error: the path down and up again.\<close>

definition path_reads :: "request_header \<Rightarrow> nat \<Rightarrow> u32 \<Rightarrow> server_call list" where
  "path_reads hdr N x = map (Call_ReadPath hdr x) [0..<N + 1]"

definition path_writes :: "request_header \<Rightarrow> nat \<Rightarrow> nat \<Rightarrow> u32 \<Rightarrow> server_call list" where
  "path_writes hdr N Z x = map (write_shape hdr Z x) (rev [0..<N + 1])"

lemma shape_path_reads [simp]: "map shape (path_reads hdr N x) = path_reads hdr N x"
  by (simp add: path_reads_def)

text \<open>Positions that are there are not changed by writing a path back.\<close>

lemma subset_loop_positions:
  "subset_loop n x st pm = (sub, kept, pm') \<Longrightarrow> pm a = Some y \<Longrightarrow> pm' a = Some y"
  by (induction n x st pm arbitrary: sub kept pm' rule: subset_loop.induct)
    (fastforce simp: touch_def split: prod.splits if_splits option.splits)+

lemma write_path_positions:
  "write_path L x n cw = Inr (s, cw') \<Longrightarrow> po_position (fst cw) a = Some y \<Longrightarrow> po_position (fst cw') a = Some y"
proof (induction n arbitrary: cw)
  case (Suc n)
  obtain c w where cw: "cw = (c, w)" by (cases cw)
  from Suc.prems(1) obtain b cw1 s1 cw2 where f: "FindSubsetOf L x (c, w) = Inr (b, cw1)"
    "WriteBucket L x n b cw1 = Inr (s1, cw2)"
    "(if \<not> ok s1 then Inr (Append s1 (mk_status kInvalidOperation ''Failed to write bucket''
       ''InternalAccessDirect''), cw2) else write_path L x n cw2) = Inr (s, cw')"
    by (auto simp: cw write_path.simps(2) andThen_eq_Inr simp del: if_split)
  have "po_position (fst cw1) a = Some y"
    using f(1) Suc.prems(2) subset_loop_positions
    by (fastforce simp: cw FindSubsetOf_def andThen_eq_Inr split: prod.splits)
  moreover have "po_position (fst cw2) = po_position (fst cw1)"
  proof -
    obtain c1 w1 where cw1: "cw1 = (c1, w1)" by (cases cw1)
    from f(2) obtain strs h where sb: "seal_bucket L b (w_host w1) = Inr (strs, h)"
      by (auto simp: cw1 WriteBucket_def andThen_eq_Inr)
    obtain st u w' where r: "stub_WritePath L (assemble_header c1) x n 0 kNormal strs (w1\<lparr>w_host := h\<rparr>) = ((st, u), w')"
      by (metis surj_pair)
    from f(2) sb r show ?thesis by (auto simp: cw1 WriteBucket_def Let_def)
  qed
  ultimately show ?case using f(3) Suc.IH [of cw2] by (auto split: if_splits)
qed auto

lemma fetched_stash: "fetched L k a x (c, w) T bs \<Longrightarrow> \<forall>b \<in> set (po_stash c). wf_block b"
  by (simp add: fetched_def path_inv_def stash_ok_def)

lemma fetched_keyed: "fetched L k a x (c, w) T bs \<Longrightarrow> keyed k (w_host w)"
  by (simp add: fetched_def path_inv_def)

lemma update_first_wf: "\<forall>b \<in> set bs. wf_block b \<Longrightarrow> length (data x) = 512 \<Longrightarrow>
    b \<in> set (update_first P (write_into x) bs) \<Longrightarrow> wf_block b"
  by (induction bs) (auto simp: write_into_def wf_block_def split: if_splits)

lemma remove_first_subset: "set (remove_first P bs) \<subseteq> set bs"
  by (induction bs) auto

lemma after_fetch_hit:
  assumes r: "after_fetch L op a x blk (po_stash c) (c, w) = Inr ((OK, b), c', w')"
    and e: "find (BlockEqual a) (po_stash c) = Some e"
    and wf: "\<forall>b \<in> set (po_stash c). wf_block b" "op = Operation_kWrite \<longrightarrow> length (data blk) = 512"
  shows "\<exists>c3. write_path L x (po_tree_level c + 1) (c3, w) = Inr (OK, c', w')
    \<and> same_oram c c3 \<and> (\<forall>b \<in> set (po_stash c3). wf_block b)
    \<and> (op = Operation_kWrite \<or> oc_standalone c \<longrightarrow> po_position c3 a = po_position c a)
    \<and> (\<forall>b. b \<noteq> a \<longrightarrow> po_position c3 b = po_position c b)"
proof -
  let ?c2 = "c\<lparr>po_stash := po_stash c, po_stash_size := max (po_stash_size c) (length (po_stash c))\<rparr>"
  let ?c3 = "if op = Operation_kWrite then ?c2\<lparr>po_stash := update_first (BlockEqual a) (write_into blk) (po_stash c)\<rparr>
    else if \<not> oc_standalone ?c2
    then ?c2\<lparr>po_stash := remove_first (BlockEqual a) (po_stash c), po_position := (po_position ?c2)(a := None)\<rparr> else ?c2"
  have "write_path L x (po_tree_level c + 1) (?c3, w) = Inr (OK, c', w')"
    using r e by (auto simp: after_fetch_def Let_def andThen_eq_Inr simp del: write_path.simps split: if_splits)
  moreover have "\<forall>b \<in> set (po_stash ?c3). wf_block b"
    using wf update_first_wf [OF wf(1)] remove_first_subset [of "BlockEqual a" "po_stash c"] by auto
  ultimately show ?thesis by (intro exI [of _ ?c3]) (simp add: same_oram_def)
qed

text \<open>When the block is in the stash, the path is written back, and only the address's position may go.\<close>

lemma after_fetch_calls:
  assumes L: "sodium_ok L" "pads_ok L k" and f: "fetched L k a x (c, w) T bs"
    and r: "after_fetch L op a x blk (po_stash c) (c, w) = Inr ((OK, b), c', w')"
    and e: "find (BlockEqual a) (po_stash c) = Some e" and blk: "op = Operation_kWrite \<longrightarrow> storable L k blk"
  shows "\<exists>cs. made cs w w'
    \<and> map shape cs = path_writes (assemble_header c) (po_tree_level c) (unat (po_bucket_size c)) x
    \<and> same_oram c c' \<and> later w w'
    \<and> (op = Operation_kWrite \<or> oc_standalone c \<longrightarrow> (\<forall>y. po_position c a = Some y \<longrightarrow> po_position c' a = Some y))
    \<and> (\<forall>b y. b \<noteq> a \<and> po_position c b = Some y \<longrightarrow> po_position c' b = Some y)"
proof -
  from after_fetch_hit [OF r e fetched_stash [OF f]] blk obtain c3 where
    wp: "write_path L x (po_tree_level c + 1) (c3, w) = Inr (OK, c', w')"
    and c3: "same_oram c c3" "\<forall>b \<in> set (po_stash c3). wf_block b"
    and pos: "op = Operation_kWrite \<or> oc_standalone c \<longrightarrow> po_position c3 a = po_position c a"
      "\<forall>b. b \<noteq> a \<longrightarrow> po_position c3 b = po_position c b"
    by (auto simp: storable_def wf_block_def simp del: write_path.simps)
  from write_path_made [OF L wp ok_OK fetched_keyed [OF f] c3(2)] obtain cs where
    "made cs w w'" "map shape cs = path_writes (assemble_header c) (po_tree_level c) (unat (po_bucket_size c)) x"
    "same_oram c c'" "later w w'"
    using c3(1) by (auto simp: same_oram_def path_writes_def)
  with write_path_positions [OF wp] pos show ?thesis by fastforce
qed

lemma RandomPosition_draws:
  assumes "RandomPosition L c h = Inr (y, g)"
  shows "\<exists>v n. draw_until L (max_acceptable (of_nat (po_leafs c))) (draws h) = Some (v, n)
    \<and> y = v mod of_nat (po_leafs c) \<and> draws g = n"
  using assms
  by (auto simp: RandomPosition_def UniformRandom_def Let_def CheckStatus_def andThen_eq_Inr mk_status_def
      split: if_splits option.splits)

lemma path_access_calls:
  assumes h: "path_holds L k (c, w) m" and op: "op = Operation_kRead \<or> op = Operation_kWrite" and x: "op = Operation_kWrite \<longrightarrow> storable L k blk"
  shows "\<exists>cs r c' w' y g. Path_Access L op a blk (c, w) = Inr (r, c', w') \<and> made cs w w'
    \<and> map shape cs = path_reads (assemble_header c) (po_tree_level c) (fst (touch a (po_position c)))
        @ (if m a = None then [] else path_writes (assemble_header c) (po_tree_level c) (unat (po_bucket_size c))
             (fst (touch a (po_position c))))
    \<and> RandomPosition L c (w_host w) = Inr (y, g) \<and> draws g \<le> draws (w_host w') \<and> same_oram c c'
    \<and> (op = Operation_kWrite \<or> oc_standalone c \<longrightarrow> po_position c' a = Some y)
    \<and> (\<forall>b z. b \<noteq> a \<and> po_position c b = Some z \<longrightarrow> po_position c' b = Some z)"
proof -
  have op': "op \<noteq> Operation_kInvalid" using op by auto
  from h have L: "sodium_ok L" "pads_ok L k" by (simp_all add: path_holds_def)
  from path_access_parts [OF h op', of a blk] obtain T bs z q g ds n w1 where
    p: "z = fst (touch a (po_position c))" "RandomPosition L c (w_host w) = Inr (q, g)"
      "read_path L z 0 (po_tree_level c + 1) (c\<lparr>po_position := (po_position c)(a \<mapsto> q)\<rparr>, w\<lparr>w_host := g\<rparr>)
        = Inr ((OK, ds), c\<lparr>po_position := (po_position c)(a \<mapsto> q), po_communication := n\<rparr>, w1)"
      "fetched L k a z (c\<lparr>po_position := (po_position c)(a \<mapsto> q), po_stash := merge_stash (po_stash c) ds,
        po_communication := n\<rparr>, w1) T bs" "blocks_map bs = m"
      "Path_Access L op a blk (c, w) = after_fetch L op a z blk (merge_stash (po_stash c) ds)
        (c\<lparr>po_position := (po_position c)(a \<mapsto> q), po_stash := merge_stash (po_stash c) ds, po_communication := n\<rparr>, w1)"
    unfolding Let_def by auto
  let ?st = "merge_stash (po_stash c) ds"
  let ?c1 = "c\<lparr>po_position := (po_position c)(a \<mapsto> q), po_stash := ?st, po_communication := n\<rparr>"
  from read_path_made [OF p(3)] have rd: "made (path_reads (assemble_header c) (po_tree_level c) z) w w1"
    and g: "w_host w1 = g" by (simp_all add: path_reads_def)
  show ?thesis
  proof (cases "m a")
    case None
    have "goods ?st \<subseteq># goods bs" using p(4) by (simp add: fetched_def stock_def) (metis mset_subset_eq_add_left)
    with None p(5) have "find (BlockEqual a) ?st = None" by (intro find_missing) auto
    then have "\<exists>r. Path_Access L op a blk (c, w) = Inr (r, ?c1, w1)" using p(6) by (simp add: after_fetch_def)
    moreover have "same_oram c ?c1" by (simp add: same_oram_def)
    ultimately show ?thesis unfolding p(1) [symmetric]
      using rd p(2) None g by (intro exI [of _ "path_reads (assemble_header c) (po_tree_level c) z"]) fastforce
  next
    case (Some d)
    with fetched_find [OF p(4), of d] p(5) obtain e where e: "find (BlockEqual a) (po_stash ?c1) = Some e" by auto
    from op x path_write [OF h Some] path_read_keep [OF h Some, of blk] path_read_remove [OF h Some, of blk]
    obtain b c' w' where acc: "Path_Access L op a blk (c, w) = Inr ((OK, b), c', w')" by blast
    then have "after_fetch L op a z blk (po_stash ?c1) (?c1, w1) = Inr ((OK, b), c', w')" using p(6) by simp
    from after_fetch_calls [OF L p(4) this e x] obtain cs where
      cs: "made cs w1 w'" "map shape cs = path_writes (assemble_header c) (po_tree_level c) (unat (po_bucket_size c)) z"
      "same_oram c c'" "draws g \<le> draws (w_host w')" "op = Operation_kWrite \<or> oc_standalone c \<longrightarrow> po_position c' a = Some q"
      "\<forall>b y. b \<noteq> a \<and> po_position c b = Some y \<longrightarrow> po_position c' b = Some y"
      using g by (auto simp: same_oram_def later_def)
    from made_trans [OF rd cs(1)] acc p(2) Some cs(2-6) show ?thesis unfolding p(1) [symmetric]
      by (intro exI [of _ "path_reads (assemble_header c) (po_tree_level c) z @ cs"]) fastforce
  qed
qed

section \<open>A sequence of accesses\<close>

text \<open>
  The leaves a sequence of accesses goes to, given the leaves that are drawn on the way: each
  goes to the leaf drawn by the access to the same address before it.
\<close>

fun leaves_visited :: "(u32 \<rightharpoonup> u32) \<Rightarrow> u32 list \<Rightarrow> u32 list \<Rightarrow> u32 list" where
  "leaves_visited pm (a # as) (y # ys) = the (pm a) # leaves_visited (pm(a \<mapsto> y)) as ys"
| "leaves_visited pm _ _ = []"

text \<open>
  Leaves drawn by rejection sampling one after the other, none of them from random words that
  were used before: \<open>n\<close> words have been used so far.
\<close>

inductive fresh_leaves :: "libs \<Rightarrow> nat \<Rightarrow> nat \<Rightarrow> u32 list \<Rightarrow> bool" for L leafs where
  fresh_Nil [simp, intro]: "fresh_leaves L leafs n []"
| fresh_Cons: "n \<le> i \<Longrightarrow> draw_until L (max_acceptable (of_nat leafs)) i = Some (v, j)
    \<Longrightarrow> fresh_leaves L leafs j ys \<Longrightarrow> fresh_leaves L leafs n (v mod of_nat leafs # ys)"

inductive_cases fresh_ConsE [elim]: "fresh_leaves L leafs n (y # ys)"

lemma fresh_leaves_mono: "fresh_leaves L leafs j ys \<Longrightarrow> n \<le> j \<Longrightarrow> fresh_leaves L leafs n ys"
  by (erule fresh_leaves.cases) (auto intro: fresh_Cons [OF order_trans])

lemma fresh_leaves_length: "fresh_leaves L leafs n ys \<Longrightarrow> leafs < 2 ^ 32 \<Longrightarrow> \<forall>y \<in> set ys. unat y < leafs \<or> leafs = 0"
proof (induction rule: fresh_leaves.induct)
  case (fresh_Cons n i v j ys)
  then have "unat (of_nat leafs :: u32) = leafs" by (intro unat_of_nat_u32) simp
  then have "unat (v mod of_nat leafs) = unat v mod leafs" by (simp add: unat_mod)
  with fresh_Cons show ?case by auto
qed simp

lemma leaves_visited_cong:
  "\<forall>a \<in> set as. pm a = pm' a \<Longrightarrow> leaves_visited pm as ys = leaves_visited pm' as ys"
proof (induction pm as ys arbitrary: pm' rule: leaves_visited.induct)
  case (1 pm a as y ys)
  then have "leaves_visited (pm(a \<mapsto> y)) as ys = leaves_visited (pm'(a \<mapsto> y)) as ys" by (intro "1.IH") auto
  with 1 show ?case by simp
qed simp_all

lemma holds_position:
  assumes "path_holds L k (c, w) m" "m a \<noteq> None"
  shows "\<exists>x. po_position c a = Some x"
proof -
  from assms obtain T bs d where inv: "path_inv L k (c, w) T" and bs: "stock c T = goods bs" "distinct (normal_ids bs)"
    and d: "blocks_map bs a = Some d" by (auto simp: path_holds_def)
  from d blocks_map_goods [OF bs(2)] obtain p where p: "p \<in># stock c T" "block_id (header p) = a"
    using bs(1) by auto
  from p(1) consider "p \<in># goods (po_stash c)" | t where "t \<in> tree_tags (po_tree_level c)" "p \<in># goods (T t)"
    by (auto simp: stock_def in_bag)
  then show ?thesis
    using inv p(2) by cases (fastforce simp: path_inv_def stash_ok_def placed_def in_goods)+
qed

definition path_calls :: "path_oram \<Rightarrow> u32 \<Rightarrow> server_call list" where
  "path_calls c x = path_reads (assemble_header c) (po_tree_level c) x
     @ path_writes (assemble_header c) (po_tree_level c) (unat (po_bucket_size c)) x"

lemma path_calls_cong: "same_oram c c' \<Longrightarrow> path_calls c' x = path_calls c x"
  by (simp add: same_oram_def path_calls_def)

lemma path_request_calls:
  assumes h: "path_serves L k (c, w) m" and r: "request_ok (storable L k) m r"
  shows "\<exists>cs c' w' v j. run_requests (Path_Access L) buf [r] (c, w) = Inr (fst (memory_run [r] m), c', w')
    \<and> path_serves L k (c', w') (snd (memory_run [r] m)) \<and> made cs w w'
    \<and> map shape cs = path_calls c (the (po_position c (address_of r))) \<and> same_oram c c'
    \<and> draw_until L (max_acceptable (of_nat (po_leafs c))) (draws (w_host w)) = Some (v, j) \<and> j \<le> draws (w_host w')
    \<and> (\<forall>a. m a \<noteq> None \<longrightarrow> po_position c' a
         = ((po_position c)(address_of r \<mapsto> v mod of_nat (po_leafs c))) a)"
proof -
  define op where "op = (case r of Read _ \<Rightarrow> Operation_kRead | Write _ _ \<Rightarrow> Operation_kWrite)"
  define blk where "blk = (case r of Read _ \<Rightarrow> buf | Write _ x \<Rightarrow> x)"
  let ?a = "address_of r"
  from h have holds: "path_holds L k (c, w) m" "oc_standalone c" by (simp_all add: path_serves_def)
  have op: "op = Operation_kRead \<or> op = Operation_kWrite" "op = Operation_kWrite \<longrightarrow> storable L k blk" "m ?a \<noteq> None"
    using r by (cases r; simp add: op_def blk_def)+
  from path.run_requests_memory [OF h, of "[r]" buf] r obtain c' w' where
    run: "run_requests (Path_Access L) buf [r] (c, w) = Inr (fst (memory_run [r] m), c', w')"
      "path_serves L k (c', w') (snd (memory_run [r] m))" by auto
  from path_access_calls [OF holds(1) op(1,2), of ?a] obtain cs st c2 w2 y g where
    acc: "Path_Access L op ?a blk (c, w) = Inr (st, c2, w2)" "made cs w w2"
      "map shape cs = path_calls c (fst (touch ?a (po_position c)))" "RandomPosition L c (w_host w) = Inr (y, g)"
      "draws g \<le> draws (w_host w2)" "same_oram c c2" "po_position c2 ?a = Some y"
      "\<forall>b z. b \<noteq> ?a \<and> po_position c b = Some z \<longrightarrow> po_position c2 b = Some z"
    using holds(2) op(3) by (auto simp: path_calls_def)
  have "c2 = c' \<and> w2 = w'"
    using run(1) acc(1) by (cases r) (auto simp: op_def blk_def andThen_eq_Inr)
  moreover from holds_position [OF holds(1) op(3)] have "fst (touch ?a (po_position c)) = the (po_position c ?a)"
    by (auto simp: touch_def)
  moreover have "po_position c2 a = ((po_position c)(?a \<mapsto> y)) a" if "m a \<noteq> None" for a
    using holds_position [OF holds(1) that] acc(7,8) by (cases "a = ?a") auto
  ultimately show ?thesis
    using run acc(2,3,5,6) RandomPosition_draws [OF acc(4)] by fastforce
qed

text \<open>The whole sequence: the leaves drawn on the way and the addresses' first leaves decide every call.\<close>

lemma path_requests_calls:
  assumes "path_serves L k (c, w) m" "\<forall>r \<in> set rs. request_ok (storable L k) m r"
  shows "\<exists>cs ys c' w'. run_requests (Path_Access L) buf rs (c, w) = Inr (fst (memory_run rs m), c', w')
    \<and> made cs w w' \<and> length ys = length rs \<and> fresh_leaves L (po_leafs c) (draws (w_host w)) ys
    \<and> map shape cs = concat (map (path_calls c) (leaves_visited (po_position c) (map address_of rs) ys))"
  using assms
proof (induction rs arbitrary: c w m)
  case Nil
  have "made [] w w" by (simp add: made_def)
  then show ?case by (intro exI [of _ "[]"]) simp
next
  case (Cons r rs)
  let ?leaf = "\<lambda>v. v mod of_nat (po_leafs c)"
  have "request_ok (storable L k) m r" using Cons.prems(2) by simp
  from path_request_calls [OF Cons.prems(1) this, of buf] obtain cs c1 w1 v j where
    one: "run_requests (Path_Access L) buf [r] (c, w) = Inr (fst (memory_run [r] m), c1, w1)"
      "path_serves L k (c1, w1) (snd (memory_run [r] m))" "made cs w w1"
      "map shape cs = path_calls c (the (po_position c (address_of r)))" "same_oram c c1"
      "draw_until L (max_acceptable (of_nat (po_leafs c))) (draws (w_host w)) = Some (v, j)" "j \<le> draws (w_host w1)"
      "\<forall>a. m a \<noteq> None \<longrightarrow> po_position c1 a = ((po_position c)(address_of r \<mapsto> ?leaf v)) a" by blast
  have "\<forall>q \<in> set rs. request_ok (storable L k) (snd (memory_run [r] m)) q"
    using Cons.prems(2) request_ok_later [of "storable L k" m r] by simp
  from Cons.IH [OF one(2) this] obtain cs' ys c' w' where
    rest: "run_requests (Path_Access L) buf rs (c1, w1) = Inr (fst (memory_run rs (snd (memory_run [r] m))), c', w')"
      "made cs' w1 w'" "length ys = length rs" "fresh_leaves L (po_leafs c1) (draws (w_host w1)) ys"
      "map shape cs' = concat (map (path_calls c1) (leaves_visited (po_position c1) (map address_of rs) ys))" by blast
  have "run_requests (Path_Access L) buf (r # rs) (c, w) = Inr (fst (memory_run (r # rs) m), c', w')"
    using one(1) rest(1) by (simp add: run_requests_Cons [of _ _ r rs] memory_run_Cons [of r rs])
  moreover have "made (cs @ cs') w w'" using made_trans [OF one(3) rest(2)] .
  moreover have "fresh_leaves L (po_leafs c) (draws (w_host w)) (?leaf v # ys)"
    using one(5-7) fresh_leaves_mono [OF rest(4)] by (intro fresh_Cons [OF order_refl]) (auto simp: same_oram_def)
  moreover have "leaves_visited (po_position c1) (map address_of rs) ys
      = leaves_visited ((po_position c)(address_of r \<mapsto> ?leaf v)) (map address_of rs) ys"
  proof (rule leaves_visited_cong, rule ballI)
    fix a assume "a \<in> set (map address_of rs)"
    then obtain q where "q \<in> set rs" "a = address_of q" by auto
    with Cons.prems(2) have "m a \<noteq> None" by (cases q) auto
    with one(8) show "po_position c1 a = ((po_position c)(address_of r \<mapsto> ?leaf v)) a" by blast
  qed
  moreover have "path_calls c1 = path_calls c" by (rule ext) (rule path_calls_cong [OF one(5)])
  ultimately show ?case
    using one(4) rest(3,5) by (intro exI [of _ "cs @ cs'"] exI [of _ "?leaf v # ys"]) auto
qed

section \<open>Hits and misses\<close>

fun writes_path :: "server_call \<Rightarrow> bool" where
  "writes_path (Call_WritePath _ _ _ _ _ _) \<longleftrightarrow> True"
| "writes_path _ \<longleftrightarrow> False"

lemma writes_path_shape [simp]: "writes_path (shape c) = writes_path c"
  by (cases c) simp_all

lemma list_ex_shape: "list_ex writes_path (map shape cs) = list_ex writes_path cs"
  by (induction cs) simp_all

lemma writes_path_calls [simp]:
  "\<not> list_ex writes_path (path_reads hdr N x)" "list_ex writes_path (path_writes hdr N Z x)"
  by (auto simp: path_reads_def path_writes_def write_shape_def list_ex_iff)

end
