(* ===== verification/Odict_Counts.thy ===== *)
theory Odict_Counts
  imports Odict_Map Path_Trace
begin

text \<open>
  The number of calls the operations of the oblivious dictionary make to the server of its ORAM.
\<close>

section \<open>ORAMs whose accesses cost the same\<close>

text \<open>Every access to an address that is there adds the same number to \<open>calls\<close>.\<close>

locale counting_ram = keeping_ram +
  fixes calls per_access :: "'a \<Rightarrow> nat"
  assumes access_calls: "holds s m \<Longrightarrow> m a \<noteq> None \<Longrightarrow>
    op = Operation_kRead \<or> op = Operation_kWrite \<and> writable x \<Longrightarrow>
    access op a x s = Inr ((OK, b), s') \<Longrightarrow> calls s' = calls s + per_access s \<and> per_access s' = per_access s"

text \<open>Between two states of the dictionary, \<open>n\<close> accesses were made.\<close>

definition spent :: "('s \<Rightarrow> nat) \<Rightarrow> ('s \<Rightarrow> nat) \<Rightarrow> nat \<Rightarrow> 's odict \<Rightarrow> 's odict \<Rightarrow> bool" where
  "spent calls per_access n od od' \<longleftrightarrow> calls (od_backend od') = calls (od_backend od) + n * per_access (od_backend od)
     \<and> per_access (od_backend od') = per_access (od_backend od)"

lemma spent_refl [simp]: "od_backend od' = od_backend od \<Longrightarrow> spent calls per_access 0 od od'"
  by (simp add: spent_def)

lemma spent_trans: "spent calls per_access n od od1 \<Longrightarrow> spent calls per_access k od1 od2 \<Longrightarrow>
    spent calls per_access (n + k) od od2"
  by (simp add: spent_def algebra_simps)

text \<open>The nodes in the cache.\<close>

definition cached :: "'s odict \<Rightarrow> u32 set" where
  "cached od = dom (lookup (od_cache od))"

lemma cached_length:
  assumes inv: "od_inv holds N m od"
  shows "card (cached od) = length (lru_table (od_cache od))"
proof -
  from inv have ok: "cache_ok (od_cache od)" by (simp add: od_inv_def)
  then have "cached od = set (lru_table (od_cache od))"
    using lookup_None [OF ok] unfolding cached_def dom_def by simp
  moreover have "distinct (lru_table (od_cache od))" using ok by (simp add: cache_ok_def)
  ultimately show ?thesis by (simp only: distinct_card)
qed

section \<open>The accesses of a lookup\<close>

context counting_ram
begin

abbreviation spends :: "nat \<Rightarrow> 'a odict \<Rightarrow> 'a odict \<Rightarrow> bool" where
  "spends \<equiv> spent calls per_access"

lemma read_node_miss:
  assumes E: "env_ok access writable E" and inv: "od_inv holds N m od" and i: "in_range N i"
    and miss: "i \<notin> cached od" and r: "read_node E i od = Inr (p, od')"
  shows "spends 1 od od' \<and> cached od' = insert i (cached od)"
proof -
  let ?p = "od_next od"
  from inv have ok: "cache_ok (od_cache od)" by (simp add: od_inv_def)
  have none: "lookup (od_cache od) i = None" using miss by (auto simp: cached_def)
  from Get_ok [OF ok, of i] obtain c where c: "Get i (od_cache od) = Inr (None, c)"
    "cache_ok c" "lookup c = lookup (od_cache od)" "cache_items c = cache_items (od_cache od)"
    "max_size c = max_size (od_cache od)" by (auto simp: none)
  let ?b = "(env_block E (Suc ?p))\<lparr>header := (header (env_block E (Suc ?p)))\<lparr>block_id := i\<rparr>\<rparr>"
  from inv i obtain d where h: "holds (od_backend od) m" "m i = Some d"
    unfolding od_inv_def in_range_def by blast
  from read_hit [OF h(1,2), of ?b] obtain b s where
    a: "access Operation_kRead i ?b (od_backend od) = Inr ((OK, b), s)" by blast
  have s: "calls s = calls (od_backend od) + per_access (od_backend od)" "per_access s = per_access (od_backend od)"
    using access_calls [OF h(1) _ _ a] h(2) by simp_all
  from Put_room [of c i ?p] c(2-5) cache_room [OF inv i] obtain c' where
    c': "Put i ?p c = Inr (None, c')" "lookup c' = (lookup c)(i \<mapsto> ?p)" by auto
  from r c(1) a c'(1) i E have "od_backend od' = s" "od_cache od' = c'"
    by (auto simp: read_node_def new_node_def OdsAccessRead_def Let_def set_node_def CheckStatus_def
        CacheHelper_def env_ok_def in_range_def invalid_mask_def)
  then show ?thesis using s c'(2) c(3) by (simp add: spent_def cached_def)
qed

lemma InternalFind_spends:
  assumes E: "env_ok access writable E"
  shows "od_inv holds N m od \<Longrightarrow> in_ranges N t \<Longrightarrow> repr (view m od) t i \<Longrightarrow>
    set (ids t) \<inter> cached od = {} \<Longrightarrow> InternalFind E fuel key i od = Inr (r, od') \<Longrightarrow>
    spends (find_cost key t) od od' \<and> card (cached od') = card (cached od) + find_cost key t"
proof (induction t arbitrary: i fuel od)
  case Leaf
  from Leaf(5,3) show ?case by (subst (asm) InternalFind.simps) (simp add: invalid_mask_def)
next
  case (Node l a q)
  let ?V = "view m od"
  note n = repr_fields [OF Node.prems(3)]
  have ir: "in_range N i" "i \<notin> cached od" using in_ranges_Node [OF Node.prems(2)] n(6) Node.prems(4) by auto
  from read_node_view [OF E Node.prems(1) ir(1) n(5)] obtain x od1 where
    r1: "read_node E i od = Inr (x, od1)" "od_inv holds N m od1" "view m od1 = ?V" "od_heap od1 x = ?V i" by blast
  note one = read_node_miss [OF E Node.prems(1) ir r1(1)]
  have c1: "card (cached od1) = Suc (card (cached od))" using one ir(2) by simp
  obtain n' where f: "fuel = Suc n'"
    using Node.prems(5) ir(1) by (cases fuel) (simp_all add: InternalFind.simps [of E 0] in_range_def invalid_mask_def)
  have rec: "InternalFind E fuel key i od =
      (if ent_key a = key then Inr (Some x, od1)
       else if ent_key a < key then InternalFind E n' key (right_id (?V i)) od1
       else InternalFind E n' key (left_id (?V i)) od1)"
    using r1(1,4) ir by (subst InternalFind.simps) (simp add: f in_range_def invalid_mask_def n(7) Let_def)
  have sub: "set (ids l) \<inter> cached od1 = {}" "set (ids q) \<inter> cached od1 = {}"
    using Node.prems(2,4) one n(6) by (auto simp: in_ranges_def)
  have down: "spends (Suc k) od od' \<and> card (cached od') = card (cached od) + Suc k"
    if "spends k od1 od' \<and> card (cached od') = card (cached od1) + k" for k
    using that spent_trans [of calls per_access 1 od od1 k od'] one c1 by simp
  note R = in_ranges_Node [OF Node.prems(2)]
  consider "ent_key a = key" | "ent_key a \<noteq> key" "ent_key a < key" | "ent_key a \<noteq> key" "\<not> ent_key a < key" by blast
  then show ?case
  proof cases
    case 1
    with rec Node.prems(5) one c1 show ?thesis by simp
  next
    case 2
    have "repr (view m od1) q (right_id (?V i))" using n(4) r1(3) by simp
    from down [OF Node.IH(2) [OF r1(2) _ this sub(2), of n']] 2 rec Node.prems(5) R show ?thesis by simp
  next
    case 3
    have "repr (view m od1) l (left_id (?V i))" using n(3) r1(3) by simp
    from down [OF Node.IH(1) [OF r1(2) _ this sub(1), of n']] 3 rec Node.prems(5) R show ?thesis by simp
  qed
qed

lemma pad_accesses_spends:
  assumes E: "env_ok access writable E"
    and op: "op = Operation_kRead \<or> op = Operation_kWrite \<and> writable b \<and> length (data b) = 512"
  shows "od_inv holds N m od \<Longrightarrow> pad_accesses E op n b od = Inr (OK, od') \<Longrightarrow> spends n od od'"
  using op
proof (induction n arbitrary: m b od)
  case (Suc n)
  from Suc.prems(1) obtain d where d: "holds (od_backend od) m" "m 0 = Some d"
    by (auto simp: od_inv_def) (metis unsigned_0 zero_le)
  have "\<exists>b' s m'. access op 0 b (od_backend od) = Inr ((OK, b'), s) \<and> od_inv holds N m' (od\<lparr>od_backend := s\<rparr>)
      \<and> (op = Operation_kRead \<or> op = Operation_kWrite \<and> writable b' \<and> length (data b') = 512)"
  proof (cases "op = Operation_kRead")
    case True
    with read_hit [OF d, of b] Suc.prems(1) show ?thesis by (fastforce simp: od_inv_def)
  next
    case False
    with Suc.prems(3) have w: "op = Operation_kWrite" "writable b" "length (data b) = 512" by auto
    from write_hit [OF d w(2)] obtain b' s where
      r: "access Operation_kWrite 0 b (od_backend od) = Inr ((OK, b'), s)" "holds s (m(0 \<mapsto> data b))" by blast
    have "b' = b" using write_keeps [OF d(1) _ w(2) r(1)] d(2) by simp
    moreover have "od_inv holds N (m(0 \<mapsto> data b)) (od\<lparr>od_backend := s\<rparr>)"
      using Suc.prems(1) r(2) w(3) by (auto simp: od_inv_def)
    ultimately show ?thesis using r(1) w by blast
  qed
  then obtain b' s m' where a: "access op 0 b (od_backend od) = Inr ((OK, b'), s)"
    "od_inv holds N m' (od\<lparr>od_backend := s\<rparr>)"
    "op = Operation_kRead \<or> op = Operation_kWrite \<and> writable b' \<and> length (data b') = 512" by blast
  have "spends 1 od (od\<lparr>od_backend := s\<rparr>)"
    using access_calls [OF d(1) _ _ a(1)] d(2) Suc.prems(3) by (auto simp: spent_def)
  moreover have "spends n (od\<lparr>od_backend := s\<rparr>) od'"
    using Suc.IH [OF a(2) _ a(3)] Suc.prems(2) a(1) E by (simp add: env_ok_def)
  ultimately show ?case using spent_trans by fastforce
qed simp

lemma DoPad_spends:
  assumes E: "env_ok access writable E" and op: "op = Operation_kRead \<or> op = Operation_kWrite"
    and "od_inv holds N m od" "DoPad E op n od = Inr (OK, od')"
  shows "spends n od od'"
  using assms by (intro pad_accesses_spends [OF E _ assms(3)]) (auto simp: DoPad_def Let_def env_ok_def)

lemma write_back_cache_spends:
  assumes E: "env_ok access writable E"
  shows "od_inv holds N m od \<Longrightarrow> write_back_cache E od = Inr od' \<Longrightarrow> spends (card (cached od)) od od'"
proof (induction "lru_table (od_cache od)" arbitrary: m od)
  case Nil
  from write_back_end [OF Nil(2)] cached_length [OF Nil(2)] Nil(1,3) show ?case by simp
next
  case (Cons i "is")
  from write_back_step [OF E Cons.prems(1) Cons(2) [symmetric]] obtain m1 x b s c od1 where
    w: "access Operation_kWrite i x (od_backend od) = Inr ((OK, b), s)" "writable x" "m i \<noteq> None"
      "od1 = od\<lparr>od_backend := s, od_cache := c\<rparr>" "lru_table c = is"
      "write_back_cache E od = write_back_cache E od1" "od_inv holds N m1 od1" by blast
  from Cons.prems(1) have h: "holds (od_backend od) m" by (simp add: od_inv_def)
  have one: "spends 1 od od1" using access_calls [OF h w(3) _ w(1)] w(2,4) by (simp add: spent_def)
  have "spends (card (cached od1)) od1 od'" using Cons(1) [OF _ w(7)] Cons.prems(2) w(4-6) by simp
  moreover have "card (cached od) = 1 + card (cached od1)"
    using cached_length [OF Cons.prems(1)] cached_length [OF w(7)] w(4,5) by (simp flip: Cons(2))
  ultimately show ?case using spent_trans [OF one] by simp
qed

lemma OdsFinalize_spends:
  assumes E: "env_ok access writable E" and inv: "od_inv holds N m od"
    and r: "OdsFinalize E pv od = Inr (st, od')"
  shows "spends ((pv - unat (od_read_count od)) + card (cached od) + (pv - unat (od_write_count od))) od od'"
proof -
  let ?b = "\<lambda>od :: 'a odict. (env_block E (od_next od))\<lparr>header := (header (env_block E (od_next od)))
      \<lparr>block_id := 0, btype := BlockType_kNormal\<rparr>\<rparr>"
  have b: "writable (?b od)" "length (data (?b od)) = 512" for od using E by (simp_all add: env_ok_def)
  from pad_reads_view [OF E inv, of "pv - unat (od_read_count od)" "?b od"] obtain od1 where
    p: "DoPad E Operation_kRead (pv - unat (od_read_count od)) od = Inr (OK, od1)"
    and s: "od_inv holds N m od1" "\<exists>s. od1 = od\<lparr>od_backend := s\<rparr>" by (auto simp: DoPad_def Let_def)
  from write_back_cache_view [OF E s(1)] obtain od2 m2 where
    w: "write_back_cache E od1 = Inr od2" and m2: "od_inv holds N m2 od2" "IsEmpty (od_cache od2)" "step 0 od1 od2 0 0"
    by blast
  from pad_writes_view [OF E b m2(1,2), of "pv - unat (od_write_count od2)"] obtain od3 where
    q: "DoPad E Operation_kWrite (pv - unat (od_write_count od2)) od2 = Inr (OK, od3)"
    by (auto simp: DoPad_def Let_def)
  have o: "od' = od3\<lparr>od_write_count := 0, od_read_count := 0\<rparr>"
    using r p w q by (auto simp: OdsFinalize_def panic_if_def split: if_splits)
  have "od_write_count od2 = od_write_count od" using m2(3) s(2) by (auto simp: step_def)
  moreover have "cached od1 = cached od" using s(2) by (auto simp: cached_def)
  moreover note DoPad_spends [OF E _ inv p] write_back_cache_spends [OF E s(1) w] DoPad_spends [OF E _ m2(1) q]
  ultimately have "spends ((pv - unat (od_read_count od)) + card (cached od) + (pv - unat (od_write_count od))) od od3"
    using spent_trans by metis
  then show ?thesis by (simp add: spent_def o)
qed

text \<open>
  A lookup spends the padding value twice and, beyond that, one access for every node on its way:
  the reads of these nodes are padded, the writes that put them back are not.
\<close>

lemma Find_spends:
  assumes E: "env_ok access writable E" and H: "odict_holds holds N od t"
    and fuel: "height t \<le> fuel" and r: "Find E fuel key od = Inr (r, od')"
  shows "spends (2 * unat (ComputePadVal (of_nat (od_node_count od))) + find_cost key t) od od'"
proof -
  let ?od0 = "OdsStart od" and ?n = "od_node_count od"
  from H obtain m where m: "od_inv holds N m od" "repr (view m od) t (od_root_id od)"
    and h: "in_ranges (?n - 1) t" "1 \<le> ?n" "?n \<le> N + 1" "N + 1 < 2 ^ 32" "od_read_count od = 0"
      "od_write_count od = 0" "IsEmpty (od_cache od)" "balanced t" by (auto simp: odict_holds_def)
  note c = Clear_inv [OF m(1) h(7)]
  have rn: "in_ranges N t" using in_ranges_mono [OF h(1)] h(3) by simp
  have rep: "repr (view m ?od0) t (od_root_id ?od0)" using m(2) c by (simp add: OdsStart_def)
  have empty: "cached ?od0 = {}" by (simp add: cached_def OdsStart_def Clear_def lookup_def)
  let ?pv = "unat (ComputePadVal (of_nat ?n))"
  from r obtain od1 st where i: "InternalFind E fuel key (od_root_id ?od0) ?od0 = Inr (r, od1)"
    and fin: "OdsFinalize E (unat (ComputePadVal (of_nat (od_node_count od1)))) od1 = Inr (st, od')"
    by (auto simp: Find_def Let_def andThen_eq_Inr CheckStatus_def split: if_splits)
  from InternalFind_spends [OF E conjunct1 [OF c] rn rep _ i] empty have
    one: "spends (find_cost key t) ?od0 od1" "card (cached od1) = find_cost key t" by simp_all
  from InternalFind_view [OF E conjunct1 [OF c] rn rep fuel, of key] i have
    od1: "od_inv holds N m od1" "step (od_next ?od0) ?od0 od1 (find_cost key t) 0" by auto
  have pv: "find_cost key t \<le> ?pv"
    using find_cost_height [of key t] height_pad [OF h(8) odict_holds_size [OF H]] h(3,4) by fastforce
  have cnt: "od_read_count od1 = of_nat (find_cost key t)" "od_write_count od1 = 0" "od_node_count od1 = ?n"
    using od1(2) h(5,6) by (simp_all add: step_def OdsStart_def)
  have "find_cost key t < 2 ^ 32" using pv unat_u32_less [of "ComputePadVal (of_nat ?n)"] by simp
  then have "unat (od_read_count od1) = find_cost key t" using cnt(1) by (simp add: unat_of_nat_u32)
  with OdsFinalize_spends [OF E od1(1) fin] cnt(2,3) one(2) pv have "spends (2 * ?pv) od1 od'" by (simp flip: mult_2)
  from spent_trans [OF one(1) this] show ?thesis by (simp add: spent_def OdsStart_def add.commute)
qed

end


section \<open>On a Path ORAM\<close>

text \<open>An access reads a path and writes it back, one call for each bucket.\<close>

interpretation path_counted: counting_ram "Path_Access L" "path_serves L k" "storable L k"
    "\<lambda>cw. length (w_log (snd cw))" "\<lambda>cw. 2 * (po_tree_level (fst cw) + 1)" for L k
proof unfold_locales
  fix s m a op x b s'
  assume h: "path_serves L k s m" "m a \<noteq> None" "op = Operation_kRead \<or> op = Operation_kWrite \<and> storable L k x"
    and r: "Path_Access L op a x s = Inr ((OK, b), s')"
  obtain c w where s: "s = (c, w)" by (cases s)
  from h(1) s have holds: "path_holds L k (c, w) m" by (simp add: path_serves_def)
  from path_access_calls [OF holds, of op x a] h(3) r s obtain cs c' w' where
    c: "s' = (c', w')" "made cs w w'" "same_oram c c'"
      "map shape cs = path_reads (assemble_header c) (po_tree_level c) (fst (touch a (po_position c)))
        @ (if m a = None then [] else path_writes (assemble_header c) (po_tree_level c) (unat (po_bucket_size c))
             (fst (touch a (po_position c))))" by auto
  have "length cs = length (map shape cs)" by simp
  also have "\<dots> = 2 * (po_tree_level c + 1)" unfolding c(4) using h(2) by (simp add: path_reads_def path_writes_def)
  finally show "length (w_log (snd s')) = length (w_log (snd s)) + 2 * (po_tree_level (fst s) + 1)
      \<and> 2 * (po_tree_level (fst s') + 1) = 2 * (po_tree_level (fst s) + 1)"
    using c(1-3) s by (simp add: made_def same_oram_def)
qed

end
