(* ===== verification/Odict_Properties.thy ===== *)
theory Odict_Properties
  imports Odict_Counts Oram_Instance
begin

text \<open>The properties of the oblivious dictionary, its cache and its nodes.\<close>

section \<open>An environment\<close>

definition toy_node :: "bytes tree_node" where
  "toy_node = \<lparr>node_id = 0, pad1 = replicate 4 0, node_key = 0, pad2 = replicate 4 0,
     node_value = replicate 32 0, left_id = 0, right_id = 0, left_height = 0, right_height = 0\<rparr>"

definition toy_env :: "(path_oram \<times> world) odict_env" where
  "toy_env = \<lparr>env_access = Path_Access toy_libs, env_node = (\<lambda>_. toy_node),
     env_block = (\<lambda>_. toy_block 0 0 0)\<rparr>"

lemma toy_env_ok [simp]: "env_ok (Path_Access toy_libs) (storable toy_libs k) toy_env"
  by (simp add: env_ok_def toy_env_def toy_node_def wf_node_def wf_block_def node_block_def
      toy_block_def overwrite_def node_bytes_def)

definition toy_nodes :: "nat \<Rightarrow> oram_block list" where
  "toy_nodes N = map (\<lambda>i. toy_block (of_nat i) 1 0) [0..<Suc N]"

lemma toy_nodes_ok:
  assumes "N + 1 < 2 ^ 32"
  shows "list_all (storable toy_libs k) (toy_nodes N)" "distinct (normal_ids (toy_nodes N))"
    "length (toy_nodes N) = N + 1" "\<forall>j. unat j \<le> N \<longrightarrow> j \<in> set (normal_ids (toy_nodes N))"
proof -
  have ids: "normal_ids (toy_nodes N) = map of_nat [0..<Suc N]"
    by (simp add: toy_nodes_def normal_ids_def BlockType_kNormal_def o_def)
  show "list_all (storable toy_libs k) (toy_nodes N)" "length (toy_nodes N) = N + 1"
    by (auto simp: toy_nodes_def list_all_iff)
  have "inj_on (of_nat :: nat \<Rightarrow> u32) (set [0..<Suc N])"
  proof (rule inj_onI)
    fix x y assume "x \<in> set [0..<Suc N]" "y \<in> set [0..<Suc N]" and e: "(of_nat x :: u32) = of_nat y"
    then have "x < 4294967296" "y < 4294967296" using assms by auto
    then show "x = y" using arg_cong [OF e, of unat] by (simp add: unat_of_nat_u32)
  qed
  then show "distinct (normal_ids (toy_nodes N))" unfolding ids by (simp only: distinct_map distinct_upt simp_thms)
  show "\<forall>j. unat j \<le> N \<longrightarrow> j \<in> set (normal_ids (toy_nodes N))"
  proof (intro allI impI)
    fix j :: u32 assume "unat j \<le> N"
    then have "unat j \<in> set [0..<Suc N]" by (simp only: set_upt atLeastLessThan_iff le0 less_Suc_eq_le simp_thms)
    then have "of_nat (unat j) \<in> set (map (of_nat :: nat \<Rightarrow> u32) [0..<Suc N])" unfolding set_map by (rule imageI)
    then show "j \<in> set (normal_ids (toy_nodes N))" unfolding ids by simp
  qed
qed

section \<open>The dictionary\<close>

text \<open>
  C12. An oblivious dictionary on a Path ORAM that is constructed, initialised and filled with blocks
  for the identifiers 0 to \<open>N\<close>, with a cache for \<open>N\<close> nodes, answers every sequence of lookups and at most
  \<open>N\<close> insertions as a map in which the first insertion of a key stays (an insertion of a known key does
  not change its value), provided the padding value covers every insertion; otherwise the sequence
  ends in the failed assertion of \<open>OdsFinalize\<close>. In particular lookups never fail, the recursions end,
  and the tree stays ordered and balanced.
\<close>

theorem odict_is_map:
  assumes "sodium_ok L" "lz4_ok L" "random_live L" "pads_ok L k"
    and "keyed k h" and "block_num \<noteq> 0" "bucket_size \<noteq> 0" "bucket_size < 256"
    and "storages s i = None" "i < kMaximumOramStorageNum"
    and "list_all (storable L k) ds" "distinct (normal_ids ds)" "length ds \<le> unat block_num"
    and "\<forall>j. unat j \<le> N \<longrightarrow> j \<in> set (normal_ids ds)"
    and "N \<le> cs" "0 < cs" "N + 1 < 2 ^ 32" "N \<le> fuel"
    and "env_ok (Path_Access L) (storable L k) E"
    and "insertions rs \<le> N" "\<forall>r \<in> set rs. \<forall>k v. r = Insert_Req k v \<longrightarrow> length v = 32"
  shows "\<exists>c h0 w1 cw2 od. PathOramController L memory i block_num bucket_size True h = Inr (c, h0)
    \<and> Path_InitOram (c, \<lparr>w_host = h0, w_srv = Some s, w_log = []\<rparr>) = (OK, c, w1)
    \<and> Path_FillWithData L ds (c, w1) = Inr (OK, cw2)
    \<and> OdictController osize cs (oc_initialized (fst cw2)) cw2 hp free = Inr od
    \<and> (if affordable 1 Leaf rs
       then \<exists>od' t. run_odict E fuel rs od = Inr (map_answers Map.empty rs, od')
         \<and> odict_holds (path_serves L k) N od' t \<and> od_node_count od' = 1 + insertions rs
       else run_odict E fuel rs od = Inl Assert_Failed)"
proof -
  from path_odict_set_up [OF assms(1-17), of memory osize hp free] obtain c h0 w1 cw2 od where
    c: "PathOramController L memory i block_num bucket_size True h = Inr (c, h0)"
      "Path_InitOram (c, \<lparr>w_host = h0, w_srv = Some s, w_log = []\<rparr>) = (OK, c, w1)"
      "Path_FillWithData L ds (c, w1) = Inr (OK, cw2)"
      "OdictController osize cs (oc_initialized (fst cw2)) cw2 hp free = Inr od"
      "odict_holds (path_serves L k) N od Leaf" "od_node_count od = 1" by blast
  from assms(20) have "od_node_count od + insertions rs \<le> N + 1" by (simp add: c(6))
  note run = path_odict.run_odict_view [OF assms(19) c(5) this assms(18,21), unfolded c(6) tree_map_of_Leaf]
  show ?thesis using c(1-4) run by blast
qed

theorem odict_is_map_witness:
  "\<exists>cw2 od od'. OdictController 9 5 (oc_initialized (fst cw2)) cw2 (\<lambda>_. toy_node) 0 = Inr od
    \<and> run_odict toy_env 3 [Insert_Req 7 (replicate 32 1), Insert_Req 7 (replicate 32 2), Find_Req 7, Find_Req 8] od
      = Inr ([Some (replicate 32 1), None], od')"
proof -
  let ?rs = "[Insert_Req 7 (replicate 32 1), Insert_Req 7 (replicate 32 2), Find_Req 7, Find_Req 8]"
  have "2 / 3 \<le> ln (3 :: real)" using ln_2_ge by (rule order_trans) simp
  then have "1 \<le> unat (ComputePadVal (of_nat 3))" by (intro le_ComputePadVal) simp_all
  then have a: "affordable 1 Leaf ?rs" by (simp add: plus2_def)
  have m: "map_answers Map.empty ?rs = [Some (replicate 32 1), None]" by simp
  have r: "insertions ?rs \<le> 3" "\<forall>r \<in> set ?rs. \<forall>k v. r = Insert_Req k v \<longrightarrow> length v = 32"
    by (simp_all add: insertions_def)
  note nodes = toy_nodes_ok [of 3]
  have len: "length (toy_nodes 3) \<le> unat (4 :: u32)" using nodes(3) by simp
  from odict_is_map [of toy_libs "replicate 32 7" toy_host 4 2 toy_server 1 "toy_nodes 3" 3 5 3 toy_env ?rs,
      OF _ _ _ _ _ _ _ _ _ _ nodes(1) [simplified] nodes(2) len nodes(4) _ _ _ _ _ r, of toy_cryptor 9 "\<lambda>_. toy_node" 0]
  show ?thesis unfolding m using a by auto
qed

text \<open>
  C14. Three insertions into a new dictionary, the third key between the first two, always end in the
  failed assertion: the third insertion needs a double rotation and reads 8 nodes, but the padding
  value of 4 identifiers is 6. The first two insertions succeed.
\<close>

theorem odict_double_rotation_fails:
  assumes "sodium_ok L" "lz4_ok L" "random_live L" "pads_ok L k"
    and "keyed k h" and "block_num \<noteq> 0" "bucket_size \<noteq> 0" "bucket_size < 256"
    and "storages s i = None" "i < kMaximumOramStorageNum"
    and "list_all (storable L k) ds" "distinct (normal_ids ds)" "length ds \<le> unat block_num"
    and "\<forall>j. unat j \<le> N \<longrightarrow> j \<in> set (normal_ids ds)"
    and "N \<le> cs" "0 < cs" "N + 1 < 2 ^ 32" "N \<le> fuel"
    and "env_ok (Path_Access L) (storable L k) E" "3 \<le> N"
    and "length u = 32" "length v = 32" "length w = 32"
    and "k1 < k3 \<and> k3 < k2 \<or> k2 < k3 \<and> k3 < k1"
  shows "\<exists>c h0 w1 cw2 od od2. PathOramController L memory i block_num bucket_size True h = Inr (c, h0)
    \<and> Path_InitOram (c, \<lparr>w_host = h0, w_srv = Some s, w_log = []\<rparr>) = (OK, c, w1)
    \<and> Path_FillWithData L ds (c, w1) = Inr (OK, cw2)
    \<and> OdictController osize cs (oc_initialized (fst cw2)) cw2 hp free = Inr od
    \<and> run_odict E fuel [Insert_Req k1 u, Insert_Req k2 v] od = Inr ([], od2)
    \<and> run_odict E fuel [Insert_Req k1 u, Insert_Req k2 v, Insert_Req k3 w] od = Inl Assert_Failed"
proof -
  from path_odict_set_up [OF assms(1-17), of memory osize hp free] obtain c h0 w1 cw2 od where
    c: "PathOramController L memory i block_num bucket_size True h = Inr (c, h0)"
      "Path_InitOram (c, \<lparr>w_host = h0, w_srv = Some s, w_log = []\<rparr>) = (OK, c, w1)"
      "Path_FillWithData L ds (c, w1) = Inr (OK, cw2)"
    and o: "OdictController osize cs (oc_initialized (fst cw2)) cw2 hp free = Inr od"
      "odict_holds (path_serves L k) N od Leaf" "od_node_count od = 1" by blast
  have "2 / 3 \<le> ln (3 :: real)" using ln_2_ge by (rule order_trans) simp
  then have three: "1 \<le> unat (ComputePadVal 3)" using le_ComputePadVal [of 3 1] by simp
  have order: "k1 < k2 \<and> k1 < k3 \<and> k3 < k2 \<and> \<not> k2 < k1 \<and> \<not> k3 < k1 \<and> \<not> k2 < k3
      \<or> k2 < k1 \<and> k2 < k3 \<and> k3 < k1 \<and> \<not> k1 < k2 \<and> \<not> k1 < k3 \<and> \<not> k3 < k2"
    using assms(24) by (meson less_trans less_not_sym)
  let ?two = "[Insert_Req k1 u, Insert_Req k2 v]" and ?three = "[Insert_Req k1 u, Insert_Req k2 v, Insert_Req k3 w]"
  have two: "affordable 1 Leaf ?two" using three order by (auto simp: Let_def plus2_def)
  have fails: "\<not> affordable 1 Leaf ?three" using order
    by (auto simp: Let_def plus2_def ComputePadVal_4 rot_defs)
  have n: "od_node_count od + insertions ?three \<le> N + 1" "od_node_count od + insertions ?two \<le> N + 1"
    "\<forall>r \<in> set ?three. \<forall>k v. r = Insert_Req k v \<longrightarrow> length v = 32"
    "\<forall>r \<in> set ?two. \<forall>k v. r = Insert_Req k v \<longrightarrow> length v = 32"
    using assms(20-23) o(3) by (simp_all add: insertions_def)
  note run = path_odict.run_odict_view [OF assms(19) o(2) n(2) assms(18) n(4), unfolded o(3)]
    path_odict.run_odict_view [OF assms(19) o(2) n(1) assms(18) n(3), unfolded o(3)]
  have "run_odict E fuel ?three od = Inl Assert_Failed" using run(2) fails by (simp only: if_False)
  moreover have "\<exists>od2. run_odict E fuel ?two od = Inr ([], od2)" using run(1) two by auto
  ultimately show ?thesis using c o(1) by blast
qed

theorem odict_double_rotation_fails_witness:
  "\<exists>cw2 od. OdictController 9 5 (oc_initialized (fst cw2)) cw2 (\<lambda>_. toy_node) 0 = Inr od
    \<and> run_odict toy_env 3 [Insert_Req 10 (replicate 32 1), Insert_Req 30 (replicate 32 2),
        Insert_Req 20 (replicate 32 3)] od = Inl Assert_Failed"
proof -
  note nodes = toy_nodes_ok [of 3]
  have len: "length (toy_nodes 3) \<le> unat (4 :: u32)" using nodes(3) by simp
  have k: "(10 :: u32) < 20 \<and> (20 :: u32) < 30 \<or> (30 :: u32) < 20 \<and> (20 :: u32) < 10" by simp
  have u: "length (replicate 32 x :: bytes) = 32" for x by simp
  from odict_double_rotation_fails [of toy_libs "replicate 32 7" toy_host 4 2 toy_server 1 "toy_nodes 3" 3 5 3 toy_env,
      OF _ _ _ _ _ _ _ _ _ _ nodes(1) [simplified] nodes(2) len nodes(4) _ _ _ _ _ _ u u u k, of toy_cryptor 9 "\<lambda>_. toy_node" 0]
  show ?thesis by (simp del: run_odict.simps) blast
qed

text \<open>
  C15. A dictionary that has used at least 127 identifiers never fails: every sequence of lookups and
  insertions that the ORAM has room for is covered by the padding value and answered as by a map.
\<close>

theorem large_odict_never_fails:
  assumes "env_ok (Path_Access L) (storable L k) E" "odict_holds (path_serves L k) N od t"
    and "127 \<le> od_node_count od" "od_node_count od + insertions rs \<le> N + 1" "N \<le> fuel"
    and "\<forall>r \<in> set rs. \<forall>k v. r = Insert_Req k v \<longrightarrow> length v = 32"
  shows "\<exists>od' t'. run_odict E fuel rs od = Inr (map_answers (tree_map_of t) rs, od')
    \<and> odict_holds (path_serves L k) N od' t'"
proof -
  have "affordable (od_node_count od) t rs"
    using assms(2-4) odict_holds_size [OF assms(2)] by (intro affordable_large) (auto simp: odict_holds_def)
  with path_odict.run_odict_view [OF assms(1,2,4,5,6)] have
    "\<exists>od' t'. run_odict E fuel rs od = Inr (map_answers (tree_map_of t) rs, od')
      \<and> odict_holds (path_serves L k) N od' t' \<and> od_node_count od' = od_node_count od + insertions rs"
    by (simp only: if_True)
  then show ?thesis by blast
qed

lemma affordable_same_key:
  "2 \<le> n \<Longrightarrow> n + m < 2 ^ 32 \<Longrightarrow> affordable n (Node Leaf (i, k, v) Leaf) (replicate m (Insert_Req k w))"
proof (induction m arbitrary: n)
  case (Suc m)
  have "ln 2 \<le> ln (real (n + 1))" using Suc.prems(1) by (subst ln_le_cancel_iff) simp_all
  then have "1 \<le> unat (ComputePadVal (of_nat (n + 1)))"
    using ln_2_ge Suc.prems(2) by (intro le_ComputePadVal) linarith+
  then show ?case using Suc.IH [of "n + 1"] Suc.prems by (simp add: Let_def plus2_def)
qed simp

text \<open>The state of the witness: 126 insertions of one key.\<close>

theorem large_odict_never_fails_witness:
  "\<exists>od t od' t'. odict_holds (path_serves toy_libs (replicate 32 7)) 128 od t \<and> od_node_count od = 127
    \<and> run_odict toy_env 128 [Insert_Req 8 (replicate 32 1), Find_Req 8] od
      = Inr (map_answers (tree_map_of t) [Insert_Req 8 (replicate 32 1), Find_Req 8], od')
    \<and> odict_holds (path_serves toy_libs (replicate 32 7)) 128 od' t'"
proof -
  let ?k = "replicate 32 7" and ?rs = "replicate 126 (Insert_Req 7 (replicate 32 1))"
    and ?more = "[Insert_Req 8 (replicate 32 1), Find_Req 8]"
  note nodes = toy_nodes_ok [of 128]
  have len: "length (toy_nodes 128) \<le> unat (129 :: u32)" using nodes(3) by simp
  have r: "insertions ?rs = 126" "\<forall>r \<in> set ?rs. \<forall>k v. r = Insert_Req k v \<longrightarrow> length v = 32"
    by (simp_all add: insertions_def)
  have "affordable 1 Leaf (Insert_Req 7 (replicate 32 1) # replicate 125 (Insert_Req 7 (replicate 32 1)))"
    using affordable_same_key [of 2 125 1 7 "replicate 32 1" "replicate 32 1"]
    by (simp add: Let_def numeral_2_eq_2 [symmetric] del: replicate.simps)
  moreover have "?rs = Insert_Req 7 (replicate 32 1) # replicate 125 (Insert_Req 7 (replicate 32 1))"
    by (simp flip: replicate_Suc)
  ultimately have a: "affordable 1 Leaf ?rs" by simp
  from path_odict_set_up [of toy_libs ?k toy_host 129 2 toy_server 1 "toy_nodes 128" 128 200 toy_cryptor 9
      "\<lambda>_. toy_node" 0] nodes len obtain od0 where
    o: "odict_holds (path_serves toy_libs ?k) 128 od0 Leaf" "od_node_count od0 = 1" by auto
  from path_odict.run_odict_view [OF toy_env_ok o(1), of ?rs 128] a o(2) r obtain od t where
    "odict_holds (path_serves toy_libs ?k) 128 od t" "od_node_count od = 127" by auto
  moreover from large_odict_never_fails [OF toy_env_ok this(1), of ?more 128] this(2) obtain od' t' where
    "run_odict toy_env 128 ?more od = Inr (map_answers (tree_map_of t) ?more, od')"
    "odict_holds (path_serves toy_libs ?k) 128 od' t'" by (auto simp: insertions_def)
  ultimately show ?thesis by blast
qed

text \<open>
  C13. The number of calls a lookup makes to the server of the Path ORAM below the dictionary grows with
  the depth of the key: the padding covers the reads of the nodes on the way, but not the writes
  that put them back. Two lookups make equally many calls if and only if they visit equally
  many nodes.
\<close>

theorem find_reveals_depth:
  assumes "env_ok (Path_Access L) (storable L k) E" "odict_holds (path_serves L k) N od t" "N \<le> fuel"
  shows "\<exists>r od1 r' od2. Find E fuel key od = Inr (r, od1) \<and> Find E fuel key' od = Inr (r', od2)
    \<and> length (w_log (snd (od_backend od1))) = length (w_log (snd (od_backend od)))
        + (2 * unat (ComputePadVal (of_nat (od_node_count od))) + find_cost key t)
          * (2 * (po_tree_level (fst (od_backend od)) + 1))
    \<and> (length (w_log (snd (od_backend od1))) = length (w_log (snd (od_backend od2)))
        \<longleftrightarrow> find_cost key t = find_cost key' t)"
proof -
  have "height t \<le> N"
    using height_le_size [of t] odict_holds_size [OF assms(2)] assms(2) by (auto simp: odict_holds_def size1_size)
  with assms(3) have f: "height t \<le> fuel" by simp
  note F = path_odict.Find_view [OF assms(1,2) f]
  from F [of key] F [of key'] obtain r od1 r' od2 where
    r: "Find E fuel key od = Inr (r, od1)" "Find E fuel key' od = Inr (r', od2)" by blast
  let ?n = "2 * (po_tree_level (fst (od_backend od)) + 1)"
  have "(x + a) * ?n = (x + b) * ?n \<longleftrightarrow> a = b" for x a b
    unfolding mult_cancel2 by simp
  moreover note path_counted.Find_spends [OF assms(1,2) f r(1)] path_counted.Find_spends [OF assms(1,2) f r(2)]
  ultimately show ?thesis using r unfolding spent_def by (metis add_left_cancel)
qed

theorem find_reveals_depth_witness:
  "\<exists>od r od1 r' od2. Find toy_env 3 7 od = Inr (r, od1) \<and> Find toy_env 3 9 od = Inr (r', od2)
    \<and> length (w_log (snd (od_backend od1))) \<noteq> length (w_log (snd (od_backend od2)))"
proof -
  let ?k = "replicate 32 7" and ?v = "replicate 32 1 :: bytes"
  note nodes = toy_nodes_ok [of 3]
  have len: "length (toy_nodes 3) \<le> unat (4 :: u32)" using nodes(3) by simp
  from path_odict_set_up [of toy_libs ?k toy_host 4 2 toy_server 1 "toy_nodes 3" 3 5 toy_cryptor 9
      "\<lambda>_. toy_node" 0] nodes len obtain od0 where
    o: "odict_holds (path_serves toy_libs ?k) 3 od0 Leaf" "od_node_count od0 = 1" by auto
  have "2 / 3 \<le> ln (3 :: real)" using ln_2_ge by (rule order_trans) simp
  then have pad: "1 \<le> unat (ComputePadVal (of_nat 3))" by (intro le_ComputePadVal) simp_all
  from path_odict.Insert_view [OF toy_env_ok o(1) _ _ _ refl refl, of 3 ?v 7] o(2) obtain od1 where
    i1: "odict_holds (path_serves toy_libs ?k) 3 od1 (Node Leaf (1, 7, ?v) Leaf)" "od_node_count od1 = 2" by (auto simp: numeral_2_eq_2)
  from path_odict.Insert_view [OF toy_env_ok i1(1) _ _ _ refl refl, of 3 ?v 9] i1(2) pad obtain od2 where
    i2: "odict_holds (path_serves toy_libs ?k) 3 od2 (Node Leaf (1, 7, ?v) (Node Leaf (2, 9, ?v) Leaf))"
    by (auto simp: plus2_def)
  have "find_cost 7 (Node Leaf (1, 7, ?v) (Node Leaf (2, 9, ?v) Leaf))
      \<noteq> find_cost 9 (Node Leaf (1, 7, ?v) (Node Leaf (2, 9, ?v) Leaf))" by simp
  with find_reveals_depth [OF toy_env_ok i2, of 3 7 9] show ?thesis by (simp only: order_refl) metis
qed

section \<open>The cache\<close>

text \<open>
  C33. The cache of the dictionary, a table and a list of identifiers, gives in every sequence of
  operations what one list of at most \<open>n\<close> entries in the order of their last use gives.
\<close>

theorem ods_cache_is_lru:
  "andThen (run_cache ops (OdsCache n)) (\<lambda>(rs, c). Inr (rs, recency c)) = run_lru n ops []"
  using run_cache_recency [of "OdsCache n" n ops] by (simp add: OdsCache_def recency_def cache_ok_def)

text \<open>
  C34. When the cache is full, writing a node that is not in it drops the least recently used node
  without an access to the ORAM: what was changed in that node is lost.
\<close>

theorem full_cache_drops_node:
  assumes "cache_ok (od_cache od)" "0 < max_size (od_cache od)"
    and "length (cache_items (od_cache od)) = max_size (od_cache od)"
    and "lookup (od_cache od) (node_id (od_heap od p)) = None"
  shows "\<exists>od'. OdsAccess E Ods_kWrite p od = Inr (OK, od') \<and> od_backend od' = od_backend od
    \<and> lookup (od_cache od) (last (lru_table (od_cache od))) \<noteq> None
    \<and> lookup (od_cache od') = ((lookup (od_cache od))(last (lru_table (od_cache od)) := None))
        (node_id (od_heap od p) \<mapsto> p)"
proof -
  have "Get (node_id (od_heap od p)) (od_cache od) = Inr (None, od_cache od)"
    using assms(4) by (simp add: Get_def lookup_def)
  with Put_full [OF assms(1,4,3,2), of p] show ?thesis by (auto simp: OdsAccessWrite_def Let_def)
qed

section \<open>Nodes\<close>

definition full_odict :: "nat odict" where
  "full_odict = \<lparr>od_backend = 0, od_heap = (\<lambda>p. toy_node\<lparr>node_id := of_nat p\<rparr>), od_next = 3,
     od_cache = \<lparr>max_size = 1, cache_items = [(1, 1)], lru_table = [1]\<rparr>, od_root_id = 1,
     od_node_count = 3, od_size = 9, od_read_count = 1, od_write_count = 0\<rparr>"

theorem full_cache_drops_node_witness:
  "\<exists>od'. OdsAccess \<lparr>env_access = (\<lambda>op i b s. Inr ((OK, b), s)), env_node = (\<lambda>_. toy_node),
      env_block = (\<lambda>_. toy_block 0 0 0)\<rparr> Ods_kWrite 2 full_odict = Inr (OK, od')
    \<and> od_backend od' = 0 \<and> lookup (od_cache full_odict) 1 = Some 1 \<and> lookup (od_cache od') = [2 \<mapsto> 2]"
proof -
  have "cache_ok (od_cache full_odict)" "lookup (od_cache full_odict) = [1 \<mapsto> 1]"
    by (auto simp: full_odict_def cache_ok_def lookup_def fun_eq_iff)
  with full_cache_drops_node [of full_odict 2] show ?thesis
    by (fastforce simp: full_odict_def fun_eq_iff)
qed

text \<open>
  The text of a node is read back as the node, up to the padding of the object it is read
  into, when its value has no underscore; a value with an underscore ends in a failed assertion.
\<close>

lemma node_text:
  "FromString memory (ToString n) =
    (if underscore \<in> set (node_value n) then Inl Assert_Failed
     else Inr (n\<lparr>pad1 := pad1 memory, pad2 := pad2 memory\<rparr>))"
  by (simp add: FromString_ToString FromString_ToString_fails)

end
