(* ===== verification/Oram_Parse.thy ===== *)
theory Oram_Parse
  imports Oram_Defs Oram_Status
begin

text \<open>
  The configuration: parse/oram\_parse.h and oram\_parse.cc, \<open>TryExec\<close> of base/oram\_utils.h and the
  order in which the two main programs use them. The YAML library, the file system and the
  command line library are parameters.
\<close>

section \<open>Parameters\<close>

text \<open>
  The conversions of yaml-cpp on its nodes (\<open>as<T>()\<close>): \<open>Inl\<close> is the message of the exception.
\<close>

record 'n yaml =
  as_string :: "'n \<Rightarrow> string + string"
  as_size_t :: "'n \<Rightarrow> string + u64"
  as_uint32 :: "'n \<Rightarrow> string + u32"
  as_uint8 :: "'n \<Rightarrow> string + u8"
  as_bool :: "'n \<Rightarrow> string + bool"

text \<open>
  The environment of the process: the variable \<open>ORAM_CONFIG_PATH\<close>, the tests of std::filesystem,
  and \<open>YAML::LoadFile\<close> with the entries of the loaded node (\<open>None\<close>: it throws).
\<close>

record 'n system =
  ORAM_CONFIG_PATH :: "string option"
  path_exists :: "string \<Rightarrow> bool"
  is_directory :: "string \<Rightarrow> bool"
  LoadFile :: "string \<Rightarrow> ('n \<times> 'n) list option"

text \<open>The flags, with the types and the defaults of the \<open>ABSL_FLAG\<close> lines.\<close>

record flags =
  FLAGS_server_address :: string
  FLAGS_server_port :: "16 word"
  FLAGS_crt_path :: string
  FLAGS_key_path :: string
  FLAGS_enable_proxy :: bool
  FLAGS_proxy_address :: string
  FLAGS_proxy_port :: u32
  FLAGS_oram_type :: string
  FLAGS_id :: u32
  FLAGS_block_num :: u32
  FLAGS_bucket_size :: u32
  FLAGS_odict_size :: u32
  FLAGS_client_cache_size :: u32
  FLAGS_log_level :: u32
  FLAGS_log_frequency :: u32
  FLAGS_disable_debugging :: bool
  FLAGS_file_path :: string

definition default_flags :: flags where
  "default_flags = \<lparr>FLAGS_server_address = ''0.0.0.0'', FLAGS_server_port = 1234,
     FLAGS_crt_path = ''./key/server.crt'', FLAGS_key_path = ''./key/server.key'',
     FLAGS_enable_proxy = False, FLAGS_proxy_address = '''', FLAGS_proxy_port = 0,
     FLAGS_oram_type = ''PathOram'', FLAGS_id = 0, FLAGS_block_num = 100000, FLAGS_bucket_size = 4,
     FLAGS_odict_size = 100000, FLAGS_client_cache_size = 32, FLAGS_log_level = 2,
     FLAGS_log_frequency = 3, FLAGS_disable_debugging = True, FLAGS_file_path = ''''\<rparr>"

section \<open>One entry\<close>

text \<open>\<open>TryExec\<close> turns an exception into a status; the configuration is then unchanged.\<close>

definition TryExec :: "string + 'c \<Rightarrow> 'c \<Rightarrow> oram_status \<times> 'c" where
  "TryExec f c =
     (case f of Inl what \<Rightarrow> (mk_status kUnknownError what ''TryExec'', c) | Inr c' \<Rightarrow> (OK, c'))"

text \<open>\<open>std::tolower\<close> in the C locale.\<close>

definition tolower :: "char \<Rightarrow> char" where
  "tolower c = (if 65 \<le> (of_char c :: nat) \<and> (of_char c :: nat) \<le> 90 then char_of ((of_char c :: nat) + 32) else c)"

definition LogLevel2U8 :: "string \<Rightarrow> u8" where
  "LogLevel2U8 log_level =
     (if log_level = ''trace'' then 0
      else if log_level = ''debug'' then 1
      else if log_level = ''warn'' then 3
      else if log_level = ''error'' then 4
      else if log_level = ''critical'' then 5
      else if log_level = ''off'' then 6
      else 2)"

text \<open>
  Key and value are logged as strings before the key is looked at, outside of \<open>TryExec\<close>. The number
  of an \<open>Id\<close> entry is assigned to the certificate path: a \<open>std::string\<close> takes it as one character.
\<close>

definition DoParse :: "'n yaml \<Rightarrow> 'n \<times> 'n \<Rightarrow> oram_config \<Rightarrow> (oram_status \<times> oram_config) exec" where
  "DoParse Y entry config =
     (case entry of (k, v) \<Rightarrow>
      case as_string Y k of Inl _ \<Rightarrow> Inl Uncaught_Exception | Inr key \<Rightarrow>
      case as_string Y v of Inl _ \<Rightarrow> Inl Uncaught_Exception | Inr _ \<Rightarrow> Inr (
        if key = ''OramType''
        then TryExec (map_sum id (\<lambda>x. config\<lparr>cfg_oram_type := StrToType x\<rparr>) (as_string Y v)) config
        else if key = ''BlockNum''
        then TryExec (map_sum id (\<lambda>x. config\<lparr>cfg_block_num := x\<rparr>) (as_size_t Y v)) config
        else if key = ''BucketSize''
        then TryExec (map_sum id (\<lambda>x. config\<lparr>cfg_bucket_size := x\<rparr>) (as_size_t Y v)) config
        else if key = ''Id''
        then TryExec (map_sum id (\<lambda>x. config\<lparr>cfg_crt_path := [char_of (unat x)]\<rparr>) (as_uint32 Y v)) config
        else if key = ''ServerCrtPath''
        then TryExec (map_sum id (\<lambda>x. config\<lparr>cfg_crt_path := x\<rparr>) (as_string Y v)) config
        else if key = ''ServerKeyPath''
        then TryExec (map_sum id (\<lambda>x. config\<lparr>cfg_key_path := x\<rparr>) (as_string Y v)) config
        else if key = ''ServerAddress''
        then TryExec (map_sum id (\<lambda>x. config\<lparr>cfg_server_address := x\<rparr>) (as_string Y v)) config
        else if key = ''EnableProxy''
        then TryExec (map_sum id (\<lambda>x. config\<lparr>cfg_enable_proxy := x\<rparr>) (as_bool Y v)) config
        else if key = ''ProxyAddress''
        then TryExec (map_sum id (\<lambda>x. config\<lparr>cfg_proxy_address := x\<rparr>) (as_string Y v)) config
        else if key = ''ServerPort''
        then TryExec (map_sum id (\<lambda>x. config\<lparr>cfg_server_port := x\<rparr>) (as_uint32 Y v)) config
        else if key = ''ProxyPort''
        then TryExec (map_sum id (\<lambda>x. config\<lparr>cfg_proxy_port := x\<rparr>) (as_uint32 Y v)) config
        else if key = ''LogLevel''
        then TryExec (map_sum id (\<lambda>x. config\<lparr>cfg_log_level := LogLevel2U8 (map tolower x)\<rparr>) (as_string Y v)) config
        else if key = ''LogFrequency''
        then TryExec (map_sum id (\<lambda>x. config\<lparr>cfg_log_frequency := x\<rparr>) (as_uint8 Y v)) config
        else if key = ''OdictSize''
        then TryExec (map_sum id (\<lambda>x. config\<lparr>cfg_odict_size := x\<rparr>) (as_size_t Y v)) config
        else if key = ''ClientCacheMaxSize''
        then TryExec (map_sum id (\<lambda>x. config\<lparr>cfg_client_cache_max_size := x\<rparr>) (as_size_t Y v)) config
        else if key = ''FilePath''
        then TryExec (map_sum id (\<lambda>x. config\<lparr>cfg_filepath := x\<rparr>) (as_string Y v)) config
        else if key = ''DisableDebugging''
        then TryExec (map_sum id (\<lambda>x. config\<lparr>cfg_disable_debugging := x\<rparr>) (as_bool Y v)) config
        else (mk_status kInvalidArgument (''Unknown configuration key: `'' @ key @ ''`.'') '''', config)))"

section \<open>The file\<close>

record parser =
  ignore_command_line_args :: bool

definition YamlParser :: parser where
  "YamlParser = \<lparr>ignore_command_line_args = False\<rparr>"

definition default_config_path :: string where
  "default_config_path = ''./config.yaml''"

text \<open>What follows the last occurrence of a character, or everything if there is none.\<close>

definition after_last :: "char \<Rightarrow> string \<Rightarrow> string" where
  "after_last c s = rev (takeWhile (\<lambda>d. d \<noteq> c) (rev s))"

text \<open>The loop over the entries; the first status that is not OK is printed and ends the process.\<close>

fun parse_entries :: "'n yaml \<Rightarrow> ('n \<times> 'n) list \<Rightarrow> oram_status \<Rightarrow> oram_config
    \<Rightarrow> (oram_status \<times> oram_config) exec" where
  "parse_entries Y [] status config = Inr (status, config)"
| "parse_entries Y (e # es) status config =
     andThen (DoParse Y e config) (\<lambda>(status, config).
       if \<not> ok status then andThen (EmitString status) (\<lambda>_. Inl Process_Exit)
       else parse_entries Y es status config)"

text \<open>The path that is loaded is the first one looked at, also when only the default exists.\<close>

definition Parse :: "'n yaml \<Rightarrow> 'n system \<Rightarrow> parser \<Rightarrow> (oram_status \<times> parser \<times> oram_config) exec" where
  "Parse Y sys parser =
     (let config = default_config;
          config_path = (case ORAM_CONFIG_PATH sys of None \<Rightarrow> default_config_path | Some path \<Rightarrow> path) in
      if (\<not> path_exists sys config_path \<or> is_directory sys config_path)
         \<and> (\<not> path_exists sys default_config_path \<or> is_directory sys default_config_path)
      then Inr (mk_status kFileNotFound ''No configuration file provided'' ''Parse'', parser, config)
      else
        let parser = parser\<lparr>ignore_command_line_args := True\<rparr>;
            ext = after_last (CHR ''.'') (after_last (CHR ''/'') config_path) in
        if ext \<noteq> ''yaml'' \<and> ext \<noteq> ''yml''
        then Inr (mk_status kFileIOError ''Not a yaml file'' ''Parse'', parser, config)
        else case LoadFile sys config_path of
            None \<Rightarrow> Inl Uncaught_Exception
          | Some es \<Rightarrow> andThen (parse_entries Y es OK config) (\<lambda>(status, config). Inr (status, parser, config)))"

section \<open>The command line\<close>

text \<open>Wider flags are truncated to the configuration's fields.\<close>

definition DoCommandLine :: "flags \<Rightarrow> oram_config \<Rightarrow> oram_status \<times> oram_config" where
  "DoCommandLine f config =
     (OK, \<lparr>cfg_oram_type = StrToType (FLAGS_oram_type f), cfg_block_num = ucast (FLAGS_block_num f),
       cfg_bucket_size = ucast (FLAGS_bucket_size f), cfg_id = FLAGS_id f, cfg_crt_path = FLAGS_crt_path f,
       cfg_key_path = FLAGS_key_path f, cfg_server_address = FLAGS_server_address f,
       cfg_server_port = ucast (FLAGS_server_port f), cfg_enable_proxy = FLAGS_enable_proxy f,
       cfg_proxy_address = FLAGS_proxy_address f, cfg_proxy_port = FLAGS_proxy_port f,
       cfg_log_level = ucast (FLAGS_log_level f), cfg_log_frequency = ucast (FLAGS_log_frequency f),
       cfg_odict_size = ucast (FLAGS_odict_size f), cfg_client_cache_max_size = ucast (FLAGS_client_cache_size f),
       cfg_disable_debugging = FLAGS_disable_debugging f, cfg_filepath = FLAGS_file_path f\<rparr>)"

text \<open>\<open>ParseCommandLine\<close> is the library's function: it may end the process.\<close>

definition FromCommandLine :: "('a \<Rightarrow> flags exec) \<Rightarrow> 'a \<Rightarrow> parser \<Rightarrow> oram_config
    \<Rightarrow> (oram_status \<times> oram_config) exec" where
  "FromCommandLine ParseCommandLine argv parser config =
     (if ignore_command_line_args parser
      then Inr (mk_status kAlreadyUsed ''Command line arguments are overriden'' ''FromCommandLine'', config)
      else andThen (ParseCommandLine argv) (\<lambda>f. Inr (DoCommandLine f config)))"

text \<open>The configuration of both main programs: the command line is read when no file was found.\<close>

definition configure :: "'n yaml \<Rightarrow> 'n system \<Rightarrow> ('a \<Rightarrow> flags exec) \<Rightarrow> 'a \<Rightarrow> (oram_status \<times> oram_config) exec" where
  "configure Y sys ParseCommandLine argv =
     andThen (Parse Y sys YamlParser) (\<lambda>(status, parser, config).
       if error_code status = kFileNotFound \<and> \<not> ignore_command_line_args parser
       then FromCommandLine ParseCommandLine argv parser config
       else Inr (status, config))"

section \<open>The configuration a file stands for\<close>

text \<open>Entries whose key and value are scalars, and the keys with a conversion that succeeds.\<close>

definition readable :: "'n yaml \<Rightarrow> 'n \<times> 'n \<Rightarrow> bool" where
  "readable Y e \<longleftrightarrow> \<not> isl (as_string Y (fst e)) \<and> \<not> isl (as_string Y (snd e))"

definition entry_key :: "'n yaml \<Rightarrow> 'n \<times> 'n \<Rightarrow> string" where
  "entry_key Y e = projr (as_string Y (fst e))"

definition convertible :: "'n yaml \<Rightarrow> 'n \<times> 'n \<Rightarrow> bool" where
  "convertible Y e \<longleftrightarrow> readable Y e
     \<and> (let k = entry_key Y e; v = snd e in
        k \<in> {''OramType'', ''ServerCrtPath'', ''ServerKeyPath'', ''ServerAddress'', ''ProxyAddress'', ''LogLevel'', ''FilePath''}
      \<or> k \<in> {''BlockNum'', ''BucketSize'', ''OdictSize'', ''ClientCacheMaxSize''} \<and> \<not> isl (as_size_t Y v)
      \<or> k \<in> {''Id'', ''ServerPort'', ''ProxyPort''} \<and> \<not> isl (as_uint32 Y v)
      \<or> k = ''LogFrequency'' \<and> \<not> isl (as_uint8 Y v)
      \<or> k \<in> {''EnableProxy'', ''DisableDebugging''} \<and> \<not> isl (as_bool Y v))"

text \<open>The last entry with one of the given keys.\<close>

definition last_entry :: "'n yaml \<Rightarrow> ('n \<times> 'n) list \<Rightarrow> string list \<Rightarrow> (string \<times> 'n) option" where
  "last_entry Y es ks = map_option (\<lambda>e. (entry_key Y e, snd e)) (find (\<lambda>e. entry_key Y e \<in> set ks) (rev es))"

definition setting :: "'n yaml \<Rightarrow> ('n \<times> 'n) list \<Rightarrow> string \<Rightarrow> ('n \<Rightarrow> 'm + 'a) \<Rightarrow> 'a \<Rightarrow> 'a" where
  "setting Y es key conv dflt = (case last_entry Y es [key] of None \<Rightarrow> dflt | Some (_, v) \<Rightarrow> projr (conv v))"

definition config_of :: "'n yaml \<Rightarrow> ('n \<times> 'n) list \<Rightarrow> oram_config" where
  "config_of Y es = \<lparr>
     cfg_oram_type = setting Y es ''OramType'' (map_sum id StrToType \<circ> as_string Y) kPathOram,
     cfg_block_num = setting Y es ''BlockNum'' (as_size_t Y) 100000,
     cfg_bucket_size = setting Y es ''BucketSize'' (as_size_t Y) 4,
     cfg_id = 0,
     cfg_crt_path = (case last_entry Y es [''Id'', ''ServerCrtPath''] of
         None \<Rightarrow> ''./key/server.crt''
       | Some (k, v) \<Rightarrow> if k = ''Id'' then [char_of (unat (projr (as_uint32 Y v)))] else projr (as_string Y v)),
     cfg_key_path = setting Y es ''ServerKeyPath'' (as_string Y) ''./key/server.key'',
     cfg_server_address = setting Y es ''ServerAddress'' (as_string Y) ''0.0.0.0'',
     cfg_server_port = setting Y es ''ServerPort'' (as_uint32 Y) 1234,
     cfg_enable_proxy = setting Y es ''EnableProxy'' (as_bool Y) False,
     cfg_proxy_address = setting Y es ''ProxyAddress'' (as_string Y) '''',
     cfg_proxy_port = setting Y es ''ProxyPort'' (as_uint32 Y) 0,
     cfg_log_level = setting Y es ''LogLevel'' (map_sum id (LogLevel2U8 \<circ> map tolower) \<circ> as_string Y) 2,
     cfg_log_frequency = setting Y es ''LogFrequency'' (as_uint8 Y) 3,
     cfg_odict_size = setting Y es ''OdictSize'' (as_size_t Y) 100000,
     cfg_client_cache_max_size = setting Y es ''ClientCacheMaxSize'' (as_size_t Y) 32,
     cfg_disable_debugging = setting Y es ''DisableDebugging'' (as_bool Y) True,
     cfg_filepath = setting Y es ''FilePath'' (as_string Y) ''''\<rparr>"

end
