(* ===== verification/Oram_Client.thy ===== *)
theory Oram_Client
  imports Partition_Oram Linear_Oram Oram_Parse
begin

text \<open>
  The client: client/oram\_client.h and oram\_client.cc, the reading of files in base/oram\_utils.cc
  and the main program of tests/oram\_test\_client.cc.
\<close>

section \<open>Files\<close>

text \<open>A file system is a function from paths to contents; an unreadable file is logged only.\<close>

definition ReadKeyCrtFile :: "(string \<rightharpoonup> bytes) \<Rightarrow> string \<Rightarrow> bytes" where
  "ReadKeyCrtFile files path = (case files path of Some content \<Rightarrow> content | None \<Rightarrow> [])"

definition ReadDataFromFile :: "(string \<rightharpoonup> bytes) \<Rightarrow> string \<Rightarrow> bytes list" where
  "ReadDataFromFile files path = (case files path of Some content \<Rightarrow> split_text content 10 | None \<Rightarrow> [])"

section \<open>The controller behind the base class pointer\<close>

datatype controller = Linear_Controller oram_controller | Path_Controller path_oram
  | Partition_Controller partition_oram | Square_Controller sqrt_oram

text \<open>
  What uninitialised memory holds: the cryptor's and the partition ORAM's fields, the local block of
  \<open>Access\<close>, and the local blocks of loops.
\<close>

record memory =
  mem_cryptor :: cryptor
  mem_partition :: "nat \<times> nat \<times> nat"
  mem_block :: oram_block
  mem_blocks :: "nat \<Rightarrow> oram_block"

text \<open>The virtual calls.\<close>

fun controller_type :: "controller \<Rightarrow> oram_type" where
  "controller_type (Linear_Controller c) = oc_type c"
| "controller_type (Path_Controller c) = oc_type c"
| "controller_type (Partition_Controller c) = oc_type c"
| "controller_type (Square_Controller c) = oc_type c"

fun controller_init :: "libs \<Rightarrow> memory \<Rightarrow> controller \<times> world \<Rightarrow> (oram_status \<times> controller \<times> world) exec" where
  "controller_init L M (Linear_Controller c, w) =
     (case Linear_InitOram (c, w) of (s, c', w') \<Rightarrow> Inr (s, Linear_Controller c', w'))"
| "controller_init L M (Path_Controller c, w) =
     (case Path_InitOram (c, w) of (s, c', w') \<Rightarrow> Inr (s, Path_Controller c', w'))"
| "controller_init L M (Square_Controller c, w) =
     (case Sqrt_InitOram (c, w) of (s, c', w') \<Rightarrow> Inr (s, Square_Controller c', w'))"
| "controller_init L M (Partition_Controller c, w) =
     andThen (Partition_InitOram L (mem_cryptor M) (c, w)) (\<lambda>(s, c', w'). Inr (s, Partition_Controller c', w'))"

fun controller_access :: "libs \<Rightarrow> memory \<Rightarrow> operation \<Rightarrow> u32 \<Rightarrow> oram_block \<Rightarrow> controller \<times> world
    \<Rightarrow> ((oram_status \<times> oram_block) \<times> controller \<times> world) exec" where
  "controller_access L M op a x (Linear_Controller c, w) =
     andThen (Linear_Access L op a x (c, w)) (\<lambda>(r, c', w'). Inr (r, Linear_Controller c', w'))"
| "controller_access L M op a x (Path_Controller c, w) =
     andThen (Path_Access L op a x (c, w)) (\<lambda>(r, c', w'). Inr (r, Path_Controller c', w'))"
| "controller_access L M op a x (Square_Controller c, w) =
     andThen (Sqrt_Access L (mem_block M) op a x (c, w)) (\<lambda>(r, c', w'). Inr (r, Square_Controller c', w'))"
| "controller_access L M op a x (Partition_Controller c, w) =
     andThen (Partition_Access L (mem_block M) op a x (c, w)) (\<lambda>(r, c', w'). Inr (r, Partition_Controller c', w'))"

fun controller_fill :: "libs \<Rightarrow> memory \<Rightarrow> oram_block list \<Rightarrow> controller \<times> world
    \<Rightarrow> (oram_status \<times> controller \<times> world) exec" where
  "controller_fill L M ds (Linear_Controller c, w) =
     andThen (Linear_FillWithData L ds (c, w)) (\<lambda>(s, c', w'). Inr (s, Linear_Controller c', w'))"
| "controller_fill L M ds (Path_Controller c, w) =
     andThen (Path_FillWithData L ds (c, w)) (\<lambda>(s, c', w'). Inr (s, Path_Controller c', w'))"
| "controller_fill L M ds (Square_Controller c, w) =
     andThen (Sqrt_FillWithData L (mem_blocks M) ds (c, w)) (\<lambda>(s, c', w'). Inr (s, Square_Controller c', w'))"
| "controller_fill L M ds (Partition_Controller c, w) =
     andThen (Partition_FillWithData L ds (c, w)) (\<lambda>(s, c', w'). Inr (s, Partition_Controller c', w'))"

text \<open>\<open>FromFile\<close> of the base class calls the controller's own \<open>FillWithData\<close>.\<close>

fun controller_from_file :: "libs \<Rightarrow> memory \<Rightarrow> bytes list \<Rightarrow> controller \<times> world
    \<Rightarrow> (oram_status \<times> controller \<times> world) exec" where
  "controller_from_file L M lines (Linear_Controller c, w) =
     andThen (FromFile (mem_blocks M) lines (Linear_FillWithData L) (c, w)) (\<lambda>(s, c', w'). Inr (s, Linear_Controller c', w'))"
| "controller_from_file L M lines (Path_Controller c, w) =
     andThen (FromFile (mem_blocks M) lines (Path_FillWithData L) (c, w)) (\<lambda>(s, c', w'). Inr (s, Path_Controller c', w'))"
| "controller_from_file L M lines (Square_Controller c, w) =
     andThen (FromFile (mem_blocks M) lines (Sqrt_FillWithData L (mem_blocks M)) (c, w))
       (\<lambda>(s, c', w'). Inr (s, Square_Controller c', w'))"
| "controller_from_file L M lines (Partition_Controller c, w) =
     andThen (FromFile (mem_blocks M) lines (Partition_FillWithData L) (c, w))
       (\<lambda>(s, c', w'). Inr (s, Partition_Controller c', w'))"

section \<open>The client\<close>

text \<open>The stub is known by the address and the root certificate of its channel.\<close>

record stub =
  stub_address :: string
  pem_root_certs :: bytes

record oram_client =
  cl_controller :: controller
  cl_config :: oram_config
  cl_stub :: stub

definition CreateStub :: "(string \<rightharpoonup> bytes) \<Rightarrow> string \<Rightarrow> u32 \<Rightarrow> string \<Rightarrow> stub" where
  "CreateStub files address port crt_path =
     \<lparr>stub_address = address @ '':'' @ to_string (unat port), pem_root_certs = ReadKeyCrtFile files crt_path\<rparr>"

text \<open>
  The controller of the configured type. Numbers are truncated to the parameters of the
  constructors. \<open>taken\<close> says that the partition ORAM's instance was given away before: the pointer is
  then null.
\<close>

definition make_controller :: "libs \<Rightarrow> memory \<Rightarrow> bool \<Rightarrow> oram_config \<Rightarrow> host \<Rightarrow> (controller \<times> host) exec" where
  "make_controller L M taken config h =
     (case cfg_oram_type config of
        kLinearOram \<Rightarrow> andThen (LinearOramController L (mem_cryptor M) (cfg_id config) True (unat (cfg_block_num config)) h)
          (\<lambda>(c, h'). Inr (Linear_Controller c, h'))
      | kPathOram \<Rightarrow> andThen (PathOramController L (mem_cryptor M) (cfg_id config) (ucast (cfg_block_num config))
            (ucast (cfg_bucket_size config)) True h) (\<lambda>(c, h'). Inr (Path_Controller c, h'))
      | kPartitionOram \<Rightarrow> (case mem_partition M of (ps, bs, nu) \<Rightarrow>
          andThen (Partition_GetInstance L (mem_cryptor M) ps bs nu taken h) (\<lambda>(c, h').
            case c of None \<Rightarrow> Inl Undefined_Behaviour | Some c \<Rightarrow> Inr (Partition_Controller c, h')))
      | kSquareOram \<Rightarrow> andThen (SquareRootOramController L (mem_cryptor M) (cfg_id config) True (unat (cfg_block_num config)) h)
          (\<lambda>(c, h'). Inr (Square_Controller c, h'))
      | _ \<Rightarrow> Inl Process_Exit)"

definition OramClient :: "libs \<Rightarrow> memory \<Rightarrow> (string \<rightharpoonup> bytes) \<Rightarrow> bool \<Rightarrow> oram_config \<Rightarrow> world
    \<Rightarrow> (oram_client \<times> world) exec" where
  "OramClient L M files taken config w =
     (let stub = (if \<not> cfg_enable_proxy config
            then CreateStub files (cfg_server_address config) (cfg_server_port config) (cfg_crt_path config)
            else CreateStub files (cfg_proxy_address config) (cfg_proxy_port config) (cfg_crt_path config)) in
      andThen (GetInstance L (mem_cryptor M) (w_host w)) (\<lambda>h.
      andThen (make_controller L M taken config h) (\<lambda>(c, h').
      andThen (controller_init L M (c, w\<lparr>w_host := h'\<rparr>)) (\<lambda>(status, c', w').
        if \<not> ok status then andThen (EmitString status) (\<lambda>_. Inl Process_Exit)
        else Inr (\<lparr>cl_controller = c', cl_config = config, cl_stub = stub\<rparr>, w')))))"

definition Client_Read :: "libs \<Rightarrow> memory \<Rightarrow> u32 \<Rightarrow> oram_block \<Rightarrow> oram_client \<times> world
    \<Rightarrow> ((oram_status \<times> oram_block) \<times> oram_client \<times> world) exec" where
  "Client_Read L M address blk cw =
     (case cw of (cl, w) \<Rightarrow>
      andThen (controller_access L M Operation_kRead address blk (cl_controller cl, w)) (\<lambda>((status, b), c, w').
        Inr ((if \<not> ok status
              then Append status (mk_status kInvalidOperation ''The client cannot read the block!'' ''Read'')
              else status, b), cl\<lparr>cl_controller := c\<rparr>, w')))"

definition Client_Write :: "libs \<Rightarrow> memory \<Rightarrow> u32 \<Rightarrow> oram_block \<Rightarrow> oram_client \<times> world
    \<Rightarrow> ((oram_status \<times> oram_block) \<times> oram_client \<times> world) exec" where
  "Client_Write L M address blk cw =
     (case cw of (cl, w) \<Rightarrow>
      andThen (controller_access L M Operation_kWrite address blk (cl_controller cl, w)) (\<lambda>((status, b), c, w').
        Inr ((if \<not> ok status
              then Append status (mk_status kInvalidOperation ''The client cannot write the block!'' ''Write'')
              else status, b), cl\<lparr>cl_controller := c\<rparr>, w')))"

definition Client_Ready :: "libs \<Rightarrow> memory \<Rightarrow> oram_client \<times> world \<Rightarrow> (oram_status \<times> oram_client \<times> world) exec" where
  "Client_Ready L M cw =
     (case cw of (cl, w) \<Rightarrow>
      andThen (GetInstance L (mem_cryptor M) (w_host w)) (\<lambda>h.
        if cfg_disable_debugging (cl_config cl)
        then with_cryptor h (\<lambda>c. andThen (NoNeedForSessionKey L h c) (\<lambda>(c', h').
               Inr (OK, cl, w\<lparr>w_host := h'\<lparr>singleton := Some c'\<rparr>\<rparr>)))
        else andThen (KeyNegotiate L (w\<lparr>w_host := h\<rparr>)) (\<lambda>(s, w'). Inr (s, cl, w'))))"

definition Client_FillWithData :: "libs \<Rightarrow> memory \<Rightarrow> (string \<rightharpoonup> bytes) \<Rightarrow> oram_client \<times> world
    \<Rightarrow> (oram_status \<times> oram_client \<times> world) exec" where
  "Client_FillWithData L M files cw =
     (case cw of (cl, w) \<Rightarrow>
      let config = cl_config cl; c = cl_controller cl in
      andThen
        (if cfg_filepath config \<noteq> ''''
         then controller_from_file L M (ReadDataFromFile files (cfg_filepath config)) (c, w)
         else let block_num = unat (cfg_block_num config) in
           andThen
             (if controller_type c = kPathOram
              then (case c of
                  Path_Controller p \<Rightarrow>
                    let tree_size = (POW2 (po_tree_level p + 1) - 1) * unat (cfg_bucket_size config) in
                    SampleRandomBucket L (mem_blocks M) block_num tree_size 0 (w_host w)
                | _ \<Rightarrow> Inl Assert_Failed)
              else SampleRandomBucket L (mem_blocks M) block_num block_num 0 (w_host w))
             (\<lambda>(blocks, h). controller_fill L M blocks (c, w\<lparr>w_host := h\<rparr>)))
        (\<lambda>(s, c', w'). Inr (s, cl\<lparr>cl_controller := c'\<rparr>, w')))"

section \<open>The main program\<close>

text \<open>
  The loop of the main program, with the outcome of every read. The address is converted to
  \<open>uint32_t\<close>; a status that is not OK is printed.
\<close>

fun read_blocks :: "libs \<Rightarrow> memory \<Rightarrow> nat list \<Rightarrow> oram_client \<times> world
    \<Rightarrow> ((oram_status \<times> oram_block) list \<times> oram_client \<times> world) exec" where
  "read_blocks L M [] cw = Inr ([], cw)"
| "read_blocks L M (i # is) cw =
     (let b = mem_blocks M i; blk = b\<lparr>header := (header b)\<lparr>block_id := of_nat i\<rparr>\<rparr> in
      andThen (Client_Read L M (of_nat i) blk cw) (\<lambda>((status, b'), cw').
      andThen
        (if \<not> ok status
         then EmitString (Append status
                (mk_status kInvalidOperation (''Error reading block '' @ to_string i) ''main''))
         else Inr '''') (\<lambda>_.
      andThen (read_blocks L M is cw') (\<lambda>(outs, cw''). Inr ((status, b') # outs, cw'')))))"

text \<open>The main program makes a client, readies it and fills its ORAM, and then reads all addresses.\<close>

definition start_client :: "libs \<Rightarrow> memory \<Rightarrow> (string \<rightharpoonup> bytes) \<Rightarrow> oram_config \<Rightarrow> world \<Rightarrow> (oram_client \<times> world) exec" where
  "start_client L M files config w =
     andThen (OramClient L M files False config w) (\<lambda>cw1.
     andThen (Client_Ready L M cw1) (\<lambda>(_, cw2).
     andThen (Client_FillWithData L M files cw2) (\<lambda>(status, cw3).
       if \<not> ok status then andThen (EmitString status) (\<lambda>_. Inl Process_Abort) else Inr cw3)))"

definition client_main :: "libs \<Rightarrow> memory \<Rightarrow> 'n yaml \<Rightarrow> 'n system \<Rightarrow> ('a \<Rightarrow> flags exec) \<Rightarrow> 'a \<Rightarrow> (string \<rightharpoonup> bytes) \<Rightarrow> world
    \<Rightarrow> ((oram_status \<times> oram_block) list \<times> oram_client \<times> world) exec" where
  "client_main L M Y sys ParseCommandLine argv files w =
     andThen (configure Y sys ParseCommandLine argv) (\<lambda>(_, config).
     andThen (start_client L M files config w) (read_blocks L M [0..<unat (cfg_block_num config)]))"

end
