(* ===== verification/Client_Start.thy ===== *)
theory Client_Start
  imports Oram_Client Partition_Fill Uniform_Sampling
begin

text \<open>
  From the start of the client program to its reads, for a Path ORAM: what \<open>SampleRandomBucket\<close>
  returns (\<open>SampleRandomBucket_view\<close>), constructing, readying and filling a client, and the outcomes of
  its reads (\<open>read_blocks_outcomes\<close>).
\<close>

section \<open>Random buckets\<close>

lemma UniformRandom_singleton: "UniformRandom L lo hi h = Inr (r, h') \<Longrightarrow> singleton h' = singleton h"
  by (auto simp: UniformRandom_def Let_def split: if_splits option.splits)

lemma shuffle_from_singleton: "shuffle_from L i arr h = Inr (r, h') \<Longrightarrow> singleton h' = singleton h"
proof (induction i arbitrary: arr h)
  case (Suc i)
  then obtain s j h1 where "UniformRandom L 0 (of_nat (Suc i)) h = Inr ((s, j), h1)"
    "(case j of None \<Rightarrow> Inr ((s, arr), h1) | Some j \<Rightarrow> shuffle_from L i (swap_at arr (Suc i) (unat j)) h1) = Inr (r, h')"
    by (auto simp: andThen_eq_Inr)
  with UniformRandom_singleton Suc.IH show ?case by (fastforce split: option.splits)
qed simp

definition sampled :: "(nat \<Rightarrow> oram_block) \<Rightarrow> nat \<Rightarrow> nat \<Rightarrow> nat \<Rightarrow> bytes \<Rightarrow> oram_block" where
  "sampled memory sz off i r = (memory i)\<lparr>header := (header (memory i))
     \<lparr>block_id := of_nat (i + off), btype := (if i < sz then BlockType_kNormal else BlockType_kDummy)\<rparr>,
     data := of_nat (i + off) # r\<rparr>"

lemma sample_loop_view:
  "\<exists>h'. sample_loop L memory sz off i n h bucket
      = Inr (bucket @ map (\<lambda>j. sampled memory sz off (i + j) (randombytes_buf L (draws h + j) 511)) [0..<n], h')
    \<and> singleton h' = singleton h"
proof (induction n arbitrary: i h bucket)
  case 0
  then show ?case by (intro exI [of _ h]) simp
next
  case (Suc n)
  let ?r = "randombytes_buf L (draws h) 511" and ?h = "h\<lparr>draws := draws h + 1\<rparr>"
  let ?rs = "\<lambda>j. randombytes_buf L (draws h + j) 511"
  from Suc.IH [of "Suc i" ?h "bucket @ [sampled memory sz off i ?r]"] obtain h' where
    r: "sample_loop L memory sz off (Suc i) n ?h (bucket @ [sampled memory sz off i ?r])
        = Inr ((bucket @ [sampled memory sz off i ?r]) @ map (\<lambda>j. sampled memory sz off (Suc i + j) (?rs (Suc j))) [0..<n], h')"
      "singleton h' = singleton h" by auto
  have "map (\<lambda>j. sampled memory sz off (i + j) (?rs j)) [0..<Suc n]
      = sampled memory sz off i ?r # map (\<lambda>j. sampled memory sz off (Suc i + j) (?rs (Suc j))) [0..<n]"
    by (simp add: upt_conv_Cons map_Suc_upt [symmetric] o_def del: upt_Suc map_Suc_upt)
  moreover have "sample_loop L memory sz off i (Suc n) h bucket
      = sample_loop L memory sz off (Suc i) n ?h (bucket @ [sampled memory sz off i ?r])"
    by (simp add: RandomBytes_def DEFAULT_ORAM_DATA_SIZE_def sampled_def Let_def)
  ultimately show ?case using r by (intro exI [of _ h']) simp
qed

text \<open>The normal ones among the sampled blocks are those below \<open>sz\<close>, each with its own identifier.\<close>

lemma sampled_normal: "is_normal (sampled memory sz 0 j r) \<longleftrightarrow> j < sz"
  by (simp add: sampled_def is_normal_def BlockType_kNormal_def BlockType_kDummy_def)

lemma sampled_ids:
  assumes "n < 2 ^ 32"
  shows "distinct (normal_ids (map (\<lambda>j. sampled memory sz 0 j (rs j)) [0..<n]))"
proof -
  have "normal_ids (map (\<lambda>j. sampled memory sz 0 j (rs j)) [0..<n]) = map of_nat (filter (\<lambda>j. j < sz) [0..<n])"
    by (simp add: normal_ids_def filter_map o_def sampled_def BlockType_kNormal_def BlockType_kDummy_def)
  moreover have "inj_on (of_nat :: nat \<Rightarrow> u32) (set (filter (\<lambda>j. j < sz) [0..<n]))"
    using assms by (intro inj_onI) (simp add: of_nat_u32_eq)
  ultimately show ?thesis by (simp add: distinct_map)
qed

lemma sampled_contents:
  assumes d: "distinct (normal_ids bs)" and ms: "mset bs = mset (map (\<lambda>j. sampled memory sz 0 j (rs j)) [0..<n])"
    and n: "n < 2 ^ 32" "sz \<le> n" and i: "i < 2 ^ 32"
  shows "case blocks_map bs (of_nat i) of Some d \<Rightarrow> i < sz \<and> hd d = of_nat i | None \<Rightarrow> sz \<le> i"
proof (cases "blocks_map bs (of_nat i)")
  case None
  have "\<not> i < sz"
  proof
    assume lt: "i < sz"
    let ?b = "sampled memory sz 0 i (rs i)"
    have "payload ?b \<in># goods bs"
      using lt n(2) unfolding goods_mset [OF ms] by (auto simp: in_goods sampled_normal image_iff)
    then have "blocks_map bs (of_nat i) = Some (data ?b)"
      using blocks_map_goods [OF d] by (fastforce simp: sampled_def)
    with None show False by simp
  qed
  with None show ?thesis by simp
next
  case (Some e)
  with blocks_map_goods [OF d] obtain p where p: "p \<in># goods bs" "block_id (header p) = of_nat i" "data p = e" by blast
  from p(1) obtain j where j: "j < n" "j < sz" "p = payload (sampled memory sz 0 j (rs j))"
    unfolding goods_mset [OF ms] by (auto simp: in_goods sampled_normal)
  then have "of_nat j = (of_nat i :: u32)" using p(2) by (simp add: sampled_def)
  then have "j = i" using j(1) n(1) i by (simp add: of_nat_u32_eq)
  moreover have "hd e = of_nat j" using p(3) j(3) by (auto simp: sampled_def)
  ultimately show ?thesis using Some j(2) by simp
qed

text \<open>
  The blocks below half the size are normal and have the low byte of their identifier at the front
  of their data.
\<close>

lemma SampleRandomBucket_view:
  assumes L: "sodium_ok L" "random_live L" and wf: "\<forall>i. wf_block (memory i)"
    and n: "0 < n" "n < 2 ^ 32" "sz div 2 \<le> n"
  shows "\<exists>bs h'. SampleRandomBucket L memory sz n 0 h = Inr (bs, h') \<and> singleton h' = singleton h
    \<and> list_all wf_block bs \<and> length bs = n \<and> distinct (normal_ids bs)
    \<and> set bs = (\<lambda>j. sampled memory (sz div 2) 0 j (randombytes_buf L (draws h + j) 511)) ` {..<n}
    \<and> (\<forall>i < 2 ^ 32. case blocks_map bs (of_nat i) of Some d \<Rightarrow> i < sz div 2 \<and> hd d = of_nat i | None \<Rightarrow> sz div 2 \<le> i)"
proof -
  let ?sz = "sz div 2"
  define rs where "rs = (\<lambda>j. randombytes_buf L (draws h + j) 511)"
  from sample_loop_view [of L memory ?sz 0 0 n h "[]"] obtain h1 where
    r: "sample_loop L memory ?sz 0 0 n h [] = Inr (map (\<lambda>j. sampled memory ?sz 0 j (rs j)) [0..<n], h1)"
      "\<forall>j. length (rs j) = 511" "singleton h1 = singleton h" using L(1) by (auto simp: rs_def sodium_ok_def)
  let ?B = "map (\<lambda>j. sampled memory ?sz 0 j (rs j)) [0..<n]"
  have i: "n - 1 < length ?B" "length ?B < 2 ^ 32" using n by simp_all
  from shuffle_from_returns [OF L(2) i, of h1] obtain bs h2 where
    s: "shuffle_from L (n - 1) ?B h1 = Inr ((OK, bs), h2)" by blast
  have ms: "mset bs = mset ?B" using shuffle_from_perm [OF i(1) s i(2)] .
  have "SampleRandomBucket L memory sz n 0 h = Inr (bs, h2)"
    using r(1) s n(1) by (simp add: SampleRandomBucket_def RandomShuffle_def CheckStatus_def)
  moreover have "singleton h2 = singleton h" using shuffle_from_singleton [OF s] r(3) by simp
  moreover have "list_all wf_block ?B" using wf r(2) by (simp add: list_all_iff sampled_def wf_block_def)
  then have "list_all wf_block bs" using ms by (metis list_all_iff set_mset_mset)
  moreover have "length bs = n" using ms by (metis diff_zero length_map length_upt size_mset)
  moreover have d: "distinct (normal_ids bs)"
  proof -
    have "mset (normal_ids bs) = mset (normal_ids ?B)" by (simp add: normal_ids_goods goods_mset [OF ms])
    with sampled_ids [OF n(2), of memory ?sz rs] show ?thesis by (metis mset_eq_imp_distinct_iff)
  qed
  moreover have "set bs = (\<lambda>j. sampled memory ?sz 0 j (rs j)) ` {..<n}"
    using mset_eq_setD [OF ms] by (simp add: lessThan_atLeast0)
  ultimately show ?thesis using sampled_contents [OF d ms n(2,3)] unfolding rs_def by blast
qed

section \<open>The channel of the client\<close>

text \<open>A client without proxy has its channel to the configured address, with the configured certificate.\<close>

definition connects_by :: "oram_config \<Rightarrow> (string \<rightharpoonup> bytes) \<Rightarrow> stub \<Rightarrow> bool" where
  "connects_by g files stub \<longleftrightarrow> \<not> cfg_enable_proxy g \<longrightarrow>
     stub_address stub = cfg_server_address g @ '':'' @ to_string (unat (cfg_server_port g))
     \<and> pem_root_certs stub = ReadKeyCrtFile files (cfg_crt_path g)"

lemma OramClient_stub: "OramClient L M files taken g w = Inr (cl, w') \<Longrightarrow> connects_by g files (cl_stub cl)"
  unfolding connects_by_def
  by (auto simp: OramClient_def Let_def andThen_eq_Inr CreateStub_def split: if_splits)

lemma Client_Read_stub: "Client_Read L M a blk (cl, w) = Inr (r, cl', w') \<Longrightarrow> cl_stub cl' = cl_stub cl"
  by (auto simp: Client_Read_def andThen_eq_Inr)

lemma read_blocks_stub: "read_blocks L M js (cl, w) = Inr (outs, cl', w') \<Longrightarrow> cl_stub cl' = cl_stub cl"
proof (induction js arbitrary: cl w outs)
  case (Cons i js)
  from Cons.prems obtain r cl1 w1 outs' where
    "Client_Read L M (of_nat i) ((mem_blocks M i)\<lparr>header := (header (mem_blocks M i))\<lparr>block_id := of_nat i\<rparr>\<rparr>) (cl, w) = Inr (r, cl1, w1)"
    "read_blocks L M js (cl1, w1) = Inr (outs', cl', w')"
    by (auto simp: Let_def andThen_eq_Inr)
  with Cons.IH Client_Read_stub show ?case by metis
qed simp

section \<open>Starting the client\<close>

text \<open>The number of entries sampled is that of the tree, and less than 2^32 for up to 2^30 blocks.\<close>

lemma tree_size_bounds:
  assumes lev: "lev + 1 = ceil_LOG_BASE2 ((n + b - 1) div b + 1)" and n: "0 < n" "n \<le> 2 ^ 30" and b: "0 < b" "b < 256"
  shows "(2 ^ (lev + 1) - 1) * b < 2 ^ 32" "n \<le> (2 ^ (lev + 1) - 1) * b"
proof -
  let ?m = "(n + b - 1) div b"
  have mb: "?m * b \<le> n + b - 1" by simp
  have "2 ^ (lev + 1) \<le> 2 * (?m + 1)" unfolding lev by (rule ceil_LOG_BASE2_le) simp
  then have "(2 ^ (lev + 1) - 1 :: nat) \<le> 2 * ?m + 1" by (simp del: power_add power_Suc)
  then have "(2 ^ (lev + 1) - 1) * b \<le> (2 * ?m + 1) * b" by (rule mult_le_mono1)
  also have "\<dots> = 2 * (?m * b) + b" by (simp only: add_mult_distrib mult.assoc mult_1)
  also have "\<dots> \<le> 2 * (n + b - 1) + b" using mb by (intro add_le_mono1 mult_le_mono2)
  also have "\<dots> < 2 ^ 32" using n b by simp
  finally show "(2 ^ (lev + 1) - 1) * b < 2 ^ 32" .
  have "?m + 1 \<le> 2 ^ (lev + 1)" unfolding lev by (rule ceil_LOG_BASE2_ge)
  then have "?m * b \<le> (2 ^ (lev + 1) - 1) * b" by (intro mult_le_mono1) linarith
  moreover have "n \<le> ?m * b"
  proof -
    have "n + b - 1 = ?m * b + (n + b - 1) mod b" by simp
    moreover have "(n + b - 1) mod b < b" using b(1) by simp
    ultimately show ?thesis using n(1) by linarith
  qed
  ultimately show "n \<le> (2 ^ (lev + 1) - 1) * b" by linarith
qed

text \<open>A configuration of a Path ORAM that the client can serve with sampled data.\<close>

definition plain_path_config :: "oram_config \<Rightarrow> bool" where
  "plain_path_config g \<longleftrightarrow> cfg_oram_type g = kPathOram \<and> cfg_filepath g = '''' \<and> cfg_disable_debugging g
     \<and> 0 < unat (cfg_block_num g) \<and> unat (cfg_block_num g) \<le> 2 ^ 30
     \<and> 0 < unat (cfg_bucket_size g) \<and> unat (cfg_bucket_size g) < 256 \<and> cfg_id g < kMaximumOramStorageNum"

text \<open>The numbers of such a configuration survive the conversions of the constructor.\<close>

lemma plain_path_numbers:
  assumes g: "plain_path_config g"
  shows "unat (ucast (cfg_block_num g) :: u32) = unat (cfg_block_num g)"
    "unat (ucast (cfg_bucket_size g) :: u32) = unat (cfg_bucket_size g)"
    "unat (ucast (ucast (cfg_bucket_size g) :: u32) :: u8) = unat (cfg_bucket_size g)"
    "(ucast (cfg_block_num g) :: u32) \<noteq> 0" "(ucast (cfg_bucket_size g) :: u32) \<noteq> 0"
proof -
  have gs: "0 < unat (cfg_block_num g)" "unat (cfg_block_num g) \<le> 2 ^ 30" "0 < unat (cfg_bucket_size g)"
    "unat (cfg_bucket_size g) < 256" using g by (auto simp: plain_path_config_def)
  show n: "unat (ucast (cfg_block_num g) :: u32) = unat (cfg_block_num g)"
    and b: "unat (ucast (cfg_bucket_size g) :: u32) = unat (cfg_bucket_size g)"
    using gs(2,4) by (simp_all add: unsigned_ucast_eq take_bit_eq_mod)
  have "unat (ucast v :: u8) = unat v mod 256" for v :: u32 by (simp add: unsigned_ucast_eq take_bit_eq_mod)
  then show "unat (ucast (ucast (cfg_bucket_size g) :: u32) :: u8) = unat (cfg_bucket_size g)"
    using b gs(4) by simp
  show "(ucast (cfg_block_num g) :: u32) \<noteq> 0" "(ucast (cfg_bucket_size g) :: u32) \<noteq> 0"
    using n b gs(1,3) by (metis unat_0 less_irrefl)+
qed

text \<open>The first call of \<open>GetInstance\<close> in a process makes an initialised cryptor.\<close>

lemma first_instance:
  assumes "sodium_ok L" "singleton h = None"
  shows "\<exists>cr h'. GetInstance L memory h = Inr h' \<and> singleton h' = Some cr \<and> is_initialized cr \<and> draws h' = draws h + 1"
  using assms by (simp add: GetInstance_def new_cryptor_def sodium_ok_def panic_if_def)

lemma client_starts:
  assumes L: "sodium_ok L" and g: "plain_path_config g"
    and w: "singleton (w_host w) = None" "w_srv w = Some s" "storages s (cfg_id g) = None"
  shows "\<exists>c stub w1. OramClient L M files taken g w = Inr (\<lparr>cl_controller = Path_Controller c, cl_config = g, cl_stub = stub\<rparr>, w1)
    \<and> (\<exists>cr. singleton (w_host w1) = Some cr \<and> is_initialized cr) \<and> draws (w_host w1) = draws (w_host w) + 2
    \<and> (\<forall>k h. keyed k h \<longrightarrow> path_fresh L k (c, w1\<lparr>w_host := h\<rparr>))
    \<and> oc_type c = kPathOram \<and> oc_standalone c \<and> oc_id c = cfg_id g \<and> others (cfg_id g) w w1
    \<and> po_tree_level c + 1 = ceil_LOG_BASE2 ((unat (cfg_block_num g) + unat (cfg_bucket_size g) - 1) div unat (cfg_bucket_size g) + 1)
    \<and> unat (po_bucket_size c) = unat (cfg_bucket_size g)"
proof -
  let ?n = "ucast (cfg_block_num g) :: u32" and ?b = "ucast (cfg_bucket_size g) :: u32"
  have gs: "cfg_oram_type g = kPathOram" "0 < unat (cfg_block_num g)" "unat (cfg_block_num g) \<le> 2 ^ 30"
    "0 < unat (cfg_bucket_size g)" "unat (cfg_bucket_size g) < 256" "cfg_id g < kMaximumOramStorageNum"
    using g by (auto simp: plain_path_config_def)
  note u = plain_path_numbers [OF g]
  from first_instance [OF L w(1)] obtain cr h where
    inst: "GetInstance L (mem_cryptor M) (w_host w) = Inr h" "singleton h = Some cr" "is_initialized cr"
      "draws h = draws (w_host w) + 1" by blast
  from PathOramController_starts [OF L inst(2) u(4,5), of "mem_cryptor M" "cfg_id g" True] obtain c h' where
    c: "PathOramController L (mem_cryptor M) (cfg_id g) ?n ?b True h = Inr (c, h')" "singleton h' = Some cr"
      "oc_type c = kPathOram" "oc_id c = cfg_id g" "oc_standalone c"
      "po_tree_level c + 1 = ceil_LOG_BASE2 ((unat ?n + unat ?b - 1) div unat ?b + 1)"
      "po_leafs c = 2 ^ po_tree_level c" "po_tree_level c < 32" "po_bucket_size c = ucast ?b"
      "po_position c = Map.empty" "po_stash c = []" "length (oc_hash c) = 32" "draws h' = draws h + 1" by blast
  from Path_InitOram_ready [OF c(7,8,10-12), of "w\<lparr>w_host := h'\<rparr>" s L] w(2,3) gs(6) c(4) obtain w1 where
    i: "Path_InitOram (c, w\<lparr>w_host := h'\<rparr>) = (OK, c, w1)" "w_host w1 = h'"
      "\<forall>k h. keyed k h \<longrightarrow> path_fresh L k (c, w1\<lparr>w_host := h\<rparr>)" by auto
  have "others (cfg_id g) w w1" using Path_InitOram_alone [OF i(1)] c(4) by simp
  then show ?thesis
    using inst gs(1) c(1-6,9,13) i u(1-3)
    by (auto simp: OramClient_def make_controller_def Let_def)
qed

text \<open>The instance a client of a partition ORAM gets: without slots and sub-ORAMs.\<close>

lemma partition_instance:
  assumes "cfg_oram_type g = kPartitionOram" "singleton h = Some cr"
  shows "\<exists>p h'. make_controller L M False g h = Inr (Partition_Controller p, h') \<and> pa_slots p = []
    \<and> pa_controllers p = [] \<and> oc_type p = kPartitionOram \<and> singleton h' = Some cr"
  using assms by (cases "mem_partition M")
    (simp add: make_controller_def Partition_GetInstance_def PartitionOramController_def OramController_def
      GetInstance_def RandomBytes_def oram_controller.defs partition_oram.defs)

lemma client_ready:
  assumes g: "cfg_disable_debugging (cl_config cl)" and w: "singleton (w_host w) = Some cr" "is_initialized cr"
  shows "\<exists>h. Client_Ready L M (cl, w) = Inr (OK, cl, w\<lparr>w_host := h\<rparr>)
    \<and> keyed (randombytes_buf L (draws (w_host w)) 32) h \<and> draws h = draws (w_host w) + 1"
proof -
  let ?key = "randombytes_buf L (draws (w_host w)) 32"
  let ?h = "(w_host w)\<lparr>draws := draws (w_host w) + 1, singleton := Some (cr\<lparr>is_setup := True, session_key_rx := ?key\<rparr>)\<rparr>"
  have "Client_Ready L M (cl, w) = Inr (OK, cl, w\<lparr>w_host := ?h\<rparr>)"
    using assms by (simp add: Client_Ready_def GetInstance_def with_cryptor_def NoNeedForSessionKey_def RandomBytes_def
        ORAM_CRYPTO_KEY_SIZE_def CheckStatus_def)
  moreover have "keyed ?key ?h" "draws ?h = draws (w_host w) + 1" using w(2) by (simp_all add: keyed_def)
  ultimately show ?thesis by blast
qed

text \<open>What the sampled data leaves in the ORAM: the identifiers below half the number of blocks.\<close>

definition lower_half :: "nat \<Rightarrow> (u32 \<rightharpoonup> bytes) \<Rightarrow> bool" where
  "lower_half n m \<longleftrightarrow> (\<forall>i < 2 ^ 32. case m (of_nat i) of
     Some d \<Rightarrow> i < n div 2 \<and> hd d = of_nat i | None \<Rightarrow> n div 2 \<le> i)"

text \<open>
  The data of a run. A client without key negotiation makes its random numbers in this order: four
  bytes for its cryptor, the hash of its ORAM, its session key, and the data of the blocks with
  which it fills a tree of \<open>config_tree_size\<close> places.
\<close>

definition session_key :: "libs \<Rightarrow> host \<Rightarrow> bytes" where
  "session_key L h = randombytes_buf L (draws h + 2) 32"

definition config_tree_size :: "oram_config \<Rightarrow> nat" where
  "config_tree_size g = (let n = unat (cfg_block_num g); b = unat (cfg_bucket_size g) in
     (2 ^ ceil_LOG_BASE2 ((n + b - 1) div b + 1) - 1) * b)"

definition sampled_block :: "libs \<Rightarrow> memory \<Rightarrow> oram_config \<Rightarrow> host \<Rightarrow> nat \<Rightarrow> oram_block" where
  "sampled_block L M g h j = sampled (mem_blocks M) (unat (cfg_block_num g) div 2) 0 j
     (randombytes_buf L (draws h + 3 + j) 511)"

text \<open>
  What the run of a client of a Path ORAM asks of its random numbers: that under the session key it
  has drawn neither the blocks it has sampled nor the dummies that pad its buckets are encrypted to
  something that LZ4 makes smaller than half, which is what the server's buffer for decompression
  has room for, and that no such dummy has the type of a normal block.
\<close>

definition incompressible_run :: "libs \<Rightarrow> memory \<Rightarrow> oram_config \<Rightarrow> host \<Rightarrow> bool" where
  "incompressible_run L M g h \<longleftrightarrow> pads_ok L (session_key L h)
     \<and> (\<forall>j < config_tree_size g. dense_data L (session_key L h) (sampled_block L M g h j))"

lemma client_fill:
  assumes L: "sodium_ok L" "lz4_ok L" "random_live L" "pads_ok L k"
    and wf: "\<forall>i. wf_block (mem_blocks M i)"
      "\<forall>j < config_tree_size g. dense_data L k (sampled (mem_blocks M) (unat (cfg_block_num g) div 2) 0 j
         (randombytes_buf L (draws (w_host w) + j) 511))"
    and g: "plain_path_config g" and fresh: "\<forall>h. keyed k h \<longrightarrow> path_fresh L k (c, w\<lparr>w_host := h\<rparr>)" and key: "keyed k (w_host w)"
    and c: "oc_type c = kPathOram" "oc_standalone c"
      "po_tree_level c + 1 = ceil_LOG_BASE2 ((unat (cfg_block_num g) + unat (cfg_bucket_size g) - 1) div unat (cfg_bucket_size g) + 1)"
      "unat (po_bucket_size c) = unat (cfg_bucket_size g)"
  shows "\<exists>c2 w2 m. Client_FillWithData L M files (\<lparr>cl_controller = Path_Controller c, cl_config = g, cl_stub = st\<rparr>, w)
      = Inr (OK, \<lparr>cl_controller = Path_Controller c2, cl_config = g, cl_stub = st\<rparr>, w2)
    \<and> path_serves L k (c2, w2) m \<and> lower_half (unat (cfg_block_num g)) m
    \<and> oc_id c2 = oc_id c \<and> others (oc_id c) w w2"
proof -
  let ?n = "unat (cfg_block_num g)" and ?b = "unat (cfg_bucket_size g)"
  let ?t = "(2 ^ (po_tree_level c + 1) - 1) * ?b"
  have gs: "cfg_filepath g = ''''" "0 < ?n" "?n \<le> 2 ^ 30" "0 < ?b" "?b < 256"
    using g by (auto simp: plain_path_config_def)
  note t = tree_size_bounds [OF c(3) gs(2-5)]
  have "0 < ?t" "?n div 2 \<le> ?t" using t(2) gs(2) by linarith+
  from SampleRandomBucket_view [OF L(1,3) wf(1) this(1) t(1) this(2), of "w_host w"] obtain bs h where
    b: "SampleRandomBucket L (mem_blocks M) ?n ?t 0 (w_host w) = Inr (bs, h)" "singleton h = singleton (w_host w)"
      "list_all wf_block bs" "length bs = ?t" "distinct (normal_ids bs)" "lower_half ?n (blocks_map bs)"
      "set bs = (\<lambda>j. sampled (mem_blocks M) (?n div 2) 0 j (randombytes_buf L (draws (w_host w) + j) 511)) ` {..<?t}"
    unfolding lower_half_def by blast
  have size: "config_tree_size g = ?t" unfolding config_tree_size_def Let_def c(3) [symmetric] ..
  have "keyed k h" using key b(2) by (simp add: keyed_def)
  with fresh have f: "path_fresh L k (c, w\<lparr>w_host := h\<rparr>)" by blast
  have "list_all (storable L k) bs" using b(3) wf(2) unfolding size by (auto simp: list_all_iff storable_def b(7))
  from Path_FillWithData_holds [OF L f this b(5)] obtain c2 w2 where
    r: "Path_FillWithData L bs (c, w\<lparr>w_host := h\<rparr>) = Inr (OK, c2, w2)"
      "path_holds L k (c2, w2) (blocks_map (take (tree_capacity c) bs))" "oc_standalone c2 = oc_standalone c" by blast
  have "tree_capacity c = ?t" by (simp add: tree_capacity_def c(4))
  then have "path_serves L k (c2, w2) (blocks_map bs)" using r(2,3) b(4) c(2) by (simp add: path_serves_def)
  moreover have "Client_FillWithData L M files (\<lparr>cl_controller = Path_Controller c, cl_config = g, cl_stub = st\<rparr>, w)
      = Inr (OK, \<lparr>cl_controller = Path_Controller c2, cl_config = g, cl_stub = st\<rparr>, w2)"
    using b(1) r(1) gs(1) c(1) by (simp add: Client_FillWithData_def Let_def POW2_def)
  moreover have "oc_id c2 = oc_id c" "others (oc_id c) w w2"
    using Path_FillWithData_alone [OF r(1)] by (simp_all add: alone_def)
  ultimately show ?thesis using b(6) by blast
qed

text \<open>
  A client that is configured for a Path ORAM comes up on every server where its identifier is
  free, and touches no other storage.
\<close>

lemma path_client_up:
  assumes L: "sodium_ok L" "lz4_ok L" "random_live L" and run: "incompressible_run L M g (w_host w)"
    and wf: "\<forall>i. wf_block (mem_blocks M i)" and g: "plain_path_config g"
    and w: "singleton (w_host w) = None" "w_srv w = Some s" "storages s (cfg_id g) = None"
  shows "\<exists>c m stub w2. start_client L M files g w
      = Inr (\<lparr>cl_controller = Path_Controller c, cl_config = g, cl_stub = stub\<rparr>, w2)
    \<and> path_serves L (session_key L (w_host w)) (c, w2) m \<and> lower_half (unat (cfg_block_num g)) m
    \<and> connects_by g files stub
    \<and> oc_id c = cfg_id g \<and> others (cfg_id g) w w2"
proof -
  let ?n = "unat (cfg_block_num g)" and ?b = "unat (cfg_bucket_size g)" and ?k = "session_key L (w_host w)"
  from client_starts [OF L(1) g w, of M files False] obtain c stub w1 where
    c: "OramClient L M files False g w = Inr (\<lparr>cl_controller = Path_Controller c, cl_config = g, cl_stub = stub\<rparr>, w1)"
      "\<exists>cr. singleton (w_host w1) = Some cr \<and> is_initialized cr" "\<forall>k h. keyed k h \<longrightarrow> path_fresh L k (c, w1\<lparr>w_host := h\<rparr>)"
      "oc_type c = kPathOram" "oc_standalone c" "po_tree_level c + 1 = ceil_LOG_BASE2 ((?n + ?b - 1) div ?b + 1)"
      "unat (po_bucket_size c) = ?b" "oc_id c = cfg_id g" "others (cfg_id g) w w1"
      "draws (w_host w1) = draws (w_host w) + 2" by blast
  let ?cl = "\<lparr>cl_controller = Path_Controller c, cl_config = g, cl_stub = stub\<rparr>"
  have "cfg_disable_debugging (cl_config ?cl)" using g by (simp add: plain_path_config_def)
  with client_ready c(2,10) obtain h where
    r: "Client_Ready L M (?cl, w1) = Inr (OK, ?cl, w1\<lparr>w_host := h\<rparr>)" "keyed ?k h" "draws h = draws (w_host w) + 3"
    unfolding session_key_def by fastforce
  have f: "\<forall>h'. keyed ?k h' \<longrightarrow> path_fresh L ?k (c, (w1\<lparr>w_host := h\<rparr>)\<lparr>w_host := h'\<rparr>)" "keyed ?k (w_host (w1\<lparr>w_host := h\<rparr>))"
    using c(3) r(2) by simp_all
  have d: "\<forall>j < config_tree_size g. dense_data L ?k (sampled (mem_blocks M) (?n div 2) 0 j
      (randombytes_buf L (draws (w_host (w1\<lparr>w_host := h\<rparr>)) + j) 511))" "pads_ok L ?k"
    using run r(3) by (simp_all add: incompressible_run_def sampled_block_def)
  from client_fill [OF L d(2) wf d(1) g f c(4-7)] obtain c2 w2 m where
    f: "Client_FillWithData L M files (?cl, w1\<lparr>w_host := h\<rparr>)
        = Inr (OK, \<lparr>cl_controller = Path_Controller c2, cl_config = g, cl_stub = stub\<rparr>, w2)"
      "path_serves L ?k (c2, w2) m" "lower_half ?n m" "oc_id c2 = oc_id c" "others (oc_id c) w1 w2" by fastforce
  have "start_client L M files g w = Inr (\<lparr>cl_controller = Path_Controller c2, cl_config = g, cl_stub = stub\<rparr>, w2)"
    using c(1) r(1) f(1) by (simp add: start_client_def)
  moreover have "others (cfg_id g) w w2" using c(8,9) f(5) others_trans by simp
  ultimately show ?thesis using OramClient_stub [OF c(1)] f(2-4) c(8) by auto
qed

text \<open>One read of a client of a Path ORAM.\<close>

lemma client_read:
  assumes s: "path_serves L k (c, w) m"
  shows "\<exists>st b c' w'. Client_Read L M a x (\<lparr>cl_controller = Path_Controller c, cl_config = g, cl_stub = stub\<rparr>, w)
      = Inr ((st, b), \<lparr>cl_controller = Path_Controller c', cl_config = g, cl_stub = stub\<rparr>, w')
    \<and> path_serves L k (c', w') m
    \<and> (case m a of Some d \<Rightarrow> st = OK \<and> BlockEqual a b \<and> data b = d
       | None \<Rightarrow> error_code st = kObjectNotFound \<and> map error_code (nested_status st) = [kInvalidOperation] \<and> b = x)"
proof (cases "m a")
  case None
  with path_miss_status [of L k c w m a Operation_kRead x] s obtain st c' w' where
    r: "Path_Access L Operation_kRead a x (c, w) = Inr ((st, x), c', w')" "error_code st = kObjectNotFound"
      "nested_status st = []" "path_holds L k (c', w') m" "oc_standalone c' = oc_standalone c"
    by (auto simp: path_serves_def)
  then show ?thesis using None s
    by (auto simp: Client_Read_def path_serves_def ok_def nested_status_Append mk_status_def)
next
  case (Some d)
  from path.read_hit [OF s Some, of x] obtain b cw where
    r: "Path_Access L Operation_kRead a x (c, w) = Inr ((OK, b), cw)" "data b = d" "block_id (header b) = a"
      "btype (header b) = BlockType_kNormal" "path_serves L k cw m" by blast
  then show ?thesis using Some by (cases cw) (simp add: Client_Read_def BlockEqual_def)
qed

lemma read_blocks_outcomes:
  assumes "path_serves L k (c, w) m"
  shows "\<exists>outs cw'. read_blocks L M is (\<lparr>cl_controller = Path_Controller c, cl_config = g, cl_stub = stub\<rparr>, w)
      = Inr (outs, cw')
    \<and> list_all2 (\<lambda>i (st, b). case m (of_nat i) of
        Some d \<Rightarrow> st = OK \<and> BlockEqual (of_nat i) b \<and> data b = d
      | None \<Rightarrow> error_code st = kObjectNotFound \<and> data b = data (mem_blocks M i)) is outs"
  using assms
proof (induction "is" arbitrary: c w)
  case (Cons i js)
  let ?x = "(mem_blocks M i)\<lparr>header := (header (mem_blocks M i))\<lparr>block_id := of_nat i\<rparr>\<rparr>"
  from client_read [OF Cons.prems, of M "of_nat i" ?x g stub] obtain st b c' w' where
    r: "Client_Read L M (of_nat i) ?x (\<lparr>cl_controller = Path_Controller c, cl_config = g, cl_stub = stub\<rparr>, w)
        = Inr ((st, b), \<lparr>cl_controller = Path_Controller c', cl_config = g, cl_stub = stub\<rparr>, w')"
      "path_serves L k (c', w') m"
      "case m (of_nat i) of Some d \<Rightarrow> st = OK \<and> BlockEqual (of_nat i) b \<and> data b = d
       | None \<Rightarrow> error_code st = kObjectNotFound \<and> map error_code (nested_status st) = [kInvalidOperation] \<and> b = ?x" by blast
  let ?log = "if \<not> ok st then EmitString (Append st (mk_status kInvalidOperation (''Error reading block '' @ to_string i) ''main''))
    else Inr ''''"
  have "\<exists>l. ?log = Inr l"
  proof (cases "m (of_nat i)")
    case None
    with r(3) obtain n where "nested_status st = [n]" "error_code n = kInvalidOperation" "error_code st = kObjectNotFound"
      by (auto simp: map_eq_Cons_conv)
    then show ?thesis by (simp add: EmitString_def nested_status_Append emit_line_def ok_def mk_status_def)
  qed (use r(3) in simp)
  with Cons.IH [OF r(2)] r(1,3) show ?case by (fastforce simp: Let_def split: option.splits)
qed simp

end
