(* ===== verification/Linear_Frame.thy ===== *)
theory Linear_Frame
  imports Linear_Oram Path_Frame
begin

text \<open>The operations of a linear ORAM, too, change its own storage on the server only.\<close>

lemma flat_call_others:
  "stub_ReadFlatMemory hdr w = (y, w') \<Longrightarrow> others (hdr_id hdr) w w'"
  "stub_WriteFlatMemory hdr d w = (z, w') \<Longrightarrow> others (hdr_id hdr) w w'"
  "stub_InitFlatOram hdr n sz w = (z, w') \<Longrightarrow> others (hdr_id hdr) w w'"
  by (erule rpc_others; auto simp: ReadFlatMemory_def WriteFlatMemory_def on_storage_def InitFlatOram_def Let_def
      panic_if_def put_storage_def andThen_eq_Inr split: if_splits option.splits)+

lemma Linear_InitOram_others: "Linear_InitOram (c, w) = (s, c', w') \<Longrightarrow> c' = c \<and> others (oc_id c) w w'"
  using flat_call_others(3) [of "assemble_header c"] by (auto simp: Linear_InitOram_def split: prod.splits)

lemma Linear_Access_others:
  "Linear_Access L op a x (c, w) = Inr (r, c', w') \<Longrightarrow> c' = c \<and> others (oc_id c) w w'"
proof -
  assume a: "Linear_Access L op a x (c, w) = Inr (r, c', w')"
  obtain s1 d w1 where rd: "ReadFromServer c w = ((s1, d), w1)" by (metis surj_pair)
  then have o1: "others (oc_id c) w w1"
    using flat_call_others(1) [of "assemble_header c"] by (auto simp: ReadFromServer_def split: prod.splits if_splits)
  show ?thesis
  proof (cases "oc_initialized c \<and> op \<noteq> Operation_kInvalid \<and> ok s1")
    case False
    with a rd o1 show ?thesis
      by (cases "oc_initialized c") (auto simp: Linear_Access_def Access_def Linear_InternalAccess_def panic_if_def split: if_splits)
  next
    case True
    with a rd obtain d' out h where
      "linear_loop L op a (length d div ORAM_BLOCK_SIZE) d x (w_host w1) = Inr ((d', out), h)"
      by (auto simp: Linear_Access_def Access_def Linear_InternalAccess_def panic_if_def andThen_eq_Inr)
    moreover obtain s2 w2 where wr: "WriteToServer c d' (w1\<lparr>w_host := h\<rparr>) = (s2, w2)" by (metis surj_pair)
    ultimately have "c' = c" "w' = w2"
      using a rd True by (auto simp: Linear_Access_def Access_def Linear_InternalAccess_def panic_if_def)
    moreover have "others (oc_id c) w1 w2"
      using wr flat_call_others(2) [of "assemble_header c" d' "w1\<lparr>w_host := h\<rparr>"]
      by (auto simp: WriteToServer_def split: prod.splits if_splits)
    ultimately show ?thesis using o1 others_trans by blast
  qed
qed

lemma Linear_FillWithData_others:
  "Linear_FillWithData L ds (c, w) = Inr (s, c', w') \<Longrightarrow> oc_id c' = oc_id c \<and> others (oc_id c) w w'"
proof -
  assume a: "Linear_FillWithData L ds (c, w) = Inr (s, c', w')"
  then obtain content h where e: "encrypt_all L ds (w_host w) = Inr (content, h)"
    by (auto simp: Linear_FillWithData_def andThen_eq_Inr)
  let ?c = "c\<lparr>oc_initialized := True\<rparr>"
  obtain st u w1 where r: "stub_WriteFlatMemory (assemble_header ?c) content (w\<lparr>w_host := h\<rparr>) = ((st, u), w1)"
    by (metis surj_pair)
  with a e have "c' = ?c" "w' = w1" by (auto simp: Linear_FillWithData_def Let_def)
  with flat_call_others(2) [OF r] show ?thesis by simp
qed

end
