(* ===== verification/Client_Linear.thy ===== *)
theory Client_Linear
  imports Client_Start Linear_Frame
begin

text \<open>
  From the start of the client program to its reads, for a linear ORAM: constructing and filling
  a client, which fails when the storage does not fit into one message (\<open>linear_client_up\<close>,
  \<open>linear_client_too_large\<close>), and the outcomes of its reads (\<open>linear_reads\<close>).
\<close>

text \<open>A configuration for a linear ORAM filled with sampled data.\<close>

definition plain_linear_config :: "oram_config \<Rightarrow> bool" where
  "plain_linear_config g \<longleftrightarrow> cfg_oram_type g = kLinearOram \<and> cfg_filepath g = '''' \<and> cfg_disable_debugging g
     \<and> 0 < unat (cfg_block_num g) \<and> unat (cfg_block_num g) < 2 ^ 32 \<and> cfg_id g < kMaximumOramStorageNum"

lemma linear_client_starts:
  assumes L: "sodium_ok L" and g: "plain_linear_config g"
    and w: "singleton (w_host w) = None" "w_srv w = Some s" "storages s (cfg_id g) = None"
  shows "\<exists>c stub w1. OramClient L M files taken g w = Inr (\<lparr>cl_controller = Linear_Controller c, cl_config = g, cl_stub = stub\<rparr>, w1)
    \<and> (\<exists>cr. singleton (w_host w1) = Some cr \<and> is_initialized cr) \<and> flat_image c w1 [] \<and> oc_type c = kLinearOram
    \<and> oc_id c = cfg_id g \<and> others (cfg_id g) w w1"
proof -
  from first_instance [OF L w(1)] obtain cr h where
    inst: "GetInstance L (mem_cryptor M) (w_host w) = Inr h" "singleton h = Some cr" "is_initialized cr" by blast
  obtain c h' where c: "LinearOramController L (mem_cryptor M) (cfg_id g) True (unat (cfg_block_num g)) h = Inr (c, h')"
    "oc_id c = cfg_id g" "oc_type c = kLinearOram" "singleton h' = Some cr" "length (oc_hash c) = 32"
    using inst(2) L by (auto simp: LinearOramController_def OramController_def GetInstance_def RandomBytes_def sodium_ok_def)
  from Linear_InitOram_image [of "w\<lparr>w_host := h'\<rparr>" s c] w(2,3) c(2,5) g obtain w1 where
    i: "Linear_InitOram (c, w\<lparr>w_host := h'\<rparr>) = (OK, c, w1)" "flat_image c w1 []" "w_host w1 = h'"
    by (auto simp: plain_linear_config_def)
  have "others (cfg_id g) w w1" using Linear_InitOram_others [OF i(1)] c(2) by simp
  with i inst c g show ?thesis by (auto simp: plain_linear_config_def OramClient_def make_controller_def Let_def)
qed

text \<open>Up to 7489 blocks the sampled data fill the ORAM; more are refused.\<close>

lemma linear_client_fill:
  assumes L: "sodium_ok L" "random_live L" and wf: "\<forall>i. wf_block (mem_blocks M i)"
    and g: "plain_linear_config g" and key: "keyed k (w_host w)" and c: "flat_image c w []" "oc_type c = kLinearOram"
  shows "\<exists>st c2 w2. Client_FillWithData L M files (\<lparr>cl_controller = Linear_Controller c, cl_config = g, cl_stub = stub\<rparr>, w)
      = Inr (st, \<lparr>cl_controller = Linear_Controller c2, cl_config = g, cl_stub = stub\<rparr>, w2)
    \<and> oc_id c2 = oc_id c \<and> others (oc_id c) w w2
    \<and> (if unat (cfg_block_num g) \<le> 7489
       then st = OK \<and> (\<exists>m. linear_holds L (c2, w2) m \<and> lower_half (unat (cfg_block_num g)) m)
       else error_code st = kServerError \<and> nested_status st = [])"
proof -
  let ?n = "unat (cfg_block_num g)"
  have gs: "cfg_filepath g = ''''" "0 < ?n" "?n < 2 ^ 32" using g by (auto simp: plain_linear_config_def)
  have "?n div 2 \<le> ?n" by simp
  from SampleRandomBucket_view [OF L wf gs(2,3) this, of "w_host w"] obtain bs h where
    b: "SampleRandomBucket L (mem_blocks M) ?n ?n 0 (w_host w) = Inr (bs, h)" "singleton h = singleton (w_host w)"
      "list_all wf_block bs" "distinct (normal_ids bs)" "lower_half ?n (blocks_map bs)" "length bs = ?n"
    unfolding lower_half_def by blast
  have k: "keyed k (w_host (w\<lparr>w_host := h\<rparr>))" using key b(2) by (simp add: keyed_def)
  have "\<exists>st c2 w2. Linear_FillWithData L bs (c, w\<lparr>w_host := h\<rparr>) = Inr (st, c2, w2)
    \<and> (if ?n \<le> 7489 then st = OK \<and> linear_holds L (c2, w2) (blocks_map bs)
       else error_code st = kServerError \<and> nested_status st = [])"
  proof (cases "?n \<le> 7489")
    case True
    with Linear_FillWithData_holds [OF L(1) k, of c "[]" bs] c(1) b(3,4,6) show ?thesis by auto
  next
    case False
    have "length (oc_hash c) = 32" using c(1) by (simp add: flat_image_def)
    from Linear_FillWithData_too_large [OF L(1) k this b(3)] b(6) False show ?thesis by auto
  qed
  then obtain st c2 w2 where r: "Linear_FillWithData L bs (c, w\<lparr>w_host := h\<rparr>) = Inr (st, c2, w2)"
    "if ?n \<le> 7489 then st = OK \<and> linear_holds L (c2, w2) (blocks_map bs)
     else error_code st = kServerError \<and> nested_status st = []" by blast
  have "oc_id c2 = oc_id c" "others (oc_id c) w w2" using Linear_FillWithData_others [OF r(1)] by simp_all
  moreover have "Client_FillWithData L M files (\<lparr>cl_controller = Linear_Controller c, cl_config = g, cl_stub = stub\<rparr>, w)
      = Inr (st, \<lparr>cl_controller = Linear_Controller c2, cl_config = g, cl_stub = stub\<rparr>, w2)"
    using r(1) b(1) gs(1) c(2) by (simp add: Client_FillWithData_def Let_def)
  ultimately show ?thesis using r(2) b(5)
    by (intro exI [of _ st] exI [of _ c2] exI [of _ w2]) (auto split: if_splits)
qed

lemma linear_client_outcome:
  assumes L: "sodium_ok L" "random_live L" and wf: "\<forall>i. wf_block (mem_blocks M i)" and g: "plain_linear_config g"
    and w: "singleton (w_host w) = None" "w_srv w = Some s" "storages s (cfg_id g) = None"
  shows "if unat (cfg_block_num g) \<le> 7489
    then \<exists>c m stub w2. start_client L M files g w
        = Inr (\<lparr>cl_controller = Linear_Controller c, cl_config = g, cl_stub = stub\<rparr>, w2)
      \<and> linear_holds L (c, w2) m \<and> lower_half (unat (cfg_block_num g)) m \<and> connects_by g files stub
      \<and> oc_id c = cfg_id g \<and> others (cfg_id g) w w2
    else start_client L M files g w = Inl Process_Abort"
proof -
  from linear_client_starts [OF L(1) g w, of M files False] obtain c stub w1 where
    c: "OramClient L M files False g w = Inr (\<lparr>cl_controller = Linear_Controller c, cl_config = g, cl_stub = stub\<rparr>, w1)"
      "\<exists>cr. singleton (w_host w1) = Some cr \<and> is_initialized cr" "flat_image c w1 []" "oc_type c = kLinearOram"
      "oc_id c = cfg_id g" "others (cfg_id g) w w1" by blast
  let ?cl = "\<lparr>cl_controller = Linear_Controller c, cl_config = g, cl_stub = stub\<rparr>"
  have "cfg_disable_debugging (cl_config ?cl)" using g by (simp add: plain_linear_config_def)
  with client_ready c(2) obtain k h where
    r: "Client_Ready L M (?cl, w1) = Inr (OK, ?cl, w1\<lparr>w_host := h\<rparr>)" "keyed k h" by blast
  from linear_client_fill [OF L wf g, of k "w1\<lparr>w_host := h\<rparr>" c files stub] r(2) c(3,4) obtain st c2 w2 where
    f: "Client_FillWithData L M files (?cl, w1\<lparr>w_host := h\<rparr>)
        = Inr (st, \<lparr>cl_controller = Linear_Controller c2, cl_config = g, cl_stub = stub\<rparr>, w2)"
      "oc_id c2 = oc_id c" "others (oc_id c) w1 w2"
    and st: "if unat (cfg_block_num g) \<le> 7489
       then st = OK \<and> (\<exists>m. linear_holds L (c2, w2) m \<and> lower_half (unat (cfg_block_num g)) m)
       else error_code st = kServerError \<and> nested_status st = []"
    by auto
  have o: "others (cfg_id g) w w2" using c(5,6) f(3) others_trans by simp
  have s: "start_client L M files g w = (if \<not> ok st then andThen (EmitString st) (\<lambda>_. Inl Process_Abort)
      else Inr (\<lparr>cl_controller = Linear_Controller c2, cl_config = g, cl_stub = stub\<rparr>, w2))"
    using c(1) r(1) f(1) by (simp add: start_client_def)
  show ?thesis
  proof (cases "unat (cfg_block_num g) \<le> 7489")
    case True
    with st s o OramClient_stub [OF c(1)] f(2) c(5) show ?thesis by auto
  next
    case False
    with st s show ?thesis by (simp add: ok_def EmitString_def emit_line_def)
  qed
qed

lemma linear_client_up:
  assumes "sodium_ok L" "random_live L" "\<forall>i. wf_block (mem_blocks M i)" "plain_linear_config g"
    and "singleton (w_host w) = None" "w_srv w = Some s" "storages s (cfg_id g) = None"
    and "unat (cfg_block_num g) \<le> 7489"
  shows "\<exists>c m stub w2. start_client L M files g w
      = Inr (\<lparr>cl_controller = Linear_Controller c, cl_config = g, cl_stub = stub\<rparr>, w2)
    \<and> linear_holds L (c, w2) m \<and> lower_half (unat (cfg_block_num g)) m \<and> connects_by g files stub
    \<and> oc_id c = cfg_id g \<and> others (cfg_id g) w w2"
  using linear_client_outcome [OF assms(1-7), of files] assms(8) by simp

lemma linear_client_too_large:
  assumes "sodium_ok L" "random_live L" "\<forall>i. wf_block (mem_blocks M i)" "plain_linear_config g"
    and "singleton (w_host w) = None" "w_srv w = Some s" "storages s (cfg_id g) = None"
    and "\<not> unat (cfg_block_num g) \<le> 7489"
  shows "start_client L M files g w = Inl Process_Abort"
  using linear_client_outcome [OF assms(1-7), of files] assms(8) by simp

lemma linear_reads:
  assumes "linear_holds L (c, w) m"
  shows "\<exists>outs cw'. read_blocks L M js (\<lparr>cl_controller = Linear_Controller c, cl_config = g, cl_stub = stub\<rparr>, w)
      = Inr (outs, cw')
    \<and> list_all2 (\<lambda>i (st, b). st = OK \<and> (case m (of_nat i) of
        Some d \<Rightarrow> BlockEqual (of_nat i) b \<and> data b = d | None \<Rightarrow> data b = data (mem_blocks M i))) js outs"
  using assms
proof (induction js arbitrary: c w)
  case (Cons i js)
  let ?x = "(mem_blocks M i)\<lparr>header := (header (mem_blocks M i))\<lparr>block_id := of_nat i\<rparr>\<rparr>"
  have "\<exists>b c' w'. Linear_Access L Operation_kRead (of_nat i) ?x (c, w) = Inr ((OK, b), c', w') \<and> linear_holds L (c', w') m
      \<and> (case m (of_nat i) of Some d \<Rightarrow> BlockEqual (of_nat i) b \<and> data b = d | None \<Rightarrow> data b = data (mem_blocks M i))"
  proof (cases "m (of_nat i)")
    case None
    from linear_read_miss [OF Cons.prems None, of ?x] obtain b c' w' where
      "Linear_Access L Operation_kRead (of_nat i) ?x (c, w) = Inr ((OK, b), c', w')"
      "payload b = payload ?x" "linear_holds L (c', w') m" by auto
    moreover from payload_eqD [OF this(2)] have "data b = data (mem_blocks M i)" by simp
    ultimately show ?thesis using None by auto
  next
    case (Some d)
    from linear_read_hit [OF Cons.prems Some, of ?x] Some show ?thesis by (fastforce simp: BlockEqual_def)
  qed
  then obtain b c' w' where r: "Linear_Access L Operation_kRead (of_nat i) ?x (c, w) = Inr ((OK, b), c', w')"
    "linear_holds L (c', w') m"
    "case m (of_nat i) of Some d \<Rightarrow> BlockEqual (of_nat i) b \<and> data b = d | None \<Rightarrow> data b = data (mem_blocks M i)" by blast
  from Cons.IH [OF r(2)] r(1,3) show ?case by (fastforce simp: Let_def Client_Read_def)
qed simp

end
