(* ===== verification/Server_Main.thy ===== *)
theory Server_Main
  imports Oram_Client
begin

text \<open>
  The server's process: the runner of server/oram\_server.cc with its key and certificate files, and
  the main program of server/main.cc.
\<close>

section \<open>The runner\<close>

text \<open>The members of the runner; the service itself is the state that \<open>ServerRunner_Run\<close> makes.\<close>

record server_runner =
  rn_address :: string
  rn_port :: u32
  rn_private_key :: bytes
  rn_cert_chain :: bytes
  rn_is_initialized :: bool

definition ServerRunner :: "(string \<rightharpoonup> bytes) \<Rightarrow> string \<Rightarrow> u32 \<Rightarrow> string \<Rightarrow> string \<Rightarrow> server_runner exec" where
  "ServerRunner files address port key_path crt_path =
     (let key_file = ReadKeyCrtFile files key_path; crt_file = ReadKeyCrtFile files crt_path in
      if key_file = [] \<or> crt_file = [] then Inl Process_Exit
      else Inr \<lparr>rn_address = address, rn_port = port, rn_private_key = key_file, rn_cert_chain = crt_file,
                rn_is_initialized = True\<rparr>)"

text \<open>
  The address the server listens on. Whether the server starts is up to gRPC: \<open>BuildAndStart\<close> says
  it for the address (which may be taken), the private key and the certificate chain (which may be
  none).
\<close>

definition listen_address :: "server_runner \<Rightarrow> string" where
  "listen_address r = rn_address r @ '':'' @ to_string (unat (rn_port r))"

type_synonym grpc_start = "string \<Rightarrow> bytes \<Rightarrow> bytes \<Rightarrow> bool"

definition Runner_Run :: "libs \<Rightarrow> cryptor \<Rightarrow> grpc_start \<Rightarrow> server_runner \<Rightarrow> host \<Rightarrow> (string \<times> server) exec" where
  "Runner_Run L memory BuildAndStart r h =
     (if \<not> rn_is_initialized r then Inl Process_Exit
      else andThen (ServerRunner_Run L memory
                      (BuildAndStart (listen_address r) (rn_private_key r) (rn_cert_chain r)) h)
             (\<lambda>s. Inr (listen_address r, s)))"

section \<open>The main program\<close>

text \<open>Up to the wait for calls: the address and the state of the service.\<close>

definition server_main :: "libs \<Rightarrow> cryptor \<Rightarrow> grpc_start \<Rightarrow> 'n yaml \<Rightarrow> 'n system \<Rightarrow> ('a \<Rightarrow> flags exec) \<Rightarrow> 'a \<Rightarrow> (string \<rightharpoonup> bytes) \<Rightarrow> host
    \<Rightarrow> (string \<times> server) exec" where
  "server_main L memory BuildAndStart Y sys ParseCommandLine argv files h =
     andThen (configure Y sys ParseCommandLine argv) (\<lambda>(_, config).
     andThen (ServerRunner files (cfg_server_address config) (cfg_server_port config)
                (cfg_key_path config) (cfg_crt_path config)) (\<lambda>runner.
       Runner_Run L memory BuildAndStart runner h))"

text \<open>The server's address in a configuration, and whether gRPC starts a server for it.\<close>

definition server_address_of :: "oram_config \<Rightarrow> string" where
  "server_address_of g = cfg_server_address g @ '':'' @ to_string (unat (cfg_server_port g))"

definition can_serve :: "grpc_start \<Rightarrow> (string \<rightharpoonup> bytes) \<Rightarrow> oram_config \<Rightarrow> bool" where
  "can_serve BuildAndStart files g \<longleftrightarrow>
     ReadKeyCrtFile files (cfg_key_path g) \<noteq> [] \<and> ReadKeyCrtFile files (cfg_crt_path g) \<noteq> []
     \<and> BuildAndStart (server_address_of g) (ReadKeyCrtFile files (cfg_key_path g)) (ReadKeyCrtFile files (cfg_crt_path g))"

lemma server_main_starts:
  assumes "sodium_ok L" "configure Y sys ParseCommandLine argv = Inr (status, g)" "singleton h = None"
    and "can_serve BuildAndStart files g"
  shows "\<exists>s. server_main L memory BuildAndStart Y sys ParseCommandLine argv files h = Inr (server_address_of g, s)
    \<and> storages s = Map.empty \<and> cryptor_set s \<and> server_running s"
  using assms
  by (auto simp: server_main_def ServerRunner_def Runner_Run_def ServerRunner_Run_def GetInstance_def can_serve_def
      server_address_of_def listen_address_def new_cryptor_def panic_if_def sodium_ok_def)

lemma server_main_without_files:
  assumes "configure Y sys ParseCommandLine argv = Inr (status, g)"
    and "ReadKeyCrtFile files (cfg_key_path g) = [] \<or> ReadKeyCrtFile files (cfg_crt_path g) = []"
  shows "server_main L memory BuildAndStart Y sys ParseCommandLine argv files h = Inl Process_Exit"
  using assms by (auto simp: server_main_def ServerRunner_def Let_def)

text \<open>A server that gRPC cannot start is waited for all the same.\<close>

lemma server_main_not_started:
  assumes "sodium_ok L" "configure Y sys ParseCommandLine argv = Inr (status, g)" "singleton h = None"
    and "ReadKeyCrtFile files (cfg_key_path g) \<noteq> []" "ReadKeyCrtFile files (cfg_crt_path g) \<noteq> []"
    and "\<not> can_serve BuildAndStart files g"
  shows "server_main L memory BuildAndStart Y sys ParseCommandLine argv files h = Inl Undefined_Behaviour"
  using assms
  by (auto simp: server_main_def ServerRunner_def Runner_Run_def ServerRunner_Run_def GetInstance_def can_serve_def
      server_address_of_def listen_address_def new_cryptor_def panic_if_def sodium_ok_def)

end
