(* ===== verification/Parse_Properties.thy ===== *)
theory Parse_Properties
  imports Oram_Parse
begin

text \<open>The properties of the configuration.\<close>

section \<open>Entries\<close>

lemma last_entry_snoc:
  "last_entry Y (es @ [e]) ks = (if entry_key Y e \<in> set ks then Some (entry_key Y e, snd e) else last_entry Y es ks)"
  by (simp add: last_entry_def)

lemma setting_snoc:
  "setting Y (es @ [e]) key conv d = (if entry_key Y e = key then projr (conv (snd e)) else setting Y es key conv d)"
  by (simp add: setting_def last_entry_snoc)

lemma config_of_Nil [simp]: "config_of Y [] = default_config"
  by (simp add: config_of_def setting_def last_entry_def default_config_def)

lemma TryExec_Inr [simp]: "TryExec (Inr c') c = (OK, c')"
  by (simp add: TryExec_def)

lemma DoParse_unreadable:
  assumes "\<not> readable Y e"
  shows "DoParse Y e c = Inl Uncaught_Exception"
proof -
  obtain k v where e: "e = (k, v)" by (cases e)
  show ?thesis
  proof (cases "as_string Y k")
    case (Inr key)
    with assms obtain m where "as_string Y v = Inl m" by (cases "as_string Y v") (auto simp: readable_def e)
    with Inr show ?thesis by (simp add: DoParse_def e)
  qed (simp add: DoParse_def e)
qed

lemma readable_strings:
  assumes "readable Y (k, v)"
  obtains key s where "as_string Y k = Inr key" "as_string Y v = Inr s" "entry_key Y (k, v) = key"
  using assms by (cases "as_string Y k"; cases "as_string Y v") (auto simp: readable_def entry_key_def)

lemma DoParse_convertible:
  assumes "convertible Y e"
  shows "DoParse Y e (config_of Y es) = Inr (OK, config_of Y (es @ [e]))"
proof -
  obtain k v where e: "e = (k, v)" by (cases e)
  have "readable Y (k, v)" using assms by (simp add: e convertible_def)
  then obtain key s where ks: "as_string Y k = Inr key" "as_string Y v = Inr s" "entry_key Y (k, v) = key"
    by (rule readable_strings)
  have inr: "\<not> isl x \<longleftrightarrow> (\<exists>y. x = Inr y)" for x :: "string + 'z" by (cases x) auto
  from assms have "key \<in> {''OramType'', ''ServerCrtPath'', ''ServerKeyPath'', ''ServerAddress'', ''ProxyAddress'', ''LogLevel'', ''FilePath''}
      \<or> key \<in> {''BlockNum'', ''BucketSize'', ''OdictSize'', ''ClientCacheMaxSize''} \<and> (\<exists>n. as_size_t Y v = Inr n)
      \<or> key \<in> {''Id'', ''ServerPort'', ''ProxyPort''} \<and> (\<exists>n. as_uint32 Y v = Inr n)
      \<or> key = ''LogFrequency'' \<and> (\<exists>n. as_uint8 Y v = Inr n)
      \<or> key \<in> {''EnableProxy'', ''DisableDebugging''} \<and> (\<exists>b. as_bool Y v = Inr b)"
    unfolding convertible_def e ks(3) Let_def snd_conv inr by (rule conjunct2)
  then show ?thesis
    by (elim disjE conjE exE insertE emptyE; simp add: DoParse_def ks e;
      simp add: config_of_def setting_snoc last_entry_snoc ks)
qed

lemma DoParse_inconvertible:
  assumes "readable Y e" "\<not> convertible Y e"
  shows "\<exists>s c'. DoParse Y e c = Inr (s, c') \<and> error_code s \<in> {kUnknownError, kInvalidArgument} \<and> nested_status s = []"
proof -
  obtain k v where e: "e = (k, v)" by (cases e)
  have "readable Y (k, v)" using assms by (simp add: e)
  then obtain key s where ks: "as_string Y k = Inr key" "as_string Y v = Inr s" "entry_key Y (k, v) = key"
    by (rule readable_strings)
  have il: "\<exists>what. x = Inl what" if "isl x" for x :: "string + 'z" using that by (cases x) auto
  note c = assms(2) [unfolded convertible_def e ks(3) Let_def snd_conv]
  consider what where "key \<in> {''BlockNum'', ''BucketSize'', ''OdictSize'', ''ClientCacheMaxSize''}" "as_size_t Y v = Inl what"
    | what where "key \<in> {''Id'', ''ServerPort'', ''ProxyPort''}" "as_uint32 Y v = Inl what"
    | what where "key \<in> {''LogFrequency''}" "as_uint8 Y v = Inl what"
    | what where "key \<in> {''EnableProxy'', ''DisableDebugging''}" "as_bool Y v = Inl what"
    | "key \<notin> {''OramType'', ''ServerCrtPath'', ''ServerKeyPath'', ''ServerAddress'', ''ProxyAddress'', ''LogLevel'', ''FilePath'',
        ''BlockNum'', ''BucketSize'', ''OdictSize'', ''ClientCacheMaxSize'', ''Id'', ''ServerPort'', ''ProxyPort'',
        ''LogFrequency'', ''EnableProxy'', ''DisableDebugging''}"
    using c assms(1) e il by (metis insert_iff)
  then show ?thesis
  proof cases
    case 5
    then show ?thesis by (simp add: e DoParse_def ks mk_status_def)
  qed (elim insertE emptyE; simp add: e DoParse_def ks TryExec_def mk_status_def)+
qed

lemma parse_entries_convertible:
  "list_all (convertible Y) es \<Longrightarrow> parse_entries Y (es @ rest) OK (config_of Y pre)
    = parse_entries Y rest OK (config_of Y (pre @ es))"
  by (induction es arbitrary: pre) (simp_all add: DoParse_convertible)

lemma parse_entries_stops:
  assumes "\<not> convertible Y e"
  shows "parse_entries Y (e # es) OK c = Inl (if readable Y e then Process_Exit else Uncaught_Exception)"
proof (cases "readable Y e")
  case True
  from DoParse_inconvertible [OF this assms, of c] obtain s c' where
    s: "DoParse Y e c = Inr (s, c')" "error_code s \<in> {kUnknownError, kInvalidArgument}" "nested_status s = []" by blast
  have "\<exists>r. EmitString s = Inr r" using s(2,3) by (auto simp: EmitString_def emit_line_def)
  then show ?thesis using s True by (auto simp: ok_def)
qed (simp add: DoParse_unreadable)

lemma parse_entries_config:
  "parse_entries Y es OK default_config =
     (case dropWhile (convertible Y) es of
        [] \<Rightarrow> Inr (OK, config_of Y es)
      | e # _ \<Rightarrow> Inl (if readable Y e then Process_Exit else Uncaught_Exception))"
proof -
  have tw: "list_all (convertible Y) (takeWhile (convertible Y) es)"
    by (auto simp: list_all_iff dest: set_takeWhileD)
  have run: "parse_entries Y es OK default_config
      = parse_entries Y (dropWhile (convertible Y) es) OK (config_of Y (takeWhile (convertible Y) es))"
    using parse_entries_convertible [OF tw, of "dropWhile (convertible Y) es" "[]"] by simp
  show ?thesis
  proof (cases "dropWhile (convertible Y) es")
    case Nil
    then have "takeWhile (convertible Y) es = es" by (metis append_Nil2 takeWhile_dropWhile_id)
    with run Nil show ?thesis by (simp only: list.case parse_entries.simps)
  next
    case (Cons e rest)
    then have "\<not> convertible Y e" using hd_dropWhile [of "convertible Y" es] by simp
    with run Cons show ?thesis using parse_entries_stops by fastforce
  qed
qed

lemma extension_yaml: "after_last (CHR ''.'') (after_last (CHR ''/'') (stem @ ''.yaml'')) = ''yaml''"
  by (simp add: after_last_def)

section \<open>What every configuration satisfies\<close>

lemma LogLevel2U8_range: "unat (LogLevel2U8 x) \<le> 6"
  by (simp add: LogLevel2U8_def)

lemma DoParse_keeps:
  assumes "DoParse Y e c = Inr (s, c')"
  shows "cfg_id c' = cfg_id c \<and> (unat (cfg_log_level c) \<le> 6 \<longrightarrow> unat (cfg_log_level c') \<le> 6)"
proof -
  obtain k v where e: "e = (k, v)" by (cases e)
  from assms obtain key x where ks: "as_string Y k = Inr key" "as_string Y v = Inr x"
    by (auto simp: e DoParse_def split: sum.splits)
  have attempt: "TryExec (map_sum id f m) c = (s, c') \<Longrightarrow> c' = c \<or> (\<exists>y. c' = f y)" for f and m :: "string + 'z"
    by (cases m) (auto simp: TryExec_def)
  show ?thesis
    using assms unfolding e DoParse_def ks sum.case prod.case
    by (auto split: if_split_asm dest!: attempt simp: LogLevel2U8_range)
qed

lemma parse_entries_keeps:
  "parse_entries Y es s c = Inr (s', c') \<Longrightarrow>
    cfg_id c' = cfg_id c \<and> (unat (cfg_log_level c) \<le> 6 \<longrightarrow> unat (cfg_log_level c') \<le> 6)"
proof (induction es arbitrary: s c)
  case (Cons e es)
  then obtain s1 c1 where "DoParse Y e c = Inr (s1, c1)" "parse_entries Y es s1 c1 = Inr (s', c')"
    by (auto simp: andThen_eq_Inr split: if_splits)
  with Cons.IH DoParse_keeps show ?case by metis
qed simp

lemma default_config_ok [simp]: "cfg_id default_config = 0" "unat (cfg_log_level default_config) \<le> 6"
  by (simp_all add: default_config_def)

lemma Parse_keeps:
  assumes "Parse Y sys p = Inr (s, p', c)"
  shows "cfg_id c = 0 \<and> unat (cfg_log_level c) \<le> 6"
  using assms parse_entries_keeps [of Y _ OK default_config _ c]
  by (fastforce simp: Parse_def Let_def andThen_eq_Inr split: if_splits option.splits)

section \<open>Properties\<close>

text \<open>
  C37. A configuration file: with \<open>ORAM_CONFIG_PATH\<close> (or the default path) naming an existing file that
  ends in .yaml, \<open>Parse\<close> returns OK and the configuration in which every field has the converted
  value of the last entry with its key, or its default, when every entry has a known key and a
  value of its type; the certificate path is set by the last entry among \<open>Id\<close> and \<open>ServerCrtPath\<close>, and the
  identifier stays 0. The first other entry ends the process: by \<open>exit\<close> if its key and value are
  scalars, by an exception nobody catches otherwise.
\<close>

theorem parse_file:
  assumes "path = (case ORAM_CONFIG_PATH sys of None \<Rightarrow> ''./config.yaml'' | Some p \<Rightarrow> p)" "path = stem @ ''.yaml''"
    and "path_exists sys path" "\<not> is_directory sys path" "LoadFile sys path = Some es"
  shows "Parse Y sys parser =
    (case dropWhile (convertible Y) es of
       [] \<Rightarrow> Inr (OK, parser\<lparr>ignore_command_line_args := True\<rparr>, config_of Y es)
     | e # _ \<Rightarrow> Inl (if readable Y e then Process_Exit else Uncaught_Exception))"
  using assms(3-5) extension_yaml [of stem] assms(1) [symmetric] unfolding Parse_def Let_def default_config_path_def
  by (auto simp: assms(2) parse_entries_config simp del: dropWhile_eq_Nil_conv split: list.splits)

text \<open>A YAML library on strings, and a file with an identifier.\<close>

definition toy_yaml :: "string yaml" where
  "toy_yaml = \<lparr>as_string = Inr,
     as_size_t = (\<lambda>s. if s = ''64'' then Inr 64 else Inl ''bad conversion''),
     as_uint32 = (\<lambda>s. if s = ''65'' then Inr 65 else Inl ''bad conversion''),
     as_uint8 = (\<lambda>s. Inl ''bad conversion''), as_bool = (\<lambda>s. if s = ''true'' then Inr True else Inl ''bad conversion'')\<rparr>"

definition toy_entries :: "(string \<times> string) list" where
  "toy_entries = [(''OramType'', ''LinearOram''), (''BlockNum'', ''64''), (''ServerCrtPath'', ''a.crt''),
     (''LogLevel'', ''ERROR''), (''OramType'', ''PathOram''), (''Id'', ''65'')]"

definition toy_system :: "(string \<times> string) list \<Rightarrow> string system" where
  "toy_system es = \<lparr>ORAM_CONFIG_PATH = Some ''conf/my.yaml'', path_exists = (\<lambda>p. p = ''conf/my.yaml''),
     is_directory = (\<lambda>_. False), LoadFile = (\<lambda>p. if p = ''conf/my.yaml'' then Some es else None)\<rparr>"

lemma toy_convertible: "dropWhile (convertible toy_yaml) toy_entries = []"
  "dropWhile (convertible toy_yaml) (toy_entries @ [(''BlockNum'', ''many'')]) = [(''BlockNum'', ''many'')]"
  by code_simp+

lemma toy_config: "config_of toy_yaml toy_entries
    = default_config\<lparr>cfg_block_num := 64, cfg_crt_path := ''A'', cfg_log_level := 4\<rparr>"
  by code_simp

theorem parse_file_witness:
  "Parse toy_yaml (toy_system toy_entries) YamlParser
      = Inr (OK, \<lparr>ignore_command_line_args = True\<rparr>,
          default_config\<lparr>cfg_block_num := 64, cfg_crt_path := ''A'', cfg_log_level := 4\<rparr>)
    \<and> Parse toy_yaml (toy_system (toy_entries @ [(''BlockNum'', ''many'')])) YamlParser = Inl Process_Exit"
  using parse_file [of "''conf/my.yaml''" "toy_system toy_entries" "''conf/my''" toy_entries toy_yaml YamlParser]
    parse_file [of "''conf/my.yaml''" "toy_system (toy_entries @ [(''BlockNum'', ''many'')])" "''conf/my''"
      "toy_entries @ [(''BlockNum'', ''many'')]" toy_yaml YamlParser]
  unfolding toy_convertible toy_config
  by (simp add: toy_system_def YamlParser_def readable_def toy_yaml_def del: append.simps)

text \<open>
  C38. The configuration of the two main programs is a well-formed one from the file or comes wholly
  from the command line: unless the flags were read, which happens only when no file was found, the
  identifier is 0 whatever the file says, and the log level is one of the seven levels.
\<close>

theorem configuration_well_formed:
  assumes "configure Y sys ParseCommandLine argv = Inr (s, c)"
  shows "cfg_id c = 0 \<and> unat (cfg_log_level c) \<le> 6
    \<or> (\<exists>f. ParseCommandLine argv = Inr f \<and> (s, c) = DoCommandLine f default_config
        \<and> (\<exists>p. Parse Y sys YamlParser = Inr (mk_status kFileNotFound ''No configuration file provided'' ''Parse'', p, default_config)))"
proof -
  from assms obtain s1 p c1 where p: "Parse Y sys YamlParser = Inr (s1, p, c1)"
    and r: "(if error_code s1 = kFileNotFound \<and> \<not> ignore_command_line_args p
       then FromCommandLine ParseCommandLine argv p c1 else Inr (s1, c1)) = Inr (s, c)"
    by (auto simp: configure_def andThen_eq_Inr)
  show ?thesis
  proof (cases "error_code s1 = kFileNotFound \<and> \<not> ignore_command_line_args p")
    case True
    with r obtain f where f: "ParseCommandLine argv = Inr f" "(s, c) = DoCommandLine f c1"
      by (auto simp: FromCommandLine_def andThen_eq_Inr)
    moreover have "s1 = mk_status kFileNotFound ''No configuration file provided'' ''Parse'' \<and> c1 = default_config"
      using p True by (auto simp: Parse_def Let_def andThen_eq_Inr split: if_splits option.splits)
    ultimately show ?thesis using p by blast
  next
    case False
    with r p Parse_keeps show ?thesis by force
  qed
qed

theorem configuration_well_formed_witness:
  "\<exists>s c. configure toy_yaml (toy_system toy_entries) (\<lambda>_. Inr default_flags) () = Inr (s, c)
    \<and> cfg_id c = 0 \<and> unat (cfg_log_level c) \<le> 6"
proof -
  have "Parse toy_yaml (toy_system toy_entries) YamlParser
      = Inr (OK, \<lparr>ignore_command_line_args = True\<rparr>, config_of toy_yaml toy_entries)"
    by code_simp
  then have r: "configure toy_yaml (toy_system toy_entries) (\<lambda>_. Inr default_flags) () = Inr (OK, config_of toy_yaml toy_entries)"
    by (simp add: configure_def)
  from configuration_well_formed [OF this] have "cfg_id (config_of toy_yaml toy_entries) = 0"
    by (auto simp: DoCommandLine_def default_flags_def toy_config default_config_def)
  with r show ?thesis by (intro exI [of _ OK] exI [of _ "config_of toy_yaml toy_entries"]) (simp add: toy_config)
qed

text \<open>
  C39. \<open>Parse\<close> falls back on the default file in its test only: when \<open>ORAM_CONFIG_PATH\<close> names a .yaml file
  that does not exist and ./config.yaml does, the missing file is loaded and the exception of the
  YAML library ends the program; when it names a file of another kind, the default configuration is
  returned with an error, and neither ./config.yaml nor the command line is looked at.
\<close>

theorem missing_config_file:
  assumes "ORAM_CONFIG_PATH sys = Some path" "\<not> path_exists sys path" "\<forall>p. \<not> path_exists sys p \<longrightarrow> LoadFile sys p = None"
    and "path_exists sys ''./config.yaml''" "\<not> is_directory sys ''./config.yaml''"
  shows "configure Y sys ParseCommandLine argv =
    (if after_last (CHR ''.'') (after_last (CHR ''/'') path) \<in> {''yaml'', ''yml''} then Inl Uncaught_Exception
     else Inr (mk_status kFileIOError ''Not a yaml file'' ''Parse'', default_config))"
  using assms by (simp add: configure_def Parse_def Let_def default_config_path_def)

definition lost_system :: "string \<Rightarrow> string system" where
  "lost_system path = \<lparr>ORAM_CONFIG_PATH = Some path, path_exists = (\<lambda>p. p = ''./config.yaml''),
     is_directory = (\<lambda>_. False), LoadFile = (\<lambda>p. if p = ''./config.yaml'' then Some toy_entries else None)\<rparr>"

theorem missing_config_file_witness:
  "configure toy_yaml (lost_system ''my.yaml'') (\<lambda>_. Inr default_flags) () = Inl Uncaught_Exception
    \<and> configure toy_yaml (lost_system ''my.conf'') (\<lambda>_. Inr default_flags) ()
      = Inr (mk_status kFileIOError ''Not a yaml file'' ''Parse'', default_config)"
  using missing_config_file [of "lost_system ''my.yaml''" "''my.yaml''" toy_yaml "\<lambda>_. Inr default_flags" "()"]
    missing_config_file [of "lost_system ''my.conf''" "''my.conf''" toy_yaml "\<lambda>_. Inr default_flags" "()"]
  by (simp add: lost_system_def after_last_def)

end
