(* ===== verification/Client_Properties.thy ===== *)
theory Client_Properties
  imports Client_Start Client_Linear Server_Main Oram_Instance Parse_Properties
begin

text \<open>The properties of the client.\<close>

text \<open>The client program on any server where the identifier of its Path ORAM is free.\<close>

lemma client_program_answers:
  assumes "sodium_ok L" "lz4_ok L" "random_live L" "incompressible_run L M g (w_host w)"
    and "\<forall>i. wf_block (mem_blocks M i)" and "configure Y sys ParseCommandLine argv = Inr (s0, g)" "plain_path_config g"
    and "singleton (w_host w) = None" "w_srv w = Some s" "storages s (cfg_id g) = None"
  shows "\<exists>outs cl w'. client_main L M Y sys ParseCommandLine argv files w = Inr (outs, cl, w')
    \<and> connects_by g files (cl_stub cl) \<and> length outs = unat (cfg_block_num g)
    \<and> (\<forall>i < unat (cfg_block_num g). case outs ! i of (st, b) \<Rightarrow>
        if i < unat (cfg_block_num g) div 2 then st = OK \<and> BlockEqual (of_nat i) b \<and> hd (data b) = of_nat i
        else error_code st = kObjectNotFound)"
proof -
  let ?n = "unat (cfg_block_num g)" and ?k = "session_key L (w_host w)"
  from path_client_up [OF assms(1-5,7-10), of files] obtain c2 m stub w2 where
    c: "start_client L M files g w = Inr (\<lparr>cl_controller = Path_Controller c2, cl_config = g, cl_stub = stub\<rparr>, w2)"
      "path_serves L ?k (c2, w2) m" "lower_half ?n m" "connects_by g files stub" by blast
  from read_blocks_outcomes [OF c(2), of M "[0..<?n]" g stub] obtain outs cw' where
    o': "read_blocks L M [0..<?n] (\<lparr>cl_controller = Path_Controller c2, cl_config = g, cl_stub = stub\<rparr>, w2) = Inr (outs, cw')"
      "list_all2 (\<lambda>i (st, b). case m (of_nat i) of
        Some d \<Rightarrow> st = OK \<and> BlockEqual (of_nat i) b \<and> data b = d
      | None \<Rightarrow> error_code st = kObjectNotFound \<and> data b = data (mem_blocks M i)) [0..<?n] outs" by blast
  obtain cl w' where cw': "cw' = (cl, w')" by (cases cw')
  note o = o' [unfolded cw']
  have "?n < 2 ^ 32" using assms(7) by (simp add: plain_path_config_def)
  then have "case outs ! i of (st, b) \<Rightarrow>
      if i < ?n div 2 then st = OK \<and> BlockEqual (of_nat i) b \<and> hd (data b) = of_nat i
      else error_code st = kObjectNotFound" if i: "i < ?n" for i
    using list_all2_nthD [OF o(2), of i] i c(3) [unfolded lower_half_def, THEN spec, of i]
    by (auto split: option.splits prod.splits)
  moreover have "client_main L M Y sys ParseCommandLine argv files w = Inr (outs, cl, w')"
    using assms(6) c(1) o(1) by (simp add: client_main_def)
  moreover have "cl_stub cl = stub" using read_blocks_stub [OF o(1)] by simp
  ultimately show ?thesis using list_all2_lengthD [OF o(2)] c(4) by auto
qed

text \<open>
  C2. The two programs from end to end for a Path ORAM: started with the same configuration, which
  asks for a Path ORAM filled with sampled data (no data file, at most \<open>2 ^ 30\<close> blocks, fewer than 256
  per bucket), no key negotiation and no proxy, the server comes up, if gRPC can start it with the
  configured key and certificate, and listens on the address that the client has its channel to;
  the client trusts the certificate of the server's file. On this server the client program reaches
  its end. The read of every address below half of \<open>block_num\<close> (rounded down) returns OK and the
  block of that address, with the low byte of the address as first byte; every other read reports
  \<open>kObjectNotFound\<close>, as \<open>SampleRandomBucket\<close> makes only half of the blocks normal. The condition on
  the random numbers (\<open>incompressible_run\<close>) is about the one session key that the client draws, and
  the blocks and dummies that it makes.
\<close>

theorem programs_work_together:
  assumes "sodium_ok L" "lz4_ok L" "random_live L" "incompressible_run L M g hc"
    and "\<forall>i. wf_block (mem_blocks M i)" and "configure Y sys ParseCommandLine argv = Inr (s0, g)"
    and "plain_path_config g" "\<not> cfg_enable_proxy g" and "can_serve BuildAndStart files g"
    and "singleton hs = None" "singleton hc = None"
  shows "\<exists>address s outs cl w. server_main L memory BuildAndStart Y sys ParseCommandLine argv files hs = Inr (address, s)
    \<and> client_main L M Y sys ParseCommandLine argv files \<lparr>w_host = hc, w_srv = Some s, w_log = []\<rparr> = Inr (outs, cl, w)
    \<and> stub_address (cl_stub cl) = address \<and> pem_root_certs (cl_stub cl) = ReadKeyCrtFile files (cfg_crt_path g)
    \<and> length outs = unat (cfg_block_num g)
    \<and> (\<forall>i < unat (cfg_block_num g). case outs ! i of (st, b) \<Rightarrow>
        if i < unat (cfg_block_num g) div 2 then st = OK \<and> BlockEqual (of_nat i) b \<and> hd (data b) = of_nat i
        else error_code st = kObjectNotFound)"
proof -
  from server_main_starts [OF assms(1,6,10,9), of memory] obtain s where
    s: "server_main L memory BuildAndStart Y sys ParseCommandLine argv files hs = Inr (server_address_of g, s)"
      "storages s = Map.empty" by blast
  let ?w = "\<lparr>w_host = hc, w_srv = Some s, w_log = []\<rparr>"
  have w: "incompressible_run L M g (w_host ?w)" "singleton (w_host ?w) = None" "w_srv ?w = Some s"
    "storages s (cfg_id g) = None" using s(2) assms(4,11) by simp_all
  from client_program_answers [OF assms(1-3) w(1) assms(5-7) w(2-4), of files] obtain outs cl w' where
    "client_main L M Y sys ParseCommandLine argv files ?w = Inr (outs, cl, w')" "connects_by g files (cl_stub cl)"
    "length outs = unat (cfg_block_num g)" "\<forall>i < unat (cfg_block_num g). case outs ! i of (st, b) \<Rightarrow>
        if i < unat (cfg_block_num g) div 2 then st = OK \<and> BlockEqual (of_nat i) b \<and> hd (data b) = of_nat i
        else error_code st = kObjectNotFound" by blast
  with s(1) assms(8) show ?thesis by (auto simp: connects_by_def server_address_of_def)
qed

text \<open>A process at its start, without configuration file and with default flags.\<close>

definition toy_memory :: memory where
  "toy_memory = \<lparr>mem_cryptor = toy_cryptor, mem_partition = (0, 0, 0), mem_block = toy_block 0 0 0,
     mem_blocks = (\<lambda>_. toy_block 0 0 0)\<rparr>"

definition no_file :: "string system" where
  "no_file = \<lparr>ORAM_CONFIG_PATH = None, path_exists = (\<lambda>_. False), is_directory = (\<lambda>_. False), LoadFile = (\<lambda>_. None)\<rparr>"

text \<open>Under the compressor that shrinks zeros the sampled blocks can be stored, as their data are ones.\<close>

lemma zip_run: "incompressible_run zip_libs toy_memory g h"
  by (auto simp: incompressible_run_def sampled_block_def sampled_def dense_data_def intro!: zip_dense)

theorem programs_work_together_witness:
  "\<exists>s outs cl w. server_main zip_libs toy_cryptor (\<lambda>_ _ _. True) toy_yaml no_file (\<lambda>_. Inr default_flags) () (\<lambda>_. Some [1])
        \<lparr>draws = 0, singleton = None\<rparr> = Inr (''0.0.0.0:1234'', s)
    \<and> client_main zip_libs toy_memory toy_yaml no_file (\<lambda>_. Inr default_flags) () (\<lambda>_. Some [1])
        \<lparr>w_host = \<lparr>draws = 0, singleton = None\<rparr>, w_srv = Some s, w_log = []\<rparr> = Inr (outs, cl, w)
    \<and> stub_address (cl_stub cl) = ''0.0.0.0:1234'' \<and> pem_root_certs (cl_stub cl) = [1]
    \<and> length outs = 100000 \<and> fst (outs ! 49999) = OK \<and> error_code (fst (outs ! 50000)) = kObjectNotFound"
proof -
  let ?g = "snd (DoCommandLine default_flags default_config)" and ?files = "\<lambda>_. Some [1 :: u8]"
  let ?h = "\<lparr>draws = 0, singleton = None\<rparr> :: host" and ?start = "\<lambda>_ _ _. True"
  have g: "configure toy_yaml no_file (\<lambda>_. Inr default_flags) () = Inr (OK, ?g)"
    by (simp add: configure_def Parse_def no_file_def default_config_path_def YamlParser_def FromCommandLine_def
        DoCommandLine_def mk_status_def)
  have num: "unat (cfg_block_num ?g) = 100000" "plain_path_config ?g" "\<not> cfg_enable_proxy ?g"
    by (simp_all add: DoCommandLine_def default_flags_def plain_path_config_def StrToType_def kMaximumOramStorageNum_def)
  have m: "\<forall>i. wf_block (mem_blocks toy_memory i)" by (simp add: toy_memory_def)
  have f: "can_serve ?start ?files ?g" "ReadKeyCrtFile ?files (cfg_crt_path ?g) = [1]"
    by (simp_all add: ReadKeyCrtFile_def can_serve_def)
  have h: "singleton ?h = None" by simp
  from programs_work_together [OF _ _ _ zip_run m g num(2,3) f(1) h h, of toy_cryptor] obtain address s outs cl w where o:
    "server_main zip_libs toy_cryptor ?start toy_yaml no_file (\<lambda>_. Inr default_flags) () ?files ?h = Inr (address, s)"
    "client_main zip_libs toy_memory toy_yaml no_file (\<lambda>_. Inr default_flags) () ?files
        \<lparr>w_host = ?h, w_srv = Some s, w_log = []\<rparr> = Inr (outs, cl, w)"
    "stub_address (cl_stub cl) = address" "pem_root_certs (cl_stub cl) = [1]" "length outs = 100000"
    "\<forall>i < 100000. case outs ! i of (st, b) \<Rightarrow>
        if i < 50000 then st = OK \<and> BlockEqual (of_nat i) b \<and> hd (data b) = of_nat i
        else error_code st = kObjectNotFound" unfolding num(1) f(2) by auto
  have "to_string 1234 = ''1234''" by code_simp
  then have "address = ''0.0.0.0:1234''"
    using server_main_starts [OF _ g _ f(1), of zip_libs ?h toy_cryptor] o(1)
    by (auto simp: DoCommandLine_def default_flags_def server_address_of_def)
  moreover have "fst (outs ! 49999) = OK" "error_code (fst (outs ! 50000)) = kObjectNotFound"
    using o(6) [THEN spec, of 49999] o(6) [THEN spec, of 50000] by (auto split: prod.splits)
  ultimately show ?thesis using o(1-5) by blast
qed

text \<open>
  C20. The two programs from end to end for a linear ORAM with sampled data. Up to 7489 blocks, every
  read of the client program returns OK, also those of the upper half of the addresses, which
  \<open>SampleRandomBucket\<close> leaves out. These leave the client's block as the uninitialised memory had it;
  only the reads below half of \<open>block_num\<close> return the block of their address. With more blocks, as by
  default, the message with the whole storage exceeds what gRPC's server receives, and the client
  program ends with \<open>abort\<close> before its first read.
\<close>

theorem linear_program_hides_misses:
  assumes "sodium_ok L" "random_live L" "\<forall>i. wf_block (mem_blocks M i)"
    and "configure Y sys ParseCommandLine argv = Inr (s0, g)" "plain_linear_config g" "\<not> cfg_enable_proxy g"
    and "can_serve BuildAndStart files g" and "singleton hs = None" "singleton hc = None"
  shows "\<exists>address s. server_main L memory BuildAndStart Y sys ParseCommandLine argv files hs = Inr (address, s)
    \<and> (if unat (cfg_block_num g) \<le> 7489
       then \<exists>outs cl w. client_main L M Y sys ParseCommandLine argv files \<lparr>w_host = hc, w_srv = Some s, w_log = []\<rparr>
           = Inr (outs, cl, w)
         \<and> stub_address (cl_stub cl) = address \<and> length outs = unat (cfg_block_num g)
         \<and> (\<forall>i < unat (cfg_block_num g). case outs ! i of (st, b) \<Rightarrow> st = OK
             \<and> (if i < unat (cfg_block_num g) div 2 then BlockEqual (of_nat i) b \<and> hd (data b) = of_nat i
                else data b = data (mem_blocks M i)))
       else client_main L M Y sys ParseCommandLine argv files \<lparr>w_host = hc, w_srv = Some s, w_log = []\<rparr>
         = Inl Process_Abort)"
proof -
  let ?n = "unat (cfg_block_num g)"
  from server_main_starts [OF assms(1,4,8,7), of memory] obtain s where
    s: "server_main L memory BuildAndStart Y sys ParseCommandLine argv files hs = Inr (server_address_of g, s)"
      "storages s = Map.empty" by blast
  let ?w = "\<lparr>w_host = hc, w_srv = Some s, w_log = []\<rparr>"
  have w: "singleton (w_host ?w) = None" "w_srv ?w = Some s" "storages s (cfg_id g) = None" using s(2) assms(9) by simp_all
  show ?thesis
  proof (cases "?n \<le> 7489")
    case False
    from linear_client_too_large [OF assms(1-3,5) w False, of files] assms(4)
    have "client_main L M Y sys ParseCommandLine argv files ?w = Inl Process_Abort" by (simp add: client_main_def)
    with s(1) False show ?thesis by auto
  next
    case True
    from linear_client_up [OF assms(1-3,5) w True, of files] obtain c2 m stub w2 where
      c: "start_client L M files g ?w = Inr (\<lparr>cl_controller = Linear_Controller c2, cl_config = g, cl_stub = stub\<rparr>, w2)"
        "linear_holds L (c2, w2) m" "lower_half ?n m" "connects_by g files stub" by blast
    from linear_reads [OF c(2), of M "[0..<?n]" g stub] obtain outs cl w' where
      o: "read_blocks L M [0..<?n] (\<lparr>cl_controller = Linear_Controller c2, cl_config = g, cl_stub = stub\<rparr>, w2) = Inr (outs, cl, w')"
        "list_all2 (\<lambda>i (st, b). st = OK \<and> (case m (of_nat i) of
          Some d \<Rightarrow> BlockEqual (of_nat i) b \<and> data b = d | None \<Rightarrow> data b = data (mem_blocks M i))) [0..<?n] outs" by auto
    have "?n < 2 ^ 32" using assms(5) by (simp add: plain_linear_config_def)
    then have "case outs ! i of (st, b) \<Rightarrow> st = OK
        \<and> (if i < ?n div 2 then BlockEqual (of_nat i) b \<and> hd (data b) = of_nat i else data b = data (mem_blocks M i))"
      if i: "i < ?n" for i
      using list_all2_nthD [OF o(2), of i] i c(3) [unfolded lower_half_def, THEN spec, of i]
      by (auto split: option.splits prod.splits)
    moreover have "client_main L M Y sys ParseCommandLine argv files ?w = Inr (outs, cl, w')"
      using assms(4) c(1) o(1) by (simp add: client_main_def)
    moreover have "stub_address (cl_stub cl) = server_address_of g"
      using read_blocks_stub [OF o(1)] c(4) assms(6) by (simp add: connects_by_def server_address_of_def)
    ultimately show ?thesis unfolding if_P [OF True] using s(1) list_all2_lengthD [OF o(2)] by auto
  qed
qed

definition linear_flags :: "u32 \<Rightarrow> flags" where
  "linear_flags n = default_flags\<lparr>FLAGS_oram_type := ''LinearOram'', FLAGS_block_num := n\<rparr>"

lemma linear_flags_config:
  "configure toy_yaml no_file (\<lambda>_. Inr (linear_flags n)) () = Inr (OK, snd (DoCommandLine (linear_flags n) default_config))"
  by (simp add: configure_def Parse_def no_file_def default_config_path_def YamlParser_def FromCommandLine_def
      DoCommandLine_def mk_status_def)

text \<open>1000 blocks, and the default number.\<close>

theorem linear_program_hides_misses_witness:
  "(\<exists>a s outs cl w. server_main toy_libs toy_cryptor (\<lambda>_ _ _. True) toy_yaml no_file (\<lambda>_. Inr (linear_flags 1000)) ()
        (\<lambda>_. Some [1]) \<lparr>draws = 0, singleton = None\<rparr> = Inr (a, s)
    \<and> client_main toy_libs toy_memory toy_yaml no_file (\<lambda>_. Inr (linear_flags 1000)) ()
        (\<lambda>_. Some [1]) \<lparr>w_host = \<lparr>draws = 0, singleton = None\<rparr>, w_srv = Some s, w_log = []\<rparr> = Inr (outs, cl, w)
    \<and> length outs = 1000 \<and> fst (outs ! 499) = OK \<and> fst (outs ! 500) = OK \<and> data (snd (outs ! 500)) = replicate 512 0)
   \<and> (\<exists>a s. server_main toy_libs toy_cryptor (\<lambda>_ _ _. True) toy_yaml no_file (\<lambda>_. Inr (linear_flags 100000)) ()
        (\<lambda>_. Some [1]) \<lparr>draws = 0, singleton = None\<rparr> = Inr (a, s)
    \<and> client_main toy_libs toy_memory toy_yaml no_file (\<lambda>_. Inr (linear_flags 100000)) ()
        (\<lambda>_. Some [1]) \<lparr>w_host = \<lparr>draws = 0, singleton = None\<rparr>, w_srv = Some s, w_log = []\<rparr> = Inl Process_Abort)"
proof -
  let ?g = "\<lambda>n. snd (DoCommandLine (linear_flags n) default_config)" and ?files = "\<lambda>_. Some [1 :: u8]"
  let ?h = "\<lparr>draws = 0, singleton = None\<rparr> :: host" and ?start = "\<lambda>_ _ _. True"
  have num: "unat (cfg_block_num (?g 1000)) = 1000" "unat (cfg_block_num (?g 100000)) = 100000"
    "plain_linear_config (?g 1000)" "plain_linear_config (?g 100000)" "\<not> cfg_enable_proxy (?g n)" for n
    by (simp_all add: linear_flags_def DoCommandLine_def default_flags_def plain_linear_config_def StrToType_def kMaximumOramStorageNum_def)
  have m: "\<forall>i. wf_block (mem_blocks toy_memory i)" by (simp add: toy_memory_def)
  have junk: "data (mem_blocks toy_memory 500) = replicate 512 0" by (simp add: toy_memory_def toy_block_def)
  have f: "can_serve ?start ?files (?g n)" for n by (simp add: ReadKeyCrtFile_def can_serve_def)
  have h: "singleton ?h = None" by simp
  from linear_program_hides_misses [OF _ _ m linear_flags_config num(3,5) f h h, of toy_libs toy_cryptor] obtain a s outs cl w where
    o: "server_main toy_libs toy_cryptor ?start toy_yaml no_file (\<lambda>_. Inr (linear_flags 1000)) () ?files ?h = Inr (a, s)"
    "client_main toy_libs toy_memory toy_yaml no_file (\<lambda>_. Inr (linear_flags 1000)) () ?files
        \<lparr>w_host = ?h, w_srv = Some s, w_log = []\<rparr> = Inr (outs, cl, w)"
    "length outs = 1000" "\<forall>i < 1000. case outs ! i of (st, b) \<Rightarrow> st = OK
        \<and> (if i < 500 then BlockEqual (of_nat i) b \<and> hd (data b) = of_nat i else data b = data (mem_blocks toy_memory i))"
    unfolding num(1) by auto
  have "fst (outs ! 499) = OK" "fst (outs ! 500) = OK" "data (snd (outs ! 500)) = replicate 512 0"
    using o(4) [THEN spec, of 499] o(4) [THEN spec, of 500] junk by (auto split: prod.splits)
  with o(1-3) have "\<exists>a s outs cl w. server_main toy_libs toy_cryptor ?start toy_yaml no_file (\<lambda>_. Inr (linear_flags 1000)) ()
        ?files ?h = Inr (a, s)
    \<and> client_main toy_libs toy_memory toy_yaml no_file (\<lambda>_. Inr (linear_flags 1000)) ()
        ?files \<lparr>w_host = ?h, w_srv = Some s, w_log = []\<rparr> = Inr (outs, cl, w)
    \<and> length outs = 1000 \<and> fst (outs ! 499) = OK \<and> fst (outs ! 500) = OK \<and> data (snd (outs ! 500)) = replicate 512 0"
    by blast
  moreover have "\<exists>a s. server_main toy_libs toy_cryptor ?start toy_yaml no_file (\<lambda>_. Inr (linear_flags 100000)) () ?files ?h = Inr (a, s)
    \<and> client_main toy_libs toy_memory toy_yaml no_file (\<lambda>_. Inr (linear_flags 100000)) ()
        ?files \<lparr>w_host = ?h, w_srv = Some s, w_log = []\<rparr> = Inl Process_Abort"
    using linear_program_hides_misses [OF _ _ m linear_flags_config num(4,5) f h h, of toy_libs toy_cryptor]
    unfolding num(2) by simp
  ultimately show ?thesis ..
qed

text \<open>
  C19. A client program that is configured for a partition ORAM never gets to its reads: nothing calls
  \<open>Run\<close>, so the ORAM has no sub-ORAMs, and filling it with sampled data dereferences the front of an
  empty vector, whatever the server does.
\<close>

theorem partition_client_fails:
  assumes "sodium_ok L" "random_live L" "\<forall>i. wf_block (mem_blocks M i)"
    and "configure Y sys ParseCommandLine argv = Inr (s0, g)" "cfg_oram_type g = kPartitionOram"
    and "cfg_disable_debugging g" "cfg_filepath g = ''''" "0 < unat (cfg_block_num g)" "unat (cfg_block_num g) < 2 ^ 32"
    and "singleton (w_host w) = None"
  shows "client_main L M Y sys ParseCommandLine argv files w = Inl Undefined_Behaviour"
proof -
  from first_instance [OF assms(1,10)] obtain cr h0 where
    inst: "GetInstance L (mem_cryptor M) (w_host w) = Inr h0" "singleton h0 = Some cr" "is_initialized cr" by blast
  from partition_instance [OF assms(5) inst(2), of L M] obtain p h where p: "make_controller L M False g h0 = Inr (Partition_Controller p, h)" "pa_slots p = []" "pa_controllers p = []"
      "oc_type p = kPartitionOram" "singleton h = Some cr" by blast
  obtain cl where cl: "OramClient L M files False g w = Inr (cl, w\<lparr>w_host := h\<rparr>)"
    "cl_controller cl = Partition_Controller p" "cl_config cl = g"
    using inst(1) p(1,2) by (auto simp: OramClient_def Let_def Partition_InitOram_def)
  from client_ready [of cl "w\<lparr>w_host := h\<rparr>" cr L M] assms(6) cl(3) p(5) inst(3) obtain h2 where
    r: "Client_Ready L M (cl, w\<lparr>w_host := h\<rparr>) = Inr (OK, cl, w\<lparr>w_host := h2\<rparr>)" by auto
  from SampleRandomBucket_view [OF assms(1-3) assms(8,9), of "unat (cfg_block_num g)" h2] obtain ds h3 where
    "SampleRandomBucket L (mem_blocks M) (unat (cfg_block_num g)) (unat (cfg_block_num g)) 0 h2 = Inr (ds, h3)" by auto
  then have "Client_FillWithData L M files (cl, w\<lparr>w_host := h2\<rparr>) = Inl Undefined_Behaviour"
    using assms(7) cl(2,3) p(3,4) by (simp add: Client_FillWithData_def Partition_FillWithData_def Let_def)
  then show ?thesis using assms(4) cl(1) r by (simp add: client_main_def start_client_def)
qed

theorem partition_client_fails_witness:
  "client_main toy_libs toy_memory toy_yaml no_file (\<lambda>_. Inr (default_flags\<lparr>FLAGS_oram_type := ''PartitionOram''\<rparr>)) ()
     (\<lambda>_. None) \<lparr>w_host = \<lparr>draws = 0, singleton = None\<rparr>, w_srv = None, w_log = []\<rparr> = Inl Undefined_Behaviour"
proof -
  let ?f = "default_flags\<lparr>FLAGS_oram_type := ''PartitionOram''\<rparr>"
  have "configure toy_yaml no_file (\<lambda>_. Inr ?f) () = Inr (OK, snd (DoCommandLine ?f default_config))"
    by (simp add: configure_def Parse_def no_file_def default_config_path_def YamlParser_def FromCommandLine_def
        DoCommandLine_def mk_status_def)
  from partition_client_fails [OF _ _ _ this, of toy_libs toy_memory] show ?thesis
    by (simp add: DoCommandLine_def default_flags_def StrToType_def toy_memory_def)
qed

end
