(* ===== verification/Shared_Server.thy ===== *)
theory Shared_Server
  imports Linear_Frame
begin

text \<open>
  Several clients on one server. The clients are processes of their own, with their own generators
  and keys, and take turns in any order; the server's table of storages is what they share. The
  locale \<open>shared_ram\<close> says what a controller promises beyond \<open>block_ram\<close> to be used this way: it
  changes its own storage only, and depends on nothing else of the server. Then each client sees a
  memory of its own.
\<close>

section \<open>Turns\<close>

record 'c shared =
  sh_clients :: "('c \<times> host) list"
  sh_server :: "server option"
  sh_log :: "server_call list"

text \<open>The world as client \<open>i\<close> sees it, and what its turn leaves.\<close>

definition world_of :: "'c shared \<Rightarrow> nat \<Rightarrow> world" where
  "world_of S i = \<lparr>w_host = snd (sh_clients S ! i), w_srv = sh_server S, w_log = sh_log S\<rparr>"

definition end_turn :: "nat \<Rightarrow> 'c \<times> world \<Rightarrow> 'c shared \<Rightarrow> 'c shared" where
  "end_turn i cw S = \<lparr>sh_clients = (sh_clients S)[i := (fst cw, w_host (snd cw))],
     sh_server = w_srv (snd cw), sh_log = w_log (snd cw)\<rparr>"

text \<open>Requests with the number of the client that makes them; the outcomes are numbered as well.\<close>

fun run_shared :: "(operation \<Rightarrow> u32 \<Rightarrow> oram_block \<Rightarrow> 'c \<times> world \<Rightarrow> ((oram_status \<times> oram_block) \<times> 'c \<times> world) exec)
    \<Rightarrow> oram_block \<Rightarrow> (nat \<times> request) list \<Rightarrow> 'c shared \<Rightarrow> ((nat \<times> oram_status \<times> bytes) list \<times> 'c shared) exec" where
  "run_shared access buf [] S = Inr ([], S)"
| "run_shared access buf ((i, r) # rs) S =
     andThen (run_requests access buf [r] (fst (sh_clients S ! i), world_of S i)) (\<lambda>(os, cw).
     andThen (run_shared access buf rs (end_turn i cw S)) (\<lambda>(outs, S'). Inr (map (Pair i) os @ outs, S')))"

lemma world_parts [simp]: "\<lparr>w_host = w_host w, w_srv = w_srv w, w_log = w_log w\<rparr> = w"
  by (cases w) simp

text \<open>What one client contributes to a sequence.\<close>

definition turns_of :: "nat \<Rightarrow> (nat \<times> 'a) list \<Rightarrow> 'a list" where
  "turns_of i xs = map snd (filter (\<lambda>(j, _). j = i) xs)"

lemma turns_of_simps [simp]:
  "turns_of i [] = []" "turns_of i ((j, x) # xs) = (if j = i then x # turns_of i xs else turns_of i xs)"
  "turns_of i (xs @ ys) = turns_of i xs @ turns_of i ys"
  "turns_of i (map (Pair j) zs) = (if j = i then zs else [])"
  by (auto simp: turns_of_def o_def)

text \<open>The server is there in both worlds, and has the same storage for one identifier.\<close>

definition untouched_storage :: "u32 \<Rightarrow> world \<Rightarrow> world \<Rightarrow> bool" where
  "untouched_storage i w w' \<longleftrightarrow> w_host w' = w_host w
     \<and> (\<exists>s s'. w_srv w = Some s \<and> w_srv w' = Some s' \<and> storages s' i = storages s i)"

lemma others_untouched:
  assumes "others i w w'" "w_srv w' \<noteq> None" "j \<noteq> i" "w_host v = h" "w_srv v = w_srv w"
  shows "untouched_storage j v \<lparr>w_host = h, w_srv = w_srv w', w_log = l\<rparr>"
  using assms by (auto simp: untouched_storage_def others_def)

section \<open>The contract\<close>

locale shared_ram = block_ram access holds writable
  for access :: "operation \<Rightarrow> u32 \<Rightarrow> oram_block \<Rightarrow> 'c \<times> world \<Rightarrow> ((oram_status \<times> oram_block) \<times> 'c \<times> world) exec"
    and holds :: "'c \<times> world \<Rightarrow> (u32 \<rightharpoonup> bytes) \<Rightarrow> bool"
    and writable :: "oram_block \<Rightarrow> bool" +
  fixes ident :: "'c \<Rightarrow> u32"
  assumes own_storage: "holds (c, w) m \<Longrightarrow> access op a x (c, w) = Inr (r, c', w')
      \<Longrightarrow> ident c' = ident c \<and> others (ident c) w w'"
    and alive: "holds (c, w) m \<Longrightarrow> w_srv w \<noteq> None"
    and independent: "holds (c, w) m \<Longrightarrow> untouched_storage (ident c) w w' \<Longrightarrow> holds (c, w') m"

text \<open>Every client stands for its memory, and no two have the same identifier.\<close>

definition all_hold :: "('c \<times> world \<Rightarrow> (u32 \<rightharpoonup> bytes) \<Rightarrow> bool) \<Rightarrow> ('c \<Rightarrow> u32) \<Rightarrow> 'c shared \<Rightarrow> (u32 \<rightharpoonup> bytes) list \<Rightarrow> bool" where
  "all_hold holds ident S ms \<longleftrightarrow> length ms = length (sh_clients S)
     \<and> distinct (map (\<lambda>(c, _). ident c) (sh_clients S))
     \<and> (\<forall>i < length ms. holds (fst (sh_clients S ! i), world_of S i) (ms ! i))"

context shared_ram
begin

lemma one_turn:
  assumes S: "all_hold holds ident S ms" and i: "i < length ms" and r: "request_ok writable (ms ! i) r"
  shows "\<exists>cw. run_requests access buf [r] (fst (sh_clients S ! i), world_of S i) = Inr (fst (memory_run [r] (ms ! i)), cw)
    \<and> all_hold holds ident (end_turn i cw S) (ms[i := snd (memory_run [r] (ms ! i))])"
proof -
  let ?c = "fst (sh_clients S ! i)" and ?m = "snd (memory_run [r] (ms ! i))"
  from S i have h: "holds (?c, world_of S i) (ms ! i)" and len: "length ms = length (sh_clients S)"
    and dist: "distinct (map (\<lambda>(c, _). ident c) (sh_clients S))" by (auto simp: all_hold_def)
  from run_requests_memory [OF h, of "[r]" buf] r obtain c' w' where
    run: "run_requests access buf [r] (?c, world_of S i) = Inr (fst (memory_run [r] (ms ! i)), c', w')"
      "holds (c', w') ?m" by auto
  have own: "ident c' = ident ?c" "others (ident ?c) (world_of S i) w'"
    using run(1) own_storage [OF h] by (cases r; fastforce simp: andThen_eq_Inr)+
  have "holds (fst (sh_clients (end_turn i (c', w') S) ! j), world_of (end_turn i (c', w') S) j) (ms[i := ?m] ! j)"
    if j: "j < length ms" for j
  proof (cases "j = i")
    case True
    with run(2) j len show ?thesis by (simp add: end_turn_def world_of_def)
  next
    case False
    then have "ident (fst (sh_clients S ! j)) \<noteq> ident ?c"
      using dist i j len by (auto simp: distinct_conv_nth case_prod_beta)
    with others_untouched [OF own(2) alive [OF run(2)], of "ident (fst (sh_clients S ! j))" "world_of S j"]
    have "untouched_storage (ident (fst (sh_clients S ! j))) (world_of S j) (world_of (end_turn i (c', w') S) j)"
      using False by (simp add: world_of_def end_turn_def)
    moreover have "holds (fst (sh_clients S ! j), world_of S j) (ms ! j)" using S j by (simp add: all_hold_def)
    ultimately show ?thesis using independent False by (simp add: end_turn_def)
  qed
  moreover have "map (\<lambda>(c, _). ident c) (sh_clients (end_turn i (c', w') S)) = map (\<lambda>(c, _). ident c) (sh_clients S)"
    using own(1) i len by (intro nth_equalityI) (auto simp: end_turn_def nth_list_update case_prod_beta)
  ultimately have "all_hold holds ident (end_turn i (c', w') S) (ms[i := ?m])"
    using len dist unfolding all_hold_def by (simp add: end_turn_def)
  with run(1) show ?thesis by blast
qed

text \<open>However the turns are interleaved, each client gets what it would get from its memory alone.\<close>

lemma run_shared_memories:
  assumes "all_hold holds ident S ms" "\<forall>(i, r) \<in> set rs. i < length ms \<and> request_ok writable (ms ! i) r"
  shows "\<exists>outs S'. run_shared access buf rs S = Inr (outs, S')
    \<and> (\<forall>i < length ms. turns_of i outs = fst (memory_run (turns_of i rs) (ms ! i)))"
  using assms
proof (induction rs arbitrary: S ms)
  case (Cons q rs)
  obtain i r where q: "q = (i, r)" by (cases q)
  with Cons.prems have i: "i < length ms" "request_ok writable (ms ! i) r" by simp_all
  let ?m = "snd (memory_run [r] (ms ! i))"
  from one_turn [OF Cons.prems(1) i, of buf] obtain cw where
    t: "run_requests access buf [r] (fst (sh_clients S ! i), world_of S i) = Inr (fst (memory_run [r] (ms ! i)), cw)"
      "all_hold holds ident (end_turn i cw S) (ms[i := ?m])" by blast
  have "\<forall>(j, r') \<in> set rs. j < length (ms[i := ?m]) \<and> request_ok writable (ms[i := ?m] ! j) r'"
    using Cons.prems(2) request_ok_later [OF i(2)] i(1) by (fastforce simp: nth_list_update)
  from Cons.IH [OF t(2) this] obtain outs S' where
    u: "run_shared access buf rs (end_turn i cw S) = Inr (outs, S')"
      "\<forall>j < length ms. turns_of j outs = fst (memory_run (turns_of j rs) (ms[i := ?m] ! j))" by auto
  have "turns_of j (map (Pair i) (fst (memory_run [r] (ms ! i))) @ outs) = fst (memory_run (turns_of j (q # rs)) (ms ! j))"
    if "j < length ms" for j
    using u(2) that memory_run_Cons [of r "turns_of j rs" "ms ! j"] by (simp add: q del: memory_run.simps)
  with t(1) u(1) show ?case by (simp add: q)
qed simp

end
section \<open>The linear ORAM\<close>

lemma flat_image_untouched: "flat_image c w d \<Longrightarrow> untouched_storage (oc_id c) w w' \<Longrightarrow> flat_image c w' d"
  by (auto simp: flat_image_def untouched_storage_def)

interpretation linear_shared: shared_ram "Linear_Access L" "linear_holds L" wf_block oc_id for L
proof unfold_locales
  fix c w m op a x r c' w'
  assume "linear_holds L (c, w) m" and "Linear_Access L op a x (c, w) = Inr (r, c', w')"
  then show "oc_id c' = oc_id c \<and> others (oc_id c) w w'" using Linear_Access_others by blast
next
  fix c w m
  assume "linear_holds L (c, w) m"
  then show "w_srv w \<noteq> None" by (auto simp: linear_holds_def linear_view_def flat_image_def)
next
  fix c w m w'
  assume "linear_holds L (c, w) m" and u: "untouched_storage (oc_id c) w w'"
  moreover have "w_host w' = w_host w" using u by (simp add: untouched_storage_def)
  ultimately show "linear_holds L (c, w') m"
    using flat_image_untouched [OF _ u] unfolding linear_holds_def linear_view_def by (simp, blast)
qed

section \<open>The Path ORAM\<close>

lemma path_server_untouched:
  "path_server L k c w T \<Longrightarrow> untouched_storage (oc_id c) w w' \<Longrightarrow> path_server L k c w' T"
  by (auto simp: path_server_def untouched_storage_def)

interpretation path_shared: shared_ram "Path_Access L" "path_serves L k" "storable L k" oc_id for L k
proof unfold_locales
  fix c w m op a x r c' w'
  assume "Path_Access L op a x (c, w) = Inr (r, c', w')"
  then have "alone (c, w) (c', w')"
    using Path_InternalAccess_alone [of L op a x False "(c, w)"] by (auto simp: Path_Access_def Access_def split: if_splits)
  then show "oc_id c' = oc_id c \<and> others (oc_id c) w w'" by (simp add: alone_def)
next
  fix c w m
  assume "path_serves L k (c, w) m"
  then show "w_srv w \<noteq> None" using path_holds_alive by (auto simp: path_serves_def)
next
  fix c w m w'
  assume "path_serves L k (c, w) m" and u: "untouched_storage (oc_id c) w w'"
  moreover have "w_host w' = w_host w" using u by (simp add: untouched_storage_def)
  ultimately show "path_serves L k (c, w') m"
    using path_server_untouched [OF _ u] unfolding path_serves_def path_holds_def path_inv_def by (simp, blast)
qed

end
