(* ===== verification/Client_Sharing.thy ===== *)
theory Client_Sharing
  imports Shared_Server Client_Linear
begin

text \<open>
  Client programs on one server: a client of a linear or a Path ORAM is a \<open>shared_ram\<close>, whose
  blocks have to be storable under the session keys \<open>K\<close> of the processes
  (\<open>clients_shared\<close>), and clients of different identifiers that are started one after the other all
  come up (\<open>start_clients_hold\<close>).
\<close>

section \<open>A client and its controller\<close>

fun controller_id :: "controller \<Rightarrow> u32" where
  "controller_id (Linear_Controller c) = oc_id c"
| "controller_id (Path_Controller c) = oc_id c"
| "controller_id (Partition_Controller c) = oc_id c"
| "controller_id (Square_Controller c) = oc_id c"

abbreviation client_id :: "oram_client \<Rightarrow> u32" where
  "client_id cl \<equiv> controller_id (cl_controller cl)"

fun controller_holds :: "libs \<Rightarrow> bytes set \<Rightarrow> controller \<times> world \<Rightarrow> (u32 \<rightharpoonup> bytes) \<Rightarrow> bool" where
  "controller_holds L K (Linear_Controller c, w) m \<longleftrightarrow> linear_holds L (c, w) m"
| "controller_holds L K (Path_Controller c, w) m \<longleftrightarrow> (\<exists>k \<in> K. path_serves L k (c, w) m)"
| "controller_holds L K (_, w) m \<longleftrightarrow> False"

definition client_holds :: "libs \<Rightarrow> bytes set \<Rightarrow> oram_client \<times> world \<Rightarrow> (u32 \<rightharpoonup> bytes) \<Rightarrow> bool" where
  "client_holds L K cw m \<longleftrightarrow> controller_holds L K (cl_controller (fst cw), snd cw) m"

definition Client_Access :: "libs \<Rightarrow> memory \<Rightarrow> operation \<Rightarrow> u32 \<Rightarrow> oram_block \<Rightarrow> oram_client \<times> world
    \<Rightarrow> ((oram_status \<times> oram_block) \<times> oram_client \<times> world) exec" where
  "Client_Access L M op = (if op = Operation_kRead then Client_Read L M else Client_Write L M)"

text \<open>What can be stored under each of the keys.\<close>

definition storable_under :: "libs \<Rightarrow> bytes set \<Rightarrow> oram_block \<Rightarrow> bool" where
  "storable_under L K b \<longleftrightarrow> wf_block b \<and> (\<forall>k \<in> K. storable L k b)"

lemma client_holds_cases:
  assumes "client_holds L K (cl, w) m"
  obtains (linear) c where "cl_controller cl = Linear_Controller c" "linear_holds L (c, w) m"
  | (path) c k where "cl_controller cl = Path_Controller c" "k \<in> K" "path_serves L k (c, w) m"
  using assms by (cases "cl_controller cl") (auto simp: client_holds_def)

lemma client_read_hit:
  assumes "client_holds L K (cl, w) m" "m a = Some d"
  shows "\<exists>b cw. Client_Access L M Operation_kRead a x (cl, w) = Inr ((OK, b), cw) \<and> data b = d
    \<and> block_id (header b) = a \<and> btype (header b) = BlockType_kNormal \<and> client_holds L K cw m"
  using assms(1)
proof (cases rule: client_holds_cases)
  case (linear c)
  from linear.read_hit [OF linear(2) assms(2), of x] linear(1) show ?thesis
    by (fastforce simp: Client_Access_def Client_Read_def client_holds_def)
next
  case (path c k)
  from path.read_hit [OF path(3) assms(2), of x] path(1,2) show ?thesis
    by (fastforce simp: Client_Access_def Client_Read_def client_holds_def)
qed

lemma client_write_hit:
  assumes "client_holds L K (cl, w) m" "m a = Some d" "storable_under L K x"
  shows "\<exists>b cw. Client_Access L M Operation_kWrite a x (cl, w) = Inr ((OK, b), cw) \<and> client_holds L K cw (m(a \<mapsto> data x))"
  using assms(1)
proof (cases rule: client_holds_cases)
  case (linear c)
  with linear.write_hit [OF linear(2) assms(2), of x] assms(3) show ?thesis
    by (fastforce simp: Client_Access_def Client_Write_def client_holds_def storable_under_def)
next
  case (path c k)
  with path.write_hit [OF path(3) assms(2), of x] assms(3) show ?thesis
    by (fastforce simp: Client_Access_def Client_Write_def client_holds_def storable_under_def)
qed

lemma client_own_storage:
  assumes "client_holds L K (cl, w) m" "Client_Access L M op a x (cl, w) = Inr (r, cl', w')"
  shows "client_id cl' = client_id cl \<and> others (client_id cl) w w'"
  using assms(1)
proof (cases rule: client_holds_cases)
  case (linear c)
  with assms(2) linear_shared.own_storage [OF linear(2)] show ?thesis
    by (fastforce simp: Client_Access_def Client_Read_def Client_Write_def andThen_eq_Inr split: if_splits)
next
  case (path c k)
  with assms(2) path_shared.own_storage [OF path(3)] show ?thesis
    by (fastforce simp: Client_Access_def Client_Read_def Client_Write_def andThen_eq_Inr split: if_splits)
qed

interpretation clients_shared: shared_ram "Client_Access L M" "client_holds L K" "storable_under L K" client_id for L M K
proof unfold_locales
  fix cw m a d x
  assume "client_holds L K cw m" "m a = Some d"
  then show "\<exists>b cw'. Client_Access L M Operation_kRead a x cw = Inr ((OK, b), cw') \<and> data b = d
      \<and> block_id (header b) = a \<and> btype (header b) = BlockType_kNormal \<and> client_holds L K cw' m"
    using client_read_hit by (cases cw) blast
next
  fix cw m a d x
  assume "client_holds L K cw m" "m a = Some d" "storable_under L K x"
  then show "\<exists>b cw'. Client_Access L M Operation_kWrite a x cw = Inr ((OK, b), cw') \<and> client_holds L K cw' (m(a \<mapsto> data x))"
    using client_write_hit by (cases cw) blast
next
  fix cl w m op a x r cl' w'
  assume "client_holds L K (cl, w) m" "Client_Access L M op a x (cl, w) = Inr (r, cl', w')"
  then show "client_id cl' = client_id cl \<and> others (client_id cl) w w'" using client_own_storage by blast
next
  fix cl w m
  assume "client_holds L K (cl, w) m"
  then show "w_srv w \<noteq> None"
    by (cases rule: client_holds_cases) (auto dest: linear_shared.alive path_shared.alive)
next
  fix cl w m w'
  assume "client_holds L K (cl, w) m" "untouched_storage (client_id cl) w w'"
  then show "client_holds L K (cl, w') m"
    by (cases rule: client_holds_cases)
      (auto simp: client_holds_def dest: linear_shared.independent path_shared.independent)
qed

section \<open>Starting the clients\<close>

text \<open>A client process before its start: the memory, the files and the configuration it finds, its generator.\<close>

record process =
  pr_memory :: memory
  pr_files :: "string \<rightharpoonup> bytes"
  pr_config :: oram_config
  pr_host :: host

abbreviation process_id :: "process \<Rightarrow> u32" where
  "process_id p \<equiv> cfg_id (pr_config p)"

text \<open>
  A process that comes up where its identifier is free: of a linear ORAM that fits into one message,
  or of a Path ORAM whose sampled blocks can be stored.
\<close>

definition can_start :: "libs \<Rightarrow> process \<Rightarrow> bool" where
  "can_start L p \<longleftrightarrow> (\<forall>i. wf_block (mem_blocks (pr_memory p) i)) \<and> singleton (pr_host p) = None
     \<and> (plain_linear_config (pr_config p) \<and> unat (cfg_block_num (pr_config p)) \<le> 7489
        \<or> plain_path_config (pr_config p) \<and> incompressible_run L (pr_memory p) (pr_config p) (pr_host p))"

abbreviation process_key :: "libs \<Rightarrow> process \<Rightarrow> bytes" where
  "process_key L p \<equiv> session_key L (pr_host p)"

text \<open>The processes are started one after the other.\<close>

fun start_clients :: "libs \<Rightarrow> process list \<Rightarrow> server option \<Rightarrow> server_call list \<Rightarrow> oram_client shared exec" where
  "start_clients L [] srv log = Inr \<lparr>sh_clients = [], sh_server = srv, sh_log = log\<rparr>"
| "start_clients L (p # ps) srv log =
     andThen (start_client L (pr_memory p) (pr_files p) (pr_config p)
       \<lparr>w_host = pr_host p, w_srv = srv, w_log = log\<rparr>) (\<lambda>(cl, w).
     andThen (start_clients L ps (w_srv w) (w_log w)) (\<lambda>S. Inr (S\<lparr>sh_clients := (cl, w_host w) # sh_clients S\<rparr>)))"

lemma start_client_holds:
  assumes L: "sodium_ok L" "lz4_ok L" "random_live L" and p: "can_start L p" "process_key L p \<in> K" and s: "storages s (process_id p) = None"
  shows "\<exists>cl w m. start_client L (pr_memory p) (pr_files p) (pr_config p)
        \<lparr>w_host = pr_host p, w_srv = Some s, w_log = log\<rparr> = Inr (cl, w)
    \<and> client_holds L K (cl, w) m \<and> lower_half (unat (cfg_block_num (pr_config p))) m \<and> client_id cl = process_id p
    \<and> (\<exists>s'. w_srv w = Some s' \<and> (\<forall>j. j \<noteq> process_id p \<longrightarrow> storages s' j = storages s j))"
proof -
  let ?w = "\<lparr>w_host = pr_host p, w_srv = Some s, w_log = log\<rparr>"
  have *: "\<exists>s'. w_srv w = Some s' \<and> (\<forall>j. j \<noteq> process_id p \<longrightarrow> storages s' j = storages s j)"
    if "client_holds L K (cl, w) m" "others (process_id p) ?w w" for cl w m
    using clients_shared.alive [OF that(1)] that(2) by (auto simp: others_def)
  from p have wf: "\<forall>i. wf_block (mem_blocks (pr_memory p) i)" and w: "singleton (w_host ?w) = None"
    "w_srv ?w = Some s" "storages s (process_id p) = None"
    and "plain_linear_config (pr_config p) \<and> unat (cfg_block_num (pr_config p)) \<le> 7489
      \<or> plain_path_config (pr_config p) \<and> incompressible_run L (pr_memory p) (pr_config p) (w_host ?w)"
    using s by (auto simp: can_start_def)
  from this(5) show ?thesis
  proof (elim disjE conjE)
    assume g: "plain_linear_config (pr_config p)" "unat (cfg_block_num (pr_config p)) \<le> 7489"
    from linear_client_up [OF L(1,3) wf g(1) w g(2), of "pr_files p"] obtain c m stub w2 where
      "start_client L (pr_memory p) (pr_files p) (pr_config p) ?w
          = Inr (\<lparr>cl_controller = Linear_Controller c, cl_config = pr_config p, cl_stub = stub\<rparr>, w2)"
        "linear_holds L (c, w2) m" "lower_half (unat (cfg_block_num (pr_config p))) m" "oc_id c = process_id p"
        "others (process_id p) ?w w2" by blast
    with * [of "\<lparr>cl_controller = Linear_Controller c, cl_config = pr_config p, cl_stub = stub\<rparr>" w2 m]
    show ?thesis by (auto simp: client_holds_def)
  next
    assume g: "plain_path_config (pr_config p)" "incompressible_run L (pr_memory p) (pr_config p) (w_host ?w)"
    from path_client_up [OF L g(2) wf g(1) w, of "pr_files p"] obtain c m stub w2 where
      "start_client L (pr_memory p) (pr_files p) (pr_config p) ?w
          = Inr (\<lparr>cl_controller = Path_Controller c, cl_config = pr_config p, cl_stub = stub\<rparr>, w2)"
        "path_serves L (process_key L p) (c, w2) m" "lower_half (unat (cfg_block_num (pr_config p))) m"
        "oc_id c = process_id p" "others (process_id p) ?w w2" by auto
    with p(2) * [of "\<lparr>cl_controller = Path_Controller c, cl_config = pr_config p, cl_stub = stub\<rparr>" w2 m]
    show ?thesis by (auto simp: client_holds_def)
  qed
qed

text \<open>
  Each client is in place when the last one has started: the later ones have left its storage alone.
\<close>

lemma start_clients_hold:
  assumes L: "sodium_ok L" "lz4_ok L" "random_live L"
  shows "list_all (can_start L) ps \<Longrightarrow> process_key L ` set ps \<subseteq> K \<Longrightarrow> distinct (map process_id ps) \<Longrightarrow> \<forall>p \<in> set ps. storages s (process_id p) = None \<Longrightarrow>
    \<exists>S s' ms. start_clients L ps (Some s) log = Inr S \<and> all_hold (client_holds L K) client_id S ms
      \<and> map (\<lambda>(c, _). client_id c) (sh_clients S) = map process_id ps
      \<and> list_all2 (\<lambda>p m. lower_half (unat (cfg_block_num (pr_config p))) m) ps ms
      \<and> sh_server S = Some s' \<and> (\<forall>j. j \<notin> process_id ` set ps \<longrightarrow> storages s' j = storages s j)"
proof (induction ps arbitrary: s log)
  case Nil
  then show ?case by (simp add: all_hold_def)
next
  case (Cons p ps)
  then have p: "can_start L p" "process_key L p \<in> K" "storages s (process_id p) = None" by simp_all
  from start_client_holds [OF L p, of log] obtain cl w m s1 where
    c: "start_client L (pr_memory p) (pr_files p) (pr_config p) \<lparr>w_host = pr_host p, w_srv = Some s, w_log = log\<rparr> = Inr (cl, w)"
      "client_holds L K (cl, w) m" "lower_half (unat (cfg_block_num (pr_config p))) m" "client_id cl = process_id p"
      "w_srv w = Some s1" "\<forall>j. j \<noteq> process_id p \<longrightarrow> storages s1 j = storages s j" by blast
  have "\<forall>q \<in> set ps. storages s1 (process_id q) = None" using Cons.prems(3,4) c(6) by (auto simp: image_iff)
  with Cons.IH [of s1 "w_log w"] Cons.prems(1-3) obtain S s' ms where
    r: "start_clients L ps (Some s1) (w_log w) = Inr S" "all_hold (client_holds L K) client_id S ms"
      "map (\<lambda>(c, _). client_id c) (sh_clients S) = map process_id ps"
      "list_all2 (\<lambda>p m. lower_half (unat (cfg_block_num (pr_config p))) m) ps ms"
      "sh_server S = Some s'" "\<forall>j. j \<notin> process_id ` set ps \<longrightarrow> storages s' j = storages s1 j" by auto
  let ?S = "S\<lparr>sh_clients := (cl, w_host w) # sh_clients S\<rparr>"
  have "untouched_storage (client_id cl) w (world_of ?S 0)"
    using c(4,5) r(5,6) Cons.prems(3) by (auto simp: untouched_storage_def world_of_def)
  then have "client_holds L K (cl, world_of ?S 0) m" using c(2) clients_shared.independent by blast
  moreover have "world_of ?S (Suc j) = world_of S j" for j by (simp add: world_of_def)
  moreover have "process_id p \<notin> set (map (\<lambda>(c, _). client_id c) (sh_clients S))" using r(3) Cons.prems(3) by simp
  ultimately have "all_hold (client_holds L K) client_id ?S (m # ms)"
    using r(2,3) c(4) Cons.prems(3) by (auto simp: all_hold_def nth_Cons less_Suc_eq_0_disj)
  moreover have "start_clients L (p # ps) (Some s) log = Inr ?S" using c(1,5) r(1) by simp
  ultimately show ?case
    using r(3-6) c(3,4,6) by (intro exI [of _ ?S] exI [of _ s'] exI [of _ "m # ms"]) auto
qed

section \<open>Identifiers in use\<close>

lemma init_refused:
  assumes "w_srv w = Some s"
  shows "storages s (oc_id c) \<noteq> None \<Longrightarrow>
    \<exists>st w'. Linear_InitOram (c, w) = (st, c, w') \<and> error_code st = kServerError \<and> nested_status st = []"
  "storages s (oc_id p) \<noteq> None \<Longrightarrow>
    \<exists>st w'. Path_InitOram (p, w) = (st, p, w') \<and> error_code st = kServerError \<and> nested_status st = []"
  "storages s (oc_id q) \<noteq> None \<Longrightarrow>
    \<exists>st w'. Sqrt_InitOram (q, w) = (st, q, w') \<and> error_code st = kServerError \<and> nested_status st = []"
  using assms
  by (auto simp: Linear_InitOram_def Path_InitOram_def Sqrt_InitOram_def InitFlatOram_def InitTreeOram_def
      InitSqrtOram_def CheckInitRequest_def rpc_def mk_status_def)

lemma client_storage:
  "client_holds L K (cl, w) m \<Longrightarrow> w_srv w = Some s \<Longrightarrow> storages s (client_id cl) \<noteq> None"
  by (erule client_holds_cases)
    (auto simp: linear_holds_def linear_view_def flat_image_def path_serves_def path_holds_def path_inv_def path_server_def)

text \<open>
  A configuration with which the client makes a controller that asks the server for a storage: the
  numbers of a Path ORAM are not zero, and the size of a square root ORAM is one that its constructor
  accepts.
\<close>

definition asks_for_storage :: "oram_config \<Rightarrow> bool" where
  "asks_for_storage g \<longleftrightarrow> cfg_oram_type g = kLinearOram
     \<or> cfg_oram_type g = kPathOram \<and> (ucast (cfg_block_num g) :: u32) \<noteq> 0 \<and> (ucast (cfg_bucket_size g) :: u32) \<noteq> 0
     \<or> cfg_oram_type g = kSquareOram \<and> (let n = unat (cfg_block_num g) in and (ceil_sqrt n + n) (ceil_sqrt n + n - 1) = 0)"

lemma asks_for_storage_makes:
  assumes L: "sodium_ok L" and g: "asks_for_storage g" and h: "singleton h = Some cr"
    and w: "\<And>h. w_srv (w h) = Some s" "storages s (cfg_id g) \<noteq> None"
  shows "\<exists>c h' st w'. make_controller L M False g h = Inr (c, h') \<and> controller_init L M (c, w h') = Inr (st, c, w')
    \<and> error_code st = kServerError \<and> nested_status st = []"
proof -
  note refused = init_refused [OF w(1)]
  have base: "\<exists>c h'. OramController L (mem_cryptor M) (cfg_id g) True (unat (cfg_block_num g)) ty h = Inr (c, h') \<and> oc_id c = cfg_id g" for ty
    using h by (auto simp: OramController_def GetInstance_def RandomBytes_def)
  from g show ?thesis unfolding asks_for_storage_def
  proof (elim disjE conjE)
    assume ty: "cfg_oram_type g = kLinearOram"
    from base [of kLinearOram] obtain c h' where
      "LinearOramController L (mem_cryptor M) (cfg_id g) True (unat (cfg_block_num g)) h = Inr (c, h')" "oc_id c = cfg_id g"
      by (auto simp: LinearOramController_def)
    with refused(1) [of c h'] w(2) ty show ?thesis by (auto simp: make_controller_def)
  next
    assume ty: "cfg_oram_type g = kPathOram" "(ucast (cfg_block_num g) :: u32) \<noteq> 0" "(ucast (cfg_bucket_size g) :: u32) \<noteq> 0"
    from PathOramController_starts [OF L h ty(2,3), of "mem_cryptor M" "cfg_id g" True] obtain c h' where
      "PathOramController L (mem_cryptor M) (cfg_id g) (ucast (cfg_block_num g)) (ucast (cfg_bucket_size g)) True h
        = Inr (c, h')" "oc_id c = cfg_id g" by blast
    with refused(2) [of c h'] w(2) ty(1) show ?thesis by (auto simp: make_controller_def)
  next
    assume ty: "cfg_oram_type g = kSquareOram"
      "let n = unat (cfg_block_num g) in and (ceil_sqrt n + n) (ceil_sqrt n + n - 1) = 0"
    from base [of kSquareOram] ty(2) obtain c h' where
      "SquareRootOramController L (mem_cryptor M) (cfg_id g) True (unat (cfg_block_num g)) h = Inr (c, h')" "oc_id c = cfg_id g"
      by (auto simp: SquareRootOramController_def Let_def panic_if_def oram_controller.defs sqrt_oram.defs)
    with refused(3) [of c h'] w(2) ty(1) show ?thesis by (auto simp: make_controller_def)
  qed
qed

text \<open>A client whose identifier is in use on the server exits.\<close>

lemma identifier_in_use:
  assumes L: "sodium_ok L" and g: "asks_for_storage g" and h: "singleton (w_host w) = None"
    and s: "w_srv w = Some s" "storages s (cfg_id g) \<noteq> None"
  shows "start_client L M files g w = Inl Process_Exit"
proof -
  from first_instance [OF L h] obtain cr h where
    inst: "GetInstance L (mem_cryptor M) (w_host w) = Inr h" "singleton h = Some cr" by blast
  from asks_for_storage_makes [OF L g inst(2), of "\<lambda>h. w\<lparr>w_host := h\<rparr>" s M] s obtain c h' st w' where
    "make_controller L M False g h = Inr (c, h')" "controller_init L M (c, w\<lparr>w_host := h'\<rparr>) = Inr (st, c, w')"
    "error_code st = kServerError" "nested_status st = []" by auto
  with inst(1) show ?thesis
    by (auto simp: start_client_def OramClient_def Let_def ok_def EmitString_def emit_line_def)
qed

end
