(* ===== verification/Sharing_Properties.thy ===== *)
theory Sharing_Properties
  imports Client_Sharing Client_Properties
begin

text \<open>The properties of several clients of one server.\<close>

lemma lower_half_addresses:
  assumes "lower_half n m" "unat a < n div 2"
  obtains d where "m a = Some d" "hd d = of_nat (unat a)"
proof -
  have "unat a < 2 ^ 32" using unsigned_less [of a] by simp
  with assms(1) have "case m (of_nat (unat a)) of Some d \<Rightarrow> unat a < n div 2 \<and> hd d = of_nat (unat a) | None \<Rightarrow> n div 2 \<le> unat a"
    unfolding lower_half_def by blast
  with assms(2) that show thesis by (auto split: option.splits)
qed

text \<open>A condition on the blocks that are written.\<close>

fun writes_to :: "(oram_block \<Rightarrow> bool) \<Rightarrow> request \<Rightarrow> bool" where
  "writes_to P (Read a) \<longleftrightarrow> True"
| "writes_to P (Write a x) \<longleftrightarrow> P x"

text \<open>
  C3. Clients of linear and Path ORAMs with different identifiers, all with sampled data, share a
  server without seeing one another: started one after the other on a server where their
  identifiers are free, all of them come up, and when they then read and write in turns, in any
  order, every client gets exactly the answers that it would get from a memory of its own, which
  starts with the sampled data of its lower half of addresses. A linear ORAM has at most 7489
  blocks (more do not fit into a message). The sampled blocks of a Path ORAM, and the blocks that
  are written, do not compress when they are encrypted under the session keys that the processes
  draw.
\<close>

theorem clients_share_server:
  assumes "sodium_ok L" "lz4_ok L" "random_live L"
    and "list_all (can_start L) ps" "distinct (map process_id ps)" "\<forall>p \<in> set ps. storages s (process_id p) = None"
    and "\<forall>(i, r) \<in> set rs. i < length ps \<and> writes_to (storable_under L (process_key L ` set ps)) r
      \<and> unat (address_of r) < unat (cfg_block_num (pr_config (ps ! i))) div 2"
  shows "\<exists>S outs S' ms. start_clients L ps (Some s) [] = Inr S
    \<and> run_shared (Client_Access L M) buf rs S = Inr (outs, S') \<and> length ms = length ps
    \<and> (\<forall>i < length ps. lower_half (unat (cfg_block_num (pr_config (ps ! i)))) (ms ! i)
        \<and> turns_of i outs = fst (memory_run (turns_of i rs) (ms ! i)))"
proof -
  let ?K = "process_key L ` set ps"
  from start_clients_hold [OF assms(1-4) subset_refl assms(5,6), of "[]"] obtain S ms where
    S: "start_clients L ps (Some s) [] = Inr S" "all_hold (client_holds L ?K) client_id S ms"
      "list_all2 (\<lambda>p m. lower_half (unat (cfg_block_num (pr_config p))) m) ps ms" by blast
  note len = list_all2_lengthD [OF S(3)] and half = list_all2_nthD [OF S(3)]
  have "request_ok (storable_under L ?K) (ms ! i) r" if "(i, r) \<in> set rs" for i r
  proof -
    from that assms(7) have i: "i < length ps" "writes_to (storable_under L ?K) r"
      "unat (address_of r) < unat (cfg_block_num (pr_config (ps ! i))) div 2" by auto
    from lower_half_addresses [OF half [OF i(1)] i(3)] obtain d where "(ms ! i) (address_of r) = Some d" .
    with i(2) show ?thesis by (cases r) auto
  qed
  with assms(7) len have "\<forall>(i, r) \<in> set rs. i < length ms \<and> request_ok (storable_under L ?K) (ms ! i) r" by auto
  from clients_shared.run_shared_memories [OF S(2) this, of M buf] S(1) len half show ?thesis by auto
qed

text \<open>Two processes, one of a Path ORAM and one of a linear ORAM.\<close>

definition toy_process :: "oram_type \<Rightarrow> u32 \<Rightarrow> process" where
  "toy_process ty i = \<lparr>pr_memory = toy_memory, pr_files = (\<lambda>_. None),
     pr_config = default_config\<lparr>cfg_oram_type := ty, cfg_id := i, cfg_block_num := 6\<rparr>,
     pr_host = \<lparr>draws = 0, singleton = None\<rparr>\<rparr>"

lemma toy_can_start [simp]: "can_start zip_libs (toy_process kLinearOram 3)" "can_start zip_libs (toy_process kPathOram 4)"
  using zip_run by (simp_all add: can_start_def toy_process_def toy_memory_def plain_linear_config_def plain_path_config_def
      default_config_def kMaximumOramStorageNum_def)

lemma toy_process_fields [simp]: "process_id (toy_process ty i) = i" "cfg_block_num (pr_config (toy_process ty i)) = 6"
  by (simp_all add: toy_process_def)

theorem clients_share_server_witness:
  "\<exists>S outs S' d. start_clients zip_libs [toy_process kLinearOram 3, toy_process kPathOram 4] (Some toy_server) [] = Inr S
    \<and> run_shared (Client_Access zip_libs toy_memory) (toy_block 0 0 0)
        [(0, Write 2 (toy_block 2 1 7)), (1, Read 2), (0, Read 2)] S = Inr (outs, S')
    \<and> turns_of 0 outs = [(OK, []), (OK, replicate 512 7)] \<and> turns_of 1 outs = [(OK, d)] \<and> hd d = 2"
proof -
  let ?ps = "[toy_process kLinearOram 3, toy_process kPathOram 4]"
  let ?rs = "[(0, Write 2 (toy_block 2 1 7)), (1, Read 2), (0, Read 2)]"
  have w: "storable_under zip_libs K (toy_block 2 1 7)" for K by (simp add: storable_under_def zip_storable)
  from clients_share_server [of zip_libs ?ps toy_server ?rs toy_memory "toy_block 0 0 0"] w obtain S outs S' ms where
    S: "start_clients zip_libs ?ps (Some toy_server) [] = Inr S"
      "run_shared (Client_Access zip_libs toy_memory) (toy_block 0 0 0) ?rs S = Inr (outs, S')"
      "\<forall>i < length ?ps. lower_half (unat (cfg_block_num (pr_config (?ps ! i)))) (ms ! i)
        \<and> turns_of i outs = fst (memory_run (turns_of i ?rs) (ms ! i))" by auto
  from S(3) [THEN spec, of 0] S(3) [THEN spec, of 1] have m: "lower_half 6 (ms ! 1)"
    "turns_of 0 outs = fst (memory_run (turns_of 0 ?rs) (ms ! 0))"
    "turns_of 1 outs = fst (memory_run (turns_of 1 ?rs) (ms ! 1))" by simp_all
  from lower_half_addresses [OF m(1), of 2] obtain d where "(ms ! 1) 2 = Some d" "hd d = 2" by auto
  with S(1,2) m(2,3) show ?thesis by (intro exI [of _ S] exI [of _ outs] exI [of _ S'] exI [of _ d]) simp
qed

text \<open>
  C21. A configuration file cannot set the identifier, so two client programs that are configured by
  files cannot use the same server, if they are of these kinds: the first has a linear ORAM of up
  to 7489 blocks or a Path ORAM, filled with sampled data, and comes up; the second asks for a
  storage of any kind that uses one (linear, Path or square root ORAM, with numbers that its
  constructor accepts, and whatever data it would be filled with), and ends with \<open>exit\<close> when it
  makes its controller.
\<close>

theorem second_client_exits:
  assumes "sodium_ok L" "lz4_ok L" "random_live L"
    and "can_start L p" "storages s (process_id p) = None" "Parse Y1 sys1 YamlParser = Inr (OK, p1, pr_config p)"
    and "Parse Y2 sys2 YamlParser = Inr (OK, p2, g)" "asks_for_storage g" "singleton h = None"
  shows "\<exists>cl w. start_client L (pr_memory p) (pr_files p) (pr_config p)
        \<lparr>w_host = pr_host p, w_srv = Some s, w_log = []\<rparr> = Inr (cl, w)
    \<and> client_main L M Y2 sys2 ParseCommandLine argv files (w\<lparr>w_host := h\<rparr>) = Inl Process_Exit"
proof -
  have ids: "process_id p = 0" "cfg_id g = 0" using Parse_keeps assms(6,7) by blast+
  from start_client_holds [OF assms(1-4) singletonI assms(5), of "[]"] obtain cl w m s' where
    c: "start_client L (pr_memory p) (pr_files p) (pr_config p) \<lparr>w_host = pr_host p, w_srv = Some s, w_log = []\<rparr> = Inr (cl, w)"
      "client_holds L {process_key L p} (cl, w) m" "client_id cl = process_id p" "w_srv w = Some s'" by blast
  have "storages s' (cfg_id g) \<noteq> None" using client_storage [OF c(2,4)] c(3) ids by simp
  with identifier_in_use [OF assms(1,8), of "w\<lparr>w_host := h\<rparr>" s' M files] c(4) assms(9)
  have "start_client L M files g (w\<lparr>w_host := h\<rparr>) = Inl Process_Exit" by simp
  moreover have "configure Y2 sys2 ParseCommandLine argv = Inr (OK, g)" using assms(7) by (simp add: configure_def)
  ultimately show ?thesis using c(1) by (auto simp: client_main_def)
qed

theorem second_client_exits_witness:
  "\<exists>cl w. start_client zip_libs toy_memory (\<lambda>_. None) (config_of toy_yaml toy_entries)
        \<lparr>w_host = \<lparr>draws = 0, singleton = None\<rparr>, w_srv = Some toy_server, w_log = []\<rparr> = Inr (cl, w)
    \<and> client_main zip_libs toy_memory toy_yaml (toy_system toy_entries) (\<lambda>_. Inr default_flags) () (\<lambda>_. None)
        (w\<lparr>w_host := \<lparr>draws = 0, singleton = None\<rparr>\<rparr>) = Inl Process_Exit"
proof -
  let ?p = "\<lparr>pr_memory = toy_memory, pr_files = (\<lambda>_. None), pr_config = config_of toy_yaml toy_entries,
    pr_host = \<lparr>draws = 0, singleton = None\<rparr>\<rparr>"
  have r: "Parse toy_yaml (toy_system toy_entries) YamlParser
      = Inr (OK, \<lparr>ignore_command_line_args = True\<rparr>, config_of toy_yaml toy_entries)" by code_simp
  have g: "plain_path_config (config_of toy_yaml toy_entries)" "asks_for_storage (config_of toy_yaml toy_entries)"
    by (simp_all add: toy_config plain_path_config_def asks_for_storage_def default_config_def kMaximumOramStorageNum_def)
  then have "can_start zip_libs ?p" using zip_run by (simp add: can_start_def toy_memory_def)
  from second_client_exits [OF _ _ _ this _ _ r, where h = "\<lparr>draws = 0, singleton = None\<rparr>" and s = toy_server] r g(2)
  show ?thesis by simp
qed

end
