(* ===== verification/Sqrt_Trace.thy ===== *)
theory Sqrt_Trace
  imports Sqrt_Oram_Correct
begin

text \<open>
  What the server of a square root ORAM sees: the place of the accessed block, in the clear, as the
  tag of the block that is written to the shelter, and when the places change.
\<close>

fun tag_of :: "server_call \<Rightarrow> u32 list" where
  "tag_of (Call_WriteSqrt hdr d tag) = [tag]"
| "tag_of _ = []"

definition written_tags :: "server_call list \<Rightarrow> u32 list" where
  "written_tags cs = concat (map tag_of cs)"

lemma written_tags_simps [simp]:
  "written_tags [] = []" "written_tags (c # cs) = tag_of c @ written_tags cs"
  "written_tags (cs @ ds) = written_tags cs @ written_tags ds"
  by (simp_all add: written_tags_def)

lemma written_tags_shelter [simp]: "written_tags (shelter_calls hdr i n) = []"
  by (induction n arbitrary: i) auto

fun is_permute :: "server_call \<Rightarrow> bool" where
  "is_permute (Call_Permute hdr perm) \<longleftrightarrow> True"
| "is_permute _ \<longleftrightarrow> False"

definition permutations :: "server_call list \<Rightarrow> nat" where
  "permutations cs = length (filter is_permute cs)"

lemma permutations_simps [simp]:
  "permutations [] = 0" "permutations (c # cs) = (if is_permute c then 1 else 0) + permutations cs"
  "permutations (cs @ ds) = permutations cs + permutations ds"
  by (simp_all add: permutations_def)

lemma permutations_shelter [simp]: "permutations (shelter_calls hdr i n) = 0"
  by (induction n arbitrary: i) auto

lemma permutations_permute: "permute_calls lim n hdr cs \<Longrightarrow> permutations cs = (if Suc n = lim then 1 else 0)"
  by (auto simp: permute_calls_def split: if_splits)

lemma written_tags_permute: "permute_calls lim n hdr cs \<Longrightarrow> written_tags cs = []"
  by (auto simp: permute_calls_def split: if_splits)

lemma observed_tags:
  assumes "sqrt_observed lim n a hit cw cw'"
  shows "\<exists>position cs. so_position (fst cw) a = Some position \<and> made cs (snd cw) (snd cw')
    \<and> written_tags cs = [position] \<and> permutations cs = (if Suc n = lim then 1 else 0)"
proof -
  let ?hdr = "assemble_header (fst cw)"
  let ?rd = "\<lambda>q. if hit then Call_ReadSqrt ?hdr kDummy (of_nat (so_next_dummy (fst cw))) else Call_ReadSqrt ?hdr kMainMemory q"
  from assms obtain position w d cs where o: "so_position (fst cw) a = Some position"
    "made (shelter_calls ?hdr 0 lim @ [?rd position]) (snd cw) w" "permute_calls lim n ?hdr cs"
    "made (Call_WriteSqrt ?hdr d position # cs) w (snd cw')"
    by (auto simp: sqrt_observed_def sqrt_follows_def)
  from made_trans [OF o(2,4)] o(1) show ?thesis
    by (intro exI [of _ position] exI [of _ "(shelter_calls ?hdr 0 lim @ [?rd position]) @ Call_WriteSqrt ?hdr d position # cs"])
      (simp add: written_tags_permute [OF o(3)] permutations_permute [OF o(3)])
qed

text \<open>One access, as a request.\<close>

lemma sqrt_request_calls:
  assumes h: "sqrt_holds L k lim cw (m, p, n)" and r: "own_request m r"
  shows "\<exists>o1 cw' d hit. run_requests (Sqrt_Access L memory) buf [r] cw = Inr (o1, cw')
    \<and> sqrt_holds L k lim cw' (settle lim (address_of r) d (m, p, n))
    \<and> sqrt_observed lim n (address_of r) hit cw cw' \<and> (Suc n < lim \<longrightarrow> so_position (fst cw') = so_position (fst cw))"
proof -
  obtain c w where cw: "cw = (c, w)" by (cases cw)
  define op where "op = (case r of Read _ \<Rightarrow> Operation_kRead | Write _ _ \<Rightarrow> Operation_kWrite)"
  define x where "x = (case r of Read _ \<Rightarrow> buf | Write _ x \<Rightarrow> x)"
  let ?a = "address_of r"
  have op: "m ?a \<noteq> None" "op = Operation_kRead \<or> op = Operation_kWrite \<and> BlockEqual ?a x \<and> wf_block x"
    using r by (cases r; simp add: op_def x_def)+
  from Sqrt_InternalAccess_view [OF h [unfolded cw] op refl refl, of memory False] obtain e b cw' where
    v: "Sqrt_InternalAccess L memory op ?a x False (c, w) = Inr ((OK, e), cw')"
      "sqrt_holds L k lim cw' (settle lim ?a (if op = Operation_kRead then the (seen (m, p, n) ?a) else data x) (m, p, n))"
      "sqrt_observed lim n ?a (\<exists>d. p = Some (?a, d)) (c, w) cw'" by blast
  have "oc_initialized c" using h by (auto simp: cw sqrt_core_def)
  with v(1) have "Sqrt_Access L memory op ?a x cw = Inr ((OK, e), cw')"
    by (simp add: cw Sqrt_Access_def Access_def)
  then have "\<exists>o1. run_requests (Sqrt_Access L memory) buf [r] cw = Inr (o1, cw')"
    by (cases r) (auto simp: op_def x_def)
  moreover have "Suc n < lim \<longrightarrow> so_position (fst cw') = so_position (fst cw)"
    using v(3) by (auto simp: cw sqrt_observed_def sqrt_follows_def)
  ultimately show ?thesis using v(2,3) unfolding cw by blast
qed

lemma sqrt_positions_distinct:
  assumes h: "sqrt_holds L k lim cw (m, p, n)" and a: "m a \<noteq> None" "m b \<noteq> None"
    and x: "so_position (fst cw) a = Some x" "so_position (fst cw) b = Some y"
  shows "x = y \<longleftrightarrow> a = b"
proof -
  obtain c w where cw: "cw = (c, w)" by (cases cw)
  from h obtain arr sh where pm: "places_ok (oc_block_num c + lim) (so_position c)" "so_sqrt_m c = lim"
    and srv: "sqrt_server L k c w arr sh" and m: "memory_in (so_position c) arr m"
    by (auto simp: cw sqrt_core_def)
  from m a sqrt_server_length [OF srv] pm(2) have
    "unat a < oc_block_num c + lim" "unat b < oc_block_num c + lim" by (auto simp: memory_in_def)
  with pm(1) have "place (so_position c) a = place (so_position c) b \<longleftrightarrow> a = b"
    by (auto simp: places_ok_def dest: inj_onD)
  moreover have "place (so_position c) a = unat x" "place (so_position c) b = unat y"
    using x by (simp_all add: cw place_def)
  ultimately show ?thesis by (metis word_unat_eq_iff)
qed

text \<open>
  A sequence of accesses: access \<open>i\<close> writes the place that the map of its period has for its
  address, and every period has a map without collisions.
\<close>

definition collision_free :: "(u32 \<rightharpoonup> bytes) \<Rightarrow> (u32 \<rightharpoonup> u32) \<Rightarrow> bool" where
  "collision_free m pm \<longleftrightarrow> (\<forall>a b x y. m a \<noteq> None \<longrightarrow> m b \<noteq> None \<longrightarrow> pm a = Some x \<longrightarrow> pm b = Some y \<longrightarrow>
     (x = y \<longleftrightarrow> a = b))"

lemma collision_free_dom: "dom m = dom m' \<Longrightarrow> collision_free m pm = collision_free m' pm"
  by (auto simp: collision_free_def dom_def set_eq_iff)

lemma own_request_address: "own_request m r \<Longrightarrow> m (address_of r) \<noteq> None"
  by (cases r) auto

lemma own_request_dom: "own_request m r \<Longrightarrow> dom m' = dom m \<Longrightarrow> own_request m' r"
  by (cases r) (auto simp: dom_def set_eq_iff)

text \<open>The period of access \<open>i\<close> of a sequence that starts after \<open>n\<close> accesses of its first period.\<close>

lemma later_period:
  assumes "n < lim" and "n' = (if Suc n = lim then 0 else Suc n)"
  shows "(n + Suc i) div lim = (if Suc n = lim then 1 else 0) + (n' + i) div lim"
    "(n + Suc i) mod lim = (n' + i) mod lim"
proof -
  have e: "n + Suc i = (if Suc n = lim then lim else 0) + (n' + i)" using assms(2) by auto
  show "(n + Suc i) div lim = (if Suc n = lim then 1 else 0) + (n' + i) div lim"
    unfolding e using assms(1) by (simp add: div_add_self1)
  show "(n + Suc i) mod lim = (n' + i) mod lim" unfolding e by simp
qed

lemma sqrt_requests_tags:
  assumes "sqrt_holds L k lim cw (m, p, n)" and "\<forall>r \<in> set rs. own_request m r"
  shows "\<exists>outs cw' cs m' p' pms. run_requests (Sqrt_Access L memory) buf rs cw = Inr (outs, cw')
    \<and> made cs (snd cw) (snd cw') \<and> length (written_tags cs) = length rs
    \<and> (\<forall>i < length rs. pms ((n + i) div lim) (address_of (rs ! i)) = Some (written_tags cs ! i))
    \<and> (\<forall>q. collision_free m (pms q)) \<and> pms 0 = so_position (fst cw)
    \<and> permutations cs = (n + length rs) div lim
    \<and> sqrt_holds L k lim cw' (m', p', (n + length rs) mod lim) \<and> dom m' = dom m"
  using assms
proof (induction rs arbitrary: cw m p n)
  case Nil
  have "collision_free m (so_position (fst cw))"
    using sqrt_positions_distinct [OF Nil.prems(1)] unfolding collision_free_def by blast
  moreover have "n < lim" using Nil.prems(1) by simp
  ultimately show ?case using Nil.prems
    by (intro exI [of _ "[]"] exI [of _ cw] exI [of _ m] exI [of _ p] exI [of _ "\<lambda>_. so_position (fst cw)"])
      (simp add: made_def del: sqrt_holds.simps)
next
  case (Cons r rs)
  have lim: "n < lim" using Cons.prems(1) by simp
  have r: "own_request m r" using Cons.prems(2) by simp
  have cf: "collision_free m (so_position (fst cw))"
    using sqrt_positions_distinct [OF Cons.prems(1)] unfolding collision_free_def by blast
  from sqrt_request_calls [OF Cons.prems(1) r, of memory buf] obtain o1 cw1 d hit where
    one: "run_requests (Sqrt_Access L memory) buf [r] cw = Inr (o1, cw1)"
      "sqrt_holds L k lim cw1 (settle lim (address_of r) d (m, p, n))"
      "sqrt_observed lim n (address_of r) hit cw cw1"
      "Suc n < lim \<longrightarrow> so_position (fst cw1) = so_position (fst cw)" by blast
  define n1 where "n1 = (if Suc n = lim then 0 else Suc n)"
  have "\<exists>m1 p1. settle lim (address_of r) d (m, p, n) = (m1, p1, n1) \<and> dom m1 = dom m"
    using own_request_address [OF r] by (cases "Suc n = lim") (auto simp: n1_def insert_absorb domIff)
  then obtain m1 p1 where s1: "settle lim (address_of r) d (m, p, n) = (m1, p1, n1)" "dom m1 = dom m" by blast
  from observed_tags [OF one(3)] obtain x cs1 where
    x: "so_position (fst cw) (address_of r) = Some x" "made cs1 (snd cw) (snd cw1)" "written_tags cs1 = [x]"
      "permutations cs1 = (if Suc n = lim then 1 else 0)" by blast
  have "\<forall>q \<in> set rs. own_request m1 q" using Cons.prems(2) own_request_dom s1(2) by auto
  from Cons.IH [OF one(2) [unfolded s1(1)] this] obtain outs cw' cs m' p' pms where
    ih: "run_requests (Sqrt_Access L memory) buf rs cw1 = Inr (outs, cw')" "made cs (snd cw1) (snd cw')"
      "length (written_tags cs) = length rs"
      "\<forall>i < length rs. pms ((n1 + i) div lim) (address_of (rs ! i)) = Some (written_tags cs ! i)"
      "\<forall>q. collision_free m1 (pms q)" "pms 0 = so_position (fst cw1)"
      "permutations cs = (n1 + length rs) div lim" "sqrt_holds L k lim cw' (m', p', (n1 + length rs) mod lim)"
      "dom m' = dom m1" by blast
  note later = later_period [OF lim n1_def]
  define pms' where "pms' = (\<lambda>q. if q = 0 then so_position (fst cw) else if Suc n = lim then pms (q - 1) else pms q)"
  have pms': "pms' ((n + Suc i) div lim) = pms ((n1 + i) div lim)" for i
    using later(1) [of i] one(4) ih(6) lim by (auto simp: pms'_def)
  have "pms' ((n + i) div lim) (address_of ((r # rs) ! i)) = Some (written_tags (cs1 @ cs) ! i)"
    if "i < length (r # rs)" for i
  proof (cases i)
    case 0
    with x(1,3) lim show ?thesis by (simp add: pms'_def)
  next
    case (Suc j)
    with pms' [of j] ih(4) x(3) that show ?thesis by (simp del: add_Suc_right)
  qed
  moreover have "collision_free m (pms' q)" for q
    using cf ih(5) collision_free_dom [OF s1(2)] by (simp add: pms'_def)
  moreover have "run_requests (Sqrt_Access L memory) buf (r # rs) cw = Inr (o1 @ outs, cw')"
    using one(1) ih(1) by (simp add: run_requests_Cons [of _ _ r rs] del: run_requests.simps)
  moreover have "permutations (cs1 @ cs) = (n + length (r # rs)) div lim"
    using later(1) [of "length rs"] x(4) ih(7) by simp
  moreover have "sqrt_holds L k lim cw' (m', p', (n + length (r # rs)) mod lim)"
    using later(2) [of "length rs"] ih(8) by (simp del: sqrt_holds.simps)
  moreover have "pms' 0 = so_position (fst cw)" by (simp add: pms'_def)
  ultimately show ?case using made_trans [OF x(2) ih(2)] x(3) ih(3,9) s1(2)
    by (intro exI [of _ "o1 @ outs"] exI [of _ cw'] exI [of _ "cs1 @ cs"] exI [of _ m'] exI [of _ p'] exI [of _ pms'])
      (simp del: sqrt_holds.simps run_requests.simps)
qed

end
