(* ===== verification/Trace_Properties.thy ===== *)
theory Trace_Properties
  imports Path_Trace Linear_Oram Sqrt_Trace Sqrt_Properties
begin

text \<open>What the server can and cannot tell about the accesses from the calls it is sent.\<close>

section \<open>Linear and Path ORAM\<close>

text \<open>
  C10. The server of a linear ORAM learns the number of accesses only: whatever the operations, the
  addresses and the data, and whether the blocks are there, every access downloads the storage
  and uploads as many bytes again. (A storage of more than 7489 blocks is too large for one message
  of gRPC: then it cannot be filled.)
\<close>

theorem linear_access_pattern:
  assumes "sodium_ok L" "keyed k h" and "storages s i = None" "i < kMaximumOramStorageNum"
    and "list_all wf_block ds" and "\<forall>r \<in> set rs. writes_wf r"
  shows "\<exists>c h0 w1. LinearOramController L memory i True block_num h = Inr (c, h0)
    \<and> Linear_InitOram (c, \<lparr>w_host = h0, w_srv = Some s, w_log = []\<rparr>) = (OK, c, w1)
    \<and> (if length ds \<le> 7489
       then \<exists>cw2 outs cw3 cs. Linear_FillWithData L ds (c, w1) = Inr (OK, cw2)
         \<and> run_requests (Linear_Access L) buf rs cw2 = Inr (outs, cw3) \<and> made cs (snd cw2) (snd cw3)
         \<and> map shape cs = concat (replicate (length rs) (linear_calls (fst cw2) (replicate (560 * length ds) 0)))
       else \<exists>st cw2. Linear_FillWithData L ds (c, w1) = Inr (st, cw2) \<and> error_code st = kServerError)"
proof -
  from linear_oram_set_up [OF assms(1-5), of memory block_num] obtain c h0 w1 where
    c: "LinearOramController L memory i True block_num h = Inr (c, h0)"
      "Linear_InitOram (c, \<lparr>w_host = h0, w_srv = Some s, w_log = []\<rparr>) = (OK, c, w1)"
    and f: "if length ds \<le> 7489 then \<exists>cw2. Linear_FillWithData L ds (c, w1) = Inr (OK, cw2) \<and> linear_view L k cw2 ds
       else \<exists>st cw2. Linear_FillWithData L ds (c, w1) = Inr (st, cw2) \<and> error_code st = kServerError" by blast
  show ?thesis
  proof (cases "length ds \<le> 7489")
    case True
    with f obtain cw2 where "Linear_FillWithData L ds (c, w1) = Inr (OK, cw2)" "linear_view L k cw2 ds" by auto
    with linear_requests_calls [OF assms(1) this(2) assms(6), of buf] c show ?thesis
      unfolding if_P [OF True] by blast
  next
    case False
    with f c show ?thesis unfolding if_not_P [OF False] by blast
  qed
qed

theorem linear_access_pattern_witness:
  "\<exists>c h0 w1 cw2 outs cw3 cs. LinearOramController toy_libs toy_cryptor 1 True 2 toy_host = Inr (c, h0)
    \<and> Linear_InitOram (c, \<lparr>w_host = h0, w_srv = Some toy_server, w_log = []\<rparr>) = (OK, c, w1)
    \<and> Linear_FillWithData toy_libs [toy_block 5 1 10, toy_block 6 1 11] (c, w1) = Inr (OK, cw2)
    \<and> run_requests (Linear_Access toy_libs) (toy_block 0 0 0) [Read 5, Write 9 (toy_block 9 1 12)] cw2 = Inr (outs, cw3)
    \<and> made cs (snd cw2) (snd cw3)
    \<and> map shape cs = linear_calls (fst cw2) (replicate 1120 0) @ linear_calls (fst cw2) (replicate 1120 0)"
  using linear_access_pattern [of toy_libs "replicate 32 7" toy_host toy_server 1 "[toy_block 5 1 10, toy_block 6 1 11]"
      "[Read 5, Write 9 (toy_block 9 1 12)]" toy_cryptor 2 "toy_block 0 0 0"]
  by simp

text \<open>
  C7. The accesses to stored addresses of a Path ORAM look to the server like downloads and uploads
  of whole paths, of strings of fixed lengths, to leaves that the accesses have no say in: each
  goes to the leaf drawn by the last access to the same address (or when the ORAM was filled),
  and the leaves are drawn by rejection sampling from random words of which none is used twice.
\<close>

theorem path_access_pattern:
  assumes "sodium_ok L" "lz4_ok L" "random_live L" "pads_ok L k"
    and "keyed k h" and "block_num \<noteq> 0" "bucket_size \<noteq> 0" "bucket_size < 256"
    and "storages s i = None" "i < kMaximumOramStorageNum"
    and "list_all (storable L k) ds" "distinct (normal_ids ds)" "length ds \<le> unat block_num"
    and "\<forall>r \<in> set rs. request_ok (storable L k) (blocks_map ds) r"
  shows "\<exists>c h0 w1 c2 w2 c3 w3 ys cs.
    PathOramController L memory i block_num bucket_size True h = Inr (c, h0)
    \<and> Path_InitOram (c, \<lparr>w_host = h0, w_srv = Some s, w_log = []\<rparr>) = (OK, c, w1)
    \<and> Path_FillWithData L ds (c, w1) = Inr (OK, c2, w2)
    \<and> run_requests (Path_Access L) buf rs (c2, w2) = Inr (fst (memory_run rs (blocks_map ds)), c3, w3)
    \<and> made cs w2 w3 \<and> length ys = length rs \<and> fresh_leaves L (po_leafs c2) (draws (w_host w2)) ys
    \<and> map shape cs = concat (map (path_calls c2) (leaves_visited (po_position c2) (map address_of rs) ys))"
proof -
  from path_memory_set_up [OF assms(1-13), of memory] obtain c h0 w1 c2 w2 where
    c: "PathOramController L memory i block_num bucket_size True h = Inr (c, h0)"
      "Path_InitOram (c, \<lparr>w_host = h0, w_srv = Some s, w_log = []\<rparr>) = (OK, c, w1)"
      "Path_FillWithData L ds (c, w1) = Inr (OK, c2, w2)" "path_serves L k (c2, w2) (blocks_map ds)" by blast
  from path_requests_calls [OF c(4) assms(14), of buf] c(1-3) show ?thesis by blast
qed

theorem path_access_pattern_witness:
  "\<exists>c h0 w1 c2 w2 c3 w3 y z cs. PathOramController toy_libs toy_cryptor 1 3 2 True toy_host = Inr (c, h0)
    \<and> Path_InitOram (c, \<lparr>w_host = h0, w_srv = Some toy_server, w_log = []\<rparr>) = (OK, c, w1)
    \<and> Path_FillWithData toy_libs [toy_block 5 1 10, toy_block 6 1 11] (c, w1) = Inr (OK, c2, w2)
    \<and> run_requests (Path_Access toy_libs) (toy_block 0 0 0) [Write 5 (toy_block 5 1 12), Read 5] (c2, w2)
        = Inr ([(OK, []), (OK, replicate 512 12)], c3, w3)
    \<and> made cs w2 w3 \<and> fresh_leaves toy_libs (po_leafs c2) (draws (w_host w2)) [y, z]
    \<and> map shape cs = path_calls c2 (the (po_position c2 5)) @ path_calls c2 y"
proof -
  let ?ds = "[toy_block 5 1 10, toy_block 6 1 11]" and ?rs = "[Write 5 (toy_block 5 1 12), Read 5]"
  have ok: "\<forall>r \<in> set ?rs. request_ok (storable toy_libs (replicate 32 7)) (blocks_map ?ds) r"
    by (simp add: toy_contents)
  have out: "fst (memory_run ?rs (blocks_map ?ds)) = [(OK, []), (OK, replicate 512 12)]"
    by (simp add: toy_contents)
  have "\<exists>c h0 w1 c2 w2 c3 w3 ys cs. PathOramController toy_libs toy_cryptor 1 3 2 True toy_host = Inr (c, h0)
    \<and> Path_InitOram (c, \<lparr>w_host = h0, w_srv = Some toy_server, w_log = []\<rparr>) = (OK, c, w1)
    \<and> Path_FillWithData toy_libs ?ds (c, w1) = Inr (OK, c2, w2)
    \<and> run_requests (Path_Access toy_libs) (toy_block 0 0 0) ?rs (c2, w2)
        = Inr ([(OK, []), (OK, replicate 512 12)], c3, w3)
    \<and> made cs w2 w3 \<and> length ys = length ?rs \<and> fresh_leaves toy_libs (po_leafs c2) (draws (w_host w2)) ys
    \<and> map shape cs = concat (map (path_calls c2) (leaves_visited (po_position c2) (map address_of ?rs) ys))"
    using path_access_pattern [of toy_libs "replicate 32 7" toy_host 3 2 toy_server 1 ?ds ?rs
        toy_cryptor "toy_block 0 0 0"] toy_two_ids ok unfolding out by simp
  then show ?thesis by (fastforce simp: length_Suc_conv)
qed

text \<open>
  C9. An access to a Path ORAM writes the path back if and only if the address is there: a server
  can tell a miss from a hit.
\<close>

theorem path_miss_is_visible:
  assumes "path_holds L k (c, w) m" "op = Operation_kRead \<or> op = Operation_kWrite" "storable L k x"
  shows "\<exists>r c' w' cs. Path_Access L op a x (c, w) = Inr (r, c', w') \<and> made cs w w'
    \<and> (list_ex writes_path cs \<longleftrightarrow> m a \<noteq> None)"
proof -
  from path_access_calls [OF assms(1,2), of x a] assms(3) obtain cs r c' w' where
    c: "Path_Access L op a x (c, w) = Inr (r, c', w')" "made cs w w'"
      "map shape cs = path_reads (assemble_header c) (po_tree_level c) (fst (touch a (po_position c)))
        @ (if m a = None then [] else path_writes (assemble_header c) (po_tree_level c) (unat (po_bucket_size c))
             (fst (touch a (po_position c))))" by blast
  have "list_ex writes_path cs = list_ex writes_path (map shape cs)" by (simp add: list_ex_shape)
  also have "\<dots> \<longleftrightarrow> m a \<noteq> None" unfolding c(3) by (simp add: writes_path_calls)
  finally show ?thesis using c(1,2) by blast
qed

theorem path_miss_is_visible_witness:
  "\<exists>c w r c' w' cs r2 c2 w2 cs2. Path_Access toy_libs Operation_kRead 9 (toy_block 9 1 3) (c, w) = Inr (r, c', w')
    \<and> made cs w w' \<and> \<not> list_ex writes_path cs
    \<and> Path_Access toy_libs Operation_kRead 5 (toy_block 9 1 3) (c, w) = Inr (r2, c2, w2)
    \<and> made cs2 w w2 \<and> list_ex writes_path cs2"
proof -
  from toy_path_oram obtain c w where h: "path_holds toy_libs (replicate 32 7) (c, w)
      [5 \<mapsto> replicate 512 10, 6 \<mapsto> replicate 512 11]" by blast
  show ?thesis
    using path_miss_is_visible [OF h, of Operation_kRead "toy_block 9 1 3" 9]
      path_miss_is_visible [OF h, of Operation_kRead "toy_block 9 1 3" 5] by simp blast
qed

section \<open>The square root ORAM\<close>

text \<open>
  C8. A server of a square root ORAM can tell which accesses are to the same address: in a sequence
  of accesses of any length, to addresses that are in the memory, every access writes one block to
  the shelter, with its place as a tag in the clear, and the tags of two accesses with no
  permutation between them are equal if and only if their addresses are. The server's array is
  permuted after every \<open>lim\<close>-th access, so accesses \<open>i\<close> and \<open>j\<close>, of which the first comes \<open>n\<close> accesses
  after a permutation, have none between them when \<open>(n + i) div lim = (n + j) div lim\<close>. Afterwards
  the ORAM holds the same addresses and the sequence can go on.
\<close>

theorem sqrt_repeat_is_visible:
  assumes "sqrt_holds L k lim cw (m, p, n)" and "\<forall>r \<in> set rs. own_request m r"
  shows "\<exists>outs cw' cs m' p'. run_requests (Sqrt_Access L memory) buf rs cw = Inr (outs, cw')
    \<and> made cs (snd cw) (snd cw') \<and> length (written_tags cs) = length rs
    \<and> permutations cs = (n + length rs) div lim
    \<and> (\<forall>i < length rs. \<forall>j < length rs. (n + i) div lim = (n + j) div lim \<longrightarrow>
         (written_tags cs ! i = written_tags cs ! j \<longleftrightarrow> address_of (rs ! i) = address_of (rs ! j)))
    \<and> sqrt_holds L k lim cw' (m', p', (n + length rs) mod lim) \<and> dom m' = dom m"
proof -
  from sqrt_requests_tags [OF assms, of memory buf] obtain outs cw' cs m' p' pms where
    c: "run_requests (Sqrt_Access L memory) buf rs cw = Inr (outs, cw')" "made cs (snd cw) (snd cw')"
      "length (written_tags cs) = length rs" "permutations cs = (n + length rs) div lim"
      "sqrt_holds L k lim cw' (m', p', (n + length rs) mod lim)" "dom m' = dom m"
    and tags: "\<forall>i < length rs. pms ((n + i) div lim) (address_of (rs ! i)) = Some (written_tags cs ! i)"
    and free: "\<forall>q. collision_free m (pms q)" by blast
  have "written_tags cs ! i = written_tags cs ! j \<longleftrightarrow> address_of (rs ! i) = address_of (rs ! j)"
    if ij: "i < length rs" "j < length rs" and q: "(n + i) div lim = (n + j) div lim" for i j
  proof -
    have "m (address_of (rs ! i)) \<noteq> None" "m (address_of (rs ! j)) \<noteq> None"
      using assms(2) ij by (simp_all add: own_request_address)
    moreover from tags ij(1) have "pms ((n + j) div lim) (address_of (rs ! i)) = Some (written_tags cs ! i)"
      unfolding q [symmetric] by blast
    moreover from tags ij(2) have "pms ((n + j) div lim) (address_of (rs ! j)) = Some (written_tags cs ! j)" by blast
    moreover from free have "collision_free m (pms ((n + j) div lim))" by blast
    ultimately show ?thesis unfolding collision_free_def by blast
  qed
  with c show ?thesis by blast
qed

text \<open>Two blocks, four accesses and two permutations: the tags of a period repeat with the addresses.\<close>

theorem sqrt_repeat_is_visible_witness:
  "\<exists>cw outs cw' cs t. run_requests (Sqrt_Access toy_libs (toy_block 0 0 0)) (toy_block 0 0 0)
        [Write 0 (toy_block 0 1 20), Read 1, Read 1, Read 1] cw = Inr (outs, cw')
    \<and> made cs (snd cw) (snd cw') \<and> permutations cs = 2 \<and> t = written_tags cs \<and> length t = 4
    \<and> t ! 0 \<noteq> t ! 1 \<and> t ! 2 = t ! 3"
proof -
  let ?rs = "[Write 0 (toy_block 0 1 20), Read 1, Read 1, Read 1]"
  have four: "and (4 :: nat) 3 = 0" by code_simp
  from small_sqrt_set_up [of toy_libs "replicate 32 7" toy_host 2 toy_server 1 "\<lambda>_. toy_block 0 0 0"
      "[toy_block 1 1 11, toy_block 0 1 10]" toy_cryptor]
  obtain cw where h: "sqrt_holds toy_libs (replicate 32 7) 2 cw ([0 \<mapsto> replicate 512 10, 1 \<mapsto> replicate 512 11], None, 0)"
    by (auto simp: toy_sqrt_contents toy_sqrt_two four CreateVec_def simp del: sqrt_holds.simps)
  have "\<forall>r \<in> set ?rs. own_request [0 \<mapsto> replicate 512 10, 1 \<mapsto> replicate 512 11] r" by simp
  from sqrt_repeat_is_visible [OF h this, of "toy_block 0 0 0" "toy_block 0 0 0"] obtain outs cw' cs where
    r: "run_requests (Sqrt_Access toy_libs (toy_block 0 0 0)) (toy_block 0 0 0) ?rs cw = Inr (outs, cw')"
      "made cs (snd cw) (snd cw')" "length (written_tags cs) = 4" "permutations cs = 2"
    and e: "\<forall>i < 4. \<forall>j < 4. i div 2 = j div 2 \<longrightarrow>
      (written_tags cs ! i = written_tags cs ! j \<longleftrightarrow> address_of (?rs ! i) = address_of (?rs ! j))"
    by (auto simp del: run_requests.simps sqrt_holds.simps)
  have "written_tags cs ! 0 \<noteq> written_tags cs ! 1" "written_tags cs ! 2 = written_tags cs ! 3"
    using e [rule_format, of 0 1] e [rule_format, of 2 3] by simp_all
  with r show ?thesis by blast
qed

end
