(* ===== verification/Spec2Isabelle.thy ===== *)
theory Spec2Isabelle
  imports Base_Properties Server_Properties Path_Fill Linear_Oram Sqrt_Properties Partition_Properties Odict_Properties Client_Properties Sharing_Properties Trace_Properties Oram_Instance
begin

text \<open>
  A model of Oblivious-RAM, a C++ library of oblivious RAM controllers that keep encrypted blocks
  on a gRPC server, with the theorems on what it does.

  \<^bold>\<open>The program.\<close> A client program (client/oram\_client.cc, tests/oram\_test\_client.cc) reads a
  configuration (parse/oram\_parse.cc), makes one controller (core/) and calls its \<open>InitOram\<close>,
  \<open>FillWithData\<close> and \<open>Access\<close>. A controller encrypts and decrypts blocks with the process's \<open>Cryptor\<close>
  (base/oram\_crypto.cc, over libsodium) and reaches its storage through remote calls. The server
  (server/oram\_server.cc, server/main.cc) keeps a table of storages by identifier: a string for the
  linear ORAM, a tree of buckets of compressed blocks for the Path ORAM, two arrays and a shelter
  for the square root ORAM. The partition ORAM is a list of Path ORAMs with a slot of blocks each.
  The oblivious dictionary (core/odict\_controller.cc) keeps an AVL tree whose nodes are blocks of an
  ORAM, with a client cache.

  \<^bold>\<open>How the code is rendered.\<close> Every function of the C++ program is a HOL function of the same name
  (with the class in front where names clash) from its arguments and the state to the result and
  the state. A run that ends the process (failed assertion, \<open>exit\<close>, \<open>abort\<close>, uncaught exception),
  that C++ leaves undefined, or that does not come back is a value \<open>Inl\<close> of type \<open>exec\<close>
  (\<open>Oram_Prelude\<close>); what the code returns as an \<open>OramStatus\<close> is an \<open>oram_status\<close> (\<open>Oram_Status\<close>),
  with nested causes and messages, and a gRPC status a \<open>grpc_status\<close>. Integers of the code are words of their width where they can
  wrap or are sent, and natural numbers where they are sizes of containers. Blocks are records
  with the memory image that the wire and the cipher see (\<open>Oram_Block\<close>). The two processes are the
  record \<open>world\<close> (\<open>Oram_Controller\<close>): the client's random generator and cryptor (\<open>host\<close>), the server,
  which may be gone, and the ghost \<open>w_log\<close>, the calls made so far.

  \<^bold>\<open>The theories\<close>, with the source files they model.
  \<^item> \<open>Oram_Prelude\<close>, \<open>Oram_Status\<close> (base/oram\_status), \<open>Oram_Defs\<close> (base/oram\_defs.h, oram\_config.h,
    ods\_defs.h, core/oram.cc), \<open>Oram_Block\<close> (the block structures), \<open>Oram_Crypto\<close> (base/oram\_crypto),
    \<open>Oram_Utils\<close> (base/oram\_utils), \<open>Uniform_Sampling\<close> (counting for rejection sampling).
  \<^item> \<open>Flat_Storage\<close>, \<open>Sqrt_Storage\<close>, \<open>Tree_Storage\<close>, \<open>Oram_Server\<close> (server/), \<open>Server_Calls\<close> (the calls as
    data), \<open>Wire_Format\<close> (the sizes of their messages, protos/messages.pb.cc), \<open>Server_Invariant\<close> (the server as a state machine: \<open>server_reachable\<close>), \<open>Server_Main\<close>
    (server/main.cc and the runner).
  \<^item> \<open>Oram_Controller\<close> (core/oram\_controller): remote calls, the base class, and the locale \<open>block_ram\<close>,
    what a controller promises: a read of a stored address returns its data, a write of a
    writable block replaces it; every sequence of requests then runs as on a plain memory.
    \<open>Oram_Views\<close> says which memory a list of blocks stands for.
  \<^item> \<open>Linear_Oram\<close> (core/linear\_oram\_controller): operations, correctness, calls.
  \<^item> \<open>Path_Oram\<close> (core/path\_oram\_controller); \<open>Path_Bucket\<close> (one bucket over the wire), \<open>Path_Stash\<close>
    (blocks as multisets), \<open>Path_Oram_Correct\<close> (the invariant \<open>path_inv\<close>, hits and misses),
    \<open>Path_Fill\<close> (constructor to filled tree), \<open>Path_Frame\<close> (other storages are left alone; \<open>Linear_Frame\<close> for the linear ORAM),
    \<open>Path_Trace\<close> (the calls of accesses).
  \<^item> \<open>Sqrt_Oram\<close> (core/square\_root\_oram\_controller); \<open>Sqrt_Views\<close>, \<open>Sqrt_Oram_Correct\<close> with the locale
    \<open>forgetful_ram\<close>, \<open>Sqrt_Fill\<close>, \<open>Sqrt_Trace\<close>.
  \<^item> \<open>Partition_Oram\<close> (core/partition\_oram\_controller); \<open>Partition_Views\<close>, \<open>Partition_Access\<close>,
    \<open>Partition_Fill\<close>, \<open>Partition_Sequences\<close>.
  \<^item> \<open>Ods_Objects\<close> (base/ods\_objects), \<open>Ods_Cache\<close> (core/ods\_cache), \<open>Odict\<close> (core/odict\_controller) over any
    ORAM; \<open>Odict_Trees\<close> (the trees, an insertion and its cost), \<open>Odict_Views\<close> with the locale
    \<open>keeping_ram\<close>, \<open>Odict_Correct\<close>, \<open>Odict_Finalize\<close>, \<open>Odict_Padding\<close>, \<open>Odict_Dictionary\<close>, \<open>Odict_Map\<close>,
    \<open>Odict_Counts\<close> with the locale \<open>counting_ram\<close> (the number of accesses of a lookup).
  \<^item> \<open>Oram_Parse\<close> (parse/oram\_parse), \<open>Oram_Client\<close> (client/ and the test program), \<open>Client_Start\<close> and
    \<open>Client_Linear\<close> (the runs of the client program for the Path and the linear ORAM), \<open>Shared_Server\<close> with the locale
    \<open>shared_ram\<close> and \<open>Client_Sharing\<close> (several clients of one server).
  \<^item> \<open>Oram_Instance\<close>: concrete external functions and states for the witnesses. The properties are in
    the theories \<open>..._Properties\<close> and, for the linear and the Path ORAM, below.

  \<^bold>\<open>What the theorems show.\<close> The linear and the Path ORAM, from constructor to any sequence of
  accesses, are plain memories (\<open>linear\<close>, \<open>path\<close>, interpretations of \<open>block_ram\<close>). The square root ORAM is
  not: it forgets a write when another address is accessed before the next permutation
  (\<open>sqrt\<close>, an interpretation of \<open>forgetful_ram\<close>). The partition ORAM answers the first access of each
  address and then loses blocks, or aborts when it evicts. The dictionary is a map in which the
  first insertion of a key stays (\<open>path_odict\<close>, \<open>linear_odict\<close>, interpretations of \<open>keeping_ram\<close>), unless its
  padding value is too small for an insertion, which happens for small dictionaries and never from
  127 identifiers on. The calls of the controllers are the subject of
  \<open>Trace_Properties\<close>: those of a linear ORAM say nothing but their number, those of a Path ORAM go to
  fresh leaves but tell misses from hits, those of a square root ORAM tell repeated addresses; the number of calls of a
  dictionary lookup tells the depth of its key (\<open>path_counted\<close>, an interpretation of \<open>counting_ram\<close>). The server
  keeps its storages well formed and apart and rejects foreign requests. Encryption, compression,
  blocks and nodes round-trip, with the exceptions stated. Sampling is unbiased and returns.
  The parser computes the configuration of the last entries, and the two programs, started with
  the same configuration, work together to the end, where a linear ORAM reports reads of missing
  blocks as successes; a client of a partition ORAM fails when it is filled. Clients of different
  identifiers share a server as if each had its own (\<open>linear_shared\<close>, \<open>path_shared\<close>, \<open>clients_shared\<close>,
  interpretations of \<open>shared_ram\<close>), whatever the order of their turns, which are whole accesses; but
  configuration files give all clients the same identifier. The linear and the square root ORAM send
  their whole storage in one message. Past 7489 blocks or 7449 places that message is larger than
  gRPC accepts, and the ORAM cannot be filled; the theorems on them state both outcomes.

  \<^bold>\<open>Code outside src/\<close> is a parameter: libsodium, LZ4 and FF3 (record \<open>libs\<close>), yaml-cpp and
  std::filesystem (\<open>yaml\<close>, \<open>system\<close>), the command line parser of absl, and the ORAM of the dictionary
  (\<open>odict_env\<close>). What is assumed of them is named: \<open>sodium_ok\<close> (libsodium initialises, AES-GCM is
  available and decrypts what it encrypted, buffers have the length asked for), \<open>random_live\<close> (the
  generator does not stay large for ever, which the rejection loop needs to end), \<open>ff3_ok\<close> (FF3 keeps
  the length), \<open>kx_ok\<close> (the two ends of a key exchange derive the same keys), \<open>lz4_ok\<close> (LZ4 is
  lossless), \<open>storable\<close> and \<open>pads_ok\<close> (see below). The contents of uninitialised memory are
  parameters as well (arguments \<open>memory\<close>, the fields of \<open>memory\<close> and \<open>odict_env\<close>), so nothing is assumed of them
  beyond the sizes of arrays.

  \<^bold>\<open>What a run asks of its random numbers.\<close> \<open>DataDecompress\<close> allows for twice the compressed size only,
  so the server of a Path ORAM can expand a block only if LZ4 has not made it smaller than half.
  LZ4 and AES-GCM do not promise that: for every key there are blocks whose encryption compresses,
  though few. So it is a condition on one key and on the blocks at hand: \<open>storable L k b\<close> says that no
  encryption of \<open>b\<close> under the key \<open>k\<close> compresses that far, \<open>pads_ok L k\<close> says it of the random dummies, and
  that none of them has the type of a normal block. The theorems on the Path ORAM have these for
  the session key of the run, the blocks stored and the blocks written; those on the programs for
  the session key that the client draws and the blocks that it samples (\<open>incompressible_run\<close>). No
  theorem asks it of all blocks or all keys. \<open>toy_libs\<close> compresses nothing; \<open>zip_libs\<close> does compress
  (\<open>zip_not_storable\<close>), and is what the witnesses of the programs use.

  \<^bold>\<open>gRPC\<close> is code outside as well. A call (\<open>rpc\<close>) runs the handler, reports \<open>UNAVAILABLE\<close> when the server is
  gone or its process ends in the handler, and \<open>RESOURCE_EXHAUSTED\<close> when the request or the response is
  larger than 4 MiB, its documented default, which the program does not change. The sizes are those
  that the code generated by protoc computes. Whether a server can be started for an address, a key
  and a certificate is the parameter \<open>BuildAndStart\<close>; when it cannot, the runner dereferences a null
  pointer (\<open>server_main_not_started\<close>). That a client is connected to a server is the field \<open>w_srv\<close> of its
  world; the theorem on the two programs shows that the addresses match and that the client trusts
  the certificate the server was given.

  \<^bold>\<open>Loops and bounds.\<close> Loops over counters and lists are structural. The rejection loop \<open>draw_until\<close> is
  a partial function, and \<open>Never_Returns\<close> its missing result; it is shown to return. The recursions
  \<open>InternalFind\<close> and \<open>InternalInsert\<close> of the dictionary follow identifiers of nodes and have fuel; the theorems on
  the dictionary ask for as much fuel as there may be identifiers, and then it never runs out.
  \<open>ceil_LOG_BASE2\<close> gives what the quotient of two rounded logarithms in \<open>LOG_BASE\<close> gives up to \<open>2 ^ 32\<close>: the
  exact logarithm, rounded up, but one more at \<open>2 ^ 29\<close> and \<open>2 ^ 31\<close>, so a tree of \<open>2 ^ 29 - 1\<close> or
  \<open>2 ^ 31 - 1\<close> buckets has one level more than it needs. \<open>floor_log2\<close>, \<open>ceil_sqrt\<close> and the logarithm of the
  padding value are exact where the code computes in floating point; below \<open>2 ^ 32\<close> the two agree.
  Identifiers, leaves and counts stay below \<open>2 ^ 32\<close> under the premises of the theorems.

  \<^bold>\<open>Not modelled.\<close> Logging and printing (\<open>PrintStash\<close>, \<open>PrintOramTree\<close> of oram\_utils, \<open>operator<<\<close>), the reports of times,
  which no operation reads, the final division of \<open>ReportStorage\<close> in floating point,
  \<open>SafeFree\<close> and other memory management, threads, signals and sockets (the handshake of TLS, the monitor thread
  of the runner), and of the code that protoc generates all but the sizes of messages.
\<close>

section \<open>The Path ORAM\<close>

text \<open>
  C1. A Path ORAM that is constructed, initialised on a server where its identifier is free
  and filled with at most \<open>block_num\<close> blocks is a memory: every sequence of accesses to its
  addresses returns what the same sequence returns on a plain memory of the blocks' data, with
  status OK throughout. (The bucket size has to fit in the 8 bits the controller keeps of it.)
\<close>

theorem path_oram_is_memory:
  assumes "sodium_ok L" "lz4_ok L" "random_live L" "pads_ok L k"
    and "keyed k h" and "block_num \<noteq> 0" "bucket_size \<noteq> 0" "bucket_size < 256"
    and "storages s i = None" "i < kMaximumOramStorageNum"
    and "list_all (storable L k) ds" "distinct (normal_ids ds)" "length ds \<le> unat block_num"
    and "\<forall>r \<in> set rs. request_ok (storable L k) (blocks_map ds) r"
  shows "\<exists>c h0 w1 cw2 cw3.
    PathOramController L memory i block_num bucket_size True h = Inr (c, h0)
    \<and> Path_InitOram (c, \<lparr>w_host = h0, w_srv = Some s, w_log = []\<rparr>) = (OK, c, w1)
    \<and> Path_FillWithData L ds (c, w1) = Inr (OK, cw2)
    \<and> run_requests (Path_Access L) buf rs cw2 = Inr (fst (memory_run rs (blocks_map ds)), cw3)"
proof -
  from path_memory_set_up [OF assms(1-13), of memory] obtain c h0 w1 c2 w2 where
    c: "PathOramController L memory i block_num bucket_size True h = Inr (c, h0)"
      "Path_InitOram (c, \<lparr>w_host = h0, w_srv = Some s, w_log = []\<rparr>) = (OK, c, w1)"
      "Path_FillWithData L ds (c, w1) = Inr (OK, c2, w2)" "path_serves L k (c2, w2) (blocks_map ds)" by blast
  from path.run_requests_memory [OF c(4) assms(14)] c(1-3) show ?thesis by blast
qed

theorem path_oram_is_memory_witness:
  "\<exists>c h0 w1 cw2 cw3.
    PathOramController toy_libs toy_cryptor 1 3 2 True toy_host = Inr (c, h0)
    \<and> Path_InitOram (c, \<lparr>w_host = h0, w_srv = Some toy_server, w_log = []\<rparr>) = (OK, c, w1)
    \<and> Path_FillWithData toy_libs [toy_block 5 1 10, toy_block 6 1 11] (c, w1) = Inr (OK, cw2)
    \<and> run_requests (Path_Access toy_libs) (toy_block 0 0 0)
        [Read 5, Write 6 (toy_block 6 1 12), Read 6] cw2
      = Inr ([(OK, replicate 512 10), (OK, []), (OK, replicate 512 12)], cw3)"
proof -
  let ?ds = "[toy_block 5 1 10, toy_block 6 1 11]"
  let ?rs = "[Read 5, Write 6 (toy_block 6 1 12), Read 6]"
  have ok: "\<forall>r \<in> set ?rs. request_ok (storable toy_libs (replicate 32 7)) (blocks_map ?ds) r"
    by (simp add: toy_contents)
  have out: "fst (memory_run ?rs (blocks_map ?ds))
      = [(OK, replicate 512 10), (OK, []), (OK, replicate 512 12)]"
    by (simp add: toy_contents)
  show ?thesis
    using path_oram_is_memory [of toy_libs "replicate 32 7" toy_host 3 2 toy_server 1 ?ds ?rs
        toy_cryptor "toy_block 0 0 0"] toy_two_ids ok
    unfolding out by simp
qed

text \<open>
  C23. With \<open>standalone\<close> false (the Path ORAM of a slot of the partition ORAM) a read removes what
  it returns: the first read of a stored address gives its data, a second one reports
  \<open>kObjectNotFound\<close> and leaves the caller's block alone, and every other address still holds its
  data.
\<close>

theorem path_read_and_remove:
  assumes "sodium_ok L" "lz4_ok L" "random_live L" "pads_ok L k"
    and "keyed k h" and "block_num \<noteq> 0" "bucket_size \<noteq> 0" "bucket_size < 256"
    and "storages s i = None" "i < kMaximumOramStorageNum"
    and "list_all (storable L k) ds" "distinct (normal_ids ds)" "length ds \<le> unat block_num"
    and "blocks_map ds a = Some d" "blocks_map ds b = Some e" "a \<noteq> b"
  shows "\<exists>c h0 w1 cw2 o1 cw3 s4 cw4 o5 cw5.
    PathOramController L memory i block_num bucket_size False h = Inr (c, h0)
    \<and> Path_InitOram (c, \<lparr>w_host = h0, w_srv = Some s, w_log = []\<rparr>) = (OK, c, w1)
    \<and> Path_FillWithData L ds (c, w1) = Inr (OK, cw2)
    \<and> Path_Access L Operation_kRead a x cw2 = Inr ((OK, o1), cw3) \<and> data o1 = d
    \<and> Path_Access L Operation_kRead a y cw3 = Inr ((s4, y), cw4) \<and> error_code s4 = kObjectNotFound
    \<and> Path_Access L Operation_kRead b z cw4 = Inr ((OK, o5), cw5) \<and> data o5 = e"
proof -
  from path_oram_set_up [OF assms(1-7,9-12), of memory False] assms(8) obtain c h0 w1 c2 w2 where
    c: "PathOramController L memory i block_num bucket_size False h = Inr (c, h0)"
      "Path_InitOram (c, \<lparr>w_host = h0, w_srv = Some s, w_log = []\<rparr>) = (OK, c, w1)"
      "Path_FillWithData L ds (c, w1) = Inr (OK, c2, w2)"
      "path_holds L k (c2, w2) (blocks_map (take (tree_capacity c) ds))" "\<not> oc_standalone c2"
      "unat block_num \<le> tree_capacity c" by blast
  with assms(13) have h2: "path_holds L k (c2, w2) (blocks_map ds)" by simp
  from path_read_remove [OF h2 assms(14) c(5), of x] obtain o1 c3 w3 where
    r3: "Path_Access L Operation_kRead a x (c2, w2) = Inr ((OK, o1), c3, w3)" "data o1 = d"
      "path_holds L k (c3, w3) ((blocks_map ds)(a := None))" "\<not> oc_standalone c3" by blast
  from path_miss [OF r3(3), of a Operation_kRead y] r3(4) obtain s4 c4 w4 where
    r4: "Path_Access L Operation_kRead a y (c3, w3) = Inr ((s4, y), c4, w4)"
      "error_code s4 = kObjectNotFound" "path_holds L k (c4, w4) ((blocks_map ds)(a := None))"
      "\<not> oc_standalone c4" by auto
  from path_read_remove [OF r4(3) _ r4(4), of b e z] assms(15,16) obtain o5 c5 w5 where
    "Path_Access L Operation_kRead b z (c4, w4) = Inr ((OK, o5), c5, w5)" "data o5 = e" by auto
  with c(1-3) r3(1,2) r4(1,2) show ?thesis by blast
qed

theorem path_read_and_remove_witness:
  "\<exists>c h0 w1 cw2 o1 cw3 s4 cw4 o5 cw5.
    PathOramController toy_libs toy_cryptor 1 3 2 False toy_host = Inr (c, h0)
    \<and> Path_InitOram (c, \<lparr>w_host = h0, w_srv = Some toy_server, w_log = []\<rparr>) = (OK, c, w1)
    \<and> Path_FillWithData toy_libs [toy_block 5 1 10, toy_block 6 1 11] (c, w1) = Inr (OK, cw2)
    \<and> Path_Access toy_libs Operation_kRead 5 (toy_block 0 0 0) cw2 = Inr ((OK, o1), cw3)
    \<and> data o1 = replicate 512 10
    \<and> Path_Access toy_libs Operation_kRead 5 (toy_block 0 0 0) cw3 = Inr ((s4, toy_block 0 0 0), cw4)
    \<and> error_code s4 = kObjectNotFound
    \<and> Path_Access toy_libs Operation_kRead 6 (toy_block 0 0 0) cw4 = Inr ((OK, o5), cw5)
    \<and> data o5 = replicate 512 11"
  by (rule path_read_and_remove [where k = "replicate 32 7"])
    (simp_all add: toy_contents toy_two_ids)

text \<open>
  C5. The stash of a Path ORAM stays bounded: whatever the accesses, the client never stores more blocks
  in it than the ORAM was filled with.
\<close>

theorem path_stash_bounded:
  assumes "sodium_ok L" "lz4_ok L" "random_live L" "pads_ok L k"
    and "keyed k h" and "block_num \<noteq> 0" "bucket_size \<noteq> 0" "bucket_size < 256"
    and "storages s i = None" "i < kMaximumOramStorageNum"
    and "list_all (storable L k) ds" "distinct (normal_ids ds)" "length ds \<le> unat block_num"
    and "\<forall>r \<in> set rs. request_ok (storable L k) (blocks_map ds) r"
  shows "\<exists>c h0 w1 cw2 outs cw3.
    PathOramController L memory i block_num bucket_size True h = Inr (c, h0)
    \<and> Path_InitOram (c, \<lparr>w_host = h0, w_srv = Some s, w_log = []\<rparr>) = (OK, c, w1)
    \<and> Path_FillWithData L ds (c, w1) = Inr (OK, cw2)
    \<and> run_requests (Path_Access L) buf rs cw2 = Inr (outs, cw3)
    \<and> ReportClientStorage (fst cw3) \<le> length (normal_ids ds) * ORAM_BLOCK_SIZE"
proof -
  from path_memory_set_up [OF assms(1-13), of memory] obtain c h0 w1 c2 w2 where
    c: "PathOramController L memory i block_num bucket_size True h = Inr (c, h0)"
      "Path_InitOram (c, \<lparr>w_host = h0, w_srv = Some s, w_log = []\<rparr>) = (OK, c, w1)"
      "Path_FillWithData L ds (c, w1) = Inr (OK, c2, w2)" "path_serves L k (c2, w2) (blocks_map ds)" by blast
  from path.run_requests_memory [OF c(4) assms(14), of buf] obtain c3 w3 where
    r: "run_requests (Path_Access L) buf rs (c2, w2) = Inr (fst (memory_run rs (blocks_map ds)), c3, w3)"
      "path_serves L k (c3, w3) (snd (memory_run rs (blocks_map ds)))" by auto
  from r(2) have "length (po_stash c3) \<le> card (dom (snd (memory_run rs (blocks_map ds))))"
    using stash_bounded [of L k c3 w3] by (simp add: path_serves_def)
  also have "\<dots> = card (set (normal_ids ds))"
    by (simp only: memory_run_dom [OF assms(14)] dom_blocks_map)
  also have "\<dots> = length (normal_ids ds)" by (simp add: distinct_card assms(12))
  finally show ?thesis using c(1-3) r(1) by (fastforce simp: ReportClientStorage_def)
qed

theorem path_stash_bounded_witness:
  "\<exists>c h0 w1 cw2 outs cw3. PathOramController toy_libs toy_cryptor 1 3 2 True toy_host = Inr (c, h0)
    \<and> Path_InitOram (c, \<lparr>w_host = h0, w_srv = Some toy_server, w_log = []\<rparr>) = (OK, c, w1)
    \<and> Path_FillWithData toy_libs [toy_block 5 1 10, toy_block 6 1 11] (c, w1) = Inr (OK, cw2)
    \<and> run_requests (Path_Access toy_libs) (toy_block 0 0 0) [Read 5, Write 6 (toy_block 6 1 12)] cw2 = Inr (outs, cw3)
    \<and> ReportClientStorage (fst cw3) \<le> 1120"
proof -
  have ids: "length (normal_ids [toy_block 5 1 10, toy_block 6 1 11]) * ORAM_BLOCK_SIZE = 1120"
    by (simp add: normal_ids_def BlockType_kNormal_def ORAM_BLOCK_SIZE_def)
  show ?thesis
    unfolding ids [symmetric]
    by (rule path_stash_bounded [where k = "replicate 32 7" and i = 1]) (simp_all add: toy_contents)
qed

text \<open>
  C4. An access to a Path ORAM that holds \<open>m\<close>, of any kind and to any address, returns (it does not
  crash and does not loop), and leaves a Path ORAM that holds \<open>m\<close> again, with the address
  overwritten or removed at most: no other block is ever lost, also when the address is unknown.
\<close>

theorem path_access_total:
  assumes "path_holds L k (c, w) m" "op = Operation_kRead \<or> op = Operation_kWrite" "storable L k x"
  shows "\<exists>s out c' w' m'. Path_Access L op a x (c, w) = Inr ((s, out), c', w')
    \<and> path_holds L k (c', w') m' \<and> (\<forall>b. b \<noteq> a \<longrightarrow> m' b = m b)
    \<and> error_code s = (if m a = None then kObjectNotFound else kOK)
    \<and> (m a = None \<longrightarrow> m' = m)"
proof (cases "m a")
  case None
  from path_miss [OF assms(1) None, of op x] assms(2) None show ?thesis by fastforce
next
  case (Some d)
  show ?thesis
  proof (cases "op = Operation_kWrite")
    case True
    from path_write [OF assms(1) Some assms(3)] True Some show ?thesis by fastforce
  next
    case False
    with assms(2) have op: "op = Operation_kRead" by simp
    show ?thesis
    proof (cases "oc_standalone c")
      case True
      from path_read_keep [OF assms(1) Some True, of x] op Some show ?thesis by fastforce
    next
      case False
      from path_read_remove [OF assms(1) Some False, of x] op Some show ?thesis by fastforce
    qed
  qed
qed

theorem path_access_total_witness:
  "\<exists>c w s out c' w' m'. path_holds toy_libs (replicate 32 7) (c, w)
        [5 \<mapsto> replicate 512 10, 6 \<mapsto> replicate 512 11]
    \<and> Path_Access toy_libs Operation_kWrite 9 (toy_block 9 1 3) (c, w) = Inr ((s, out), c', w')
    \<and> error_code s = kObjectNotFound
    \<and> path_holds toy_libs (replicate 32 7) (c', w') [5 \<mapsto> replicate 512 10, 6 \<mapsto> replicate 512 11]"
proof -
  from toy_path_oram obtain c w where h: "path_holds toy_libs (replicate 32 7) (c, w)
      [5 \<mapsto> replicate 512 10, 6 \<mapsto> replicate 512 11]" by blast
  have "([5 \<mapsto> replicate 512 10, 6 \<mapsto> replicate 512 11] :: u32 \<rightharpoonup> bytes) 9 = None" by simp
  with path_access_total [OF h, of Operation_kWrite "toy_block 9 1 3" 9] h show ?thesis
    by fastforce
qed

text \<open>
  C24. \<open>FillWithData\<close> keeps as many entries as the tree has places and drops the rest without an
  error: the ORAM then holds exactly the blocks of that prefix, so a block past it, whose
  filling was acknowledged with status OK, cannot be found.
\<close>

theorem path_fill_drops_the_rest:
  assumes "sodium_ok L" "lz4_ok L" "random_live L" "pads_ok L k"
    and "keyed k h" and "block_num \<noteq> 0" "bucket_size \<noteq> 0"
    and "storages s i = None" "i < kMaximumOramStorageNum"
    and "list_all (storable L k) ds" "distinct (normal_ids ds)"
  shows "\<exists>c h0 w1 cw2. PathOramController L memory i block_num bucket_size True h = Inr (c, h0)
    \<and> Path_InitOram (c, \<lparr>w_host = h0, w_srv = Some s, w_log = []\<rparr>) = (OK, c, w1)
    \<and> Path_FillWithData L ds (c, w1) = Inr (OK, cw2)
    \<and> (\<forall>b \<in> set (take (tree_capacity c) ds). is_normal b \<longrightarrow> (\<exists>out cw3.
         Path_Access L Operation_kRead (block_id (header b)) x cw2 = Inr ((OK, out), cw3)
         \<and> data out = data b))
    \<and> (\<forall>b \<in> set (drop (tree_capacity c) ds). is_normal b \<longrightarrow> (\<exists>st cw3.
         Path_Access L Operation_kRead (block_id (header b)) x cw2 = Inr ((st, x), cw3)
         \<and> error_code st = kObjectNotFound))"
proof -
  from path_oram_set_up [OF assms, of memory True] obtain c h0 w1 c2 w2 where
    c: "PathOramController L memory i block_num bucket_size True h = Inr (c, h0)"
      "Path_InitOram (c, \<lparr>w_host = h0, w_srv = Some s, w_log = []\<rparr>) = (OK, c, w1)"
      "Path_FillWithData L ds (c, w1) = Inr (OK, c2, w2)"
      "path_holds L k (c2, w2) (blocks_map (take (tree_capacity c) ds))" "oc_standalone c2" by blast
  let ?n = "tree_capacity c"
  have split: "normal_ids ds = normal_ids (take ?n ds) @ normal_ids (drop ?n ds)"
    by (metis append_take_drop_id normal_ids_simps(3))
  with assms(11) have dist: "distinct (normal_ids (take ?n ds))"
    "set (normal_ids (take ?n ds)) \<inter> set (normal_ids (drop ?n ds)) = {}" by simp_all
  have "\<exists>out cw3. Path_Access L Operation_kRead (block_id (header b)) x (c2, w2) = Inr ((OK, out), cw3)
      \<and> data out = data b" if "b \<in> set (take ?n ds)" "is_normal b" for b
  proof -
    have "payload b \<in># goods (take ?n ds)" using that by (auto simp: in_goods)
    then have "blocks_map (take ?n ds) (block_id (header b)) = Some (data b)"
      unfolding blocks_map_goods [OF dist(1)] by force
    from path_read_keep [OF c(4) this c(5), of x] show ?thesis by blast
  qed
  moreover have "\<exists>st cw3. Path_Access L Operation_kRead (block_id (header b)) x (c2, w2)
      = Inr ((st, x), cw3) \<and> error_code st = kObjectNotFound"
    if "b \<in> set (drop ?n ds)" "is_normal b" for b
  proof -
    have "block_id (header b) \<in> set (normal_ids (drop ?n ds))"
      using that by (auto simp: in_normal_ids)
    then have "blocks_map (take ?n ds) (block_id (header b)) = None"
      using dist(2) by (auto simp: blocks_map_None)
    from path_miss [OF c(4) this, of Operation_kRead x] show ?thesis by auto
  qed
  ultimately show ?thesis using c(1-3) by blast
qed

theorem path_fill_drops_the_rest_witness:
  "\<exists>c h0 w1 cw2 st cw3. PathOramController toy_libs toy_cryptor 1 1 1 True toy_host = Inr (c, h0)
    \<and> Path_InitOram (c, \<lparr>w_host = h0, w_srv = Some toy_server, w_log = []\<rparr>) = (OK, c, w1)
    \<and> Path_FillWithData toy_libs [toy_block 5 1 10, toy_block 6 1 11] (c, w1) = Inr (OK, cw2)
    \<and> Path_Access toy_libs Operation_kRead 6 (toy_block 0 0 0) cw2 = Inr ((st, toy_block 0 0 0), cw3)
    \<and> error_code st = kObjectNotFound"
proof -
  let ?ds = "[toy_block 5 1 10, toy_block 6 1 11]"
  have two: "ceil_LOG_BASE2 2 = 1" by code_simp
  have cap: "tree_capacity c = 1"
    if "PathOramController toy_libs toy_cryptor 1 1 1 True toy_host = Inr (c, h0)" for c h0
  proof -
    from PathOramController_shape [of toy_libs "replicate 32 7" toy_host 1 1 toy_cryptor 1 True] that
    have "po_tree_level c + 1 = ceil_LOG_BASE2 2" "po_bucket_size c = ucast (1 :: u32)"
      by (auto simp: numeral_2_eq_2)
    then show ?thesis using two by (simp add: tree_capacity_def)
  qed
  from path_fill_drops_the_rest [of toy_libs "replicate 32 7" toy_host 1 1 toy_server 1 ?ds toy_cryptor
      "toy_block 0 0 0"] obtain c h0 w1 cw2 where
    c: "PathOramController toy_libs toy_cryptor 1 1 1 True toy_host = Inr (c, h0)"
      "Path_InitOram (c, \<lparr>w_host = h0, w_srv = Some toy_server, w_log = []\<rparr>) = (OK, c, w1)"
      "Path_FillWithData toy_libs ?ds (c, w1) = Inr (OK, cw2)"
      "\<forall>b \<in> set (drop (tree_capacity c) ?ds). is_normal b \<longrightarrow> (\<exists>st cw3.
         Path_Access toy_libs Operation_kRead (block_id (header b)) (toy_block 0 0 0) cw2
           = Inr ((st, toy_block 0 0 0), cw3) \<and> error_code st = kObjectNotFound)"
    by (auto simp: toy_two_ids)
  have "toy_block 6 1 11 \<in> set (drop (tree_capacity c) ?ds)" "is_normal (toy_block 6 1 11)"
    by (simp_all add: cap [OF c(1)] is_normal_def BlockType_kNormal_def)
  with c(4) obtain st cw3 where "Path_Access toy_libs Operation_kRead
      (block_id (header (toy_block 6 1 11))) (toy_block 0 0 0) cw2 = Inr ((st, toy_block 0 0 0), cw3)"
      "error_code st = kObjectNotFound" by blast
  then have "Path_Access toy_libs Operation_kRead 6 (toy_block 0 0 0) cw2 = Inr ((st, toy_block 0 0 0), cw3)"
    by (simp only: toy_block_fields)
  with c(1-3) \<open>error_code st = kObjectNotFound\<close> show ?thesis by blast
qed

section \<open>The linear ORAM\<close>

text \<open>
  C6. A linear ORAM that is constructed, initialised on a server where its identifier is free
  and filled with blocks of distinct identifiers is a memory: every sequence of accesses to its
  addresses returns what the same sequence returns on a plain memory, with status OK throughout.
  This holds for up to 7489 blocks. With more, the message that uploads the storage exceeds what
  gRPC's server receives, and filling the ORAM fails with \<open>kServerError\<close>.
\<close>

theorem linear_oram_is_memory:
  assumes "sodium_ok L" and "keyed k h"
    and "storages s i = None" "i < kMaximumOramStorageNum"
    and "list_all wf_block ds" "distinct (normal_ids ds)"
    and "\<forall>r \<in> set rs. request_ok wf_block (blocks_map ds) r"
  shows "\<exists>c h0 w1. LinearOramController L memory i True block_num h = Inr (c, h0)
    \<and> Linear_InitOram (c, \<lparr>w_host = h0, w_srv = Some s, w_log = []\<rparr>) = (OK, c, w1)
    \<and> (if length ds \<le> 7489
       then \<exists>cw2 cw3. Linear_FillWithData L ds (c, w1) = Inr (OK, cw2)
         \<and> run_requests (Linear_Access L) buf rs cw2 = Inr (fst (memory_run rs (blocks_map ds)), cw3)
       else \<exists>st cw2. Linear_FillWithData L ds (c, w1) = Inr (st, cw2) \<and> error_code st = kServerError)"
proof -
  from linear_oram_set_up [OF assms(1-5), of memory block_num] obtain c h0 w1 where
    c: "LinearOramController L memory i True block_num h = Inr (c, h0)"
      "Linear_InitOram (c, \<lparr>w_host = h0, w_srv = Some s, w_log = []\<rparr>) = (OK, c, w1)"
    and f: "if length ds \<le> 7489 then \<exists>cw2. Linear_FillWithData L ds (c, w1) = Inr (OK, cw2) \<and> linear_view L k cw2 ds
       else \<exists>st cw2. Linear_FillWithData L ds (c, w1) = Inr (st, cw2) \<and> error_code st = kServerError" by blast
  show ?thesis
  proof (cases "length ds \<le> 7489")
    case True
    with f obtain cw2 where u: "Linear_FillWithData L ds (c, w1) = Inr (OK, cw2)" "linear_view L k cw2 ds" by auto
    then have "linear_holds L cw2 (blocks_map ds)" using assms(1,6) by (auto simp: linear_holds_def)
    from linear.run_requests_memory [OF this assms(7)] c u(1) show ?thesis unfolding if_P [OF True] by blast
  next
    case False
    with f c show ?thesis unfolding if_not_P [OF False] by blast
  qed
qed

theorem linear_oram_is_memory_witness:
  "\<exists>c h0 w1 cw2 cw3. LinearOramController toy_libs toy_cryptor 1 True 2 toy_host = Inr (c, h0)
    \<and> Linear_InitOram (c, \<lparr>w_host = h0, w_srv = Some toy_server, w_log = []\<rparr>) = (OK, c, w1)
    \<and> Linear_FillWithData toy_libs [toy_block 5 1 10, toy_block 6 1 11] (c, w1) = Inr (OK, cw2)
    \<and> run_requests (Linear_Access toy_libs) (toy_block 0 0 0)
        [Write 5 (toy_block 5 1 12), Read 6, Read 5] cw2
      = Inr ([(OK, []), (OK, replicate 512 11), (OK, replicate 512 12)], cw3)"
proof -
  let ?ds = "[toy_block 5 1 10, toy_block 6 1 11]"
  let ?rs = "[Write 5 (toy_block 5 1 12), Read 6, Read 5]"
  have ok: "\<forall>r \<in> set ?rs. request_ok wf_block (blocks_map ?ds) r" by (simp add: toy_contents)
  have out: "fst (memory_run ?rs (blocks_map ?ds))
      = [(OK, []), (OK, replicate 512 11), (OK, replicate 512 12)]"
    by (simp add: toy_contents)
  show ?thesis
    using linear_oram_is_memory [of toy_libs "replicate 32 7" toy_host toy_server 1 ?ds ?rs
        toy_cryptor 2 "toy_block 0 0 0"] toy_two_ids ok
    unfolding out by simp
qed

end
